(* ===== verification/Prelude.thy ===== *)
theory Prelude
  imports Main "HOL-Library.Word" "HOL-Library.Monad_Syntax"
begin

text \<open>
  Shared vocabulary of the development.

  \<^item> Machine types: \<open>byte\<close>, \<open>u16\<close>, \<open>u32\<close>, \<open>u64\<close> are fixed-width words; a block of memory
    or the contents of a file is a list of bytes, and a pointer into it is an offset.
  \<^item> A read or write outside a block is undefined behaviour in the source. \<open>load\<close> and
    \<open>store\<close> return \<^const>\<open>None\<close> there, so a function built on them returns \<^const>\<open>Some\<close>
    exactly when it stays inside its buffers.
  \<^item> Integers are stored little-endian, as on the x86-64 hosts the program runs on.
  \<^item> \<open>error_t\<close> holds the members of mxlib's \<open>mx::error_t\<close> that the modelled code names.
  \<^item> String operations of the C and C++ library that the source uses: \<open>std::string::rfind\<close>,
    \<open>substr\<close>, \<open>operator[]\<close> with the terminating NUL, \<open>isspace\<close>, \<open>isdigit\<close>, \<open>toupper\<close>,
    \<open>atoi\<close>, zero-padded decimal formatting.
\<close>

named_theorems rd_simps \<open>reads of bytes that were just written\<close>
named_theorems wf_intros \<open>preservation of well-formedness\<close>

type_synonym byte = "8 word"
type_synonym bytes = "8 word list"
type_synonym u16 = "16 word"
type_synonym u32 = "32 word"
type_synonym u64 = "64 word"

datatype error_t =
    noerror
  | error
  | invalidarg
  | invalidconfig
  | erange
  | eexist
  | eoverflow
  | sizeerr
  | dirnotfound
  | notimpl
  | std_out_of_range
  | std_exception
  | std_filesystem_error
  | othererr nat

section \<open>Bytes in memory\<close>

definition load :: "bytes \<Rightarrow> nat \<Rightarrow> nat \<Rightarrow> bytes option" where
  "load b p n = (if p + n \<le> length b then Some (take n (drop p b)) else None)"

definition store :: "bytes \<Rightarrow> nat \<Rightarrow> bytes \<Rightarrow> bytes option" where
  "store b p xs =
     (if p + length xs \<le> length b then Some (take p b @ xs @ drop (p + length xs) b) else None)"

fun le_bytes :: "nat \<Rightarrow> nat \<Rightarrow> bytes" where
  "le_bytes 0 v = []"
| "le_bytes (Suc n) v = word_of_nat v # le_bytes n (v div 256)"

fun le_nat :: "bytes \<Rightarrow> nat" where
  "le_nat [] = 0"
| "le_nat (b # bs) = unat b + 256 * le_nat bs"

definition enc_w :: "'a::len word \<Rightarrow> bytes" where
  "enc_w w = le_bytes (LENGTH('a) div 8) (unat w)"

definition dec_w :: "bytes \<Rightarrow> 'a::len word" where
  "dec_w bs = word_of_nat (le_nat bs)"

definition rd8 :: "bytes \<Rightarrow> nat \<Rightarrow> byte option" where
  "rd8 b p = map_option dec_w (load b p 1)"

definition rd16 :: "bytes \<Rightarrow> nat \<Rightarrow> u16 option" where
  "rd16 b p = map_option dec_w (load b p 2)"

definition rd32 :: "bytes \<Rightarrow> nat \<Rightarrow> u32 option" where
  "rd32 b p = map_option dec_w (load b p 4)"

definition rd64 :: "bytes \<Rightarrow> nat \<Rightarrow> u64 option" where
  "rd64 b p = map_option dec_w (load b p 8)"

lemma length_le_bytes [simp]: "length (le_bytes n v) = n"
  by (induction n arbitrary: v) auto

lemma le_nat_le_bytes: "v < 256 ^ n \<Longrightarrow> le_nat (le_bytes n v) = v"
proof (induction n arbitrary: v)
  case (Suc n)
  have "v div 256 < 256 ^ n"
    using Suc.prems by (simp add: less_mult_imp_div_less mult.commute)
  then have "le_nat (le_bytes n (v div 256)) = v div 256"
    by (rule Suc.IH)
  then show ?case
    by (simp add: unat_of_nat)
qed simp

lemma le_nat_bound: "le_nat bs < 256 ^ length bs"
proof (induction bs)
  case (Cons b bs)
  have "unat b < 256"
    using unsigned_less [of b, where ?'a = nat] by simp
  with Cons show ?case by simp
qed simp

lemma le_bytes_le_nat: "le_bytes (length bs) (le_nat bs) = bs"
proof (induction bs)
  case (Cons b bs)
  have b: "unat b < 256"
    using unsigned_less [of b, where ?'a = nat] by simp
  have "unat (word_of_nat (unat b + 256 * le_nat bs) :: byte) = (unat b + 256 * le_nat bs) mod 2 ^ 8"
    by (subst unat_of_nat) simp
  then have "(word_of_nat (unat b + 256 * le_nat bs) :: byte) = b"
    using b by (simp only: word_unat_eq_iff) simp
  moreover have "(unat b + 256 * le_nat bs) div 256 = le_nat bs"
    using b by simp
  ultimately show ?case
    using Cons by simp
qed simp

text \<open>
  The contract of a fixed-width field: what its encoding and decoding promise to the code
  that reads and writes headers.
\<close>

locale field_codec =
  fixes width :: nat
    and enc :: "'v \<Rightarrow> bytes"
    and dec :: "bytes \<Rightarrow> 'v"
  assumes length_enc: "length (enc v) = width"
    and dec_enc: "dec (enc v) = v"
    and enc_dec: "length bs = width \<Longrightarrow> enc (dec bs) = bs"
begin

lemma load_store_same:
  "store b p (enc v) = Some b' \<Longrightarrow> map_option dec (load b' p width) = Some v"
  by (auto simp: store_def load_def length_enc dec_enc split: if_splits)

lemma load_append_enc:
  "length xs = p \<Longrightarrow> map_option dec (load (xs @ enc v @ ys) p width) = Some v"
  by (auto simp: load_def length_enc dec_enc)

lemma enc_inj: "enc v = enc w \<Longrightarrow> v = w"
  by (metis dec_enc)

lemma store_inside:
  "p + width \<le> length b \<Longrightarrow> \<exists>b'. store b p (enc v) = Some b' \<and> length b' = length b"
  by (auto simp: store_def length_enc)

end

lemma field_codec_word:
  assumes "8 dvd LENGTH('a::len)"
  shows "field_codec (LENGTH('a) div 8) (enc_w :: 'a word \<Rightarrow> bytes) dec_w"
proof
  have len: "(256::nat) ^ (LENGTH('a) div 8) = 2 ^ LENGTH('a)"
  proof -
    obtain k where "LENGTH('a) = 8 * k" using assms by (auto elim: dvdE)
    then show ?thesis by (simp add: power_mult)
  qed
  show "length (enc_w v) = LENGTH('a) div 8" for v :: "'a word"
    by (simp add: enc_w_def)
  show "dec_w (enc_w v) = v" for v :: "'a word"
    by (simp add: enc_w_def dec_w_def le_nat_le_bytes len unsigned_less)
  show "enc_w (dec_w bs :: 'a word) = bs" if "length bs = LENGTH('a) div 8" for bs
    using that le_nat_bound [of bs] le_bytes_le_nat [of bs]
    by (simp add: enc_w_def dec_w_def unat_of_nat len take_bit_nat_eq_self)
qed

interpretation f8: field_codec 1 "enc_w :: byte \<Rightarrow> bytes" dec_w
  using field_codec_word [where 'a = 8] by simp

interpretation f16: field_codec 2 "enc_w :: u16 \<Rightarrow> bytes" dec_w
  using field_codec_word [where 'a = 16] by simp

interpretation f32: field_codec 4 "enc_w :: u32 \<Rightarrow> bytes" dec_w
  using field_codec_word [where 'a = 32] by simp

interpretation f64: field_codec 8 "enc_w :: u64 \<Rightarrow> bytes" dec_w
  using field_codec_word [where 'a = 64] by simp

lemmas length_enc_w [simp] =
  f8.length_enc f16.length_enc f32.length_enc f64.length_enc

lemma rd_append [rd_simps]:
  "length xs = p \<Longrightarrow> rd8 (xs @ enc_w v8 @ ys) p = Some v8"
  "length xs = p \<Longrightarrow> rd16 (xs @ enc_w v16 @ ys) p = Some v16"
  "length xs = p \<Longrightarrow> rd32 (xs @ enc_w v32 @ ys) p = Some v32"
  "length xs = p \<Longrightarrow> rd64 (xs @ enc_w v64 @ ys) p = Some v64"
  unfolding rd8_def rd16_def rd32_def rd64_def
  by (fact f8.load_append_enc f16.load_append_enc f32.load_append_enc f64.load_append_enc)+

lemma rd_None_iff:
  "rd8 b p = None \<longleftrightarrow> length b < p + 1"
  "rd16 b p = None \<longleftrightarrow> length b < p + 2"
  "rd32 b p = None \<longleftrightarrow> length b < p + 4"
  "rd64 b p = None \<longleftrightarrow> length b < p + 8"
  by (auto simp: rd8_def rd16_def rd32_def rd64_def load_def)

lemma load_append_right [rd_simps]:
  "length xs = p \<Longrightarrow> load (xs @ ys @ zs) p (length ys) = Some ys"
  by (simp add: load_def)

lemma load_prefix:
  "p + n \<le> length b \<Longrightarrow> load (b @ ys) p n = load b p n"
  by (simp add: load_def)

lemma load_shift: "load (xs @ b) (length xs + p) n = load b p n"
  by (simp add: load_def)

lemma store_append:
  "length xs = p \<Longrightarrow> length zs = length ys \<Longrightarrow> store (xs @ ys @ ws) p zs = Some (xs @ zs @ ws)"
  by (simp add: store_def)

lemma store_length: "store b p xs = Some b' \<Longrightarrow> length b' = length b"
  by (auto simp: store_def split: if_splits)

lemma unat_ucast_32_64: "unat (ucast w :: u64) = unat (w :: u32)"
proof -
  have "unat w < 2 ^ 64"
    using unsigned_less [of w, where ?'a = nat] by simp
  then show ?thesis
    by (simp add: unsigned_ucast_eq take_bit_nat_eq_self)
qed

section \<open>Strings\<close>

text \<open>\<open>s[n]\<close> of a \<open>std::string\<close>: at \<open>n = size()\<close> it is the terminating NUL.\<close>

definition str_at :: "string \<Rightarrow> nat \<Rightarrow> char" where
  "str_at s n = (if n < length s then s ! n else CHR 0x00)"

definition substr :: "string \<Rightarrow> nat \<Rightarrow> nat \<Rightarrow> string" where
  "substr s p n = take n (drop p s)"

text \<open>\<open>s.rfind(c, pos)\<close>: the last index not after \<open>pos\<close> that holds \<open>c\<close>; \<^const>\<open>None\<close> is \<open>npos\<close>.\<close>

fun rfind_from :: "char \<Rightarrow> string \<Rightarrow> nat \<Rightarrow> nat option" where
  "rfind_from c s 0 = (if 0 < length s \<and> s ! 0 = c then Some 0 else None)"
| "rfind_from c s (Suc n) =
     (if Suc n < length s \<and> s ! Suc n = c then Some (Suc n) else rfind_from c s n)"

definition rfind :: "char \<Rightarrow> string \<Rightarrow> nat option" where
  "rfind c s = rfind_from c s (length s)"

definition char_isspace :: "char \<Rightarrow> bool" where
  "char_isspace c \<longleftrightarrow> c \<in> {CHR '' '', CHR 0x09, CHR 0x0A, CHR 0x0B, CHR 0x0C, CHR 0x0D}"

definition char_isdigit :: "char \<Rightarrow> bool" where
  "char_isdigit c \<longleftrightarrow> 48 \<le> (of_char c :: nat) \<and> (of_char c :: nat) \<le> 57"

definition char_toupper :: "char \<Rightarrow> char" where
  "char_toupper c =
     (if 97 \<le> (of_char c :: nat) \<and> (of_char c :: nat) \<le> 122 then char_of (of_char c - 32 :: nat) else c)"

definition digit_val :: "char \<Rightarrow> nat" where
  "digit_val c = of_char c - 48"

definition digit_char :: "nat \<Rightarrow> char" where
  "digit_char d = char_of (48 + d :: nat)"

fun digits_val :: "nat \<Rightarrow> string \<Rightarrow> nat" where
  "digits_val acc [] = acc"
| "digits_val acc (c # cs) = digits_val (10 * acc + digit_val c) cs"

text \<open>
  \<open>atoi\<close> on a string that starts with a digit: the value of the longest run of digits. Values
  outside \<open>int\<close> are undefined behaviour, \<^const>\<open>None\<close>.
\<close>

definition atoi_digits :: "string \<Rightarrow> int option" where
  "atoi_digits s =
     (let v = digits_val 0 (takeWhile char_isdigit s) in if v < 2 ^ 31 then Some (int v) else None)"

text \<open>Decimal with at least \<open>w\<close> digits, zero-padded, as \<open>std::format("{:0w}")\<close> writes it.\<close>

fun dec_digits :: "nat \<Rightarrow> nat \<Rightarrow> string" where
  "dec_digits 0 v = []"
| "dec_digits (Suc w) v = dec_digits w (v div 10) @ [digit_char (v mod 10)]"

fun num_digits :: "nat \<Rightarrow> nat" where
  "num_digits v = (if v < 10 then 1 else Suc (num_digits (v div 10)))"

declare num_digits.simps [simp del]

definition fmt0 :: "nat \<Rightarrow> int \<Rightarrow> string" where
  "fmt0 w i =
     (if i < 0
      then (let v = nat (- i) in CHR ''-'' # dec_digits (max (w - 1) (num_digits v)) v)
      else (let v = nat i in dec_digits (max w (num_digits v)) v))"

lemma length_dec_digits [simp]: "length (dec_digits w v) = w"
  by (induction w arbitrary: v) auto

lemma of_char_digit_char: "d < 10 \<Longrightarrow> (of_char (digit_char d) :: nat) = 48 + d"
  by (simp add: digit_char_def)

lemma digit_char_digit [simp]: "d < 10 \<Longrightarrow> char_isdigit (digit_char d)"
  by (simp add: char_isdigit_def of_char_digit_char)

lemma digit_val_digit_char [simp]: "d < 10 \<Longrightarrow> digit_val (digit_char d) = d"
  by (simp add: digit_val_def of_char_digit_char)

lemma dec_digits_digits: "\<forall>c \<in> set (dec_digits w v). char_isdigit c"
  by (induction w arbitrary: v) auto

lemma digits_val_append: "digits_val acc (xs @ ys) = digits_val (digits_val acc xs) ys"
  by (induction xs arbitrary: acc) auto

lemma digits_val_dec_digits: "v < 10 ^ w \<Longrightarrow> digits_val 0 (dec_digits w v) = v"
proof (induction w arbitrary: v)
  case (Suc w)
  then have "v div 10 < 10 ^ w"
    by (simp add: less_mult_imp_div_less mult.commute)
  then show ?case
    using Suc.IH by (simp add: digits_val_append)
qed simp

lemma num_digits_bound: "v < 10 ^ num_digits v"
proof (induction v rule: num_digits.induct)
  case (1 v)
  show ?case
  proof (cases "v < 10")
    case True
    then show ?thesis by (simp add: num_digits.simps [of v])
  next
    case False
    then have "v div 10 < 10 ^ num_digits (v div 10)"
      using 1 by blast
    then have "v < 10 * 10 ^ num_digits (v div 10)"
      by (simp add: div_less_iff_less_mult mult.commute)
    with False show ?thesis
      by (simp add: num_digits.simps [of v])
  qed
qed

lemma num_digits_le: "v < 10 ^ w \<Longrightarrow> 0 < w \<Longrightarrow> num_digits v \<le> w"
proof (induction v arbitrary: w rule: num_digits.induct)
  case (1 v)
  show ?case
  proof (cases "v < 10")
    case True
    then show ?thesis using "1.prems" by (simp add: num_digits.simps [of v])
  next
    case False
    obtain u where w: "w = Suc u"
      using "1.prems" by (cases w) auto
    have u: "0 < u"
      using False "1.prems" w by (cases u) auto
    have "v div 10 < 10 ^ u"
      using "1.prems" w by (simp add: less_mult_imp_div_less mult.commute)
    then have "num_digits (v div 10) \<le> u"
      using "1.IH" False u by blast
    with False w show ?thesis by (simp add: num_digits.simps [of v])
  qed
qed

lemma fmt0_nat:
  assumes "0 \<le> i" "nat i < 10 ^ w" "0 < w"
  shows "fmt0 w i = dec_digits w (nat i)"
  using num_digits_le [OF assms(2,3)] assms(1) by (simp add: fmt0_def max_absorb1 Let_def)

end
