(* ===== verification/Calendar.thy ===== *)
theory Calendar
  imports Prelude
begin

text \<open>
  The part of the C and C++ libraries that file names rest on: \<open>gmtime_r\<close>, \<open>timegm\<close> and the
  conversions between \<open>std::chrono::sys_days\<close> and \<open>std::chrono::year_month_day\<close>. All of
  them use the proleptic Gregorian calendar without leap seconds; a day is counted from
  1970-01-01. The definitions compute in closed form, so dates evaluate in the kernel.
\<close>

section \<open>Days and dates\<close>

definition is_leap :: "int \<Rightarrow> bool" where
  "is_leap y \<longleftrightarrow> y mod 4 = 0 \<and> y mod 100 \<noteq> 0 \<or> y mod 400 = 0"

text \<open>Days from the first day of year 0 to the first day of year \<open>y\<close>.\<close>

definition days_before_year :: "int \<Rightarrow> int" where
  "days_before_year y = 365 * y + (y + 3) div 4 - (y + 99) div 100 + (y + 399) div 400"

definition leap_day :: "int \<Rightarrow> int" where
  "leap_day y = (if is_leap y then 1 else 0)"

definition days_before_month :: "int \<Rightarrow> int \<Rightarrow> int" where
  "days_before_month y m =
     (if m \<le> 1 then 0 else if m = 2 then 31
      else leap_day y +
        (if m = 3 then 59 else if m = 4 then 90 else if m = 5 then 120 else if m = 6 then 151
         else if m = 7 then 181 else if m = 8 then 212 else if m = 9 then 243
         else if m = 10 then 273 else if m = 11 then 304 else 334))"

definition days_in_month :: "int \<Rightarrow> int \<Rightarrow> int" where
  "days_in_month y m =
     (if m = 2 then 28 + leap_day y else if m \<in> {4, 6, 9, 11} then 30 else 31)"

definition epoch_days :: int where
  "epoch_days = 719528"

definition days_from_civil :: "int \<Rightarrow> int \<Rightarrow> int \<Rightarrow> int" where
  "days_from_civil y m d = days_before_year y + days_before_month y m + (d - 1) - epoch_days"

text \<open>The year of a day counted from year 0: an estimate that is off by at most one.\<close>

definition year_of_days :: "int \<Rightarrow> int" where
  "year_of_days n =
     (let y = (400 * n) div 146097 in
      if n < days_before_year y then y - 1
      else if days_before_year (y + 1) \<le> n then y + 1 else y)"

definition month_of_yday :: "int \<Rightarrow> int \<Rightarrow> int" where
  "month_of_yday y r =
     (let l = leap_day y in
      if r < 31 then 1 else if r < 59 + l then 2 else if r < 90 + l then 3
      else if r < 120 + l then 4 else if r < 151 + l then 5 else if r < 181 + l then 6
      else if r < 212 + l then 7 else if r < 243 + l then 8 else if r < 273 + l then 9
      else if r < 304 + l then 10 else if r < 334 + l then 11 else 12)"

definition civil_from_days :: "int \<Rightarrow> int \<times> int \<times> int" where
  "civil_from_days z =
     (let n = z + epoch_days; y = year_of_days n; r = n - days_before_year y;
          m = month_of_yday y r
      in (y, m, r - days_before_month y m + 1))"

definition valid_date :: "int \<Rightarrow> int \<Rightarrow> int \<Rightarrow> bool" where
  "valid_date y m d \<longleftrightarrow> 1 \<le> m \<and> m \<le> 12 \<and> 1 \<le> d \<and> d \<le> days_in_month y m"

section \<open>\<open>gmtime_r\<close> and \<open>timegm\<close>\<close>

record tm =
  tm_year :: int
  tm_mon :: int
  tm_mday :: int
  tm_hour :: int
  tm_min :: int
  tm_sec :: int

text \<open>\<^const>\<open>None\<close> is the null result with \<open>errno\<close> set to \<open>EOVERFLOW\<close>: the year does not fit.\<close>

definition gmtime_r :: "int \<Rightarrow> tm option" where
  "gmtime_r t =
     (let (y, m, d) = civil_from_days (t div 86400); s = t mod 86400 in
      if y - 1900 < - (2 ^ 31) \<or> 2 ^ 31 \<le> y - 1900 then None
      else Some \<lparr>tm_year = y - 1900, tm_mon = m - 1, tm_mday = d,
                 tm_hour = s div 3600, tm_min = (s div 60) mod 60, tm_sec = s mod 60\<rparr>)"

text \<open>
  \<open>timegm\<close> accepts fields out of their usual range and normalises them; \<^const>\<open>None\<close> is the
  result -1 with \<open>EOVERFLOW\<close>, when the normalised year does not fit in an \<open>int\<close>.
\<close>

definition timegm :: "tm \<Rightarrow> int option" where
  "timegm x =
     (let y = tm_year x + 1900 + tm_mon x div 12; m = tm_mon x mod 12 + 1;
          t = ((days_from_civil y m 1 + (tm_mday x - 1)) * 24 + tm_hour x) * 3600
              + tm_min x * 60 + tm_sec x
      in if gmtime_r t = None then None else Some t)"

section \<open>Dates and days are inverse\<close>

lemma ceil_div_step:
  fixes y k c :: int
  assumes "0 \<le> c" "k = c + 1"
  shows "(y + 1 + c) div k = (y + c) div k + of_bool (y mod k = 0)"
proof -
  define q r where "q = y div k" and "r = y mod k"
  have k: "0 < k" using assms by simp
  have y: "y = k * q + r" and r: "0 \<le> r" "r < k"
    using k by (simp_all add: q_def r_def)
  have "(y + 1 + c) div k = q + 1"
    using assms r by (intro int_div_pos_eq [where r = r]) (auto simp: y algebra_simps)
  moreover have "(y + c) div k = (if r = 0 then q else q + 1)"
    using assms r by (cases "r = 0")
      (auto intro: int_div_pos_eq [where r = c] int_div_pos_eq [where r = "r - 1"]
        simp: y algebra_simps)
  ultimately show ?thesis by (auto simp: r_def)
qed

lemma ceil_div_bounds:
  fixes y k :: int
  assumes "0 < k"
  shows "k * ((y + (k - 1)) div k) \<le> y + (k - 1)" "y \<le> k * ((y + (k - 1)) div k)"
proof -
  have "k * ((y + (k - 1)) div k) + (y + (k - 1)) mod k = y + (k - 1)" by simp
  moreover have "0 \<le> (y + (k - 1)) mod k" "(y + (k - 1)) mod k \<le> k - 1"
    using assms pos_mod_bound [OF assms, of "y + (k - 1)"] by auto
  ultimately show "k * ((y + (k - 1)) div k) \<le> y + (k - 1)" "y \<le> k * ((y + (k - 1)) div k)"
    by linarith+
qed

lemma leap_day_parts:
  "leap_day y = of_bool (y mod 4 = 0) - of_bool (y mod 100 = 0) + of_bool (y mod 400 = 0)"
proof -
  have "y mod 100 = 0 \<Longrightarrow> y mod 4 = 0"
    using mod_mod_cancel [of 4 100 y] by auto
  moreover have "y mod 400 = 0 \<Longrightarrow> y mod 100 = 0"
    using mod_mod_cancel [of 100 400 y] by auto
  ultimately show ?thesis
    unfolding leap_day_def is_leap_def by (cases "y mod 4 = 0"; cases "y mod 100 = 0"; cases "y mod 400 = 0") simp_all
qed

lemma leap_step: "days_before_year (y + 1) = days_before_year y + 365 + leap_day y"
proof -
  define a b c where "a = (y + 3) div 4" and "b = (y + 99) div 100" and "c = (y + 399) div 400"
  have "(y + 1 + 3) div 4 = a + of_bool (y mod 4 = 0)"
    "(y + 1 + 99) div 100 = b + of_bool (y mod 100 = 0)"
    "(y + 1 + 399) div 400 = c + of_bool (y mod 400 = 0)"
    unfolding a_def b_def c_def by (rule ceil_div_step; simp)+
  then show ?thesis
    unfolding days_before_year_def leap_day_parts a_def [symmetric] b_def [symmetric] c_def [symmetric]
    by (simp only: distrib_left)
qed

lemma leap_day_01: "leap_day y = 0 \<or> leap_day y = 1"
  by (simp add: leap_day_def)

lemma days_before_year_mono_step: "days_before_year y + 365 \<le> days_before_year (y + 1)"
  using leap_day_01 [of y] by (auto simp: leap_step)

lemma days_before_year_mono: "y \<le> y' \<Longrightarrow> days_before_year y + 365 * (y' - y) \<le> days_before_year y'"
proof (induction y' rule: int_ge_induct)
  case (step i)
  then show ?case using days_before_year_mono_step [of i] by simp
qed simp

lemma days_before_year_bounds:
  "400 * days_before_year y \<le> 146097 * y + 699" "146097 * y - 396 \<le> 400 * days_before_year y"
  using ceil_div_bounds [of 4 y] ceil_div_bounds [of 100 y] ceil_div_bounds [of 400 y]
  by (simp_all add: days_before_year_def)

lemma year_of_days_bounds:
  "days_before_year (year_of_days n) \<le> n \<and> n < days_before_year (year_of_days n + 1)"
proof -
  define y where "y = (400 * n) div 146097"
  define r where "r = (400 * n) mod 146097"
  have "146097 * y + r = 400 * n" "0 \<le> r" "r < 146097"
    unfolding y_def r_def by simp_all
  then have y: "146097 * y \<le> 400 * n" "400 * n < 146097 * (y + 1)"
    by simp_all
  have "400 * days_before_year (y - 1) \<le> 400 * n" "400 * n < 400 * days_before_year (y + 2)"
    using y days_before_year_bounds [of "y - 1"] days_before_year_bounds [of "y + 2"] by auto
  then show ?thesis
    by (auto simp: year_of_days_def y_def [symmetric] Let_def add.commute)
qed

lemma year_of_days_unique:
  assumes "days_before_year y \<le> n" "n < days_before_year (y + 1)"
  shows "year_of_days n = y"
proof -
  let ?w = "year_of_days n"
  have w: "days_before_year ?w \<le> n" "n < days_before_year (?w + 1)"
    using year_of_days_bounds by auto
  show ?thesis
  proof (rule ccontr)
    assume "?w \<noteq> y"
    then consider "?w + 1 \<le> y" | "y + 1 \<le> ?w" by linarith
    then show False
      using days_before_year_mono [of "?w + 1" y] days_before_year_mono [of "y + 1" ?w] assms w
      by cases auto
  qed
qed

lemma month_cases:
  assumes "1 \<le> m" "m \<le> (12::int)"
  obtains "m = 1" | "m = 2" | "m = 3" | "m = 4" | "m = 5" | "m = 6" | "m = 7" | "m = 8"
    | "m = 9" | "m = 10" | "m = 11" | "m = 12"
proof -
  have "m = 1 \<or> m = 2 \<or> m = 3 \<or> m = 4 \<or> m = 5 \<or> m = 6 \<or> m = 7 \<or> m = 8 \<or> m = 9 \<or> m = 10
    \<or> m = 11 \<or> m = 12"
    using assms by presburger
  then show ?thesis using that by blast
qed

lemmas month_tables = days_before_month_def days_in_month_def month_of_yday_def

lemma month_of_yday_date:
  assumes "valid_date y m d"
  shows "month_of_yday y (days_before_month y m + d - 1) = m"
    and "0 \<le> days_before_month y m + d - 1"
    and "days_before_month y m + d - 1 < 365 + leap_day y"
proof -
  have m: "1 \<le> m" "m \<le> 12" and d: "1 \<le> d" "d \<le> days_in_month y m"
    using assms by (auto simp: valid_date_def)
  show "month_of_yday y (days_before_month y m + d - 1) = m"
    using m d leap_day_01 [of y] by (cases rule: month_cases) (auto simp: month_tables Let_def)
  show "0 \<le> days_before_month y m + d - 1"
    using m d leap_day_01 [of y] by (cases rule: month_cases) (auto simp: month_tables)
  show "days_before_month y m + d - 1 < 365 + leap_day y"
    using m d leap_day_01 [of y] by (cases rule: month_cases) (auto simp: month_tables)
qed

lemma month_of_yday_split:
  assumes "r < 365 + leap_day y"
  obtains "r < 31" "month_of_yday y r = 1"
  | m where "2 \<le> m" "m \<le> 12" "month_of_yday y r = m" "days_before_month y m \<le> r"
      "r < days_before_month y m + days_in_month y m"
proof -
  let ?m = "month_of_yday y r"
  have "\<not> r < 31 \<Longrightarrow> 2 \<le> ?m \<and> ?m \<le> 12"
    by (simp add: month_of_yday_def Let_def)
  moreover have "\<not> r < 31 \<Longrightarrow> days_before_month y ?m \<le> r"
    by (simp add: month_of_yday_def days_before_month_def Let_def)
  moreover have "\<not> r < 31 \<Longrightarrow> r < days_before_month y ?m + days_in_month y ?m"
    using assms by (simp add: month_of_yday_def days_before_month_def days_in_month_def Let_def)
  moreover have "r < 31 \<Longrightarrow> ?m = 1"
    by (simp add: month_of_yday_def Let_def)
  ultimately show ?thesis using that by blast
qed

lemma month_of_yday_valid:
  assumes "0 \<le> r" "r < 365 + leap_day y"
  shows "valid_date y (month_of_yday y r) (r - days_before_month y (month_of_yday y r) + 1)"
  using assms(2) by (rule month_of_yday_split)
    (use assms(1) in \<open>auto simp: valid_date_def days_before_month_def [of _ 1] days_in_month_def [of _ 1]\<close>)

lemma civil_of_date:
  assumes "valid_date y m d"
  shows "civil_from_days (days_from_civil y m d) = (y, m, d)"
proof -
  let ?r = "days_before_month y m + d - 1"
  have "year_of_days (days_before_year y + ?r) = y"
    using month_of_yday_date(2,3) [OF assms] by (intro year_of_days_unique) (auto simp: leap_step)
  moreover have "days_from_civil y m d + epoch_days = days_before_year y + ?r"
    by (simp add: days_from_civil_def)
  ultimately show ?thesis
    using month_of_yday_date(1) [OF assms] by (simp add: civil_from_days_def Let_def)
qed

lemma date_of_civil:
  assumes "civil_from_days z = (y, m, d)"
  shows "days_from_civil y m d = z" and "valid_date y m d"
proof -
  let ?n = "z + epoch_days"
  have y: "y = year_of_days ?n" and m: "m = month_of_yday y (?n - days_before_year y)"
    and d: "d = ?n - days_before_year y - days_before_month y m + 1"
    using assms by (auto simp: civil_from_days_def Let_def)
  show "days_from_civil y m d = z"
    by (simp add: days_from_civil_def d)
  have "0 \<le> ?n - days_before_year y" "?n - days_before_year y < 365 + leap_day y"
    using year_of_days_bounds [of ?n] by (auto simp: y leap_step)
  from month_of_yday_valid [OF this] show "valid_date y m d"
    by (simp add: m d)
qed

section \<open>The calendar orders days\<close>

definition date_less :: "int \<times> int \<times> int \<Rightarrow> int \<times> int \<times> int \<Rightarrow> bool" where
  "date_less a b \<longleftrightarrow>
     (case (a, b) of ((y, m, d), (y', m', d')) \<Rightarrow> y < y' \<or> y = y' \<and> (m < m' \<or> m = m' \<and> d < d'))"

lemma month_next:
  assumes "1 \<le> m" "m < 12"
  shows "days_before_month y m + days_in_month y m = days_before_month y (m + 1)"
proof -
  have m: "1 \<le> m" "m \<le> 12" using assms by auto
  then show ?thesis
    using assms by (cases rule: month_cases) (auto simp: days_before_month_def days_in_month_def)
qed

lemma days_in_month_pos: "28 \<le> days_in_month y m"
  using leap_day_01 [of y] by (auto simp: days_in_month_def)

lemma month_step:
  assumes "1 \<le> m" "m + 1 \<le> m'" "m' \<le> 12"
  shows "days_before_month y m + days_in_month y m \<le> days_before_month y m'"
  using assms(2,3)
proof (induction m' rule: int_ge_induct)
  case base
  then show ?case using month_next [of m y] assms(1) by simp
next
  case (step i)
  then show ?case
    using month_next [of i y] days_in_month_pos [of y i] assms(1) by simp
qed

lemma days_from_civil_mono:
  assumes "valid_date y m d" "valid_date y' m' d'" "date_less (y, m, d) (y', m', d')"
  shows "days_from_civil y m d < days_from_civil y' m' d'"
proof -
  have r: "0 \<le> days_before_month y m + d - 1" "days_before_month y m + d - 1 < 365 + leap_day y"
    and r': "0 \<le> days_before_month y' m' + d' - 1"
    using month_of_yday_date assms by blast+
  consider "y < y'" | "y = y'" "m < m'" | "y = y'" "m = m'" "d < d'"
    using assms(3) by (auto simp: date_less_def)
  then show ?thesis
  proof cases
    case 1
    then have "days_before_year (y + 1) \<le> days_before_year y'"
      using days_before_year_mono [of "y + 1" y'] by auto
    with r r' show ?thesis by (simp add: days_from_civil_def leap_step)
  next
    case 2
    then have "days_before_month y m + days_in_month y m \<le> days_before_month y m'"
      using assms(1,2) by (intro month_step) (auto simp: valid_date_def)
    with 2 assms(1,2) show ?thesis by (auto simp: days_from_civil_def valid_date_def)
  qed (simp add: days_from_civil_def)
qed

lemma civil_from_days_less:
  assumes "z < z'"
  shows "date_less (civil_from_days z) (civil_from_days z')"
proof -
  obtain y m d y' m' d' where c: "civil_from_days z = (y, m, d)" "civil_from_days z' = (y', m', d')"
    by (metis prod_cases3)
  note p = date_of_civil [OF c(1)] and p' = date_of_civil [OF c(2)]
  have "(y, m, d) \<noteq> (y', m', d')" using p p' assms by auto
  moreover have "\<not> date_less (y', m', d') (y, m, d)"
    using days_from_civil_mono [OF p'(2) p(2)] p(1) p'(1) assms by auto
  ultimately show ?thesis
    by (auto simp: c date_less_def)
qed

lemma year_range:
  assumes "civil_from_days z = (y, m, d)" "0 \<le> z" "z < days_from_civil 10000 1 1"
  shows "1970 \<le> y" "y \<le> 9999"
proof -
  have v: "valid_date 1970 1 1" "valid_date 10000 1 1"
    by (simp_all add: valid_date_def days_in_month_def)
  have e: "days_from_civil 1970 1 1 = 0"
    by (simp add: days_from_civil_def days_before_year_def days_before_month_def epoch_days_def)
  have "\<not> date_less (y, m, d) (1970, 1, 1)"
    using days_from_civil_mono [OF date_of_civil(2) [OF assms(1)] v(1)] date_of_civil(1) [OF assms(1)] e assms(2)
    by auto
  then show "1970 \<le> y" by (auto simp: date_less_def)
  have "\<not> date_less (10000, 1, 1) (y, m, d)" "(y, m, d) \<noteq> (10000, 1, 1)"
    using days_from_civil_mono [OF v(2) date_of_civil(2) [OF assms(1)]] date_of_civil(1) [OF assms(1)] assms(3)
    by auto
  moreover have "1 \<le> m" "1 \<le> d" using date_of_civil(2) [OF assms(1)] by (auto simp: valid_date_def)
  ultimately show "y \<le> 9999" by (auto simp: date_less_def)
qed

text \<open>The calendar date after a date.\<close>

definition next_date :: "int \<times> int \<times> int \<Rightarrow> int \<times> int \<times> int" where
  "next_date c =
     (case c of (y, m, d) \<Rightarrow>
        if d < days_in_month y m then (y, m, d + 1)
        else if m < 12 then (y, m + 1, 1)
        else (y + 1, 1, 1))"

lemma days_before_december: "days_before_month y 12 + days_in_month y 12 = 365 + leap_day y"
  by (simp add: days_before_month_def days_in_month_def)

lemma next_date_days:
  assumes "valid_date y m d" "next_date (y, m, d) = (y', m', d')"
  shows "valid_date y' m' d'" "days_from_civil y' m' d' = days_from_civil y m d + 1"
proof -
  have v: "1 \<le> m" "m \<le> 12" "1 \<le> d" "d \<le> days_in_month y m"
    using assms(1) by (auto simp: valid_date_def)
  have p: "28 \<le> days_in_month y m" for y m by (rule days_in_month_pos)
  consider "d < days_in_month y m" | "d = days_in_month y m" "m < 12" | "d = days_in_month y m" "m = 12"
    using v by linarith
  then have "valid_date y' m' d' \<and> days_from_civil y' m' d' = days_from_civil y m d + 1"
  proof cases
    case 1
    then show ?thesis using assms(2) v by (auto simp: next_date_def valid_date_def days_from_civil_def)
  next
    case 2
    then show ?thesis
      using assms(2) v month_next [of m y] p [of y "m + 1"]
      by (auto simp: next_date_def valid_date_def days_from_civil_def)
  next
    case 3
    have "days_before_month (y + 1) 1 = 0" by (simp add: days_before_month_def)
    then show ?thesis
      using 3 assms(2) days_before_december [of y] leap_step [of y] p [of "y + 1" 1]
      by (auto simp: next_date_def valid_date_def days_from_civil_def)
  qed
  then show "valid_date y' m' d'" "days_from_civil y' m' d' = days_from_civil y m d + 1" by auto
qed

lemma civil_next: "civil_from_days (z + 1) = next_date (civil_from_days z)"
proof -
  obtain y m d where c: "civil_from_days z = (y, m, d)" by (metis prod_cases3)
  obtain y' m' d' where n: "next_date (y, m, d) = (y', m', d')" by (metis prod_cases3)
  have "civil_from_days (days_from_civil y' m' d') = (y', m', d')"
    using next_date_days [OF date_of_civil(2) [OF c] n] by (intro civil_of_date) simp
  then show ?thesis
    using next_date_days(2) [OF date_of_civil(2) [OF c] n] date_of_civil(1) [OF c] by (simp add: c n)
qed

lemma hms_sum:
  fixes s :: int
  shows "s div 3600 * 3600 + (s div 60) mod 60 * 60 + s mod 60 = s"
proof -
  define h a b c where "h = s div 60" and "a = h div 60" and "b = h mod 60" and "c = s mod 60"
  have "60 * h + c = s" "60 * a + b = h"
    unfolding h_def a_def b_def c_def by (rule mult_div_mod_eq)+
  then have "a * 3600 + b * 60 + c = s" by simp
  moreover have "s div 3600 = a"
    using zdiv_zmult2_eq [of 60 s 60] unfolding a_def h_def by simp
  ultimately show ?thesis by (simp only: h_def b_def c_def)
qed

lemma timegm_gmtime:
  assumes "gmtime_r t = Some x"
  shows "timegm x = Some t"
proof -
  obtain y m d where c: "civil_from_days (t div 86400) = (y, m, d)"
    by (metis prod_cases3)
  define n s where "n = t div 86400" and "s = t mod 86400"
  define h i k where "h = s div 3600" and "i = (s div 60) mod 60" and "k = s mod 60"
  have t: "86400 * n + s = t" unfolding n_def s_def by (rule mult_div_mod_eq)
  have k: "h * 3600 + i * 60 + k = s" unfolding h_def i_def k_def by (rule hms_sum)
  have x: "x = \<lparr>tm_year = y - 1900, tm_mon = m - 1, tm_mday = d, tm_hour = h, tm_min = i, tm_sec = k\<rparr>"
    using assms by (auto simp: gmtime_r_def c s_def h_def i_def k_def Let_def split: if_splits)
  have m: "1 \<le> m" "m \<le> 12" using date_of_civil(2) [OF c] by (auto simp: valid_date_def)
  then have mm: "(m - 1) div 12 = 0" "(m - 1) mod 12 = m - 1" by auto
  have "days_from_civil y m 1 + (d - 1) = n"
    using date_of_civil(1) [OF c] by (simp add: days_from_civil_def n_def)
  then have "((days_from_civil y m 1 + (d - 1)) * 24 + h) * 3600 + i * 60 + k = t"
    using t k by simp
  then show ?thesis
    using assms by (simp add: timegm_def x mm Let_def)
qed

end
