(* ===== verification/Flatlogs.thy ===== *)
theory Flatlogs
  imports Prelude
begin

text \<open>
  The flatlogs binary log format (\<open>flatlogs/include/flatlogs\<close>): priority levels, the
  fixed-width time stamp \<open>timespecX\<close>, and the variable-size entry header of \<open>logHeader\<close>.

  A \<open>char *\<close> into a log buffer is the pair of the block and an offset. Getters and setters
  follow the packed struct \<open>internal_logHeader\<close>: priority at byte 0, event code at 1,
  seconds at 3, nanoseconds at 7, \<open>msgLen0\<close> at 11, and the union of \<open>msgLen1\<close> and
  \<open>msgLen2\<close> at 12. A size computed in \<open>size_t\<close> is a 64-bit word, so it wraps where the
  code wraps. The abstract entry and its byte string \<open>encode_entry\<close> state the format of the
  header comment of \<open>logHeader.hpp\<close>; the lemmas show that \<open>createLog\<close> produces it and
  that the getters read it back at any position of a longer buffer.
\<close>

section \<open>Priorities\<close>

type_synonym logPrioT = byte

definition LOG_EMERGENCY :: logPrioT where "LOG_EMERGENCY = 0"
definition LOG_ALERT :: logPrioT where "LOG_ALERT = 1"
definition LOG_CRITICAL :: logPrioT where "LOG_CRITICAL = 2"
definition LOG_ERROR :: logPrioT where "LOG_ERROR = 3"
definition LOG_WARNING :: logPrioT where "LOG_WARNING = 4"
definition LOG_NOTICE :: logPrioT where "LOG_NOTICE = 5"
definition LOG_INFO :: logPrioT where "LOG_INFO = 6"
definition LOG_DEBUG :: logPrioT where "LOG_DEBUG = 7"
definition LOG_DEBUG2 :: logPrioT where "LOG_DEBUG2 = 8"
definition LOG_TELEM :: logPrioT where "LOG_TELEM = 64"
definition LOG_DEFAULT :: logPrioT where "LOG_DEFAULT = 127 - 1"
definition LOG_UNKNOWN :: logPrioT where "LOG_UNKNOWN = 127"

lemmas logPrio_defs =
  LOG_EMERGENCY_def LOG_ALERT_def LOG_CRITICAL_def LOG_ERROR_def LOG_WARNING_def
  LOG_NOTICE_def LOG_INFO_def LOG_DEBUG_def LOG_DEBUG2_def LOG_TELEM_def
  LOG_DEFAULT_def LOG_UNKNOWN_def

definition priorityString :: "logPrioT \<Rightarrow> string" where
  "priorityString prio =
     (if prio = LOG_EMERGENCY then ''EMER''
      else if prio = LOG_ALERT then ''ALRT''
      else if prio = LOG_CRITICAL then ''CRIT''
      else if prio = LOG_ERROR then ''ERR ''
      else if prio = LOG_WARNING then ''WARN''
      else if prio = LOG_NOTICE then ''NOTE''
      else if prio = LOG_INFO then ''INFO''
      else if prio = LOG_DEBUG then ''DBG ''
      else if prio = LOG_DEBUG2 then ''DBG2''
      else if prio = LOG_DEFAULT then ''DEF?''
      else if prio = LOG_TELEM then ''TELM''
      else ''UNK?'')"

text \<open>The result is \<^const>\<open>None\<close> when \<open>atoi\<close> is undefined (a number outside \<open>int\<close>).\<close>

definition logLevelFromString :: "string \<Rightarrow> logPrioT option" where
  "logLevelFromString str =
     (let s = filter (\<lambda>c. \<not> char_isspace c) str in
      if length s = 0 then Some LOG_UNKNOWN
      else if char_isdigit (s ! 0) then map_option word_of_int (atoi_digits s)
      else let s = map char_toupper s in
        if s ! 0 = CHR ''A'' then Some LOG_ALERT
        else if s ! 0 = CHR ''C'' then Some LOG_CRITICAL
        else if s ! 0 = CHR ''W'' then Some LOG_WARNING
        else if s ! 0 = CHR ''N'' then Some LOG_NOTICE
        else if s ! 0 = CHR ''I'' then Some LOG_INFO
        else if s ! 0 = CHR ''E'' then
          (if length s = 1 then Some LOG_UNKNOWN
           else if str_at s 1 = CHR ''M'' then Some LOG_EMERGENCY
           else if str_at s 2 = CHR ''R'' then Some LOG_ERROR
           else Some LOG_UNKNOWN)
        else if s ! 0 = CHR ''D'' then
          (if length s = 1 then Some LOG_DEBUG
           else if str_at s 1 = CHR ''1'' then Some LOG_DEBUG
           else if str_at s 1 = CHR ''2'' then Some LOG_DEBUG2
           else if length s < 3 then Some LOG_UNKNOWN
           else if str_at s 1 = CHR ''B'' \<and> str_at s 2 = CHR ''G'' then
             (if length s = 3 then Some LOG_DEBUG
              else if length s > 3 \<and> str_at s 3 = CHR ''2'' then Some LOG_DEBUG2
              else Some LOG_UNKNOWN)
           else if str_at s 1 = CHR ''E'' \<and> str_at s 2 = CHR ''F'' then Some LOG_DEFAULT
           else if length s \<ge> 5 then
             (if substr s 0 5 \<noteq> ''DEBUG'' then Some LOG_UNKNOWN
              else if length s > 5 then
                (if str_at s 5 = CHR ''2'' then Some LOG_DEBUG2 else Some LOG_UNKNOWN)
              else Some LOG_DEBUG)
           else Some LOG_UNKNOWN)
        else if s ! 0 = CHR ''T'' then Some LOG_TELEM
        else Some LOG_UNKNOWN)"

section \<open>Time stamps\<close>

datatype timespecX = TimespecX (time_s: u32) (time_ns: u32)

record timespec =
  tv_sec :: int
  tv_nsec :: int

definition timespecX_assign :: "timespec \<Rightarrow> timespecX" where
  "timespecX_assign ts =
     (if tv_sec ts < 0 \<or> tv_sec ts > 4294967295 then TimespecX 0 0
      else TimespecX (word_of_int (tv_sec ts)) (word_of_int (tv_nsec ts)))"

definition getTimespec :: "timespecX \<Rightarrow> timespec" where
  "getTimespec t = \<lparr>tv_sec = uint (time_s t), tv_nsec = uint (time_ns t)\<rparr>"

definition timespecX_lt :: "timespecX \<Rightarrow> timespecX \<Rightarrow> bool" where
  "timespecX_lt tsL tsR \<longleftrightarrow>
     (time_s tsL = time_s tsR \<and> time_ns tsL < time_ns tsR) \<or> time_s tsL < time_s tsR"

definition timespecX_gt :: "timespecX \<Rightarrow> timespecX \<Rightarrow> bool" where
  "timespecX_gt tsL tsR \<longleftrightarrow>
     (time_s tsL = time_s tsR \<and> time_ns tsL > time_ns tsR) \<or> time_s tsL > time_s tsR"

definition timespecX_eq :: "timespecX \<Rightarrow> timespecX \<Rightarrow> bool" where
  "timespecX_eq tsL tsR \<longleftrightarrow> time_s tsL = time_s tsR \<and> time_ns tsL = time_ns tsR"

definition timespecX_le :: "timespecX \<Rightarrow> timespecX \<Rightarrow> bool" where
  "timespecX_le tsL tsR \<longleftrightarrow> timespecX_lt tsL tsR \<or> timespecX_eq tsL tsR"

definition timespecX_ge :: "timespecX \<Rightarrow> timespecX \<Rightarrow> bool" where
  "timespecX_ge tsL tsR \<longleftrightarrow> timespecX_gt tsL tsR \<or> timespecX_eq tsL tsR"

text \<open>
  \<open>meanTimespecX\<close>: the sums are taken in \<open>uint32_t\<close>. Every double it computes is an integer or
  half an integer below \<open>2 ^ 33\<close>, so the floating-point arithmetic is exact and is written
  here on integers: \<open>floor(s/2)\<close>, \<open>round(n/2)\<close> and the test that \<open>s/2\<close> is not whole.
\<close>

definition meanTimespecX :: "timespecX \<Rightarrow> timespecX \<Rightarrow> timespecX" where
  "meanTimespecX ts1 ts2 =
     (let s = unat (time_s ts1 + time_s ts2);
          n = unat (time_ns ts1 + time_ns ts2);
          sec = word_of_nat (s div 2) :: u32;
          ns = word_of_nat ((n + 1) div 2) :: u32
      in if s mod 2 \<noteq> 0
         then let ns = ns + 500000000
              in if unat ns \<ge> 1000000000 then TimespecX (sec + 1) (ns - 1000000000)
                 else TimespecX sec ns
         else TimespecX sec ns)"

section \<open>The entry header\<close>

definition MAX_LEN0 :: nat where "MAX_LEN0 = 255"
definition MAX_LEN1 :: nat where "MAX_LEN1 = 65535"
definition minHeadSize :: nat where "minHeadSize = 1 + 2 + 4 + 4 + 1"
definition maxHeadSize :: nat where "maxHeadSize = minHeadSize + 8"

definition logLevel_set :: "bytes \<Rightarrow> nat \<Rightarrow> logPrioT \<Rightarrow> bytes option" where
  "logLevel_set b p lvl = store b p (enc_w lvl)"

definition logLevel :: "bytes \<Rightarrow> nat \<Rightarrow> logPrioT option" where
  "logLevel b p = rd8 b p"

definition eventCode_set :: "bytes \<Rightarrow> nat \<Rightarrow> u16 \<Rightarrow> bytes option" where
  "eventCode_set b p ec = store b (p + 1) (enc_w ec)"

definition eventCode :: "bytes \<Rightarrow> nat \<Rightarrow> u16 option" where
  "eventCode b p = rd16 b (p + 1)"

definition timespec_set :: "bytes \<Rightarrow> nat \<Rightarrow> timespecX \<Rightarrow> bytes option" where
  "timespec_set b p ts = store b (p + 3) (enc_w (time_s ts) @ enc_w (time_ns ts))"

definition timespec_get :: "bytes \<Rightarrow> nat \<Rightarrow> timespecX option" where
  "timespec_get b p = do { s \<leftarrow> rd32 b (p + 3); ns \<leftarrow> rd32 b (p + 7); Some (TimespecX s ns) }"

definition msgLen0 :: "bytes \<Rightarrow> nat \<Rightarrow> byte option" where
  "msgLen0 b p = rd8 b (p + 11)"

definition msgLen1 :: "bytes \<Rightarrow> nat \<Rightarrow> u16 option" where
  "msgLen1 b p = rd16 b (p + 12)"

definition lenSize :: "bytes \<Rightarrow> nat \<Rightarrow> u64 option" where
  "lenSize b p =
     do { len0 \<leftarrow> msgLen0 b p;
          Some (if unat len0 < MAX_LEN0 - 1 then 1
                else if unat len0 = MAX_LEN0 - 1 then 1 + 2
                else 1 + 8) }"

definition lenSize_of :: "u64 \<Rightarrow> u64" where
  "lenSize_of msgSz =
     (if unat msgSz < MAX_LEN0 - 1 then 1
      else if unat msgSz < MAX_LEN1 then 1 + 2
      else 1 + 8)"

definition headerSize :: "bytes \<Rightarrow> nat \<Rightarrow> u64 option" where
  "headerSize b p = do { ls \<leftarrow> lenSize b p; Some (1 + 2 + 4 + 4 + ls) }"

definition headerSize_of :: "u64 \<Rightarrow> u64" where
  "headerSize_of msgSz = 1 + 2 + 8 + lenSize_of msgSz"

definition msgLen_set :: "bytes \<Rightarrow> nat \<Rightarrow> u64 \<Rightarrow> bytes option" where
  "msgLen_set b p msgLen =
     (if unat msgLen < MAX_LEN0 - 1 then store b (p + 11) (enc_w (ucast msgLen :: byte))
      else if unat msgLen < MAX_LEN1 then
        do { b \<leftarrow> store b (p + 11) (enc_w (254 :: byte));
             store b (p + 12) (enc_w (ucast msgLen :: u16)) }
      else
        do { b \<leftarrow> store b (p + 11) (enc_w (255 :: byte));
             store b (p + 12) (enc_w msgLen) })"

definition msgLen :: "bytes \<Rightarrow> nat \<Rightarrow> u64 option" where
  "msgLen b p =
     do { len0 \<leftarrow> msgLen0 b p;
          if unat len0 < MAX_LEN0 - 1 then Some (ucast len0)
          else if unat len0 = MAX_LEN0 - 1 then map_option ucast (msgLen1 b p)
          else rd64 b (p + 12) }"

definition totalSize :: "bytes \<Rightarrow> nat \<Rightarrow> u64 option" where
  "totalSize b p = do { h \<leftarrow> headerSize b p; m \<leftarrow> msgLen b p; Some (h + m) }"

definition totalSize_of :: "u64 \<Rightarrow> u64" where
  "totalSize_of msgSz = headerSize_of msgSz + msgSz"

definition messageBuffer :: "bytes \<Rightarrow> nat \<Rightarrow> nat option" where
  "messageBuffer b p = do { h \<leftarrow> headerSize b p; Some (p + unat h) }"

definition extractBasicLog ::
  "bytes \<Rightarrow> nat \<Rightarrow> (logPrioT \<times> u16 \<times> timespecX \<times> u64) option" where
  "extractBasicLog b p =
     do { lvl \<leftarrow> logLevel b p; ec \<leftarrow> eventCode b p; ts \<leftarrow> timespec_get b p; len \<leftarrow> msgLen b p;
          Some (lvl, ec, ts, len) }"

text \<open>
  A log type \<open>logT\<close> (a template parameter of \<open>createLog\<close>): its event code and default
  level, the length it reports for a message and the bytes \<open>format\<close> writes for it.
\<close>

record 'm log_type =
  lt_eventCode :: u16
  lt_defaultLevel :: logPrioT
  lt_length :: "'m \<Rightarrow> u64"
  lt_format :: "'m \<Rightarrow> bytes"

text \<open>\<open>createLog\<close>: \<open>heap\<close> is the content of the block that \<open>operator new\<close> returns.\<close>

definition createLog ::
  "'m log_type \<Rightarrow> (nat \<Rightarrow> byte) \<Rightarrow> timespecX \<Rightarrow> 'm \<Rightarrow> logPrioT \<Rightarrow> bytes option" where
  "createLog logT heap ts msg level =
     (let lvl = (if level = LOG_DEFAULT then lt_defaultLevel logT else level);
          len = lt_length logT msg;
          b = map heap [0 ..< unat (totalSize_of len)]
      in do { b \<leftarrow> logLevel_set b 0 lvl;
              b \<leftarrow> eventCode_set b 0 (lt_eventCode logT);
              b \<leftarrow> timespec_set b 0 ts;
              b \<leftarrow> msgLen_set b 0 len;
              mb \<leftarrow> messageBuffer b 0;
              store b mb (lt_format logT msg) })"

section \<open>The format, stated on whole entries\<close>

record entry =
  e_level :: logPrioT
  e_code :: u16
  e_time :: timespecX
  e_msg :: bytes

definition len_field :: "nat \<Rightarrow> bytes" where
  "len_field n =
     (if n < 254 then enc_w (word_of_nat n :: byte)
      else if n < 65535 then enc_w (254 :: byte) @ enc_w (word_of_nat n :: u16)
      else enc_w (255 :: byte) @ enc_w (word_of_nat n :: u64))"

definition encode_header :: "entry \<Rightarrow> bytes" where
  "encode_header e =
     enc_w (e_level e) @ enc_w (e_code e) @ enc_w (time_s (e_time e)) @
     enc_w (time_ns (e_time e)) @ len_field (length (e_msg e))"

definition encode_entry :: "entry \<Rightarrow> bytes" where
  "encode_entry e = encode_header e @ e_msg e"

text \<open>The entry that a call of \<open>createLog\<close> stands for.\<close>

definition log_entry :: "'m log_type \<Rightarrow> timespecX \<Rightarrow> 'm \<Rightarrow> logPrioT \<Rightarrow> entry" where
  "log_entry logT ts msg level =
     \<lparr>e_level = (if level = LOG_DEFAULT then lt_defaultLevel logT else level),
      e_code = lt_eventCode logT, e_time = ts, e_msg = lt_format logT msg\<rparr>"

text \<open>Entries whose size does not wrap \<open>size_t\<close>.\<close>

definition entry_ok :: "entry \<Rightarrow> bool" where
  "entry_ok e \<longleftrightarrow> length (e_msg e) + maxHeadSize < 2 ^ 64"

section \<open>Ordering of time stamps\<close>

instantiation timespecX :: linorder
begin

definition less_timespecX :: "timespecX \<Rightarrow> timespecX \<Rightarrow> bool" where
  "less_timespecX a b \<longleftrightarrow> timespecX_lt a b"

definition less_eq_timespecX :: "timespecX \<Rightarrow> timespecX \<Rightarrow> bool" where
  "less_eq_timespecX a b \<longleftrightarrow> timespecX_le a b"

instance
proof
  fix x y z :: timespecX
  show "x < y \<longleftrightarrow> x \<le> y \<and> \<not> y \<le> x"
    by (cases x; cases y)
      (auto simp: less_timespecX_def less_eq_timespecX_def timespecX_le_def timespecX_lt_def timespecX_eq_def)
  show "x \<le> x"
    by (simp add: less_eq_timespecX_def timespecX_le_def timespecX_eq_def)
  show "x \<le> y \<Longrightarrow> y \<le> z \<Longrightarrow> x \<le> z"
    by (cases x; cases y; cases z)
      (auto simp: less_eq_timespecX_def timespecX_le_def timespecX_lt_def timespecX_eq_def)
  show "x \<le> y \<Longrightarrow> y \<le> x \<Longrightarrow> x = y"
    by (cases x; cases y)
      (auto simp: less_eq_timespecX_def timespecX_le_def timespecX_lt_def timespecX_eq_def)
  show "x \<le> y \<or> y \<le> x"
    by (cases x; cases y)
      (auto simp: less_eq_timespecX_def timespecX_le_def timespecX_lt_def timespecX_eq_def)
qed

end

lemma timespecX_ops:
  "timespecX_lt a b \<longleftrightarrow> a < b"
  "timespecX_le a b \<longleftrightarrow> a \<le> b"
  "timespecX_eq a b \<longleftrightarrow> a = b"
  "timespecX_gt a b \<longleftrightarrow> b < a"
  "timespecX_ge a b \<longleftrightarrow> b \<le> a"
  by (cases a; cases b;
      auto simp: less_timespecX_def less_eq_timespecX_def timespecX_le_def timespecX_ge_def
        timespecX_lt_def timespecX_gt_def timespecX_eq_def)+

text \<open>Nanoseconds since the epoch, and the stamps \<open>gettime\<close> can produce.\<close>

definition ts_nanos :: "timespecX \<Rightarrow> nat" where
  "ts_nanos t = 1000000000 * unat (time_s t) + unat (time_ns t)"

definition ts_ok :: "timespecX \<Rightarrow> bool" where
  "ts_ok t \<longleftrightarrow> unat (time_ns t) < 1000000000"

lemma ts_less_nanos: "ts_ok a \<Longrightarrow> ts_ok b \<Longrightarrow> a < b \<longleftrightarrow> ts_nanos a < ts_nanos b"
  unfolding less_timespecX_def timespecX_lt_def ts_ok_def ts_nanos_def
  by (auto simp: word_less_nat_alt word_unat_eq_iff)

lemma timespecX_assign_get: "timespecX_assign (getTimespec t) = t"
proof -
  have "uint (time_s t) < 2 ^ 32"
    using unsigned_less [of "time_s t", where ?'a = int] by simp
  then show ?thesis
    by (cases t) (simp add: timespecX_assign_def getTimespec_def)
qed

section \<open>Field reads of an encoded entry\<close>

lemma length_len_field:
  "length (len_field n) = (if n < 254 then 1 else if n < 65535 then 3 else 9)"
  by (simp add: len_field_def)

lemma length_encode_header:
  "length (encode_header e) = 11 + length (len_field (length (e_msg e)))"
  by (simp add: encode_header_def)

lemma encode_header_bounds:
  "minHeadSize \<le> length (encode_header e)" "length (encode_header e) \<le> maxHeadSize"
  by (auto simp: length_encode_header length_len_field minHeadSize_def maxHeadSize_def)

lemma length_encode_entry:
  "length (encode_entry e) = length (encode_header e) + length (e_msg e)"
  by (simp add: encode_entry_def)

lemma encode_entry_min: "minHeadSize \<le> length (encode_entry e)"
  using encode_header_bounds(1) [of e] by (simp add: length_encode_entry)

lemma logLevel_at [rd_simps]:
  "length xs = p \<Longrightarrow> logLevel (xs @ encode_entry e @ ys) p = Some (e_level e)"
  by (simp add: logLevel_def encode_entry_def encode_header_def rd_simps)

lemma eventCode_at [rd_simps]:
  "length xs = p \<Longrightarrow> eventCode (xs @ encode_entry e @ ys) p = Some (e_code e)"
  using rd_append(2) [of "xs @ enc_w (e_level e)" "p + 1" "e_code e"]
  by (simp add: eventCode_def encode_entry_def encode_header_def)

lemma timespec_at [rd_simps]:
  "length xs = p \<Longrightarrow> timespec_get (xs @ encode_entry e @ ys) p = Some (e_time e)"
  using rd_append(3) [of "xs @ enc_w (e_level e) @ enc_w (e_code e)" "p + 3" "time_s (e_time e)"]
    rd_append(3) [of "xs @ enc_w (e_level e) @ enc_w (e_code e) @ enc_w (time_s (e_time e))"
      "p + 7" "time_ns (e_time e)"]
  by (simp add: timespec_get_def encode_entry_def encode_header_def)

definition head_fixed :: "entry \<Rightarrow> bytes" where
  "head_fixed e =
     enc_w (e_level e) @ enc_w (e_code e) @ enc_w (time_s (e_time e)) @ enc_w (time_ns (e_time e))"

lemma length_head_fixed [simp]: "length (head_fixed e) = 11"
  by (simp add: head_fixed_def)

lemma encode_entry_split:
  "xs @ encode_entry e @ ys = (xs @ head_fixed e) @ len_field (length (e_msg e)) @ e_msg e @ ys"
  by (simp add: encode_entry_def encode_header_def head_fixed_def)

lemma unat_of_nat_lt: "n < 2 ^ LENGTH('a::len) \<Longrightarrow> unat (word_of_nat n :: 'a word) = n"
  by (simp add: unat_of_nat)

text \<open>The three shapes of the length field, read back.\<close>

lemma len_field_reads:
  assumes p: "length xs = p" and n: "n < 2 ^ 64"
    and b_def: "b = xs @ len_field n @ ys"
  shows "n < 254 \<Longrightarrow> rd8 b p = Some (word_of_nat n)"
    and "254 \<le> n \<Longrightarrow> n < 65535 \<Longrightarrow>
      rd8 b p = Some 254 \<and> rd16 b (p + 1) = Some (word_of_nat n)"
    and "65535 \<le> n \<Longrightarrow> rd8 b p = Some 255 \<and> rd64 b (p + 1) = Some (word_of_nat n)"
proof -
  show "n < 254 \<Longrightarrow> rd8 b p = Some (word_of_nat n)"
    by (simp add: b_def len_field_def p rd_simps)
  show "254 \<le> n \<Longrightarrow> n < 65535 \<Longrightarrow> rd8 b p = Some 254 \<and> rd16 b (p + 1) = Some (word_of_nat n)"
    using rd_append(2) [of "xs @ enc_w (254 :: byte)" "p + 1" "word_of_nat n" ys]
    by (simp add: b_def len_field_def p rd_simps)
  show "65535 \<le> n \<Longrightarrow> rd8 b p = Some 255 \<and> rd64 b (p + 1) = Some (word_of_nat n)"
    using rd_append(4) [of "xs @ enc_w (255 :: byte)" "p + 1" "word_of_nat n" ys]
    by (simp add: b_def len_field_def p rd_simps)
qed

lemma headerSize_at [rd_simps]:
  assumes p: "length xs = p" and ok: "entry_ok e"
  shows "headerSize (xs @ encode_entry e @ ys) p = Some (word_of_nat (length (encode_header e)))"
proof -
  let ?n = "length (e_msg e)"
  have n: "?n < 2 ^ 64" using ok by (simp add: entry_ok_def maxHeadSize_def minHeadSize_def)
  have q: "length (xs @ head_fixed e) = p + 11" using p by simp
  note r = len_field_reads [OF q n encode_entry_split [of xs e ys]]
  consider "?n < 254" | "254 \<le> ?n" "?n < 65535" | "65535 \<le> ?n" by linarith
  then show ?thesis
  proof cases
    case 1
    then show ?thesis
      using r(1) by (simp add: headerSize_def lenSize_def msgLen0_def MAX_LEN0_def
          length_encode_header length_len_field unat_of_nat)
  next
    case 2
    then show ?thesis
      using r(2) by (simp add: headerSize_def lenSize_def msgLen0_def MAX_LEN0_def
          length_encode_header length_len_field)
  next
    case 3
    then show ?thesis
      using r(3) by (simp add: headerSize_def lenSize_def msgLen0_def MAX_LEN0_def
          length_encode_header length_len_field)
  qed
qed

lemma msgLen_at [rd_simps]:
  assumes p: "length xs = p" and ok: "entry_ok e"
  shows "msgLen (xs @ encode_entry e @ ys) p = Some (word_of_nat (length (e_msg e)))"
proof -
  let ?n = "length (e_msg e)"
  have n: "?n < 2 ^ 64" using ok by (simp add: entry_ok_def maxHeadSize_def minHeadSize_def)
  have q: "length (xs @ head_fixed e) = p + 11" using p by simp
  note r = len_field_reads [OF q n encode_entry_split [of xs e ys]]
  consider "?n < 254" | "254 \<le> ?n" "?n < 65535" | "65535 \<le> ?n" by linarith
  then show ?thesis
  proof cases
    case 1
    then show ?thesis
      using r(1) by (simp add: msgLen_def msgLen0_def MAX_LEN0_def unat_of_nat
          unsigned_of_nat take_bit_nat_eq_self)
  next
    case 2
    then show ?thesis
      using r(2) by (simp add: msgLen_def msgLen0_def msgLen1_def MAX_LEN0_def add.commute [of p]
          unsigned_of_nat take_bit_nat_eq_self)
  next
    case 3
    then show ?thesis
      using r(3) by (simp add: msgLen_def msgLen0_def MAX_LEN0_def add.commute [of p])
  qed
qed

lemma totalSize_at [rd_simps]:
  assumes "length xs = p" "entry_ok e"
  shows "totalSize (xs @ encode_entry e @ ys) p = Some (word_of_nat (length (encode_entry e)))"
  using assms by (simp add: totalSize_def rd_simps length_encode_entry)

lemma unat_total:
  "entry_ok e \<Longrightarrow> unat (word_of_nat (length (encode_entry e)) :: u64) = length (encode_entry e)"
  using encode_header_bounds(2) [of e]
  by (intro unat_of_nat_lt) (simp add: entry_ok_def length_encode_entry)

lemma unat_header:
  "unat (word_of_nat (length (encode_header e)) :: u64) = length (encode_header e)"
  using encode_header_bounds(2) [of e]
  by (intro unat_of_nat_lt) (simp add: maxHeadSize_def minHeadSize_def)

lemma messageBuffer_at [rd_simps]:
  assumes "length xs = p" "entry_ok e"
  shows "messageBuffer (xs @ encode_entry e @ ys) p = Some (p + length (encode_header e))"
  using assms by (simp add: messageBuffer_def rd_simps unat_header)

lemma extractBasicLog_at [rd_simps]:
  assumes "length xs = p" "entry_ok e"
  shows "extractBasicLog (xs @ encode_entry e @ ys) p =
    Some (e_level e, e_code e, e_time e, word_of_nat (length (e_msg e)))"
  using assms by (simp add: extractBasicLog_def rd_simps)

section \<open>\<open>createLog\<close> writes the format\<close>

lemma store_next:
  "length xs = p \<Longrightarrow> length zs \<le> length ys \<Longrightarrow> store (xs @ ys) p zs = Some (xs @ zs @ drop (length zs) ys)"
  by (simp add: store_def)

lemma headerSize_of_len_field:
  "headerSize_of len = word_of_nat (11 + length (len_field (unat len)))"
  by (simp add: headerSize_of_def lenSize_of_def length_len_field MAX_LEN0_def MAX_LEN1_def)

lemma unat_totalSize_of:
  assumes "unat len + maxHeadSize < 2 ^ 64"
  shows "unat (totalSize_of len) = 11 + length (len_field (unat len)) + unat len"
proof -
  have "totalSize_of len = word_of_nat (11 + length (len_field (unat len)) + unat len)"
    by (simp add: totalSize_of_def headerSize_of_len_field)
  moreover have "11 + length (len_field (unat len)) + unat len < 2 ^ LENGTH(64)"
    using assms by (auto simp: length_len_field maxHeadSize_def minHeadSize_def)
  ultimately show ?thesis
    using unat_of_nat_lt [where 'a = 64] by metis
qed

lemma fixed_stores:
  assumes "11 \<le> length b"
  shows "do { b \<leftarrow> logLevel_set b 0 (e_level e); b \<leftarrow> eventCode_set b 0 (e_code e);
              timespec_set b 0 (e_time e) } = Some (head_fixed e @ drop 11 b)"
  using assms
    store_next [of "[]" 0 "enc_w (e_level e)" b]
    store_next [of "enc_w (e_level e)" 1 "enc_w (e_code e)" "drop 1 b"]
    store_next [of "enc_w (e_level e) @ enc_w (e_code e)" 3
      "enc_w (time_s (e_time e)) @ enc_w (time_ns (e_time e))" "drop 3 b"]
  by (simp add: logLevel_set_def eventCode_set_def timespec_set_def head_fixed_def)

lemma msgLen_set_stores:
  assumes "length xs = p + 11" "length (len_field (unat len)) \<le> length ys"
  shows "msgLen_set (xs @ ys) p len =
    Some (xs @ len_field (unat len) @ drop (length (len_field (unat len))) ys)"
proof -
  consider "unat len < 254" | "254 \<le> unat len" "unat len < 65535" | "65535 \<le> unat len" by linarith
  then show ?thesis
  proof cases
    case 1
    then show ?thesis
      using assms by (simp add: msgLen_set_def MAX_LEN0_def len_field_def store_next)
  next
    case 2
    then show ?thesis
      using assms store_next [of "xs @ enc_w (254 :: byte)" "p + 12" "enc_w (word_of_nat (unat len) :: u16)" "drop 1 ys"]
      by (simp add: msgLen_set_def MAX_LEN0_def MAX_LEN1_def len_field_def store_next
          numeral_3_eq_3)
  next
    case 3
    then show ?thesis
      using assms store_next [of "xs @ enc_w (255 :: byte)" "p + 12" "enc_w len" "drop 1 ys"]
      by (simp add: msgLen_set_def MAX_LEN0_def MAX_LEN1_def len_field_def store_next)
  qed
qed

lemma createLog_encodes:
  assumes len: "unat (lt_length logT msg) = length (lt_format logT msg)"
    and ok: "entry_ok (log_entry logT ts msg level)"
  shows "createLog logT heap ts msg level = Some (encode_entry (log_entry logT ts msg level))"
proof -
  define e where "e = log_entry logT ts msg level"
  define n where "n = length (lt_format logT msg)"
  define f where "f = len_field n"
  define b where "b = map heap [0 ..< unat (totalSize_of (lt_length logT msg))]"
  have n: "n = length (e_msg e)" by (simp add: n_def e_def log_entry_def)
  have lb: "length b = 11 + length f + n"
    using ok len unat_totalSize_of [of "lt_length logT msg"]
    by (simp add: b_def f_def n_def entry_ok_def log_entry_def)
  define e' where "e' = e\<lparr>e_msg := drop (11 + length f) b\<rparr>"
  have e': "head_fixed e @ f @ drop (11 + length f) b = encode_entry e'"
    using lb by (simp add: e'_def encode_entry_def encode_header_def head_fixed_def f_def)
  have l': "length (e_msg e') = n" by (simp add: e'_def lb)
  then have h': "encode_header e' = head_fixed e @ f"
    by (simp add: e'_def encode_header_def head_fixed_def f_def)
  have "entry_ok e'" using ok l' by (simp add: entry_ok_def n_def log_entry_def)
  then have mb: "messageBuffer (head_fixed e @ f @ drop (11 + length f) b) 0 = Some (11 + length f)"
    using messageBuffer_at [of "[]" 0 e' "[]"] by (simp add: e' h')
  have fx: "do { b \<leftarrow> logLevel_set b 0 (e_level e); b \<leftarrow> eventCode_set b 0 (e_code e);
              timespec_set b 0 (e_time e) } = Some (head_fixed e @ drop 11 b)"
    using lb by (intro fixed_stores) simp
  have ml: "msgLen_set (head_fixed e @ drop 11 b) 0 (lt_length logT msg) =
      Some (head_fixed e @ f @ drop (11 + length f) b)"
    using msgLen_set_stores [of "head_fixed e" 0 "lt_length logT msg" "drop 11 b"] lb len
    by (simp add: f_def n_def add.commute)
  have st: "store (head_fixed e @ f @ drop (11 + length f) b) (11 + length f) (lt_format logT msg)
      = Some (head_fixed e @ f @ lt_format logT msg)"
    using store_next [of "head_fixed e @ f" "11 + length f" "lt_format logT msg" "drop (11 + length f) b"] lb
    by (simp add: n_def)
  have en: "encode_entry e = head_fixed e @ f @ lt_format logT msg"
    by (simp add: encode_entry_def encode_header_def head_fixed_def f_def n e_def log_entry_def)
  show ?thesis
    using fx ml mb st en unfolding createLog_def Let_def b_def [symmetric]
    by (auto simp: e_def log_entry_def bind_eq_Some_conv)
qed

section \<open>The mean of two time stamps, and level names\<close>

lemma mean_sums:
  assumes "unat (time_s a) + unat (time_s b) < 2 ^ 32" "ts_ok a" "ts_ok b"
  shows "unat (time_s a + time_s b) = unat (time_s a) + unat (time_s b)"
    and "unat (time_ns a + time_ns b) = unat (time_ns a) + unat (time_ns b)"
  using assms by (auto simp: unat_word_ariths ts_ok_def)

lemma div2_carry:
  fixes s n :: nat
  shows "even s \<Longrightarrow> 1000000000 * (s div 2) + (n + 1) div 2 = (1000000000 * s + n + 1) div 2"
    and "odd s \<Longrightarrow> 1000000000 * (s div 2) + (n + 1) div 2 + 500000000 = (1000000000 * s + n + 1) div 2"
  by (auto elim!: evenE oddE)

lemma mean_nanos:
  assumes "unat (time_s a) + unat (time_s b) < 2 ^ 32" "ts_ok a" "ts_ok b"
  shows "ts_nanos (meanTimespecX a b) = (ts_nanos a + ts_nanos b + 1) div 2"
    and "ts_ok (meanTimespecX a b)"
proof -
  define s where "s = unat (time_s a) + unat (time_s b)"
  define n where "n = unat (time_ns a) + unat (time_ns b)"
  have n: "n < 2000000000 - 1" using assms(2,3) by (simp add: n_def ts_ok_def)
  define h where "h = (n + 1) div 2"
  have n2: "h < 1000000000" using n by (simp add: h_def)
  have sum: "ts_nanos a + ts_nanos b = 1000000000 * s + n" by (simp add: ts_nanos_def s_def n_def)
  have sec: "unat (word_of_nat (s div 2) :: u32) = s div 2"
    using assms(1) by (intro unat_of_nat_lt) (simp add: s_def)
  have sec1: "unat (word_of_nat (s div 2) + 1 :: u32) = s div 2 + 1"
    using assms(1) sec by (simp add: unat_word_ariths s_def)
  have ns: "unat (word_of_nat h :: u32) = h"
    using n2 by (intro unat_of_nat_lt) simp
  have ns5: "unat (word_of_nat h + 500000000 :: u32) = h + 500000000"
    using ns n2 by (simp add: unat_word_ariths)
  have ns6: "unat (word_of_nat h + 500000000 - 1000000000 :: u32) = h + 500000000 - 1000000000"
    if "h + 500000000 \<ge> 1000000000"
    using that ns by (simp add: unat_sub word_le_nat_alt)
  have m: "meanTimespecX a b =
     (let sec = word_of_nat (s div 2) :: u32; ns = word_of_nat h :: u32
      in if odd s
         then let ns = ns + 500000000
              in if h + 500000000 \<ge> 1000000000 then TimespecX (sec + 1) (ns - 1000000000)
                 else TimespecX sec ns
         else TimespecX sec ns)"
    using ns5 by (simp add: meanTimespecX_def mean_sums [OF assms] s_def [symmetric] n_def [symmetric]
        h_def [symmetric, simplified]
        Let_def even_iff_mod_2_eq_zero)
  show "ts_nanos (meanTimespecX a b) = (ts_nanos a + ts_nanos b + 1) div 2"
  proof -
    have "ts_nanos (meanTimespecX a b) =
      1000000000 * (s div 2) + h + (if odd s then 500000000 else 0)"
      using sec sec1 ns ns5 ns6 by (auto simp: m Let_def ts_nanos_def)
    then show ?thesis using div2_carry [of s n, folded h_def] sum by (auto simp: algebra_simps)
  qed
  show "ts_ok (meanTimespecX a b)"
    using n2 ns ns5 ns6 by (auto simp: m Let_def ts_ok_def)
qed

lemma level_names:
  "logLevelFromString ''EMER'' = Some LOG_EMERGENCY"
  "logLevelFromString ''ALRT'' = Some LOG_ALERT"
  "logLevelFromString ''CRIT'' = Some LOG_CRITICAL"
  "logLevelFromString ''ERR '' = Some LOG_ERROR"
  "logLevelFromString ''WARN'' = Some LOG_WARNING"
  "logLevelFromString ''NOTE'' = Some LOG_NOTICE"
  "logLevelFromString ''INFO'' = Some LOG_INFO"
  "logLevelFromString ''DBG '' = Some LOG_DEBUG"
  "logLevelFromString ''DBG2'' = Some LOG_DEBUG2"
  "logLevelFromString ''DEF?'' = Some LOG_DEFAULT"
  "logLevelFromString ''TELM'' = Some LOG_TELEM"
  by code_simp+

text \<open>
  The documentation of \<open>logLevelFromString\<close> promises that \<open>ER\<close> is read as an error level.
  The code looks for the \<open>R\<close> at index 2.
\<close>

lemma level_ER_unknown: "logLevelFromString ''ER'' = Some LOG_UNKNOWN"
  by code_simp

section \<open>Properties\<close>

text \<open>C9: a log created by \<open>createLog\<close> from a log type whose \<open>format\<close> writes the number of
  bytes that \<open>length\<close> announces is read back exactly, wherever it lies in a longer buffer:
  \<open>extractBasicLog\<close> returns its level (the type's default level when the caller passed
  \<open>LOG_DEFAULT\<close>), event code, time stamp and message length, \<open>messageBuffer\<close> points at the
  bytes \<open>format\<close> wrote, and \<open>totalSize\<close> is the size of the allocated block.\<close>

theorem createLog_roundtrip:
  assumes "unat (lt_length logT msg) = length (lt_format logT msg)"
    and "length (lt_format logT msg) + maxHeadSize < 2 ^ 64"
  shows "\<exists>b. createLog logT heap ts msg level = Some b \<and>
    (\<forall>xs ys.
       extractBasicLog (xs @ b @ ys) (length xs) =
         Some (if level = LOG_DEFAULT then lt_defaultLevel logT else level,
               lt_eventCode logT, ts, lt_length logT msg) \<and>
       Option.bind (messageBuffer (xs @ b @ ys) (length xs))
         (\<lambda>mb. load (xs @ b @ ys) mb (length (lt_format logT msg))) = Some (lt_format logT msg) \<and>
       map_option unat (totalSize (xs @ b @ ys) (length xs)) = Some (length b))"
proof -
  let ?e = "log_entry logT ts msg level"
  have ok: "entry_ok ?e" using assms(2) by (simp add: entry_ok_def log_entry_def)
  have msg: "e_msg ?e = lt_format logT msg" by (simp add: log_entry_def)
  have len: "word_of_nat (length (lt_format logT msg)) = lt_length logT msg"
    by (simp flip: assms(1))
  have "load (xs @ encode_entry ?e @ ys) (length xs + length (encode_header ?e))
      (length (lt_format logT msg)) = Some (lt_format logT msg)" for xs ys
    using load_append_right [of "xs @ encode_header ?e" "length xs + length (encode_header ?e)" "e_msg ?e" ys]
    by (simp add: encode_entry_def msg)
  then show ?thesis
    using createLog_encodes [OF assms(1) ok] ok
    by (simp add: rd_simps unat_total msg len) (simp add: log_entry_def)
qed

theorem createLog_roundtrip_witness:
  "\<exists>b. createLog \<lparr>lt_eventCode = 1000, lt_defaultLevel = LOG_INFO,
        lt_length = (\<lambda>m. word_of_nat (length m)), lt_format = (\<lambda>m. m)\<rparr>
      (\<lambda>_. 170) (TimespecX 1700000000 5) [104, 105] LOG_DEFAULT = Some b \<and>
     extractBasicLog ([7, 7] @ b @ [9]) 2 = Some (LOG_INFO, 1000, TimespecX 1700000000 5, 2)"
proof -
  let ?T = "\<lparr>lt_eventCode = 1000, lt_defaultLevel = LOG_INFO,
      lt_length = (\<lambda>m. word_of_nat (length m)), lt_format = (\<lambda>m :: bytes. m)\<rparr>"
  have "\<exists>b. createLog ?T (\<lambda>_. 170) (TimespecX 1700000000 5) [104, 105] LOG_DEFAULT = Some b \<and>
    (\<forall>xs ys. extractBasicLog (xs @ b @ ys) (length xs) = Some (LOG_INFO, 1000, TimespecX 1700000000 5, 2))"
    using createLog_roundtrip [of ?T "[104, 105]" "\<lambda>_. 170" "TimespecX 1700000000 5" LOG_DEFAULT]
    by (simp add: maxHeadSize_def minHeadSize_def) blast
  then obtain b where b: "createLog ?T (\<lambda>_. 170) (TimespecX 1700000000 5) [104, 105] LOG_DEFAULT = Some b"
    "\<And>xs ys. extractBasicLog (xs @ b @ ys) (length xs) = Some (LOG_INFO, 1000, TimespecX 1700000000 5, 2)"
    by blast
  show ?thesis using b(1) b(2) [of "[7, 7]" "[9]"] by (auto simp: numeral_2_eq_2)
qed

text \<open>the five comparison operators of \<open>timespecX\<close> order stamps whose nanoseconds are
  below one second exactly as the number of nanoseconds since the epoch orders them.\<close>

theorem timespecX_order:
  assumes "ts_ok a" "ts_ok b"
  shows "(timespecX_lt a b \<longleftrightarrow> ts_nanos a < ts_nanos b) \<and> (timespecX_gt a b \<longleftrightarrow> ts_nanos a > ts_nanos b) \<and>
    (timespecX_eq a b \<longleftrightarrow> ts_nanos a = ts_nanos b) \<and> (timespecX_le a b \<longleftrightarrow> ts_nanos a \<le> ts_nanos b) \<and>
    (timespecX_ge a b \<longleftrightarrow> ts_nanos a \<ge> ts_nanos b)"
proof -
  have "a < b \<longleftrightarrow> ts_nanos a < ts_nanos b" "b < a \<longleftrightarrow> ts_nanos b < ts_nanos a"
    using ts_less_nanos assms by blast+
  then show ?thesis
    unfolding timespecX_ops by (metis linorder_neq_iff nat_neq_iff not_le)
qed

theorem timespecX_order_witness:
  "timespecX_lt (TimespecX 3 999999999) (TimespecX 4 0) \<and> ts_nanos (TimespecX 3 999999999) < ts_nanos (TimespecX 4 0)"
  using timespecX_order [of "TimespecX 3 999999999" "TimespecX 4 0"]
  by (simp add: ts_ok_def ts_nanos_def)

text \<open>C25: \<open>meanTimespecX\<close> of two well-formed stamps is the midpoint of their nanosecond
  counts, rounded up, and is again well-formed, as long as the sum of the seconds stays below
  \<open>2 ^ 32\<close> (both stamps before 2038).\<close>

theorem meanTimespecX_midpoint:
  assumes "unat (time_s a) + unat (time_s b) < 2 ^ 32" "ts_ok a" "ts_ok b"
  shows "ts_ok (meanTimespecX a b) \<and>
    ts_nanos (meanTimespecX a b) = (ts_nanos a + ts_nanos b + 1) div 2"
  using mean_nanos [OF assms] by simp

theorem meanTimespecX_midpoint_witness:
  "ts_nanos (meanTimespecX (TimespecX 10 600000000) (TimespecX 11 800000001)) = 11200000001"
  using meanTimespecX_midpoint [of "TimespecX 10 600000000" "TimespecX 11 800000001"]
  by (simp add: ts_ok_def ts_nanos_def)

text \<open>Beyond 2038 the sum of the seconds wraps and the mean of two equal stamps is half of
  the wrapped sum.\<close>

lemma meanTimespecX_wraps:
  "meanTimespecX (TimespecX 2147483648 0) (TimespecX 2147483648 0) = TimespecX 0 0"
  by (simp add: meanTimespecX_def)

text \<open>\<open>logLevelFromString\<close> reads back every level name that \<open>priorityString\<close> writes.\<close>

theorem priority_roundtrip:
  assumes "prio \<in> {LOG_EMERGENCY, LOG_ALERT, LOG_CRITICAL, LOG_ERROR, LOG_WARNING, LOG_NOTICE,
    LOG_INFO, LOG_DEBUG, LOG_DEBUG2, LOG_DEFAULT, LOG_TELEM}"
  shows "logLevelFromString (priorityString prio) = Some prio"
proof -
  have "prio = LOG_EMERGENCY \<and> priorityString prio = ''EMER'' \<or> prio = LOG_ALERT \<and> priorityString prio = ''ALRT''
    \<or> prio = LOG_CRITICAL \<and> priorityString prio = ''CRIT'' \<or> prio = LOG_ERROR \<and> priorityString prio = ''ERR ''
    \<or> prio = LOG_WARNING \<and> priorityString prio = ''WARN'' \<or> prio = LOG_NOTICE \<and> priorityString prio = ''NOTE''
    \<or> prio = LOG_INFO \<and> priorityString prio = ''INFO'' \<or> prio = LOG_DEBUG \<and> priorityString prio = ''DBG ''
    \<or> prio = LOG_DEBUG2 \<and> priorityString prio = ''DBG2'' \<or> prio = LOG_DEFAULT \<and> priorityString prio = ''DEF?''
    \<or> prio = LOG_TELEM \<and> priorityString prio = ''TELM''"
    using assms by (auto simp: priorityString_def logPrio_defs)
  then show ?thesis by (elim disjE conjE) (simp_all add: level_names)
qed
theorem priority_roundtrip_witness:
  "logLevelFromString (priorityString LOG_DEBUG2) = Some LOG_DEBUG2"
  using priority_roundtrip [of LOG_DEBUG2] by simp

end
