(* ===== verification/FileNames.thy ===== *)
theory FileNames
  imports Calendar Flatlogs "HOL-Library.Char_ord" "HOL-Library.List_Lexorder"
begin

text \<open>
  Standard file and directory names (\<open>libMagAOX/file\<close>): the time stamp strings and relative
  paths of \<open>fileTimes.hpp\<close>, the date directories of \<open>stdSubDir\<close> and the parsed file names of
  \<open>stdFileName\<close>.

  Each class is a record of its data members, each method a function that returns the error
  code and the updated object (or the value and the error code stored through \<open>errc\<close>).
  Allocation does not fail, and the format strings are constant and well formed, so the
  branches for \<open>std::bad_alloc\<close> and \<open>std::format_error\<close> cannot be taken. mxlib's \<open>stoT\<close> is
  not part of the repository: it is a field of the parameter record \<open>mxlib\<close>, as is the value
  the C++ library gives to \<open>sys_days\<close> for a date whose month is out of range, which the
  standard leaves unspecified.
\<close>

section \<open>\<open>fileTimes.hpp\<close>\<close>

definition timestamp_tm :: "tm \<Rightarrow> int \<Rightarrow> string" where
  "timestamp_tm uttime ts_nsec =
     fmt0 4 (tm_year uttime + 1900) @ fmt0 2 (tm_mon uttime + 1) @ fmt0 2 (tm_mday uttime) @
     fmt0 2 (tm_hour uttime) @ fmt0 2 (tm_min uttime) @ fmt0 2 (tm_sec uttime) @ fmt0 9 ts_nsec"

definition timestamp_sec :: "int \<Rightarrow> int \<Rightarrow> error_t + string \<times> tm" where
  "timestamp_sec ts_sec ts_nsec =
     (case gmtime_r ts_sec of
        None \<Rightarrow> Inl eoverflow
      | Some uttime \<Rightarrow> Inr (timestamp_tm uttime ts_nsec, uttime))"

definition timestamp :: "int \<Rightarrow> int \<Rightarrow> error_t + string" where
  "timestamp ts_sec ts_nsec =
     (case timestamp_sec ts_sec ts_nsec of Inl e \<Rightarrow> Inl e | Inr (tstamp, uttime) \<Rightarrow> Inr tstamp)"

definition fileTimeRelPath :: "int \<Rightarrow> int \<Rightarrow> error_t + string \<times> string" where
  "fileTimeRelPath ts_sec ts_nsec =
     (if ts_sec = 0 \<and> ts_nsec = 0 then Inl invalidarg
      else case timestamp_sec ts_sec ts_nsec of
        Inl e \<Rightarrow> Inl e
      | Inr (tstamp, uttime) \<Rightarrow>
          Inr (tstamp,
            fmt0 4 (tm_year uttime + 1900) @ ''_'' @ fmt0 2 (tm_mon uttime + 1) @ ''_'' @
            fmt0 2 (tm_mday uttime)))"

definition fileTimeRelPath_dev ::
  "string \<Rightarrow> string \<Rightarrow> int \<Rightarrow> int \<Rightarrow> error_t + string \<times> string" where
  "fileTimeRelPath_dev devName ext ts_sec ts_nsec =
     (case fileTimeRelPath ts_sec ts_nsec of
        Inl e \<Rightarrow> Inl e
      | Inr (tstamp, tmprelpath) \<Rightarrow>
          Inr (devName @ ''_'' @ tstamp @ ''.'' @ ext, devName @ ''/'' @ tmprelpath))"

record tstamp_parts =
  p_YYYY :: string
  p_MM :: string
  p_DD :: string
  p_hh :: string
  p_mm :: string
  p_ss :: string
  p_nn :: string

definition parseTimestamp :: "string \<Rightarrow> error_t + tstamp_parts" where
  "parseTimestamp tstamp =
     (if length tstamp \<noteq> 23 then Inl invalidarg
      else Inr \<lparr>p_YYYY = substr tstamp 0 4, p_MM = substr tstamp 4 2, p_DD = substr tstamp 6 2,
                p_hh = substr tstamp 8 2, p_mm = substr tstamp 10 2, p_ss = substr tstamp 12 2,
                p_nn = substr tstamp 14 9\<rparr>)"

text \<open>The device name is set on every path, also when the time stamp is then rejected.\<close>

definition parseFilePath :: "string \<Rightarrow> string \<times> (error_t + tstamp_parts)" where
  "parseFilePath fname =
     (let est = (case rfind CHR ''.'' fname of None \<Rightarrow> length fname | Some n \<Rightarrow> n);
          (devName, dst, dend) =
            (case rfind_from CHR ''_'' fname est of
               None \<Rightarrow>
                 ([], case rfind_from CHR ''/'' fname est of None \<Rightarrow> 0 | Some n \<Rightarrow> n + 1, est)
             | Some dend \<Rightarrow>
                 (let dst = (case rfind_from CHR ''/'' fname dend of None \<Rightarrow> 0 | Some n \<Rightarrow> n + 1)
                  in (if dst \<ge> dend then [] else substr fname dst (dend - dst), dend + 1, est)))
      in (devName,
          if dend - dst \<noteq> 23 then Inl invalidarg else parseTimestamp (substr fname dst (dend - dst))))"

section \<open>Code outside the repository\<close>

text \<open>
  \<open>stoT\<close> returns the converted value together with the error code it sets.
\<close>

record mxlib =
  stoT_int :: "string \<Rightarrow> int \<times> error_t"
  stoT_uint :: "string \<Rightarrow> nat \<times> error_t"
  sys_days_unspec :: "int \<Rightarrow> nat \<Rightarrow> nat \<Rightarrow> int"

text \<open>What the code relies on: strings of at most nine decimal digits are converted.\<close>

definition decimal_lib :: "mxlib \<Rightarrow> bool" where
  "decimal_lib L \<longleftrightarrow>
     (\<forall>s. s \<noteq> [] \<and> length s \<le> 9 \<and> (\<forall>c \<in> set s. char_isdigit c) \<longrightarrow>
        stoT_int L s = (int (digits_val 0 s), noerror) \<and> stoT_uint L s = (digits_val 0 s, noerror))"

definition INT_MAX :: int where "INT_MAX = 2147483647"
definition UINT_MAX :: int where "UINT_MAX = 4294967295"

text \<open>Conversion of a value to the 32-bit \<open>int\<close> with the same bits.\<close>

definition to_int32 :: "int \<Rightarrow> int" where
  "to_int32 x = (x + 2 ^ 31) mod 2 ^ 32 - 2 ^ 31"

definition sys_days_of :: "mxlib \<Rightarrow> int \<Rightarrow> nat \<Rightarrow> nat \<Rightarrow> int" where
  "sys_days_of L year month day =
     (if - 32767 \<le> year \<and> year \<le> 32767 \<and> 1 \<le> month \<and> month \<le> 12 \<and> day \<le> 255
      then days_from_civil year (int month) 1 + int day - 1
      else sys_days_unspec L year month day)"

section \<open>\<open>stdSubDir\<close>\<close>

record stdSubDir =
  sd_sysday :: int
  sd_pathMade :: bool
  sd_path :: string
  sd_valid :: bool

definition stdSubDir_new :: stdSubDir where
  "stdSubDir_new = \<lparr>sd_sysday = 0, sd_pathMade = False, sd_path = [], sd_valid = False\<rparr>"

definition stdSubDir_sysdays :: "int \<Rightarrow> stdSubDir" where
  "stdSubDir_sysdays sysday = stdSubDir_new\<lparr>sd_sysday := sysday, sd_valid := True\<rparr>"

definition subdir_invalidate :: "stdSubDir \<Rightarrow> stdSubDir" where
  "subdir_invalidate d = d\<lparr>sd_path := [], sd_pathMade := False, sd_valid := False\<rparr>"

definition subdir_ymd :: "mxlib \<Rightarrow> int \<Rightarrow> nat \<Rightarrow> nat \<Rightarrow> stdSubDir \<Rightarrow> error_t \<times> stdSubDir" where
  "subdir_ymd L year month day d =
     (let d = subdir_invalidate d
      in (noerror, d\<lparr>sd_sysday := sys_days_of L year month day, sd_valid := True\<rparr>))"

definition subdir_path_set :: "mxlib \<Rightarrow> string \<Rightarrow> stdSubDir \<Rightarrow> error_t \<times> stdSubDir" where
  "subdir_path_set L subdir d =
     (let d = subdir_invalidate d in
      if length subdir \<noteq> 10 then (invalidarg, d)
      else if \<not> list_all (\<lambda>n. subdir ! n = CHR ''_'') [4, 7] then (invalidarg, d)
      else if \<not> list_all (\<lambda>n. char_isdigit (subdir ! n)) [0, 1, 2, 3, 5, 6, 8, 9] then (invalidarg, d)
      else
        let (year, errc) = stoT_int L (substr subdir 0 4) in if errc \<noteq> noerror then (errc, d) else
        let (month, errc) = stoT_uint L (substr subdir 5 2) in if errc \<noteq> noerror then (errc, d) else
        let (day, errc) = stoT_uint L (substr subdir 8 2) in if errc \<noteq> noerror then (errc, d) else
        (noerror,
         d\<lparr>sd_sysday := sys_days_of L year month day, sd_path := subdir, sd_pathMade := True,
           sd_valid := True\<rparr>))"

definition stdSubDir_ymd :: "mxlib \<Rightarrow> int \<Rightarrow> nat \<Rightarrow> nat \<Rightarrow> stdSubDir" where
  "stdSubDir_ymd L year month day = snd (subdir_ymd L year month day stdSubDir_new)"

definition stdSubDir_string :: "mxlib \<Rightarrow> string \<Rightarrow> stdSubDir" where
  "stdSubDir_string L subdir = snd (subdir_path_set L subdir stdSubDir_new)"

text \<open>\<open>{:%Y_%m_%d}\<close>: the year has at least four digits after its sign.\<close>

definition fmt_Ymd :: "int \<Rightarrow> string" where
  "fmt_Ymd sysday =
     (let (y, m, d) = civil_from_days sysday
      in (if y < 0 then ''-'' @ fmt0 4 (- y) else fmt0 4 y) @ ''_'' @ fmt0 2 m @ ''_'' @ fmt0 2 d)"

definition subdir_path :: "stdSubDir \<Rightarrow> string \<times> error_t \<times> stdSubDir" where
  "subdir_path d =
     (if \<not> sd_valid d then ([], invalidconfig, d)
      else let d = (if sd_pathMade d then d
                    else d\<lparr>sd_path := fmt_Ymd (sd_sysday d), sd_pathMade := True\<rparr>)
           in (sd_path d, noerror, d))"

definition subdir_year :: "stdSubDir \<Rightarrow> int \<times> error_t" where
  "subdir_year d =
     (if \<not> sd_valid d then (INT_MAX, invalidconfig)
      else (fst (civil_from_days (sd_sysday d)), noerror))"

definition subdir_month :: "stdSubDir \<Rightarrow> int \<times> error_t" where
  "subdir_month d =
     (if \<not> sd_valid d then (UINT_MAX, invalidconfig)
      else (fst (snd (civil_from_days (sd_sysday d))), noerror))"

definition subdir_day :: "stdSubDir \<Rightarrow> int \<times> error_t" where
  "subdir_day d =
     (if \<not> sd_valid d then (UINT_MAX, invalidconfig)
      else (snd (snd (civil_from_days (sd_sysday d))), noerror))"

definition addDay :: "stdSubDir \<Rightarrow> error_t \<times> stdSubDir" where
  "addDay d =
     (if \<not> sd_valid d then (invalidconfig, d)
      else (noerror, d\<lparr>sd_pathMade := False, sd_sysday := sd_sysday d + 1\<rparr>))"

definition subDay :: "stdSubDir \<Rightarrow> error_t \<times> stdSubDir" where
  "subDay d =
     (if \<not> sd_valid d then (invalidconfig, d)
      else (noerror, d\<lparr>sd_sysday := sd_sysday d - 1, sd_pathMade := False\<rparr>))"

definition previousSubdir :: "stdSubDir \<Rightarrow> stdSubDir \<times> error_t" where
  "previousSubdir d =
     (if \<not> sd_valid d then (stdSubDir_new, invalidconfig)
      else let (errc, d') = subDay d in (d', errc))"

definition followingSubdir :: "stdSubDir \<Rightarrow> stdSubDir \<times> error_t" where
  "followingSubdir d =
     (if \<not> sd_valid d then (stdSubDir_new, invalidconfig)
      else let (errc, d') = addDay d in (d', errc))"

definition subdir_eq :: "stdSubDir \<Rightarrow> stdSubDir \<Rightarrow> bool" where
  "subdir_eq a b \<longleftrightarrow> sd_sysday a = sd_sysday b"

definition subdir_ne :: "stdSubDir \<Rightarrow> stdSubDir \<Rightarrow> bool" where
  "subdir_ne a b \<longleftrightarrow> sd_sysday a \<noteq> sd_sysday b"

definition subdir_lt :: "stdSubDir \<Rightarrow> stdSubDir \<Rightarrow> bool" where
  "subdir_lt a b \<longleftrightarrow> sd_sysday a < sd_sysday b"

definition subdir_le :: "stdSubDir \<Rightarrow> stdSubDir \<Rightarrow> bool" where
  "subdir_le a b \<longleftrightarrow> sd_sysday a \<le> sd_sysday b"

definition subdir_gt :: "stdSubDir \<Rightarrow> stdSubDir \<Rightarrow> bool" where
  "subdir_gt a b \<longleftrightarrow> sd_sysday a > sd_sysday b"

definition subdir_ge :: "stdSubDir \<Rightarrow> stdSubDir \<Rightarrow> bool" where
  "subdir_ge a b \<longleftrightarrow> sd_sysday a \<ge> sd_sysday b"

section \<open>\<open>stdFileName\<close>\<close>

record stdFileName =
  fn_fullName :: string
  fn_baseName :: string
  fn_extension :: string
  fn_appName :: string
  fn_subDir :: stdSubDir
  fn_hour :: int
  fn_minute :: int
  fn_second :: int
  fn_nsec :: int
  fn_timestamp :: timespecX
  fn_valid :: bool

definition stdFileName_new :: stdFileName where
  "stdFileName_new =
     \<lparr>fn_fullName = [], fn_baseName = [], fn_extension = [], fn_appName = [],
      fn_subDir = stdSubDir_new, fn_hour = 0, fn_minute = 0, fn_second = 0, fn_nsec = 0,
      fn_timestamp = TimespecX 0 0, fn_valid = False\<rparr>"

definition filename_invalidate :: "stdFileName \<Rightarrow> stdFileName" where
  "filename_invalidate f =
     f\<lparr>fn_appName := [], fn_baseName := [], fn_extension := [], fn_fullName := [],
       fn_subDir := subdir_invalidate (fn_subDir f), fn_valid := False\<rparr>"

text \<open>\<open>std::filesystem::path::filename\<close> and \<open>extension\<close>.\<close>

definition path_filename :: "string \<Rightarrow> string" where
  "path_filename p = (case rfind CHR ''/'' p of None \<Rightarrow> p | Some n \<Rightarrow> drop (n + 1) p)"

definition path_extension :: "string \<Rightarrow> string" where
  "path_extension p =
     (let f = path_filename p in
      if f = ''.'' \<or> f = ''..'' then []
      else case rfind CHR ''.'' f of None \<Rightarrow> [] | Some n \<Rightarrow> if n = 0 then [] else drop n f)"

definition fullName_set :: "mxlib \<Rightarrow> string \<Rightarrow> stdFileName \<Rightarrow> error_t \<times> stdFileName" where
  "fullName_set L fn f =
     (let f = filename_invalidate f;
          f = f\<lparr>fn_fullName := fn\<rparr>;
          f = f\<lparr>fn_baseName := path_filename fn, fn_extension := path_extension fn\<rparr>
      in if fn_extension f = [] then (invalidarg, f)
      else let (appName, r) = parseFilePath (fn_baseName f); f = f\<lparr>fn_appName := appName\<rparr> in
      case r of
        Inl e \<Rightarrow> (e, f)
      | Inr p \<Rightarrow>
        let (year, errc) = stoT_int L (p_YYYY p) in if errc \<noteq> noerror then (errc, f) else
        let (month, errc) = stoT_uint L (p_MM p) in if errc \<noteq> noerror then (errc, f) else
        let (day, errc) = stoT_uint L (p_DD p) in if errc \<noteq> noerror then (errc, f) else
        let (v, errc) = stoT_int L (p_hh p); f = f\<lparr>fn_hour := v\<rparr> in if errc \<noteq> noerror then (errc, f) else
        let (v, errc) = stoT_int L (p_mm p); f = f\<lparr>fn_minute := v\<rparr> in if errc \<noteq> noerror then (errc, f) else
        let (v, errc) = stoT_int L (p_ss p); f = f\<lparr>fn_second := v\<rparr> in if errc \<noteq> noerror then (errc, f) else
        let (v, errc) = stoT_int L (p_nn p); f = f\<lparr>fn_nsec := v\<rparr> in if errc \<noteq> noerror then (errc, f) else
        let (errc, sd) = subdir_ymd L year month day (fn_subDir f); f = f\<lparr>fn_subDir := sd\<rparr> in
        if errc \<noteq> noerror then (errc, f) else
        let tmst = \<lparr>tm_year = year - 1900, tm_mon = to_int32 (int month - 1),
                    tm_mday = to_int32 (int day), tm_hour = fn_hour f, tm_min = fn_minute f,
                    tm_sec = fn_second f\<rparr> in
        case timegm tmst of
          None \<Rightarrow> (eoverflow, f)
        | Some tgm \<Rightarrow>
          if tgm = - 1 then (error, f)
          else (noerror,
                f\<lparr>fn_timestamp := TimespecX (word_of_int tgm) (word_of_int (fn_nsec f)), fn_valid := True\<rparr>))"

definition stdFileName_string :: "mxlib \<Rightarrow> string \<Rightarrow> stdFileName" where
  "stdFileName_string L fn = snd (fullName_set L fn stdFileName_new)"

text \<open>Assignment from a string keeps the object and reports the error only.\<close>

definition filename_assign :: "mxlib \<Rightarrow> string \<Rightarrow> stdFileName \<Rightarrow> stdFileName" where
  "filename_assign L fn f = snd (fullName_set L fn f)"

definition getter_errc :: "stdFileName \<Rightarrow> error_t" where
  "getter_errc f = (if \<not> fn_valid f then invalidconfig else noerror)"

definition get_fullName :: "stdFileName \<Rightarrow> string \<times> error_t" where
  "get_fullName f = (fn_fullName f, getter_errc f)"

definition get_baseName :: "stdFileName \<Rightarrow> string \<times> error_t" where
  "get_baseName f = (fn_baseName f, getter_errc f)"

definition get_extension :: "stdFileName \<Rightarrow> string \<times> error_t" where
  "get_extension f = (fn_extension f, getter_errc f)"

definition get_appName :: "stdFileName \<Rightarrow> string \<times> error_t" where
  "get_appName f = (fn_appName f, getter_errc f)"

definition get_subDir :: "stdFileName \<Rightarrow> stdSubDir \<times> error_t" where
  "get_subDir f = (fn_subDir f, getter_errc f)"

definition get_year :: "stdFileName \<Rightarrow> int \<times> error_t" where
  "get_year f =
     (if \<not> fn_valid f then (INT_MAX, invalidconfig) else (fst (subdir_year (fn_subDir f)), noerror))"

definition get_month :: "stdFileName \<Rightarrow> int \<times> error_t" where
  "get_month f =
     (if \<not> fn_valid f then (UINT_MAX, invalidconfig) else (fst (subdir_month (fn_subDir f)), noerror))"

definition get_day :: "stdFileName \<Rightarrow> int \<times> error_t" where
  "get_day f =
     (if \<not> fn_valid f then (UINT_MAX, invalidconfig) else (fst (subdir_day (fn_subDir f)), noerror))"

definition get_hour :: "stdFileName \<Rightarrow> int \<times> error_t" where
  "get_hour f = (if \<not> fn_valid f then (INT_MAX, invalidconfig) else (fn_hour f, noerror))"

definition get_minute :: "stdFileName \<Rightarrow> int \<times> error_t" where
  "get_minute f = (if \<not> fn_valid f then (INT_MAX, invalidconfig) else (fn_minute f, noerror))"

definition get_second :: "stdFileName \<Rightarrow> int \<times> error_t" where
  "get_second f = (if \<not> fn_valid f then (INT_MAX, invalidconfig) else (fn_second f, noerror))"

definition get_nsec :: "stdFileName \<Rightarrow> int \<times> error_t" where
  "get_nsec f = (if \<not> fn_valid f then (INT_MAX, invalidconfig) else (fn_nsec f, noerror))"

definition get_timestamp :: "stdFileName \<Rightarrow> timespecX \<times> error_t" where
  "get_timestamp f =
     (if \<not> fn_valid f then (TimespecX 0 0, invalidconfig) else (fn_timestamp f, noerror))"

definition compStdFileName :: "stdFileName \<Rightarrow> stdFileName \<Rightarrow> bool" where
  "compStdFileName a b \<longleftrightarrow> fst (get_baseName a) < fst (get_baseName b)"

section \<open>Searching backwards\<close>

lemma rfind_from_Some_iff:
  "rfind_from c s n = Some k \<longleftrightarrow>
     k \<le> n \<and> k < length s \<and> s ! k = c \<and> (\<forall>i. k < i \<and> i \<le> n \<and> i < length s \<longrightarrow> s ! i \<noteq> c)"
proof (induction n)
  case (Suc n)
  show ?case
  proof (cases "Suc n < length s \<and> s ! Suc n = c")
    case True
    then show ?thesis by (auto simp: not_le) (metis le_refl le_neq_implies_less)
  next
    case False
    then show ?thesis by (auto simp: Suc le_Suc_eq)
  qed
qed auto

lemma rfind_from_None_iff: "rfind_from c s n = None \<longleftrightarrow> (\<forall>i \<le> n. i < length s \<longrightarrow> s ! i \<noteq> c)"
  by (induction n) (auto simp: le_Suc_eq)

lemma rfind_from_last:
  assumes "c \<notin> set ys" "length xs \<le> n" "n \<le> length xs + length ys"
  shows "rfind_from c (xs @ c # ys @ zs) n = Some (length xs)"
proof -
  have "(xs @ c # ys @ zs) ! i \<noteq> c" if "length xs < i" "i \<le> n" for i
  proof -
    have "(xs @ c # ys @ zs) ! i = ys ! (i - length xs - 1)"
      using that assms(3) by (auto simp: nth_append nth_Cons')
    moreover have "i - length xs - 1 < length ys" using that assms(3) by auto
    ultimately show ?thesis using assms(1) by (metis nth_mem)
  qed
  then show ?thesis using assms(2) by (simp add: rfind_from_Some_iff)
qed

lemma rfind_last: "c \<notin> set ys \<Longrightarrow> rfind c (xs @ c # ys) = Some (length xs)"
proof -
  assume "c \<notin> set ys"
  have "rfind_from c (xs @ c # ys) (length xs + length ys) = Some (length xs)"
    using rfind_from_last [OF \<open>c \<notin> set ys\<close>, of xs "length xs + length ys" "[]"] by simp
  then show ?thesis by (simp add: rfind_def)
qed

lemma rfind_absent: "c \<notin> set s \<Longrightarrow> rfind c s = None"
  by (auto simp: rfind_def rfind_from_None_iff)

lemma rfind_from_absent: "c \<notin> set xs \<Longrightarrow> n < length xs \<Longrightarrow> rfind_from c (xs @ ys) n = None"
  by (auto simp: rfind_from_None_iff nth_append)

lemma digit_not_sep: "char_isdigit c \<Longrightarrow> c \<noteq> CHR ''_'' \<and> c \<noteq> CHR ''.'' \<and> c \<noteq> CHR ''/''"
  by (auto simp: char_isdigit_def)

section \<open>Parsing a standard file name\<close>

lemma parseFilePath_std:
  assumes ts: "length ts = 23" "\<forall>c \<in> set ts. char_isdigit c"
    and dev: "CHR ''/'' \<notin> set dev" and ext: "CHR ''.'' \<notin> set ext"
  shows "parseFilePath (dev @ ''_'' @ ts @ ''.'' @ ext) = (dev, parseTimestamp ts)"
proof -
  let ?s = "dev @ ''_'' @ ts @ ''.'' @ ext"
  have nts: "CHR ''_'' \<notin> set ts" using ts(2) digit_not_sep by blast
  have "rfind CHR ''.'' ?s = Some (length dev + 24)"
    using rfind_last [OF ext, of "dev @ ''_'' @ ts"] ts(1) by simp
  moreover have "rfind_from CHR ''_'' ?s (length dev + 24) = Some (length dev)"
    using rfind_from_last [of "CHR ''_''" "ts @ ''.''" dev "length dev + 24" ext] nts ts(1) by simp
  moreover have "rfind_from CHR ''/'' ?s (length dev) = None"
    using rfind_from_absent [of "CHR ''/''" "dev @ ''_''" "length dev" "ts @ ''.'' @ ext"] dev by simp
  ultimately show ?thesis
    using ts(1) by (simp add: parseFilePath_def substr_def)
qed

lemma parseTimestamp_digits:
  assumes "length a = 4" "length b = 2" "length c = 2" "length d = 2" "length e = 2" "length f = 2"
    "length g = 9"
  shows "parseTimestamp (a @ b @ c @ d @ e @ f @ g) =
    Inr \<lparr>p_YYYY = a, p_MM = b, p_DD = c, p_hh = d, p_mm = e, p_ss = f, p_nn = g\<rparr>"
  using assms by (simp add: parseTimestamp_def substr_def)

lemma path_filename_dir: "CHR ''/'' \<notin> set f \<Longrightarrow> path_filename (dir @ ''/'' @ f) = f"
  using rfind_last [of "CHR ''/''" f dir] by (simp add: path_filename_def)

lemma path_extension_std:
  assumes "path_filename p = x @ ''.'' @ ext" "2 \<le> length x" "CHR ''.'' \<notin> set ext"
  shows "path_extension p = ''.'' @ ext"
proof -
  have "length (path_filename p) \<ge> 3" using assms by simp
  then have "path_filename p \<noteq> ''.''" "path_filename p \<noteq> ''..''" by auto
  then show ?thesis
    using assms rfind_last [OF assms(3), of x] by (auto simp: path_extension_def Let_def)
qed

section \<open>The fields of a time within the range of \<open>timespecX\<close>\<close>

lemma sec_days:
  fixes sec :: int
  assumes "0 \<le> sec" "sec < 2 ^ 32"
  shows "0 \<le> sec div 86400" "sec div 86400 < days_from_civil 10000 1 1"
proof -
  show "0 \<le> sec div 86400" using assms by (simp add: pos_imp_zdiv_nonneg_iff)
  have "sec div 86400 \<le> (2 ^ 32) div 86400" using assms by (intro zdiv_mono1) auto
  also have "\<dots> < days_from_civil 10000 1 1"
    by (simp add: days_from_civil_def days_before_year_def days_before_month_def epoch_days_def)
  finally show "sec div 86400 < days_from_civil 10000 1 1" .
qed

lemma days_in_month_le: "days_in_month y m \<le> 31"
  using leap_day_01 [of y] by (auto simp: days_in_month_def)

definition hour_of :: "int \<Rightarrow> int" where "hour_of sec = (sec mod 86400) div 3600"
definition min_of :: "int \<Rightarrow> int" where "min_of sec = ((sec mod 86400) div 60) mod 60"
definition sec_of :: "int \<Rightarrow> int" where "sec_of sec = (sec mod 86400) mod 60"

lemma hms_bounds:
  "0 \<le> hour_of sec" "hour_of sec < 24" "0 \<le> min_of sec" "min_of sec < 60"
  "0 \<le> sec_of sec" "sec_of sec < 60"
proof -
  have "0 \<le> sec mod 86400" "sec mod 86400 < 86400" by simp_all
  then show "0 \<le> hour_of sec" "hour_of sec < 24"
    unfolding hour_of_def by (simp_all add: pos_imp_zdiv_nonneg_iff div_less_iff_less_mult)
  show "0 \<le> min_of sec" "min_of sec < 60" "0 \<le> sec_of sec" "sec_of sec < 60"
    unfolding min_of_def sec_of_def by (rule pos_mod_sign pos_mod_bound; simp)+
qed

lemma gmtime_fields:
  assumes "0 \<le> sec" "sec < 2 ^ 32" "civil_from_days (sec div 86400) = (y, m, d)"
  shows "gmtime_r sec = Some \<lparr>tm_year = y - 1900, tm_mon = m - 1, tm_mday = d,
      tm_hour = hour_of sec, tm_min = min_of sec, tm_sec = sec_of sec\<rparr>"
    and "1970 \<le> y" "y \<le> 9999" "1 \<le> m" "m \<le> 12" "1 \<le> d" "d \<le> 31"
    and "days_from_civil y m d = sec div 86400"
proof -
  show y: "1970 \<le> y" "y \<le> 9999"
    using year_range [OF assms(3)] sec_days [OF assms(1,2)] by auto
  show "1 \<le> m" "m \<le> 12" "1 \<le> d" "d \<le> 31"
    using date_of_civil(2) [OF assms(3)] days_in_month_le [of y m] by (auto simp: valid_date_def)
  have "\<not> (y - 1900 < - (2 ^ 31) \<or> 2 ^ 31 \<le> y - 1900)" using y by simp
  then show "gmtime_r sec = Some \<lparr>tm_year = y - 1900, tm_mon = m - 1, tm_mday = d,
      tm_hour = hour_of sec, tm_min = min_of sec, tm_sec = sec_of sec\<rparr>"
    by (simp only: gmtime_r_def assms(3) hour_of_def min_of_def sec_of_def Let_def prod.case if_False)
  show "days_from_civil y m d = sec div 86400" using date_of_civil(1) [OF assms(3)] .
qed

lemma fmt0_dec:
  "0 \<le> i \<Longrightarrow> i < 100 \<Longrightarrow> fmt0 2 i = dec_digits 2 (nat i)"
  "0 \<le> i \<Longrightarrow> i < 10000 \<Longrightarrow> fmt0 4 i = dec_digits 4 (nat i)"
  "0 \<le> i \<Longrightarrow> i < 1000000000 \<Longrightarrow> fmt0 9 i = dec_digits 9 (nat i)"
  by (rule fmt0_nat; simp)+


text \<open>The 23 characters of a time stamp and its date directory, on the digits of the fields.\<close>

definition stamp_str :: "int \<Rightarrow> int \<Rightarrow> string" where
  "stamp_str sec ns =
     (let (y, m, d) = civil_from_days (sec div 86400) in
      dec_digits 4 (nat y) @ dec_digits 2 (nat m) @ dec_digits 2 (nat d) @
      dec_digits 2 (nat (hour_of sec)) @ dec_digits 2 (nat (min_of sec)) @
      dec_digits 2 (nat (sec_of sec)) @ dec_digits 9 (nat ns))"

definition date_str :: "int \<Rightarrow> string" where
  "date_str z =
     (let (y, m, d) = civil_from_days z
      in dec_digits 4 (nat y) @ ''_'' @ dec_digits 2 (nat m) @ ''_'' @ dec_digits 2 (nat d))"

lemma fileTimeRelPath_ok:
  assumes "0 \<le> sec" "sec < 2 ^ 32" "0 \<le> ns" "ns < 1000000000" "sec \<noteq> 0 \<or> ns \<noteq> 0"
  shows "fileTimeRelPath sec ns = Inr (stamp_str sec ns, date_str (sec div 86400))"
proof -
  obtain y m d where c: "civil_from_days (sec div 86400) = (y, m, d)" by (metis prod_cases3)
  note g = gmtime_fields [OF assms(1,2) c] and h = hms_bounds [of sec]
  have "timestamp_sec sec ns = Inr (stamp_str sec ns, the (gmtime_r sec))"
    using g h assms by (simp add: timestamp_sec_def timestamp_tm_def stamp_str_def c fmt0_dec Let_def)
  then show ?thesis
    using g assms by (auto simp: fileTimeRelPath_def date_str_def c fmt0_dec)
qed

lemma stamp_str_digits: "\<forall>c \<in> set (stamp_str sec ns). char_isdigit c"
  using dec_digits_digits by (auto simp: stamp_str_def Let_def split: prod.splits)

lemma length_stamp_str: "length (stamp_str sec ns) = 23"
  by (simp add: stamp_str_def Let_def split: prod.splits)

lemma stoT_dec:
  assumes "decimal_lib L" "0 < w" "w \<le> 9" "v < 10 ^ w"
  shows "stoT_int L (dec_digits w v) = (int v, noerror)" "stoT_uint L (dec_digits w v) = (v, noerror)"
proof -
  have "dec_digits w v \<noteq> []" "length (dec_digits w v) \<le> 9"
    using assms(2,3) length_dec_digits [of w v] by (auto simp del: length_dec_digits)
  then show "stoT_int L (dec_digits w v) = (int v, noerror)" "stoT_uint L (dec_digits w v) = (v, noerror)"
    using assms dec_digits_digits [of w v] digits_val_dec_digits [of v w]
    by (simp_all add: decimal_lib_def)
qed

lemma to_int32_id: "- (2 ^ 31) \<le> x \<Longrightarrow> x < 2 ^ 31 \<Longrightarrow> to_int32 x = x"
  by (simp add: to_int32_def)

text \<open>The object that \<open>fullName\<close> builds from a well-formed name.\<close>

definition parsed_name :: "string \<Rightarrow> string \<Rightarrow> string \<Rightarrow> string \<Rightarrow> int \<Rightarrow> int \<Rightarrow> stdFileName" where
  "parsed_name full base dev ext sec ns =
     \<lparr>fn_fullName = full, fn_baseName = base, fn_extension = ''.'' @ ext, fn_appName = dev,
      fn_subDir = stdSubDir_sysdays (sec div 86400), fn_hour = hour_of sec,
      fn_minute = min_of sec, fn_second = sec_of sec, fn_nsec = ns,
      fn_timestamp = TimespecX (word_of_int sec) (word_of_int ns), fn_valid = True\<rparr>"

lemma fullName_set_ok:
  assumes L: "decimal_lib L" and r: "0 \<le> sec" "sec < 2 ^ 32" "0 \<le> ns" "ns < 1000000000"
    and dev: "CHR ''/'' \<notin> set dev" and ext: "CHR ''.'' \<notin> set ext" "CHR ''/'' \<notin> set ext"
    and base: "base = dev @ ''_'' @ stamp_str sec ns @ ''.'' @ ext"
    and full: "full = dir @ ''/'' @ base"
  shows "fullName_set L full f = (noerror, parsed_name full base dev ext sec ns)"
proof -
  obtain y m d where c: "civil_from_days (sec div 86400) = (y, m, d)" by (metis prod_cases3)
  define h i k where "h = hour_of sec" and "i = min_of sec" and "k = sec_of sec"
  note g = gmtime_fields [OF r(1,2) c, folded h_def i_def k_def]
    and hik = hms_bounds [of sec, folded h_def i_def k_def]
  have "CHR ''/'' \<notin> set (stamp_str sec ns)" using stamp_str_digits digit_not_sep by blast
  then have "CHR ''/'' \<notin> set base" using dev ext by (auto simp: base)
  then have fname: "path_filename full = base" unfolding full by (rule path_filename_dir)
  then have ex: "path_extension full = ''.'' @ ext"
    using ext(1) length_stamp_str [of sec ns]
    by (intro path_extension_std [of _ "dev @ ''_'' @ stamp_str sec ns"]) (auto simp: base)
  have parse: "parseFilePath base = (dev, parseTimestamp (stamp_str sec ns))"
    unfolding base using length_stamp_str stamp_str_digits dev ext(1) by (intro parseFilePath_std) auto
  have parts: "parseTimestamp (stamp_str sec ns) =
      Inr \<lparr>p_YYYY = dec_digits 4 (nat y), p_MM = dec_digits 2 (nat m), p_DD = dec_digits 2 (nat d),
        p_hh = dec_digits 2 (nat h), p_mm = dec_digits 2 (nat i), p_ss = dec_digits 2 (nat k),
        p_nn = dec_digits 9 (nat ns)\<rparr>"
    by (simp add: stamp_str_def c h_def i_def k_def parseTimestamp_digits)
  have conv: "stoT_int L (dec_digits 4 (nat y)) = (y, noerror)" "stoT_uint L (dec_digits 2 (nat m)) = (nat m, noerror)"
    "stoT_uint L (dec_digits 2 (nat d)) = (nat d, noerror)" "stoT_int L (dec_digits 2 (nat h)) = (h, noerror)"
    "stoT_int L (dec_digits 2 (nat i)) = (i, noerror)" "stoT_int L (dec_digits 2 (nat k)) = (k, noerror)"
    "stoT_int L (dec_digits 9 (nat ns)) = (ns, noerror)"
    using stoT_dec [OF L] g hik r by simp_all
  have sd: "sys_days_of L y (nat m) (nat d) = sec div 86400"
  proof -
    have "1 \<le> nat m" "nat m \<le> 12" "nat d \<le> 255" using g by linarith+
    then show ?thesis using g by (simp add: sys_days_of_def days_from_civil_def)
  qed
  have md: "0 \<le> m" "0 \<le> d" using g by auto
  have tm: "timegm \<lparr>tm_year = y - 1900, tm_mon = to_int32 (m - 1), tm_mday = to_int32 d,
      tm_hour = h, tm_min = i, tm_sec = k\<rparr> = Some sec"
    using timegm_gmtime [OF g(1)] g by (simp add: to_int32_id)
  have neg: "sec \<noteq> - 1" using r by simp
  show ?thesis
    unfolding fullName_set_def
    by (cases f; cases "fn_subDir f") (simp add: fname ex parse parts conv sd md tm neg filename_invalidate_def subdir_ymd_def
        subdir_invalidate_def parsed_name_def h_def [symmetric] i_def [symmetric]
        k_def [symmetric] stdSubDir_sysdays_def stdSubDir_new_def Let_def cong: let_weak_cong)
qed


section \<open>Names sort by time\<close>

lemma less_append_same_length:
  fixes xs ys :: string
  assumes "length xs = length ys" "xs \<noteq> ys"
  shows "xs @ s < ys @ t \<longleftrightarrow> xs < ys"
  using assms by (induction xs ys rule: list_induct2) auto

lemma less_append_prefix:
  fixes p :: string
  shows "p @ s < p @ t \<longleftrightarrow> s < t"
  by (induction p) auto

lemma digits_val_acc: "digits_val acc xs = acc * 10 ^ length xs + digits_val 0 xs"
proof (induction xs arbitrary: acc)
  case (Cons c xs)
  show ?case
    using Cons [of "10 * acc + digit_val c"] Cons [of "digit_val c"] by (simp add: algebra_simps)
qed simp

lemma digit_val_bound: "char_isdigit c \<Longrightarrow> digit_val c < 10"
  unfolding char_isdigit_def digit_val_def by arith

lemma digits_val_bound: "\<forall>c \<in> set xs. char_isdigit c \<Longrightarrow> digits_val 0 xs < 10 ^ length xs"
proof (induction xs)
  case (Cons c xs)
  then have "digits_val 0 xs < 10 ^ length xs" "digit_val c \<le> 9"
    using digit_val_bound [of c] by auto
  then have "digit_val c * 10 ^ length xs + digits_val 0 xs < 9 * 10 ^ length xs + 10 ^ length xs"
    by (intro add_le_less_mono mult_right_mono) auto
  then show ?case
    using digits_val_acc [of "digit_val c" xs] by simp
qed simp

lemma digit_less: "char_isdigit c \<Longrightarrow> char_isdigit d \<Longrightarrow> c < d \<longleftrightarrow> digit_val c < digit_val d"
  by (auto simp: char_isdigit_def digit_val_def less_char_def)

lemma digits_less:
  assumes "length xs = length ys" "\<forall>c \<in> set xs. char_isdigit c" "\<forall>c \<in> set ys. char_isdigit c"
  shows "xs < ys \<longleftrightarrow> digits_val 0 xs < digits_val 0 ys"
  using assms
proof (induction xs ys rule: list_induct2)
  case (Cons x xs y ys)
  let ?B = "10 ^ length xs :: nat"
  have e: "digits_val 0 (x # xs) = digit_val x * ?B + digits_val 0 xs"
    "digits_val 0 (y # ys) = digit_val y * ?B + digits_val 0 ys"
    using digits_val_acc [of "digit_val x" xs] digits_val_acc [of "digit_val y" ys] Cons.hyps by simp_all
  have b: "digits_val 0 xs < ?B" "digits_val 0 ys < ?B"
    using Cons digits_val_bound [of xs] digits_val_bound [of ys] by auto
  have dd: "char_isdigit x" "char_isdigit y" using Cons by auto
  show ?case
  proof (cases "digit_val x" "digit_val y" rule: linorder_cases)
    case less
    then have "(digit_val x + 1) * ?B \<le> digit_val y * ?B" by (intro mult_right_mono) auto
    then show ?thesis using less b e digit_less [OF dd] by (auto simp: algebra_simps)
  next
    case equal
    then have "x = y" using dd digit_less [of x y] digit_less [of y x] by (metis linorder_neq_iff)
    then show ?thesis using Cons e by auto
  next
    case greater
    then have "(digit_val y + 1) * ?B \<le> digit_val x * ?B" by (intro mult_right_mono) auto
    then show ?thesis using greater b e digit_less [OF dd] digit_less [OF dd(2,1)]
      by (auto simp: algebra_simps)
  qed
qed simp

lemma digits_val_dec: "v < 10 ^ w \<Longrightarrow> digits_val acc (dec_digits w v) = acc * 10 ^ w + v"
  using digits_val_acc [of acc "dec_digits w v"] by (simp add: digits_val_dec_digits)


text \<open>A two-digit positional number grows with its quotient and remainder.\<close>

lemma place_less:
  fixes q q' r r' B :: int
  assumes "0 \<le> r" "r < B" "0 \<le> r'" "r' < B" "q < q' \<or> q = q' \<and> r < r'"
  shows "q * B + r < q' * B + r'"
proof (cases "q < q'")
  case True
  then have "(q + 1) * B \<le> q' * B" using assms by (intro mult_right_mono) auto
  then show ?thesis using assms by (simp add: algebra_simps)
qed (use assms in auto)

definition date_num :: "int \<times> int \<times> int \<Rightarrow> int" where
  "date_num c = (case c of (y, m, d) \<Rightarrow> (y * 100 + m) * 100 + d)"

definition tod_num :: "int \<Rightarrow> int" where
  "tod_num sec = (hour_of sec * 100 + min_of sec) * 100 + sec_of sec"

lemma div_mod_less:
  fixes u v k :: int
  assumes "u < v" "0 < k"
  shows "u div k < v div k \<or> u div k = v div k \<and> u mod k < v mod k"
proof -
  have "u div k \<le> v div k" using assms by (intro zdiv_mono1) auto
  moreover have "u = k * (u div k) + u mod k" "v = k * (v div k) + v mod k" by simp_all
  ultimately show ?thesis using assms by (metis add_less_cancel_left order.strict_iff_order)
qed

lemma tod_num_less:
  assumes "u mod 86400 < v mod 86400"
  shows "tod_num u < tod_num v"
proof -
  have h: "hour_of x = (x mod 86400) div 60 div 60" for x
    using zdiv_zmult2_eq [of 60 "x mod 86400" 60] by (simp add: hour_of_def)
  consider "(u mod 86400) div 60 < (v mod 86400) div 60"
    | "(u mod 86400) div 60 = (v mod 86400) div 60" "sec_of u < sec_of v"
    using div_mod_less [OF assms, of 60, OF zero_less_numeral] unfolding sec_of_def by blast
  then have "hour_of u * 100 + min_of u < hour_of v * 100 + min_of v \<or>
      hour_of u * 100 + min_of u = hour_of v * 100 + min_of v \<and> sec_of u < sec_of v"
  proof cases
    case 1
    from div_mod_less [OF this, of 60, OF zero_less_numeral]
    have "hour_of u < hour_of v \<or> hour_of u = hour_of v \<and> min_of u < min_of v"
      by (simp only: h min_of_def)
    then have "hour_of u * 100 + min_of u < hour_of v * 100 + min_of v"
      using hms_bounds [of u] hms_bounds [of v] by (intro place_less) auto
    then show ?thesis by simp
  next
    case 2
    then show ?thesis by (simp add: h min_of_def)
  qed
  then show ?thesis
    unfolding tod_num_def using hms_bounds [of u] hms_bounds [of v] by (intro place_less) auto
qed

lemma date_num_less:
  assumes "date_less (y, m, d) (y', m', d')" "0 \<le> m" "m < 100" "0 \<le> m'" "m' < 100"
    "0 \<le> d" "d < 100" "0 \<le> d'" "d' < 100"
  shows "date_num (y, m, d) < date_num (y', m', d')"
proof -
  have "y * 100 + m < y' * 100 + m' \<or> y * 100 + m = y' * 100 + m' \<and> d < d'"
    using assms place_less [of m 100 m' y y'] by (auto simp: date_less_def)
  then show ?thesis
    unfolding date_num_def prod.case using assms by (intro place_less) auto
qed

lemma tod_num_bounds: "0 \<le> tod_num sec" "tod_num sec < 1000000"
  using hms_bounds [of sec] by (auto simp: tod_num_def)

definition stamp_num :: "int \<Rightarrow> int \<Rightarrow> int" where
  "stamp_num sec ns =
     (date_num (civil_from_days (sec div 86400)) * 1000000 + tod_num sec) * 1000000000 + ns"

lemma stamp_str_val:
  assumes "0 \<le> sec" "sec < 2 ^ 32" "0 \<le> ns" "ns < 1000000000"
  shows "int (digits_val 0 (stamp_str sec ns)) = stamp_num sec ns"
proof -
  obtain y m d where c: "civil_from_days (sec div 86400) = (y, m, d)" by (metis prod_cases3)
  note g = gmtime_fields [OF assms(1,2) c] and h = hms_bounds [of sec]
  show ?thesis
    using g h assms
    by (simp add: stamp_str_def c digits_val_append digits_val_dec stamp_num_def date_num_def tod_num_def)
qed

lemma stamp_num_less:
  assumes "0 \<le> u" "u < 2 ^ 32" "0 \<le> v" "v < 2 ^ 32" "0 \<le> a" "a < 1000000000" "0 \<le> b" "b < 1000000000"
    and "u < v \<or> u = v \<and> a < b"
  shows "stamp_num u a < stamp_num v b"
proof -
  obtain y m d where c: "civil_from_days (u div 86400) = (y, m, d)" by (metis prod_cases3)
  obtain y' m' d' where c': "civil_from_days (v div 86400) = (y', m', d')" by (metis prod_cases3)
  note g = gmtime_fields [OF assms(1,2) c] and g' = gmtime_fields [OF assms(3,4) c']
  let ?D = "\<lambda>x. date_num (civil_from_days (x div 86400))"
  have "?D u < ?D v \<or> ?D u = ?D v \<and> tod_num u < tod_num v" if "u < v"
    using div_mod_less [OF that, of 86400, OF zero_less_numeral]
  proof (elim disjE conjE)
    assume "u div 86400 < v div 86400"
    then have "date_less (y, m, d) (y', m', d')" using civil_from_days_less c c' by metis
    then show ?thesis using g g' by (auto simp: c c' intro!: date_num_less)
  qed (simp_all add: tod_num_less)
  then have "?D u * 1000000 + tod_num u < ?D v * 1000000 + tod_num v" if "u < v"
    using that tod_num_bounds by (intro place_less) auto
  then show ?thesis
    unfolding stamp_num_def using assms by (intro place_less) auto
qed

lemma stamp_str_less:
  assumes "0 \<le> u" "u < 2 ^ 32" "0 \<le> v" "v < 2 ^ 32" "0 \<le> a" "a < 1000000000" "0 \<le> b" "b < 1000000000"
  shows "stamp_str u a < stamp_str v b \<longleftrightarrow> u < v \<or> u = v \<and> a < b"
proof -
  have "stamp_str u a < stamp_str v b \<longleftrightarrow> stamp_num u a < stamp_num v b"
    using digits_less [of "stamp_str u a" "stamp_str v b"] stamp_str_digits length_stamp_str
      stamp_str_val assms by (metis of_nat_less_iff)
  also have "\<dots> \<longleftrightarrow> u < v \<or> u = v \<and> a < b"
    using stamp_num_less [of u v a b] stamp_num_less [of v u b a] assms
    by (metis linorder_neqE not_less_iff_gr_or_eq)
  finally show ?thesis .
qed


section \<open>Date directories\<close>

text \<open>A directory object whose path string, once made, names its day.\<close>

definition subdir_ok :: "stdSubDir \<Rightarrow> bool" where
  "subdir_ok d \<longleftrightarrow> sd_valid d \<and> (sd_pathMade d \<longrightarrow> sd_path d = fmt_Ymd (sd_sysday d))"

lemma subdir_ok_ops [wf_intros]:
  "subdir_ok (stdSubDir_sysdays z)"
  "subdir_ok (snd (subdir_ymd L y m day d))"
  "subdir_ok d \<Longrightarrow> subdir_ok (snd (addDay d))"
  "subdir_ok d \<Longrightarrow> subdir_ok (snd (subDay d))"
  "subdir_ok d \<Longrightarrow> subdir_ok (fst (previousSubdir d))"
  "subdir_ok d \<Longrightarrow> subdir_ok (fst (followingSubdir d))"
  "subdir_ok d \<Longrightarrow> subdir_ok (snd (snd (subdir_path d)))"
  by (auto simp: subdir_ok_def stdSubDir_sysdays_def stdSubDir_new_def subdir_ymd_def subdir_invalidate_def
      addDay_def subDay_def previousSubdir_def followingSubdir_def subdir_path_def Let_def)

lemma subdir_path_ok: "subdir_ok d \<Longrightarrow> fst (subdir_path d) = fmt_Ymd (sd_sysday d)"
  by (auto simp: subdir_ok_def subdir_path_def Let_def)

lemma fmt_Ymd_date_str:
  assumes "civil_from_days z = (y, m, d)" "0 \<le> y" "y \<le> 9999"
  shows "fmt_Ymd z = date_str z"
proof -
  have "1 \<le> m" "m \<le> 12" "1 \<le> d" "d \<le> 31"
    using date_of_civil(2) [OF assms(1)] days_in_month_le [of y m] by (auto simp: valid_date_def)
  then show ?thesis using assms by (simp add: fmt_Ymd_def date_str_def fmt0_dec)
qed

lemma list_all_nth_digits:
  "\<forall>c \<in> set (a @ b @ e). char_isdigit c \<Longrightarrow> length a = 4 \<Longrightarrow> length b = 2 \<Longrightarrow> length e = 2 \<Longrightarrow>
   list_all (\<lambda>n. char_isdigit ((a @ ''_'' @ b @ ''_'' @ e) ! n)) [0, 1, 2, 3, 5, 6, 8, 9]"
  by (auto simp: nth_append nth_Cons' numeral_eq_Suc)

lemma subdir_path_set_ok:
  assumes L: "decimal_lib L" and c: "civil_from_days z = (y, m, d)" and y: "0 \<le> y" "y \<le> 9999"
  shows "subdir_path_set L (date_str z) x =
    (noerror, \<lparr>sd_sysday = z, sd_pathMade = True, sd_path = date_str z, sd_valid = True\<rparr>)"
proof -
  have v: "1 \<le> m" "m \<le> 12" "1 \<le> d" "d \<le> 31"
    using date_of_civil(2) [OF c] days_in_month_le [of y m] by (auto simp: valid_date_def)
  let ?a = "dec_digits 4 (nat y)" and ?b = "dec_digits 2 (nat m)" and ?e = "dec_digits 2 (nat d)"
  have s: "date_str z = ?a @ ''_'' @ ?b @ ''_'' @ ?e" by (simp add: date_str_def c)
  have len: "length (date_str z) = 10" by (simp add: s)
  have sep: "date_str z ! 4 = CHR ''_''" "date_str z ! 7 = CHR ''_''"
    by (simp_all add: s nth_append)
  have dig: "list_all (\<lambda>n. char_isdigit (date_str z ! n)) [0, 1, 2, 3, 5, 6, 8, 9]"
    unfolding s using dec_digits_digits by (intro list_all_nth_digits) auto
  have parts: "substr (date_str z) 0 4 = ?a" "substr (date_str z) 5 2 = ?b" "substr (date_str z) 8 2 = ?e"
    by (simp_all add: s substr_def)
  have conv: "stoT_int L ?a = (y, noerror)" "stoT_uint L ?b = (nat m, noerror)" "stoT_uint L ?e = (nat d, noerror)"
    using stoT_dec [OF L] y v by simp_all
  have sd: "sys_days_of L y (nat m) (nat d) = z"
  proof -
    have "1 \<le> nat m" "nat m \<le> 12" "nat d \<le> 255" using v by linarith+
    then show ?thesis
      using date_of_civil(1) [OF c] y v by (simp add: sys_days_of_def days_from_civil_def)
  qed
  show ?thesis
    using dig by (cases x) (simp add: subdir_path_set_def subdir_invalidate_def len sep parts conv sd Let_def
        cong: let_weak_cong)
qed

lemma valid_date_days:
  assumes "valid_date y m d" "0 \<le> y" "y \<le> 9999"
  shows "sys_days_of L y (nat m) (nat d) = days_from_civil y m d"
proof -
  have "1 \<le> nat m" "nat m \<le> 12" "nat d \<le> 255"
    using assms days_in_month_le [of y m] by (auto simp: valid_date_def)
  then show ?thesis
    using assms by (simp add: sys_days_of_def days_from_civil_def valid_date_def)
qed

definition subdir_date :: "stdSubDir \<Rightarrow> int \<times> int \<times> int" where
  "subdir_date d = (fst (subdir_year d), fst (subdir_month d), fst (subdir_day d))"

lemma subdir_date_valid: "sd_valid d \<Longrightarrow> subdir_date d = civil_from_days (sd_sysday d)"
  by (simp add: subdir_date_def subdir_year_def subdir_month_def subdir_day_def)

section \<open>A concrete conversion\<close>

text \<open>Decimal conversion that rejects anything else, an instance of what \<open>stoT\<close> has to do.\<close>

definition dec_lib :: mxlib where
  "dec_lib =
     \<lparr>stoT_int = (\<lambda>s. if s \<noteq> [] \<and> list_all char_isdigit s then (int (digits_val 0 s), noerror) else (0, invalidarg)),
      stoT_uint = (\<lambda>s. if s \<noteq> [] \<and> list_all char_isdigit s then (digits_val 0 s, noerror) else (0, invalidarg)),
      sys_days_unspec = (\<lambda>y m d. 0)\<rparr>"

lemma decimal_dec_lib: "decimal_lib dec_lib"
  by (simp add: decimal_lib_def dec_lib_def list_all_iff)

section \<open>Properties\<close>

text \<open>C20: a file named by \<open>fileTimeRelPath\<close> for a time within the range of \<open>timespecX\<close> parses back
  to exactly that time: \<open>stdFileName\<close> built from any directory, the relative path and the
  name is valid, and its time stamp, application name, extension and date directory are the
  ones the name was made from.\<close>

theorem fileName_roundtrip:
  assumes "decimal_lib L" "0 \<le> sec" "sec < 2 ^ 32" "0 \<le> ns" "ns < 1000000000" "sec \<noteq> 0 \<or> ns \<noteq> 0"
    and "CHR ''/'' \<notin> set dev" "CHR ''.'' \<notin> set ext" "CHR ''/'' \<notin> set ext"
  shows "\<exists>fname rel. fileTimeRelPath_dev dev ext sec ns = Inr (fname, rel) \<and>
    (let f = stdFileName_string L (dir @ ''/'' @ rel @ ''/'' @ fname) in
       fn_valid f \<and>
       get_timestamp f = (TimespecX (word_of_int sec) (word_of_int ns), noerror) \<and>
       get_appName f = (dev, noerror) \<and> get_extension f = (''.'' @ ext, noerror) \<and>
       get_baseName f = (fname, noerror) \<and>
       rel = dev @ ''/'' @ fst (subdir_path (fst (get_subDir f))))"
proof -
  let ?fname = "dev @ ''_'' @ stamp_str sec ns @ ''.'' @ ext"
  let ?rel = "dev @ ''/'' @ date_str (sec div 86400)"
  let ?full = "(dir @ ''/'' @ ?rel) @ ''/'' @ ?fname"
  obtain y m d where c: "civil_from_days (sec div 86400) = (y, m, d)" by (metis prod_cases3)
  have "fmt_Ymd (sec div 86400) = date_str (sec div 86400)"
    using gmtime_fields(2,3) [OF assms(2,3) c] by (intro fmt_Ymd_date_str [OF c]) auto
  moreover have "fileTimeRelPath_dev dev ext sec ns = Inr (?fname, ?rel)"
    using fileTimeRelPath_ok assms by (simp add: fileTimeRelPath_dev_def)
  moreover have "stdFileName_string L ?full = parsed_name ?full ?fname dev ext sec ns"
    unfolding stdFileName_string_def
    by (simp only: fullName_set_ok [OF assms(1-5,7-9) refl refl] snd_conv)
  ultimately show ?thesis
    by (auto simp: parsed_name_def get_timestamp_def get_appName_def get_extension_def get_baseName_def
        get_subDir_def getter_errc_def subdir_path_ok subdir_ok_ops)
      (simp add: stdSubDir_sysdays_def)
qed

theorem fileName_roundtrip_witness:
  "\<exists>fname rel. fileTimeRelPath_dev ''camwfs'' ''binlog'' 1732170780 5 = Inr (fname, rel) \<and>
     get_timestamp (stdFileName_string dec_lib (''/opt'' @ ''/'' @ rel @ ''/'' @ fname)) =
       (TimespecX 1732170780 5, noerror)"
  using fileName_roundtrip [OF decimal_dec_lib, of 1732170780 5 "''camwfs''" "''binlog''" "''/opt''"]
  by (auto simp: Let_def)

text \<open>C21: for one device and extension, the sort predicate of \<open>stdFileName\<close> orders the files
  that \<open>fileTimeRelPath\<close> names by their time, seconds first and then nanoseconds, so a list of
  files sorted by name is in chronological order.\<close>

theorem compStdFileName_chronological:
  assumes "decimal_lib L" "CHR ''/'' \<notin> set dev" "CHR ''.'' \<notin> set ext" "CHR ''/'' \<notin> set ext"
    and "0 \<le> s1" "s1 < 2 ^ 32" "0 \<le> n1" "n1 < 1000000000" "0 \<le> s2" "s2 < 2 ^ 32" "0 \<le> n2" "n2 < 1000000000"
    and "fileTimeRelPath_dev dev ext s1 n1 = Inr (f1, r1)" "fileTimeRelPath_dev dev ext s2 n2 = Inr (f2, r2)"
  shows "compStdFileName (stdFileName_string L (d1 @ ''/'' @ f1)) (stdFileName_string L (d2 @ ''/'' @ f2))
    \<longleftrightarrow> s1 < s2 \<or> s1 = s2 \<and> n1 < n2"
proof -
  have nz: "s1 \<noteq> 0 \<or> n1 \<noteq> 0" "s2 \<noteq> 0 \<or> n2 \<noteq> 0"
    using assms(13,14) by (auto simp: fileTimeRelPath_dev_def fileTimeRelPath_def)
  have f: "f1 = dev @ ''_'' @ stamp_str s1 n1 @ ''.'' @ ext" "f2 = dev @ ''_'' @ stamp_str s2 n2 @ ''.'' @ ext"
    using assms(13,14) fileTimeRelPath_ok [OF assms(5-8) nz(1)] fileTimeRelPath_ok [OF assms(9-12) nz(2)]
    by (auto simp: fileTimeRelPath_dev_def)
  have b: "fst (get_baseName (stdFileName_string L (d1 @ ''/'' @ f1))) = f1"
    "fst (get_baseName (stdFileName_string L (d2 @ ''/'' @ f2))) = f2"
    using fullName_set_ok [OF assms(1,5-8,2-4) f(1) refl] fullName_set_ok [OF assms(1,9-12,2-4) f(2) refl]
    by (simp_all add: stdFileName_string_def parsed_name_def get_baseName_def)
  have "f1 < f2 \<longleftrightarrow> stamp_str s1 n1 < stamp_str s2 n2"
  proof (cases "stamp_str s1 n1 = stamp_str s2 n2")
    case False
    then show ?thesis
      unfolding f less_append_prefix by (intro less_append_same_length) (simp_all add: length_stamp_str)
  qed (simp add: f)
  then show ?thesis
    unfolding compStdFileName_def b using stamp_str_less assms by simp
qed

theorem compStdFileName_chronological_witness:
  "\<exists>f1 r1 f2 r2. fileTimeRelPath_dev ''a'' ''b'' 1735689599 999999999 = Inr (f1, r1) \<and>
     fileTimeRelPath_dev ''a'' ''b'' 1735689600 0 = Inr (f2, r2) \<and>
     compStdFileName (stdFileName_string dec_lib (''x'' @ ''/'' @ f1)) (stdFileName_string dec_lib (''y'' @ ''/'' @ f2))"
proof -
  have "\<exists>f r. fileTimeRelPath_dev ''a'' ''b'' s n = Inr (f, r)"
    if "0 \<le> s" "s < 2 ^ 32" "0 \<le> n" "n < 1000000000" "s \<noteq> 0 \<or> n \<noteq> 0" for s n
    using fileTimeRelPath_ok [OF that] by (simp add: fileTimeRelPath_dev_def)
  from this [of 1735689599 999999999] this [of 1735689600 0]
  obtain f1 r1 f2 r2 where e: "fileTimeRelPath_dev ''a'' ''b'' 1735689599 999999999 = Inr (f1, r1)"
    "fileTimeRelPath_dev ''a'' ''b'' 1735689600 0 = Inr (f2, r2)"
    by auto
  show ?thesis
    using compStdFileName_chronological [OF decimal_dec_lib _ _ _ _ _ _ _ _ _ _ _ e, of "''x''" "''y''"] e
    by simp
qed

text \<open>C26: a directory object made from a valid date of the years 0 to 9999 has that date, its
  path is the \<open>YYYY_MM_DD\<close> string of the date, and parsing the path gives the same day.\<close>

theorem stdSubDir_roundtrip:
  assumes "decimal_lib L" "valid_date y m d" "0 \<le> y" "y \<le> 9999"
  defines "s \<equiv> stdSubDir_ymd L y (nat m) (nat d)"
  shows "subdir_year s = (y, noerror) \<and> subdir_month s = (m, noerror) \<and> subdir_day s = (d, noerror) \<and>
    length (fst (subdir_path s)) = 10 \<and>
    subdir_eq (stdSubDir_string L (fst (subdir_path s))) s \<and>
    fst (subdir_path (stdSubDir_string L (fst (subdir_path s)))) = fst (subdir_path s)"
proof -
  let ?z = "days_from_civil y m d"
  have c: "civil_from_days ?z = (y, m, d)" using civil_of_date [OF assms(2)] .
  have s: "sd_valid s" "sd_sysday s = ?z"
    using valid_date_days [OF assms(2-4), of L]
    by (simp_all add: s_def stdSubDir_ymd_def subdir_ymd_def Let_def)
  have ok: "subdir_ok s"
    unfolding s_def stdSubDir_ymd_def by (rule subdir_ok_ops(2))
  have p: "fst (subdir_path s) = date_str ?z"
    using subdir_path_ok [OF ok] fmt_Ymd_date_str [OF c assms(3,4)] s(2) by simp
  have q: "stdSubDir_string L (date_str ?z) = \<lparr>sd_sysday = ?z, sd_pathMade = True, sd_path = date_str ?z, sd_valid = True\<rparr>"
    unfolding stdSubDir_string_def using subdir_path_set_ok [OF assms(1) c assms(3,4)] by simp
  have "length (date_str ?z) = 10" by (simp add: date_str_def c)
  moreover have "fst (subdir_path \<lparr>sd_sysday = ?z, sd_pathMade = True, sd_path = date_str ?z, sd_valid = True\<rparr>) = date_str ?z"
    by (simp add: subdir_path_def)
  ultimately show ?thesis
    unfolding p q using s c by (simp add: subdir_year_def subdir_month_def subdir_day_def subdir_eq_def)
qed

theorem stdSubDir_roundtrip_witness:
  "subdir_month (stdSubDir_ymd dec_lib 2024 2 29) = (2, noerror) \<and>
   subdir_eq (stdSubDir_string dec_lib (fst (subdir_path (stdSubDir_ymd dec_lib 2024 2 29))))
     (stdSubDir_ymd dec_lib 2024 2 29)"
  using stdSubDir_roundtrip [OF decimal_dec_lib, of 2024 2 29]
  by (simp add: valid_date_def days_in_month_def leap_day_def is_leap_def)

text \<open>From a valid directory, \<open>followingSubdir\<close> gives the directory of the next calendar date
  (rolling over the end of the month, with leap years, and of the year), \<open>previousSubdir\<close> the
  one whose next date it is; both are made without a stale path string, they undo each other
  and are strictly after and before in the order of \<open>stdSubDir\<close>. From an invalid directory
  both return an invalid one with \<open>invalidconfig\<close>.\<close>

theorem followingSubdir_next_day:
  shows "(if sd_valid d then
      (let (n, e) = followingSubdir d; (p, e') = previousSubdir d in
        e = noerror \<and> e' = noerror \<and>
        subdir_date n = next_date (subdir_date d) \<and> subdir_date d = next_date (subdir_date p) \<and>
        fst (subdir_path n) = fmt_Ymd (sd_sysday d + 1) \<and> fst (subdir_path p) = fmt_Ymd (sd_sysday d - 1) \<and>
        subdir_lt d n \<and> subdir_gt d p \<and>
        subdir_eq (fst (previousSubdir n)) d \<and> subdir_eq (fst (followingSubdir p)) d)
    else followingSubdir d = (stdSubDir_new, invalidconfig) \<and> previousSubdir d = (stdSubDir_new, invalidconfig))"
proof (cases "sd_valid d")
  case True
  have n: "followingSubdir d = (d\<lparr>sd_pathMade := False, sd_sysday := sd_sysday d + 1\<rparr>, noerror)"
    and p: "previousSubdir d = (d\<lparr>sd_sysday := sd_sysday d - 1, sd_pathMade := False\<rparr>, noerror)"
    using True by (simp_all add: followingSubdir_def previousSubdir_def addDay_def subDay_def)
  have "civil_from_days (sd_sysday d) = next_date (civil_from_days (sd_sysday d - 1))"
    using civil_next [of "sd_sysday d - 1"] by simp
  then show ?thesis
    using True civil_next [of "sd_sysday d"]
    by (simp add: n p subdir_date_valid)
      (simp add: followingSubdir_def previousSubdir_def addDay_def subDay_def subdir_lt_def
        subdir_gt_def subdir_eq_def subdir_path_def)
qed (simp add: followingSubdir_def previousSubdir_def)
text \<open>A path set from a string is kept verbatim, so a day past the end of its month names another
  day than the one the object holds.\<close>

lemma subdir_path_verbatim:
  "let s = stdSubDir_string dec_lib ''2024_02_30'' in
     sd_valid s \<and> fst (subdir_path s) = ''2024_02_30'' \<and> fmt_Ymd (sd_sysday s) = ''2024_03_01''"
  by code_simp

end
