(* ===== verification/LogFile.thy ===== *)
theory LogFile
  imports FileNames
begin

text \<open>
  Binary log files (\<open>libMagAOX/logger/logFileRaw.hpp\<close>): opening, rotating, writing and
  closing the file an application logs to.

  The file system is a map from full path to contents; bytes that \<open>fwrite\<close> accepted count as
  contents, so stdio buffering and what the operating system does on a crash are outside the
  model. The clock and the results of the system calls and of mxlib's
  \<open>createDirectories\<close> and \<open>exists\<close> during one call are the fields of \<open>log_env\<close>: the theorems
  hold for every environment. \<^const>\<open>None\<close> as the result of \<open>writeLog\<close> is a read outside the
  log buffer.
\<close>

section \<open>State and environment\<close>

type_synonym fsys = "string \<rightharpoonup> bytes"

definition MAGAOX_default_logExt :: string where "MAGAOX_default_logExt = ''binlog''"
definition MAGAOX_default_max_logSize :: u64 where "MAGAOX_default_max_logSize = 10485760"
definition MAGAOX_default_maxLogTime :: u32 where "MAGAOX_default_maxLogTime = 1440"
definition MAGAOX_max_maxLogTime :: u32 where "MAGAOX_max_maxLogTime = 525600"

record logFileRaw =
  lf_logPath :: string
  lf_logName :: string
  lf_logExt :: string
  lf_maxLogSize :: u64
  lf_maxLogTime :: u32
  lf_fout :: "string option"
  lf_currFileSize :: u64
  lf_currFileStartSec :: u64
  lf_rotateRequested :: bool

definition logFileRaw_new :: logFileRaw where
  "logFileRaw_new =
     \<lparr>lf_logPath = ''.'', lf_logName = ''xlog'', lf_logExt = MAGAOX_default_logExt,
      lf_maxLogSize = MAGAOX_default_max_logSize, lf_maxLogTime = MAGAOX_default_maxLogTime,
      lf_fout = None, lf_currFileSize = 0, lf_currFileStartSec = 0, lf_rotateRequested = False\<rparr>"

text \<open>
  One attempt to create a file: the error code of \<open>createDirectories\<close>, what \<open>exists\<close> returns
  for a path, and the error code when \<open>fclose\<close> or \<open>fopen\<close> fails.
\<close>

record create_env =
  ce_mkdirs :: "string \<Rightarrow> error_t"
  ce_exists :: "fsys \<Rightarrow> string \<Rightarrow> bool \<times> error_t"
  ce_fclose :: "error_t option"
  ce_fopen :: "error_t option"

text \<open>
  One call of \<open>writeLog\<close>: the two clock readings, the two attempts to create a file, and the
  number of bytes \<open>fwrite\<close> takes with the error code when it takes fewer than asked.
\<close>

record log_env =
  le_now :: timespec
  le_now2 :: timespec
  le_create :: create_env
  le_create2 :: create_env
  le_fwrite :: "nat \<Rightarrow> nat"
  le_fwrite_errc :: error_t

text \<open>
  The documented behaviour of \<open>exists\<close> and \<open>fwrite\<close> that the code relies on: a file reported
  absent without an error is absent, \<open>fwrite\<close> does not write more than it is given, and
  \<open>fopen\<close> and \<open>fwrite\<close> set \<open>errno\<close> when they fail.
\<close>

definition create_env_ok :: "create_env \<Rightarrow> bool" where
  "create_env_ok C \<longleftrightarrow> (\<forall>fs p. ce_exists C fs p = (False, noerror) \<longrightarrow> fs p = None) \<and>
     ce_fopen C \<noteq> Some noerror"

definition log_env_ok :: "log_env \<Rightarrow> bool" where
  "log_env_ok E \<longleftrightarrow>
     create_env_ok (le_create E) \<and> create_env_ok (le_create2 E) \<and> (\<forall>n. le_fwrite E n \<le> n) \<and>
     le_fwrite_errc E \<noteq> noerror"

section \<open>Configuration\<close>

definition set_logPath :: "string \<Rightarrow> logFileRaw \<Rightarrow> error_t \<times> logFileRaw" where
  "set_logPath newPath st = (noerror, st\<lparr>lf_logPath := newPath\<rparr>)"

definition set_logName :: "string \<Rightarrow> logFileRaw \<Rightarrow> error_t \<times> logFileRaw" where
  "set_logName newName st = (noerror, st\<lparr>lf_logName := newName\<rparr>)"

definition set_logExt :: "string \<Rightarrow> logFileRaw \<Rightarrow> error_t \<times> logFileRaw" where
  "set_logExt newExt st = (noerror, st\<lparr>lf_logExt := newExt\<rparr>)"

definition set_maxLogSize :: "u64 \<Rightarrow> logFileRaw \<Rightarrow> error_t \<times> logFileRaw" where
  "set_maxLogSize newMaxFileSize st = (noerror, st\<lparr>lf_maxLogSize := newMaxFileSize\<rparr>)"

definition set_maxLogTime :: "u32 \<Rightarrow> logFileRaw \<Rightarrow> error_t \<times> logFileRaw" where
  "set_maxLogTime newMaxLogTime st =
     (if newMaxLogTime > MAGAOX_max_maxLogTime then (erange, st)
      else (noerror, st\<lparr>lf_maxLogTime := newMaxLogTime\<rparr>))"

definition requestRotation :: "logFileRaw \<Rightarrow> logFileRaw" where
  "requestRotation st = st\<lparr>lf_rotateRequested := True\<rparr>"

section \<open>Files\<close>

definition close_file :: "create_env \<Rightarrow> logFileRaw \<Rightarrow> error_t \<times> logFileRaw" where
  "close_file C st =
     (case lf_fout st of
        None \<Rightarrow> (noerror, st)
      | Some _ \<Rightarrow>
          (case ce_fclose C of
             Some e \<Rightarrow> (e, st\<lparr>lf_fout := None\<rparr>)
           | None \<Rightarrow> (noerror, st\<lparr>lf_fout := None\<rparr>)))"

definition createFile ::
  "create_env \<Rightarrow> timespecX \<Rightarrow> logFileRaw \<Rightarrow> fsys \<Rightarrow> error_t \<times> logFileRaw \<times> fsys" where
  "createFile C ts st fs =
     (case fileTimeRelPath_dev (lf_logName st) (lf_logExt st) (uint (time_s ts)) (uint (time_ns ts)) of
        Inl errc \<Rightarrow> (errc, st, fs)
      | Inr (fileName, relPath) \<Rightarrow>
          let fullPath = lf_logPath st @ ''/'' @ relPath @ ''/'';
              errc = ce_mkdirs C fullPath
          in if errc \<noteq> noerror then (errc, st, fs)
          else
          let fullPath = fullPath @ fileName; (ex, errc) = ce_exists C fs fullPath
          in if ex then (eexist, st, fs)
          else if errc \<noteq> noerror then (errc, st, fs)
          else
          let (errc, st) = close_file C st
          in case ce_fopen C of
               Some errc \<Rightarrow> (errc, st\<lparr>lf_fout := None\<rparr>, fs)
             | None \<Rightarrow>
                 (noerror,
                  st\<lparr>lf_fout := Some fullPath, lf_currFileSize := 0,
                     lf_currFileStartSec := ucast (time_s ts)\<rparr>,
                  fs(fullPath \<mapsto> [])))"

text \<open>\<open>m_maxLogTime\<close> in seconds, as \<open>uint64_t\<close>; the product of a 32-bit value and 60 does not wrap.\<close>

definition log_period :: "logFileRaw \<Rightarrow> nat" where
  "log_period st = unat (lf_maxLogTime st) * 60"

definition newInterval :: "logFileRaw \<Rightarrow> timespecX \<Rightarrow> timespecX \<Rightarrow> bool" where
  "newInterval st ts now \<longleftrightarrow>
     log_period st \<noteq> 0 \<and>
     unat (time_s ts) div log_period st > unat (lf_currFileStartSec st) div log_period st \<and>
     unat (time_s ts) div log_period st \<le> unat (time_s now) div log_period st"

text \<open>The branch of \<open>writeLog\<close> that opens a new file.\<close>

definition startNewFile ::
  "log_env \<Rightarrow> timespecX \<Rightarrow> timespecX \<Rightarrow> logFileRaw \<Rightarrow> fsys \<Rightarrow> error_t \<times> logFileRaw \<times> fsys" where
  "startNewFile E ts now st fs =
     (let nameTs = (if timespecX_gt ts now then now else ts);
          (errc, st, fs) = createFile (le_create E) nameTs st fs
      in if errc = eexist
         then createFile (le_create2 E) (timespecX_assign (le_now2 E)) st fs
         else (errc, st, fs))"

definition needNewFile :: "logFileRaw \<Rightarrow> bool \<Rightarrow> timespecX \<Rightarrow> timespecX \<Rightarrow> u64 \<Rightarrow> bool" where
  "needNewFile st rotateNow ts now N \<longleftrightarrow>
     lf_fout st = None \<or> rotateNow \<or> newInterval st ts now \<or> lf_currFileSize st + N > lf_maxLogSize st"

definition writeLog ::
  "log_env \<Rightarrow> bytes \<Rightarrow> logFileRaw \<Rightarrow> fsys \<Rightarrow> (error_t \<times> logFileRaw \<times> fsys) option" where
  "writeLog E data st fs =
     do { N \<leftarrow> totalSize data 0;
          ts \<leftarrow> timespec_get data 0;
          let rotateNow = lf_rotateRequested st;
              st = st\<lparr>lf_rotateRequested := False\<rparr>;
              now = timespecX_assign (le_now E);
              (errc, st, fs) =
                (if needNewFile st rotateNow ts now N then startNewFile E ts now st fs
                 else (noerror, st, fs))
          in if errc \<noteq> noerror then Some (errc, st, fs)
             else do { p \<leftarrow> lf_fout st;
                       d \<leftarrow> load data 0 (unat N);
                       let nwr = le_fwrite E (unat N);
                           fs = fs(p \<mapsto> the (fs p) @ take nwr d)
                       in if nwr \<noteq> unat N then Some (le_fwrite_errc E, st, fs)
                          else Some (noerror, st\<lparr>lf_currFileSize := lf_currFileSize st + N\<rparr>, fs) } }"

text \<open>\<open>flush\<close> changes nothing that is modelled; its result is that of \<open>fflush\<close> on an open file.\<close>

definition flush_file :: "error_t option \<Rightarrow> logFileRaw \<Rightarrow> error_t" where
  "flush_file fflush_res st =
     (case lf_fout st of
        None \<Rightarrow> noerror
      | Some _ \<Rightarrow> (case fflush_res of Some e \<Rightarrow> e | None \<Rightarrow> noerror))"

definition closeIfIntervalElapsed :: "timespec \<Rightarrow> create_env \<Rightarrow> logFileRaw \<Rightarrow> error_t \<times> logFileRaw" where
  "closeIfIntervalElapsed clk C st =
     (if lf_fout st = None then (noerror, st)
      else if log_period st = 0 then (noerror, st)
      else
        let now = timespecX_assign clk
        in if unat (time_s now) div log_period st \<noteq> unat (lf_currFileStartSec st) div log_period st
           then close_file C st
           else (noerror, st))"


section \<open>Invariant\<close>

text \<open>An open file exists, and it holds at least the bytes counted for it.\<close>

definition lf_inv :: "logFileRaw \<Rightarrow> fsys \<Rightarrow> bool" where
  "lf_inv st fs \<longleftrightarrow>
     (case lf_fout st of
        None \<Rightarrow> True
      | Some p \<Rightarrow> (case fs p of None \<Rightarrow> False | Some c \<Rightarrow> unat (lf_currFileSize st) \<le> length c))"

text \<open>\<open>fs'\<close> keeps every file of \<open>fs\<close>, with at most bytes added at its end.\<close>

definition fs_extends :: "fsys \<Rightarrow> fsys \<Rightarrow> bool" where
  "fs_extends fs fs' \<longleftrightarrow> (\<forall>p c. fs p = Some c \<longrightarrow> (\<exists>x. fs' p = Some (c @ x)))"

lemma fs_extends_refl [simp]: "fs_extends fs fs"
  unfolding fs_extends_def by (metis append_Nil2)

lemma fs_extends_trans [trans]: "fs_extends a b \<Longrightarrow> fs_extends b c \<Longrightarrow> fs_extends a c"
  unfolding fs_extends_def by (metis append_assoc)

lemma fs_extends_new: "fs p = None \<Longrightarrow> fs_extends fs (fs(p \<mapsto> c))"
  unfolding fs_extends_def by (metis append_Nil2 fun_upd_other option.distinct(1))

lemma fs_extends_append: "fs p = Some c \<Longrightarrow> fs_extends fs (fs(p \<mapsto> c @ x))"
  unfolding fs_extends_def by (metis append_Nil2 fun_upd_apply option.inject)

lemma close_file_state: "snd (close_file C st) = st\<lparr>lf_fout := None\<rparr>"
  by (cases st) (simp add: close_file_def split: option.splits)

text \<open>Every way \<open>createFile\<close> can end.\<close>

lemma createFile_cases:
  assumes "createFile C ts st fs = (e, st', fs')" "create_env_ok C"
  obtains (failed) "e \<noteq> noerror" "fs' = fs" "st' = st \<or> st' = st\<lparr>lf_fout := None\<rparr>"
  | (created) fileName relPath p where "e = noerror" "fs p = None" "fs' = fs(p \<mapsto> [])"
      "fileTimeRelPath_dev (lf_logName st) (lf_logExt st) (uint (time_s ts)) (uint (time_ns ts)) =
         Inr (fileName, relPath)"
      "p = lf_logPath st @ ''/'' @ relPath @ ''/'' @ fileName"
      "st' = st\<lparr>lf_fout := Some p, lf_currFileSize := 0, lf_currFileStartSec := ucast (time_s ts)\<rparr>"
proof (cases "e = noerror")
  case False
  have "fs' = fs \<and> (st' = st \<or> st' = st\<lparr>lf_fout := None\<rparr>)"
    using assms(1) False close_file_state [of C st]
    by (auto simp: createFile_def Let_def split: sum.splits prod.splits if_splits option.splits)
  with False show ?thesis using failed by blast
next
  case True
  obtain fileName relPath where f: "fileTimeRelPath_dev (lf_logName st) (lf_logExt st)
      (uint (time_s ts)) (uint (time_ns ts)) = Inr (fileName, relPath)"
    using assms(1) True
    by (cases "fileTimeRelPath_dev (lf_logName st) (lf_logExt st) (uint (time_s ts)) (uint (time_ns ts))")
      (auto simp: createFile_def fileTimeRelPath_dev_def fileTimeRelPath_def timestamp_sec_def
        split: if_splits option.splits)
  let ?p = "lf_logPath st @ ''/'' @ relPath @ ''/'' @ fileName"
  have "ce_exists C fs ?p = (False, noerror) \<and> fs' = fs(?p \<mapsto> []) \<and>
      st' = st\<lparr>lf_fout := Some ?p, lf_currFileSize := 0, lf_currFileStartSec := ucast (time_s ts)\<rparr>"
    using assms True close_file_state [of C st]
    by (auto simp: createFile_def f Let_def create_env_ok_def split: prod.splits if_splits option.splits)
  then show ?thesis
    using created [OF True _ _ f refl] assms(2) by (auto simp: create_env_ok_def)
qed

definition started :: "logFileRaw \<Rightarrow> string \<Rightarrow> timespecX \<Rightarrow> logFileRaw" where
  "started st p t =
     st\<lparr>lf_fout := Some p, lf_currFileSize := 0, lf_currFileStartSec := ucast (time_s t)\<rparr>"

text \<open>The full path of the file \<open>createFile\<close> makes for a time.\<close>

definition log_path :: "logFileRaw \<Rightarrow> timespecX \<Rightarrow> string option" where
  "log_path st t =
     (case fileTimeRelPath_dev (lf_logName st) (lf_logExt st) (uint (time_s t)) (uint (time_ns t)) of
        Inl _ \<Rightarrow> None
      | Inr (fileName, relPath) \<Rightarrow> Some (lf_logPath st @ ''/'' @ relPath @ ''/'' @ fileName))"

lemma startNewFile_cases:
  assumes "startNewFile E ts now st fs = (e, st', fs')" "log_env_ok E"
  obtains (failed) "e \<noteq> noerror" "fs' = fs" "st' = st \<or> st' = st\<lparr>lf_fout := None\<rparr>"
  | (created) p t where "e = noerror" "fs p = None" "fs' = fs(p \<mapsto> [])" "st' = started st p t"
      "log_path st t = Some p"
      "t = (if timespecX_gt ts now then now else ts) \<or> t = timespecX_assign (le_now2 E)"
proof -
  let ?n = "if timespecX_gt ts now then now else ts"
  obtain e1 st1 fs1 where c1: "createFile (le_create E) ?n st fs = (e1, st1, fs1)"
    by (metis prod_cases3)
  have ok: "create_env_ok (le_create E)" "create_env_ok (le_create2 E)"
    using assms(2) by (auto simp: log_env_ok_def)
  show ?thesis
  proof (cases "e1 = eexist")
    case False
    then have eq: "e = e1" "st' = st1" "fs' = fs1"
      using assms(1) c1 by (auto simp: startNewFile_def Let_def)
    show ?thesis
      using c1 ok(1)
    proof (cases rule: createFile_cases)
      case failed
      then show ?thesis using eq that(1) by simp
    next
      case (created f r p)
      then show ?thesis using eq that(2) [of p ?n] by (simp add: started_def log_path_def)
    qed
  next
    case True
    then have c2: "createFile (le_create2 E) (timespecX_assign (le_now2 E)) st1 fs1 = (e, st', fs')"
      using assms(1) c1 by (auto simp: startNewFile_def Let_def)
    have 1: "fs1 = fs" "st1 = st \<or> st1 = st\<lparr>lf_fout := None\<rparr>"
      using c1 ok(1) True by (auto elim: createFile_cases)
    show ?thesis
      using c2 ok(2)
    proof (cases rule: createFile_cases)
      case failed
      then show ?thesis using 1 that(1) by auto
    next
      case (created f r p)
      then show ?thesis
        using 1 that(2) [of p "timespecX_assign (le_now2 E)"] by (auto simp: started_def log_path_def)
    qed
  qed
qed

text \<open>On an encoded entry the header reads are known.\<close>

lemma writeLog_unfold:
  assumes "entry_ok en"
    and "(if needNewFile (st\<lparr>lf_rotateRequested := False\<rparr>) (lf_rotateRequested st) (e_time en)
            (timespecX_assign (le_now E)) N
          then startNewFile E (e_time en) (timespecX_assign (le_now E)) (st\<lparr>lf_rotateRequested := False\<rparr>) fs
          else (noerror, st\<lparr>lf_rotateRequested := False\<rparr>, fs)) = (e1, st1, fs1)"
    and "N = word_of_nat (length (encode_entry en))"
  shows "writeLog E (encode_entry en) st fs =
      (if e1 \<noteq> noerror then Some (e1, st1, fs1)
       else do { p \<leftarrow> lf_fout st1;
                 let nwr = le_fwrite E (unat N); fs2 = fs1(p \<mapsto> the (fs1 p) @ take nwr (encode_entry en))
                 in if nwr \<noteq> unat N then Some (le_fwrite_errc E, st1, fs2)
                    else Some (noerror, st1\<lparr>lf_currFileSize := lf_currFileSize st1 + N\<rparr>, fs2) })"
proof -
  have rd: "totalSize (encode_entry en) 0 = Some N" "timespec_get (encode_entry en) 0 = Some (e_time en)"
    using totalSize_at [of "[]" 0 en "[]"] timespec_at [of "[]" 0 en "[]"] assms(1,3) by simp_all
  have ld: "load (encode_entry en) 0 (unat N) = Some (encode_entry en)"
    using unat_total [OF assms(1)] assms(3) by (simp add: load_def)
  show ?thesis
    by (simp add: writeLog_def rd ld Let_def assms(2))
qed

text \<open>Every way \<open>writeLog\<close> can end on an encoded entry.\<close>

lemma writeLog_cases:
  assumes "writeLog E (encode_entry en) st fs = Some (e, st', fs')"
    and "log_env_ok E" "entry_ok en" "lf_inv st fs"
  defines "st0 \<equiv> st\<lparr>lf_rotateRequested := False\<rparr>"
    and "now \<equiv> timespecX_assign (le_now E)"
    and "N \<equiv> word_of_nat (length (encode_entry en)) :: u64"
  obtains (failed) "e \<noteq> noerror" "fs' = fs" "st' = st0 \<or> st' = st0\<lparr>lf_fout := None\<rparr>"
      "needNewFile st0 (lf_rotateRequested st) (e_time en) now N"
  | (written) p c st1 n where
      "lf_fout st1 = Some p" "fs' = fs(p \<mapsto> c @ take n (encode_entry en))"
      "n = length (encode_entry en) \<and> e = noerror \<and> st' = st1\<lparr>lf_currFileSize := lf_currFileSize st1 + N\<rparr> \<or>
       n < length (encode_entry en) \<and> e \<noteq> noerror \<and> st' = st1"
      "if needNewFile st0 (lf_rotateRequested st) (e_time en) now N
       then c = [] \<and> fs p = None \<and>
         (\<exists>t. st1 = started st0 p t \<and> log_path st t = Some p \<and>
            (t = (if timespecX_gt (e_time en) now then now else e_time en) \<or> t = timespecX_assign (le_now2 E)))
       else st1 = st0 \<and> fs p = Some c"
proof -
  let ?need = "needNewFile st0 (lf_rotateRequested st) (e_time en) now N"
  have uN: "unat N = length (encode_entry en)"
    using unat_total [OF assms(3)] by (simp add: N_def)
  obtain e1 st1 fs1 where o: "(if ?need then startNewFile E (e_time en) now st0 fs else (noerror, st0, fs)) = (e1, st1, fs1)"
    by (metis prod_cases3)
  have w: "writeLog E (encode_entry en) st fs =
      (if e1 \<noteq> noerror then Some (e1, st1, fs1)
       else do { p \<leftarrow> lf_fout st1;
                 let nwr = le_fwrite E (unat N); fs2 = fs1(p \<mapsto> the (fs1 p) @ take nwr (encode_entry en))
                 in if nwr \<noteq> unat N then Some (le_fwrite_errc E, st1, fs2)
                    else Some (noerror, st1\<lparr>lf_currFileSize := lf_currFileSize st1 + N\<rparr>, fs2) })"
    using writeLog_unfold [OF assms(3) o [unfolded st0_def now_def] N_def [THEN meta_eq_to_obj_eq]] .
  show ?thesis
  proof (cases "e1 = noerror")
    case False
    then have n: "?need" using o by (auto split: if_splits)
    then have "startNewFile E (e_time en) now st0 fs = (e1, st1, fs1)" using o by simp
    then have "fs1 = fs \<and> (st1 = st0 \<or> st1 = st0\<lparr>lf_fout := None\<rparr>)"
      using False assms(2) by (auto elim: startNewFile_cases)
    then show ?thesis using False n w assms(1) failed by auto
  next
    case True
    obtain p where p: "lf_fout st1 = Some p"
      using w True assms(1) by (cases "lf_fout st1") auto
    define n where "n = le_fwrite E (unat N)"
    have nN: "n \<le> unat N" and ee: "le_fwrite_errc E \<noteq> noerror"
      using assms(2) by (auto simp: log_env_ok_def n_def)
    have res: "fs' = fs1(p \<mapsto> the (fs1 p) @ take n (encode_entry en)) \<and>
        (n = unat N \<and> e = noerror \<and> st' = st1\<lparr>lf_currFileSize := lf_currFileSize st1 + N\<rparr> \<or>
         n < unat N \<and> e \<noteq> noerror \<and> st' = st1)"
      using w True assms(1) p nN ee by (auto simp: Let_def n_def split: if_splits)
    have base: "\<exists>c. fs1 p = Some c \<and>
       (if ?need
       then c = [] \<and> fs p = None \<and> fs1 = fs(p \<mapsto> []) \<and>
         (\<exists>t. st1 = started st0 p t \<and> log_path st t = Some p \<and>
            (t = (if timespecX_gt (e_time en) now then now else e_time en) \<or> t = timespecX_assign (le_now2 E)))
       else st1 = st0 \<and> fs p = Some c \<and> fs1 = fs)"
    proof (cases ?need)
      case need: True
      then have "startNewFile E (e_time en) now st0 fs = (noerror, st1, fs1)" using o True by simp
      then show ?thesis
        using assms(2)
      proof (cases rule: startNewFile_cases)
        case (created q t)
        moreover have "q = p" using created p by (simp add: started_def)
        moreover have "log_path st0 t = log_path st t" by (simp add: log_path_def st0_def split: sum.splits prod.splits)
        ultimately show ?thesis using need by auto
      qed simp
    next
      case False
      then have "st1 = st0" "fs1 = fs" using o by auto
      moreover have "\<exists>c. fs p = Some c"
        using assms(4) p \<open>st1 = st0\<close> by (auto simp: lf_inv_def st0_def split: option.splits)
      ultimately show ?thesis using False by auto
    qed
    then obtain c where c: "fs1 p = Some c" and b: "if ?need
       then c = [] \<and> fs p = None \<and> fs1 = fs(p \<mapsto> []) \<and>
         (\<exists>t. st1 = started st0 p t \<and> log_path st t = Some p \<and>
            (t = (if timespecX_gt (e_time en) now then now else e_time en) \<or> t = timespecX_assign (le_now2 E)))
       else st1 = st0 \<and> fs p = Some c \<and> fs1 = fs"
      by blast
    have "fs' = fs(p \<mapsto> c @ take n (encode_entry en))"
      using res c b by (auto split: if_splits)
    then show ?thesis
      using written [of st1 p c n] p res b uN by (auto split: if_splits)
  qed
qed


lemma startNewFile_open:
  "startNewFile E ts now st fs = (noerror, st', fs') \<Longrightarrow> log_env_ok E \<Longrightarrow> lf_fout st' \<noteq> None"
  by (erule startNewFile_cases) (auto simp: started_def)

lemma writeLog_total:
  assumes "log_env_ok E" "entry_ok en"
  shows "\<exists>e st' fs'. writeLog E (encode_entry en) st fs = Some (e, st', fs')"
proof -
  let ?st0 = "st\<lparr>lf_rotateRequested := False\<rparr>" and ?now = "timespecX_assign (le_now E)"
    and ?N = "word_of_nat (length (encode_entry en)) :: u64"
  obtain e1 st1 fs1 where o: "(if needNewFile ?st0 (lf_rotateRequested st) (e_time en) ?now ?N
      then startNewFile E (e_time en) ?now ?st0 fs else (noerror, ?st0, fs)) = (e1, st1, fs1)"
    by (metis prod_cases3)
  have "e1 = noerror \<Longrightarrow> lf_fout st1 \<noteq> None"
    using o startNewFile_open [OF _ assms(1)] by (auto simp: needNewFile_def split: if_splits)
  then show ?thesis
    using writeLog_unfold [OF assms(2) o refl] by (auto simp: Let_def)
qed

lemma lf_inv_started: "fs p = None \<Longrightarrow> lf_inv (started st p t) (fs(p \<mapsto> c))"
  by (simp add: lf_inv_def started_def)

lemma unat_add_le: "unat (a + b :: u64) \<le> unat a + unat b"
  by (simp add: unat_word_ariths)

lemma writeLog_inv:
  assumes "writeLog E (encode_entry en) st fs = Some (e, st', fs')"
    and "log_env_ok E" "entry_ok en" "lf_inv st fs"
  shows "lf_inv st' fs'" "fs_extends fs fs'" "\<not> lf_rotateRequested st'"
proof -
  have uN: "unat (word_of_nat (length (encode_entry en)) :: u64) = length (encode_entry en)"
    using unat_total [OF assms(3)] .
  from assms have "lf_inv st' fs' \<and> fs_extends fs fs' \<and> \<not> lf_rotateRequested st'"
  proof (cases rule: writeLog_cases)
    case failed
    then show ?thesis using assms(4) by (auto simp: lf_inv_def split: option.splits)
  next
    case (written p c st1 n)
    have 1: "unat (lf_currFileSize st1) \<le> length c" "\<not> lf_rotateRequested st1"
      using written(1,4) assms(4) by (auto simp: started_def lf_inv_def split: if_splits option.splits)
    have 2: "fs_extends fs fs'"
      using written(2,4) fs_extends_new [of fs p] fs_extends_append [of fs p c] by (auto split: if_splits)
    have "unat (lf_currFileSize st') \<le> length (c @ take n (encode_entry en))"
      using written(3) 1(1) unat_add_le [of "lf_currFileSize st1" "word_of_nat (length (encode_entry en))"] uN
      by auto
    moreover have "lf_fout st' = Some p" "\<not> lf_rotateRequested st'" using written(1,3) 1(2) by auto
    ultimately show ?thesis using written(2) 2 by (simp add: lf_inv_def)
  qed
  then show "lf_inv st' fs'" "fs_extends fs fs'" "\<not> lf_rotateRequested st'" by auto
qed

section \<open>Sizes\<close>

text \<open>The bytes counted for the open file are all the bytes it holds, as long as no write has failed.\<close>

definition lf_exact :: "logFileRaw \<Rightarrow> fsys \<Rightarrow> bool" where
  "lf_exact st fs \<longleftrightarrow>
     (case lf_fout st of
        None \<Rightarrow> True
      | Some p \<Rightarrow> (case fs p of None \<Rightarrow> False | Some c \<Rightarrow> length c = unat (lf_currFileSize st)))"

lemma lf_exact_inv: "lf_exact st fs \<Longrightarrow> lf_inv st fs"
  by (auto simp: lf_exact_def lf_inv_def split: option.splits)

definition within_limit :: "u64 \<Rightarrow> bytes \<Rightarrow> bytes \<Rightarrow> bool" where
  "within_limit limit d c \<longleftrightarrow> length c \<le> unat limit \<or> c = d"

lemma writeLog_counts:
  assumes "writeLog E (encode_entry en) st fs = Some (noerror, st', fs')"
    and "log_env_ok E" "entry_ok en" "lf_exact st fs"
    and "unat (lf_currFileSize st) + length (encode_entry en) < 2 ^ 64"
  shows "lf_exact st' fs' \<and> lf_maxLogSize st' = lf_maxLogSize st \<and>
    unat (lf_currFileSize st') \<le> unat (lf_currFileSize st) + length (encode_entry en) \<and>
    (\<exists>p c. fs' = fs(p \<mapsto> c) \<and> within_limit (lf_maxLogSize st) (encode_entry en) c)"
proof -
  let ?N = "word_of_nat (length (encode_entry en)) :: u64"
  have uN: "unat ?N = length (encode_entry en)" using unat_total [OF assms(3)] .
  from assms(1-3) lf_exact_inv [OF assms(4)] show ?thesis
  proof (cases rule: writeLog_cases)
    case (written p c st1 n)
    then have n: "n = length (encode_entry en)" "st' = st1\<lparr>lf_currFileSize := lf_currFileSize st1 + ?N\<rparr>"
      and f: "fs' = fs(p \<mapsto> c @ encode_entry en)" by auto
    show ?thesis
    proof (cases "needNewFile (st\<lparr>lf_rotateRequested := False\<rparr>) (lf_rotateRequested st) (e_time en) (timespecX_assign (le_now E)) ?N")
      case True
      then obtain t where t: "c = []" "st1 = started (st\<lparr>lf_rotateRequested := False\<rparr>) p t" using written(4) by auto
      have "within_limit (lf_maxLogSize st) (encode_entry en) (c @ encode_entry en)" by (simp add: t within_limit_def)
      then show ?thesis using n f t uN by (auto simp: started_def lf_exact_def intro: exI [of _ p])
    next
      case False
      then have st1: "st1 = st\<lparr>lf_rotateRequested := False\<rparr>" and c: "fs p = Some c" using written(4) by auto
      have p: "lf_fout st = Some p" using written(1) st1 by simp
      have len: "length c = unat (lf_currFileSize st)" using assms(4) p c by (simp add: lf_exact_def)
      have add: "unat (lf_currFileSize st + ?N) = unat (lf_currFileSize st) + length (encode_entry en)"
        using assms(5) uN by (simp add: unat_word_ariths)
      have "lf_currFileSize st + ?N \<le> lf_maxLogSize st" using False by (auto simp: needNewFile_def)
      then have "length (c @ encode_entry en) \<le> unat (lf_maxLogSize st)" using add len by (simp add: word_le_nat_alt)
      then have "within_limit (lf_maxLogSize st) (encode_entry en) (c @ encode_entry en)" by (simp add: within_limit_def)
      moreover have "lf_exact st' fs'" using n f p st1 add len by (simp add: lf_exact_def)
      ultimately show ?thesis using n f st1 add by auto
    qed
  qed simp
qed

text \<open>Entries written one after the other, each without an error.\<close>

fun writeLogs :: "(log_env \<times> entry) list \<Rightarrow> logFileRaw \<Rightarrow> fsys \<Rightarrow> (logFileRaw \<times> fsys) option" where
  "writeLogs [] st fs = Some (st, fs)"
| "writeLogs ((E, en) # xs) st fs =
     do { (errc, st, fs) \<leftarrow> writeLog E (encode_entry en) st fs; if errc = noerror then writeLogs xs st fs else None }"

lemma writeLogs_counts:
  assumes "writeLogs xs st fs = Some (st', fs')" "\<forall>(E, en) \<in> set xs. log_env_ok E \<and> entry_ok en" "lf_exact st fs"
    and "unat (lf_currFileSize st) + (\<Sum>(E, en) \<leftarrow> xs. length (encode_entry en)) < 2 ^ 64" "fs' q = Some c" "fs q \<noteq> Some c"
  shows "\<exists>(E, en) \<in> set xs. within_limit (lf_maxLogSize st) (encode_entry en) c"
  using assms
proof (induction xs arbitrary: st fs)
  case (Cons x xs)
  obtain E en where x: "x = (E, en)" by fastforce
  obtain st1 fs1 where w: "writeLog E (encode_entry en) st fs = Some (noerror, st1, fs1)" and r: "writeLogs xs st1 fs1 = Some (st', fs')"
    using Cons.prems(1) by (auto simp: x bind_eq_Some_conv split: if_splits)
  have ok: "log_env_ok E" "entry_ok en" using Cons.prems(2) by (auto simp: x)
  have sz: "unat (lf_currFileSize st) + length (encode_entry en) < 2 ^ 64" using Cons.prems(4) by (simp add: x)
  note c = writeLog_counts [OF w ok Cons.prems(3) sz]
  then obtain p d where d: "fs1 = fs(p \<mapsto> d)" "within_limit (lf_maxLogSize st) (encode_entry en) d" by blast
  show ?case
  proof (cases "fs1 q = Some c")
    case True
    then have "d = c" using d(1) Cons.prems(6) by (auto split: if_splits)
    then show ?thesis using d(2) by (auto simp: x)
  next
    case False
    have "unat (lf_currFileSize st1) + (\<Sum>(E, en) \<leftarrow> xs. length (encode_entry en)) < 2 ^ 64"
      using Cons.prems(4) c by (simp add: x)
    then have "\<exists>(E, en) \<in> set xs. within_limit (lf_maxLogSize st1) (encode_entry en) c"
      using Cons.IH [OF r _ _ _ Cons.prems(5) False] Cons.prems(2) c by auto
    then show ?thesis using c by (auto simp: x)
  qed
qed simp

section \<open>When every call succeeds\<close>

definition create_works :: "create_env \<Rightarrow> bool" where
  "create_works C \<longleftrightarrow>
     (\<forall>p. ce_mkdirs C p = noerror) \<and> (\<forall>fs p. ce_exists C fs p = (fs p \<noteq> None, noerror)) \<and>
     ce_fopen C = None"

definition env_works :: "log_env \<Rightarrow> bool" where
  "env_works E \<longleftrightarrow>
     create_works (le_create E) \<and> create_works (le_create2 E) \<and> (\<forall>n. le_fwrite E n = n) \<and>
     le_fwrite_errc E \<noteq> noerror"

lemma env_works_ok: "env_works E \<Longrightarrow> log_env_ok E"
  by (auto simp: env_works_def create_works_def log_env_ok_def create_env_ok_def)

lemma log_path_Some:
  assumes "ts_ok t" "t \<noteq> TimespecX 0 0"
  shows "\<exists>p. log_path st t = Some p"
proof -
  have "uint (time_s t) < 2 ^ 32"
    using unsigned_less [of "time_s t", where ?'a = int] by simp
  moreover have "uint (time_ns t) < 1000000000"
  proof -
    have "int (unat (time_ns t)) < 1000000000" using assms(1) unfolding ts_ok_def by linarith
    then show ?thesis by simp
  qed
  moreover have "uint (time_s t) \<noteq> 0 \<or> uint (time_ns t) \<noteq> 0"
    using assms(2) by (cases t) (auto simp: unsigned_eq_0_iff)
  ultimately have "fileTimeRelPath (uint (time_s t)) (uint (time_ns t)) =
      Inr (stamp_str (uint (time_s t)) (uint (time_ns t)), date_str (uint (time_s t) div 86400))"
    by (intro fileTimeRelPath_ok) auto
  then show ?thesis by (simp add: log_path_def fileTimeRelPath_dev_def)
qed

lemma createFile_works:
  assumes "create_works C" "log_path st t = Some p"
  shows "createFile C t st fs =
    (if fs p = None then (noerror, started st p t, fs(p \<mapsto> [])) else (eexist, st, fs))"
  using assms close_file_state [of C st]
  by (auto simp: createFile_def create_works_def log_path_def started_def Let_def
      split: sum.splits prod.splits option.splits)

lemma writeLog_works:
  assumes "env_works E" "entry_ok en" "lf_inv st fs"
    and "log_path st (min (e_time en) (timespecX_assign (le_now E))) = Some p1"
    and "log_path st (timespecX_assign (le_now2 E)) = Some p2"
    and "fs p1 = None \<or> fs p2 = None"
  shows "\<exists>st' fs'. writeLog E (encode_entry en) st fs = Some (noerror, st', fs')"
proof -
  let ?st0 = "st\<lparr>lf_rotateRequested := False\<rparr>" and ?now = "timespecX_assign (le_now E)"
    and ?N = "word_of_nat (length (encode_entry en)) :: u64"
  have mn: "(if timespecX_gt (e_time en) ?now then ?now else e_time en) = min (e_time en) ?now"
    by (auto simp: timespecX_ops min_def)
  have p: "log_path ?st0 t = log_path st t" for t
    by (simp add: log_path_def split: sum.splits prod.splits)
  have cw: "create_works (le_create E)" "create_works (le_create2 E)" and fw: "\<And>n. le_fwrite E n = n"
    using assms(1) by (auto simp: env_works_def)
  have "\<exists>st1 fs1. startNewFile E (e_time en) ?now ?st0 fs = (noerror, st1, fs1) \<and> lf_fout st1 \<noteq> None"
    using createFile_works [OF cw(1), of ?st0 "min (e_time en) ?now" p1 fs]
      createFile_works [OF cw(2), of ?st0 "timespecX_assign (le_now2 E)" p2 fs] assms(4-6)
    by (auto simp: startNewFile_def mn p started_def Let_def)
  moreover have "\<not> needNewFile ?st0 (lf_rotateRequested st) (e_time en) ?now ?N \<Longrightarrow> lf_fout ?st0 \<noteq> None"
    by (auto simp: needNewFile_def)
  ultimately obtain st1 fs1 where "(if needNewFile ?st0 (lf_rotateRequested st) (e_time en) ?now ?N
      then startNewFile E (e_time en) ?now ?st0 fs else (noerror, ?st0, fs)) = (noerror, st1, fs1)"
    "lf_fout st1 \<noteq> None"
    by (metis (full_types))
  then show ?thesis
    using writeLog_unfold [OF assms(2) _ refl] fw by (auto simp: Let_def)
qed

section \<open>An example environment\<close>

definition good_create :: create_env where
  "good_create =
     \<lparr>ce_mkdirs = (\<lambda>_. noerror), ce_exists = (\<lambda>fs p. (fs p \<noteq> None, noerror)), ce_fclose = None,
      ce_fopen = None\<rparr>"

definition good_env :: "int \<Rightarrow> log_env" where
  "good_env s =
     \<lparr>le_now = \<lparr>tv_sec = s, tv_nsec = 7\<rparr>, le_now2 = \<lparr>tv_sec = s, tv_nsec = 8\<rparr>,
      le_create = good_create, le_create2 = good_create, le_fwrite = (\<lambda>n. n), le_fwrite_errc = error\<rparr>"

definition example_entry :: entry where
  "example_entry =
     \<lparr>e_level = LOG_INFO, e_code = 1000, e_time = TimespecX 1732170780 5, e_msg = [104, 105]\<rparr>"

lemma good_env_works: "env_works (good_env s)" "log_env_ok (good_env s)"
  by (auto simp: good_env_def good_create_def env_works_def create_works_def log_env_ok_def create_env_ok_def)

lemma example_entry_ok: "entry_ok example_entry"
  by (simp add: entry_ok_def example_entry_def maxHeadSize_def minHeadSize_def)

lemma new_inv: "lf_inv logFileRaw_new Map.empty"
  by (simp add: lf_inv_def logFileRaw_new_def)

lemma good_env_now:
  "timespecX_assign (le_now (good_env 1732170800)) = TimespecX 1732170800 7"
  "timespecX_assign (le_now2 (good_env 1732170800)) = TimespecX 1732170800 8"
  by (simp_all add: good_env_def timespecX_assign_def)

lemma example_paths:
  "\<exists>p1 p2. log_path logFileRaw_new (min (e_time example_entry) (timespecX_assign (le_now (good_env 1732170800)))) = Some p1
     \<and> log_path logFileRaw_new (timespecX_assign (le_now2 (good_env 1732170800))) = Some p2"
  using log_path_Some [of "TimespecX 1732170780 5" logFileRaw_new] log_path_Some [of "TimespecX 1732170800 8" logFileRaw_new]
  by (simp add: good_env_now example_entry_def ts_ok_def min_def less_eq_timespecX_def timespecX_le_def timespecX_lt_def)

text \<open>The first write of a fresh log file succeeds.\<close>

lemma example_write:
  "\<exists>st' fs'. writeLog (good_env 1732170800) (encode_entry example_entry) logFileRaw_new Map.empty =
     Some (noerror, st', fs')"
proof -
  obtain p1 p2 where
    "log_path logFileRaw_new (min (e_time example_entry) (timespecX_assign (le_now (good_env 1732170800)))) = Some p1"
    "log_path logFileRaw_new (timespecX_assign (le_now2 (good_env 1732170800))) = Some p2"
    using example_paths by blast
  then show ?thesis
    by (rule writeLog_works [OF good_env_works(1) example_entry_ok new_inv]) simp
qed

section \<open>Properties\<close>

text \<open>C7: writing an encoded entry never reads outside its buffer and, whatever the clock and the
  system calls return, keeps the invariant of the log file, clears a pending rotation request
  and leaves the contents of every existing file in place, with at most bytes added at the end.\<close>

theorem writeLog_safe:
  assumes "log_env_ok E" "entry_ok en" "lf_inv st fs"
  shows "\<exists>e st' fs'. writeLog E (encode_entry en) st fs = Some (e, st', fs') \<and>
    lf_inv st' fs' \<and> fs_extends fs fs' \<and> \<not> lf_rotateRequested st'"
  using writeLog_total [OF assms(1,2), of st fs] writeLog_inv [OF _ assms] by blast

theorem writeLog_safe_witness:
  "\<exists>e st' fs'. writeLog (good_env 1732170800) (encode_entry example_entry) logFileRaw_new Map.empty =
     Some (e, st', fs') \<and> lf_inv st' fs'"
  using writeLog_safe [OF good_env_works(2) example_entry_ok new_inv, of 1732170800] by blast

text \<open>C1: when \<open>writeLog\<close> reports success, exactly the bytes of the entry were appended to one
  file and no other file changed. A new file is started exactly when no file is open, a
  rotation was requested, the entry lies in a later interval, or the size limit would be
  exceeded; it did not exist before, and it is named from the entry's time, from the current
  time when the entry's time is in the future, or from a second reading of the clock.
  Otherwise the open file is extended.\<close>

theorem writeLog_appends:
  assumes "log_env_ok E" "entry_ok en" "lf_inv st fs"
    and "writeLog E (encode_entry en) st fs = Some (noerror, st', fs')"
  shows "\<exists>p c. lf_fout st' = Some p \<and> fs' = fs(p \<mapsto> c @ encode_entry en) \<and>
    (if needNewFile st (lf_rotateRequested st) (e_time en) (timespecX_assign (le_now E))
        (word_of_nat (length (encode_entry en)))
     then c = [] \<and> fs p = None \<and>
       (\<exists>t. log_path st t = Some p \<and> lf_currFileStartSec st' = ucast (time_s t) \<and>
          (t = min (e_time en) (timespecX_assign (le_now E)) \<or> t = timespecX_assign (le_now2 E)))
     else fs p = Some c \<and> lf_fout st = Some p)"
proof -
  let ?st0 = "st\<lparr>lf_rotateRequested := False\<rparr>"
  let ?N = "word_of_nat (length (encode_entry en)) :: u64" and ?now = "timespecX_assign (le_now E)"
  have nd: "needNewFile ?st0 r ts now N = needNewFile st r ts now N" for r ts now N
    by (simp add: needNewFile_def newInterval_def log_period_def)
  have mn: "(if timespecX_gt (e_time en) ?now then ?now else e_time en) = min (e_time en) ?now"
    by (auto simp: timespecX_ops min_def)
  from assms(4,1,2,3) show ?thesis
  proof (cases rule: writeLog_cases)
    case (written p c st1 n)
    then have n: "n = length (encode_entry en)" "st' = st1\<lparr>lf_currFileSize := lf_currFileSize st1 + ?N\<rparr>"
      by auto
    show ?thesis
    proof (intro exI conjI)
      show "lf_fout st' = Some p" using written n by simp
      show "fs' = fs(p \<mapsto> c @ encode_entry en)" using written n by simp
      show "if needNewFile st (lf_rotateRequested st) (e_time en) ?now ?N
        then c = [] \<and> fs p = None \<and>
          (\<exists>t. log_path st t = Some p \<and> lf_currFileStartSec st' = ucast (time_s t) \<and>
            (t = min (e_time en) ?now \<or> t = timespecX_assign (le_now2 E)))
        else fs p = Some c \<and> lf_fout st = Some p"
        using written(1,4) n by (auto simp: nd mn started_def split: if_splits)
    qed
  qed simp
qed

theorem writeLog_appends_witness:
  "\<exists>st' fs' p. writeLog (good_env 1732170800) (encode_entry example_entry) logFileRaw_new Map.empty =
     Some (noerror, st', fs') \<and> lf_fout st' = Some p \<and> fs' = [p \<mapsto> encode_entry example_entry]"
proof -
  obtain st' fs' where w: "writeLog (good_env 1732170800) (encode_entry example_entry) logFileRaw_new Map.empty =
      Some (noerror, st', fs')"
    using example_write by blast
  show ?thesis
    using writeLog_appends [OF good_env_works(2) example_entry_ok new_inv w] w
    by (auto split: if_splits)
qed

text \<open>C23: the size limit is kept. When a log file is opened by the first of a sequence of writes that succeed,
  then no file they have created or extended is longer than the configured maximum, unless it consists
  of one of the entries alone. Fewer than \<open>2 ^ 64\<close> bytes are written in all, so that the counter does not wrap.\<close>

theorem writeLog_size_limit:
  assumes "writeLogs xs st fs = Some (st', fs')" "lf_fout st = None" "\<forall>(E, en) \<in> set xs. log_env_ok E \<and> entry_ok en"
    and "unat (lf_currFileSize st) + (\<Sum>(E, en) \<leftarrow> xs. length (encode_entry en)) < 2 ^ 64"
    and "fs' p = Some c" "fs p \<noteq> Some c"
  shows "length c \<le> unat (lf_maxLogSize st) \<or> (\<exists>(E, en) \<in> set xs. c = encode_entry en)"
proof -
  have "lf_exact st fs" using assms(2) by (simp add: lf_exact_def)
  from writeLogs_counts [OF assms(1,3) this assms(4-6)] show ?thesis by (auto simp: within_limit_def)
qed

theorem writeLog_size_limit_witness:
  "\<exists>st' fs' p c. writeLogs [(good_env 1732170800, example_entry)] logFileRaw_new Map.empty = Some (st', fs') \<and> fs' p = Some c \<and>
     (length c \<le> unat (lf_maxLogSize logFileRaw_new) \<or> c = encode_entry example_entry)"
proof -
  let ?xs = "[(good_env 1732170800, example_entry)]"
  obtain st' fs' where w: "writeLog (good_env 1732170800) (encode_entry example_entry) logFileRaw_new Map.empty = Some (noerror, st', fs')"
    using example_write by blast
  then have r: "writeLogs ?xs logFileRaw_new Map.empty = Some (st', fs')" by simp
  have sz: "unat (lf_currFileSize logFileRaw_new) + length (encode_entry example_entry) < 2 ^ 64"
    by (simp add: logFileRaw_new_def length_encode_entry length_encode_header length_len_field example_entry_def)
  have "lf_exact logFileRaw_new Map.empty" by (simp add: lf_exact_def logFileRaw_new_def)
  from writeLog_counts [OF w good_env_works(2) example_entry_ok this sz] obtain p c where "fs' = [p \<mapsto> c]" by blast
  then have p: "fs' p = Some c" by simp
  have "unat (lf_currFileSize logFileRaw_new) + (\<Sum>(E, en) \<leftarrow> ?xs. length (encode_entry en)) < 2 ^ 64"
    using sz by simp
  from writeLog_size_limit [OF r _ _ this p] r p good_env_works(2) example_entry_ok show ?thesis
    by (auto simp: logFileRaw_new_def)
qed

text \<open>C22: time-based rotation. An entry whose interval of \<open>m_maxLogTime\<close> minutes is neither before the open
  file's nor after the current clock's is written to a file that starts in the entry's interval, unless the
  name was taken and the file had to be named from a second reading of the clock. An entry that is
  late or lies in the future goes to the open file, when neither a request nor its size asks for a new one.\<close>

theorem writeLog_interval:
  assumes "log_env_ok E" "entry_ok en" "lf_inv st fs"
    and "writeLog E (encode_entry en) st fs = Some (noerror, st', fs')"
    and "P = log_period st" "P \<noteq> 0" "i = unat (time_s (e_time en)) div P" "f = unat (lf_currFileStartSec st) div P"
    and "now = unat (time_s (timespecX_assign (le_now E))) div P"
  shows "((lf_fout st = None \<or> f \<le> i) \<and> i \<le> now \<longrightarrow>
      unat (lf_currFileStartSec st') div P = i \<or> lf_currFileStartSec st' = ucast (time_s (timespecX_assign (le_now2 E)))) \<and>
    (lf_fout st \<noteq> None \<and> (i < f \<or> now < i) \<and> \<not> lf_rotateRequested st \<and>
      lf_currFileSize st + word_of_nat (length (encode_entry en)) \<le> lf_maxLogSize st \<longrightarrow>
      lf_fout st' = lf_fout st \<and> lf_currFileStartSec st' = lf_currFileStartSec st)"
proof -
  let ?now = "timespecX_assign (le_now E)"
  let ?N = "word_of_nat (length (encode_entry en)) :: u64" and ?st0 = "st\<lparr>lf_rotateRequested := False\<rparr>"
  note up = unat_ucast_32_64
  have nm: "unat (time_s (if timespecX_gt (e_time en) ?now then ?now else e_time en)) div P = i" if "i \<le> now"
  proof (cases "timespecX_gt (e_time en) ?now")
    case True
    then have "unat (time_s ?now) \<le> unat (time_s (e_time en))"
      by (auto simp: timespecX_gt_def word_less_nat_alt)
    then show ?thesis using True that div_le_mono [of "unat (time_s ?now)"] by (simp add: le_antisym assms(7,9))
  qed (simp add: assms(7))
  have p0: "log_period ?st0 = P" by (simp add: assms(5) log_period_def)
  from assms(4,1,2,3) show ?thesis
  proof (cases rule: writeLog_cases)
    case (written p c st1 n)
    then have st': "lf_currFileStartSec st' = lf_currFileStartSec st1" "lf_fout st' = lf_fout st1" by auto
    show ?thesis
    proof (cases "needNewFile ?st0 (lf_rotateRequested st) (e_time en) ?now ?N")
      case True
      then have "lf_fout st \<noteq> None \<and> \<not> lf_rotateRequested st \<and> lf_currFileSize st + ?N \<le> lf_maxLogSize st \<Longrightarrow> f < i \<and> i \<le> now"
        by (auto simp: needNewFile_def newInterval_def p0 assms(7-9))
      moreover have "i \<le> now \<Longrightarrow> unat (lf_currFileStartSec st') div P = i \<or> lf_currFileStartSec st' = ucast (time_s (timespecX_assign (le_now2 E)))"
        using True written(4) nm st' up by (auto simp: started_def split: if_splits)
      ultimately show ?thesis by auto
    next
      case False
      then have s: "st1 = ?st0" using written(4) by simp
      have "lf_fout st \<noteq> None" "\<not> (f < i \<and> i \<le> now)" using False assms(6) by (auto simp: needNewFile_def newInterval_def p0 assms(7-9))
      then show ?thesis using s st' by (auto simp: assms(8))
    qed
  qed simp
qed

theorem writeLog_interval_witness:
  "\<exists>st' fs'. writeLog (good_env 1732170800) (encode_entry example_entry) logFileRaw_new Map.empty =
     Some (noerror, st', fs') \<and>
     (unat (lf_currFileStartSec st') div 86400 = 20048 \<or> lf_currFileStartSec st' = 1732170800)"
proof -
  obtain st' fs' where w: "writeLog (good_env 1732170800) (encode_entry example_entry) logFileRaw_new Map.empty =
      Some (noerror, st', fs')"
    using example_write by blast
  have P: "log_period logFileRaw_new = 86400" "lf_fout logFileRaw_new = None"
    by (simp_all add: log_period_def logFileRaw_new_def MAGAOX_default_maxLogTime_def)
  show ?thesis
    using writeLog_interval [OF good_env_works(2) example_entry_ok new_inv w refl _ refl refl refl] w
    by (simp add: P good_env_now example_entry_def)
qed

text \<open>C24: progress. When the system calls succeed and one of the two names \<open>writeLog\<close> may use is
  free, the write succeeds: a name that is already taken does not stop the log thread.\<close>

theorem writeLog_succeeds:
  assumes "env_works E" "entry_ok en" "lf_inv st fs"
    and "log_path st (min (e_time en) (timespecX_assign (le_now E))) = Some p1"
    and "log_path st (timespecX_assign (le_now2 E)) = Some p2"
    and "fs p1 = None \<or> fs p2 = None"
  shows "\<exists>st' fs'. writeLog E (encode_entry en) st fs = Some (noerror, st', fs')"
  using assms by (rule writeLog_works)

theorem writeLog_succeeds_witness:
  "\<exists>st' fs'. writeLog (good_env 1732170800) (encode_entry example_entry) logFileRaw_new Map.empty =
     Some (noerror, st', fs')"
proof -
  obtain p1 p2 where
    "log_path logFileRaw_new (min (e_time example_entry) (timespecX_assign (le_now (good_env 1732170800)))) = Some p1"
    "log_path logFileRaw_new (timespecX_assign (le_now2 (good_env 1732170800))) = Some p2"
    using example_paths by blast
  then show ?thesis
    by (rule writeLog_succeeds [OF good_env_works(1) example_entry_ok new_inv]) simp
qed

end
