(* ===== verification/LogManager.thy ===== *)
theory LogManager
  imports LogFile
begin

text \<open>
  The log manager (\<open>libMagAOX/logger/logManager.hpp\<close>): producers format entries and push them
  on a queue under a mutex; the log thread takes them from the queue and hands them to the log
  file.

  \<open>logManager\<close> is a template over the type of log file. So is the model: \<open>logFileT\<close> is the
  record of the operations the log thread calls, and the locale \<open>log_sink\<close> is the contract
  they have to keep. It is interpreted on \<open>logFileRaw\<close>. The log thread is a state machine
  whose program counter marks the points between which other threads can run: \<open>push_back\<close> and
  \<open>erase\<close> hold the mutex, the increment of the iterator does not. \<open>logMessage\<close> of the parent
  and the printing to \<open>std::cerr\<close> do not touch the modelled state.
\<close>

section \<open>Manager state and configuration\<close>

record 's logManager =
  lm_file :: 's
  lm_queue :: "bytes list"
  lm_logShutdown :: bool
  lm_writePause :: u64
  lm_logLevel :: logPrioT
  lm_logThreadPrio :: int
  lm_logThreadRunning :: bool

definition logManager_new :: "'s \<Rightarrow> 's logManager" where
  "logManager_new f =
     \<lparr>lm_file = f, lm_queue = [], lm_logShutdown = False, lm_writePause = 1000000000,
      lm_logLevel = LOG_INFO, lm_logThreadPrio = 0, lm_logThreadRunning = False\<rparr>"

definition set_logShutdown :: "bool \<Rightarrow> 's logManager \<Rightarrow> int \<times> 's logManager" where
  "set_logShutdown ls m = (0, m\<lparr>lm_logShutdown := ls\<rparr>)"

definition set_writePause :: "u64 \<Rightarrow> 's logManager \<Rightarrow> int \<times> 's logManager" where
  "set_writePause wp m = (if wp = 0 then (- 1, m) else (0, m\<lparr>lm_writePause := wp\<rparr>))"

definition set_logLevel :: "logPrioT \<Rightarrow> 's logManager \<Rightarrow> int \<times> 's logManager" where
  "set_logLevel newLev m = (0, m\<lparr>lm_logLevel := newLev\<rparr>)"

definition set_logThreadPrio :: "int \<Rightarrow> 's logManager \<Rightarrow> int \<times> 's logManager" where
  "set_logThreadPrio newPrio m =
     (if newPrio > 98 then (- 1, m)
      else let newPrio = (if newPrio < 0 then 0 else newPrio) in (0, m\<lparr>lm_logThreadPrio := newPrio\<rparr>))"

text \<open>\<open>log\<close> with an explicit time stamp; levels are compared as \<open>int8_t\<close>.\<close>

definition log_ts ::
  "'m log_type \<Rightarrow> (nat \<Rightarrow> byte) \<Rightarrow> timespecX \<Rightarrow> 'm \<Rightarrow> logPrioT \<Rightarrow> 's logManager \<Rightarrow> 's logManager option" where
  "log_ts logT heap ts msg level m =
     (let level = (if level = LOG_DEFAULT then lt_defaultLevel logT else level) in
      if sint level > sint (lm_logLevel m) then Some m
      else do { logBuffer \<leftarrow> createLog logT heap ts msg level;
                Some (m\<lparr>lm_queue := lm_queue m @ [logBuffer]\<rparr>) })"

text \<open>\<open>log\<close> stamps the entry with the current time.\<close>

definition log_now ::
  "'m log_type \<Rightarrow> (nat \<Rightarrow> byte) \<Rightarrow> timespec \<Rightarrow> 'm \<Rightarrow> logPrioT \<Rightarrow> 's logManager \<Rightarrow> 's logManager option" where
  "log_now logT heap clk msg level m = log_ts logT heap (timespecX_assign clk) msg level m"

section \<open>The log thread\<close>

text \<open>The type of log file: what the log thread calls, and the environments its calls meet.\<close>

record ('s, 'e) logFileT =
  lft_writeLog :: "'e \<Rightarrow> bytes \<Rightarrow> 's \<Rightarrow> (error_t \<times> 's) option"
  lft_flushClose :: "'e \<Rightarrow> 's \<Rightarrow> 's"
  lft_env :: "'e \<Rightarrow> bool"

text \<open>
  Where the log thread is: before the test of the outer loop, before the locked read of
  \<open>begin\<close> and \<open>end\<close>, before \<open>writeLog\<close>, before the increment of the iterator, before the
  locked \<open>erase\<close> (with the iterator at the end of the list or not), before \<open>flush\<close>, or
  returned. \<open>ls_errc\<close> is the result of the last \<open>writeLog\<close>; \<open>ls_pushed\<close> and \<open>ls_written\<close>
  record every entry pushed and every entry written, in order. The iterator is at the head of the list whenever an entry is processed, since only
  the log thread erases and every other thread appends.
\<close>

datatype log_pc = PcTest | PcSnap | PcWrite | PcNext | PcErase bool | PcFlush | PcDone

record 's lm_state =
  ls_mgr :: "'s logManager"
  ls_pc :: log_pc
  ls_errc :: error_t
  ls_pushed :: "bytes list"
  ls_written :: "bytes list"

definition lm_start :: "'s logManager \<Rightarrow> 's lm_state" where
  "lm_start m =
     \<lparr>ls_mgr = m\<lparr>lm_logThreadRunning := True\<rparr>, ls_pc = PcTest, ls_errc = noerror, ls_pushed = lm_queue m,
      ls_written = []\<rparr>"

text \<open>One step of \<open>logThreadExec\<close>; \<open>e\<close> is the environment of the calls it makes.\<close>

fun thread_next :: "('s, 'e) logFileT \<Rightarrow> 'e \<Rightarrow> 's lm_state \<Rightarrow> 's lm_state option" where
  "thread_next F e st =
     (let m = ls_mgr st in
      case ls_pc st of
        PcTest \<Rightarrow>
          if \<not> lm_logShutdown m \<or> lm_queue m \<noteq> [] then Some (st\<lparr>ls_pc := PcSnap\<rparr>)
          else Some (st\<lparr>ls_pc := PcDone, ls_mgr := m\<lparr>lm_logThreadRunning := False\<rparr>\<rparr>)
      | PcSnap \<Rightarrow> Some (st\<lparr>ls_pc := if lm_queue m = [] then PcFlush else PcWrite\<rparr>)
      | PcWrite \<Rightarrow>
          (case lm_queue m of
             [] \<Rightarrow> None
           | d # _ \<Rightarrow>
               (case lft_writeLog F e d (lm_file m) of
                  None \<Rightarrow> None
                | Some (errc, f) \<Rightarrow>
                    if errc \<noteq> noerror
                    then Some (st\<lparr>ls_pc := PcDone, ls_errc := errc,
                                  ls_mgr := m\<lparr>lm_file := f, lm_logThreadRunning := False\<rparr>\<rparr>)
                    else Some (st\<lparr>ls_pc := PcNext, ls_errc := errc, ls_mgr := m\<lparr>lm_file := f\<rparr>,
                                  ls_written := ls_written st @ [d]\<rparr>)))
      | PcNext \<Rightarrow> Some (st\<lparr>ls_pc := PcErase (length (lm_queue m) = 1)\<rparr>)
      | PcErase atEnd \<Rightarrow>
          (case lm_queue m of
             [] \<Rightarrow> None
           | _ # q \<Rightarrow> Some (st\<lparr>ls_pc := if atEnd then PcFlush else PcWrite, ls_mgr := m\<lparr>lm_queue := q\<rparr>\<rparr>))
      | PcFlush \<Rightarrow> Some (st\<lparr>ls_pc := PcTest, ls_mgr := m\<lparr>lm_file := lft_flushClose F e (lm_file m)\<rparr>\<rparr>)
      | PcDone \<Rightarrow> None)"

text \<open>
  The whole program: the log thread, producers that push an entry, and the shutdown flag being
  set. \<open>good\<close> are the buffers producers push.
\<close>

inductive lm_step :: "('s, 'e) logFileT \<Rightarrow> (bytes \<Rightarrow> bool) \<Rightarrow> 's lm_state \<Rightarrow> 's lm_state \<Rightarrow> bool"
  for F good where
  thread: "lft_env F e \<Longrightarrow> thread_next F e st = Some st' \<Longrightarrow> lm_step F good st st'"
| push: "good d \<Longrightarrow>
    lm_step F good st
      (st\<lparr>ls_mgr := (ls_mgr st)\<lparr>lm_queue := lm_queue (ls_mgr st) @ [d]\<rparr>, ls_pushed := ls_pushed st @ [d]\<rparr>)"
| shutdown:
    "lm_step F good st (st\<lparr>ls_mgr := (ls_mgr st)\<lparr>lm_logShutdown := True\<rparr>\<rparr>)"

inductive_cases lm_stepE: "lm_step F good st st'"

text \<open>The entries not yet on file: the head is already written while it waits to be erased.\<close>

definition pending :: "'s lm_state \<Rightarrow> bytes list" where
  "pending st =
     (case ls_pc st of
        PcNext \<Rightarrow> tl (lm_queue (ls_mgr st))
      | PcErase _ \<Rightarrow> tl (lm_queue (ls_mgr st))
      | _ \<Rightarrow> lm_queue (ls_mgr st))"

definition lm_inv :: "'s lm_state \<Rightarrow> bool" where
  "lm_inv st \<longleftrightarrow>
     ls_written st @ pending st = ls_pushed st \<and>
     (ls_pc st \<in> {PcWrite, PcNext, PcErase False, PcErase True} \<longrightarrow> lm_queue (ls_mgr st) \<noteq> []) \<and>
     (ls_pc st = PcErase False \<longrightarrow> length (lm_queue (ls_mgr st)) \<ge> 2)"

text \<open>
  \<open>append_file fs p d\<close> adds bytes at the end of file \<open>p\<close>, which it creates when needed;
  \<open>append_all\<close> adds a list of them, each to its file.
\<close>

definition append_file :: "fsys \<Rightarrow> string \<Rightarrow> bytes \<Rightarrow> fsys" where
  "append_file fs p d = fs(p \<mapsto> (case fs p of None \<Rightarrow> [] | Some c \<Rightarrow> c) @ d)"

fun append_all :: "fsys \<Rightarrow> (string \<times> bytes) list \<Rightarrow> fsys" where
  "append_all fs [] = fs"
| "append_all fs ((p, d) # xs) = append_all (append_file fs p d) xs"

lemma append_file_apply:
  "append_file fs q d p = (if p = q then Some ((case fs q of None \<Rightarrow> [] | Some c \<Rightarrow> c) @ d) else fs p)"
  by (simp add: append_file_def)

lemma append_all_append: "append_all fs (xs @ ys) = append_all (append_all fs xs) ys"
  by (induction xs arbitrary: fs) auto

text \<open>Each file ends up with its bytes followed by those appended to it, in order.\<close>

lemma append_all_file:
  "append_all fs xs p =
     (if fs p = None \<and> p \<notin> fst ` set xs then None
      else Some ((case fs p of None \<Rightarrow> [] | Some c \<Rightarrow> c) @ concat (map snd (filter (\<lambda>x. fst x = p) xs))))"
proof (induction xs arbitrary: fs)
  case (Cons x xs)
  obtain q d where x: "x = (q, d)" by (metis surj_pair)
  define g where "g = append_file fs q d"
  have "g p = (if p = q then Some ((case fs q of None \<Rightarrow> [] | Some c \<Rightarrow> c) @ d) else fs p)"
    by (simp add: g_def append_file_apply)
  then show ?case
    using Cons [of g] by (cases "p = q") (auto simp: x g_def [symmetric] image_iff)
qed (auto split: option.splits)

text \<open>
  Bytes appended to files account for a queue of entries: each chunk is the next entry, or a proper
  initial part of it that a failed write has left. The result is what is left of the queue.
\<close>

fun laid :: "bytes list \<Rightarrow> (string \<times> bytes) list \<Rightarrow> bytes list option" where
  "laid q [] = Some q"
| "laid [] (x # ps) = None"
| "laid (d # q) ((p, c) # ps) =
     (if c = d then laid q ps
      else if length c < length d \<and> c = take (length c) d then laid (d # q) ps
      else None)"

definition laid_out :: "fsys \<Rightarrow> fsys \<Rightarrow> bytes list \<Rightarrow> bytes list \<Rightarrow> bool" where
  "laid_out fs0 fs es q \<longleftrightarrow> (\<exists>ps. fs = append_all fs0 ps \<and> laid es ps = Some q)"

lemma laid_append: "laid q (ps @ qs) = laid q ps \<bind> (\<lambda>r. laid r qs)"
  by (induction q ps rule: laid.induct) auto

lemma laid_more: "laid q ps = Some r \<Longrightarrow> laid (q @ x) ps = Some (r @ x)"
  by (induction q ps rule: laid.induct) (auto split: if_splits)

lemma laid_out_refl: "laid_out fs fs q q"
  unfolding laid_out_def by (intro exI [of _ "[]"]) simp

lemma laid_out_push: "laid_out fs0 fs es q \<Longrightarrow> laid_out fs0 fs (es @ [d]) (q @ [d])"
  using laid_more by (fastforce simp: laid_out_def)

lemma laid_out_chunk:
  assumes "laid_out fs0 fs es q" "laid q [(p, c)] = Some r"
  shows "laid_out fs0 (append_file fs p c) es r"
proof -
  obtain ps where ps: "fs = append_all fs0 ps" "laid es ps = Some q" using assms(1) by (auto simp: laid_out_def)
  then have "append_file fs p c = append_all fs0 (ps @ [(p, c)])" "laid es (ps @ [(p, c)]) = Some r"
    using assms(2) by (simp_all add: append_all_append laid_append)
  then show ?thesis unfolding laid_out_def by blast
qed

section \<open>The contract of a log file, and what the manager makes of it\<close>

locale log_sink =
  fixes F :: "('s, 'e) logFileT"
    and files :: "'s \<Rightarrow> fsys"
    and inv :: "'s \<Rightarrow> bool"
    and good :: "bytes \<Rightarrow> bool"
  assumes write_total: "lft_env F e \<Longrightarrow> good d \<Longrightarrow> inv s \<Longrightarrow> \<exists>r. lft_writeLog F e d s = Some r"
    and write_inv: "lft_env F e \<Longrightarrow> good d \<Longrightarrow> inv s \<Longrightarrow> lft_writeLog F e d s = Some (errc, s') \<Longrightarrow> inv s'"
    and write_appends: "lft_env F e \<Longrightarrow> good d \<Longrightarrow> inv s \<Longrightarrow> lft_writeLog F e d s = Some (noerror, s') \<Longrightarrow>
      \<exists>p. files s' = append_file (files s) p d"
    and write_fails: "lft_env F e \<Longrightarrow> good d \<Longrightarrow> inv s \<Longrightarrow> lft_writeLog F e d s = Some (errc, s') \<Longrightarrow> errc \<noteq> noerror \<Longrightarrow>
      files s' = files s \<or> (\<exists>p n. n < length d \<and> files s' = append_file (files s) p (take n d))"
    and write_keeps: "lft_env F e \<Longrightarrow> good d \<Longrightarrow> inv s \<Longrightarrow> lft_writeLog F e d s = Some (errc, s') \<Longrightarrow>
      fs_extends (files s) (files s')"
    and flush_inv: "lft_env F e \<Longrightarrow> inv s \<Longrightarrow> inv (lft_flushClose F e s)"
    and flush_files: "lft_env F e \<Longrightarrow> inv s \<Longrightarrow> files (lft_flushClose F e s) = files s"
begin

text \<open>The invariant of the system; \<open>placed\<close> says whether the position of every entry is tracked.\<close>

definition sys_inv :: "bool \<Rightarrow> fsys \<Rightarrow> 's lm_state \<Rightarrow> bool" where
  "sys_inv placed fs0 st \<longleftrightarrow>
     lm_inv st \<and> inv (lm_file (ls_mgr st)) \<and> list_all good (lm_queue (ls_mgr st)) \<and>
     fs_extends fs0 (files (lm_file (ls_mgr st))) \<and>
     laid_out fs0 (files (lm_file (ls_mgr st))) (ls_pushed st) (pending st) \<and>
     (placed \<and> (ls_pc st \<noteq> PcDone \<or> lm_queue (ls_mgr st) = []) \<longrightarrow>
        (\<exists>ps. map snd ps = ls_written st \<and> files (lm_file (ls_mgr st)) = append_all fs0 ps))"

lemma start_inv:
  assumes "inv (lm_file m)" "list_all good (lm_queue m)"
  shows "sys_inv b (files (lm_file m)) (lm_start m)"
proof -
  have "\<exists>ps. map snd ps = [] \<and> files (lm_file m) = append_all (files (lm_file m)) ps"
    by (intro exI [of _ "[]"]) simp
  then show ?thesis
    using assms by (simp add: sys_inv_def lm_inv_def lm_start_def pending_def laid_out_refl)
qed

lemma thread_inv:
  assumes "sys_inv b fs0 st" "lft_env F e" "thread_next F e st = Some st'"
  shows "sys_inv b fs0 st'"
proof (cases "ls_pc st")
  case PcWrite
  obtain d q where q: "lm_queue (ls_mgr st) = d # q" and d: "good d"
    using assms(1,3) PcWrite by (cases "lm_queue (ls_mgr st)") (auto simp: sys_inv_def)
  obtain errc f where w: "lft_writeLog F e d (lm_file (ls_mgr st)) = Some (errc, f)"
    using assms(3) PcWrite q by (auto simp: Let_def split: option.splits)
  have i: "inv (lm_file (ls_mgr st))" using assms(1) by (simp add: sys_inv_def)
  note facts = write_inv [OF assms(2) d i w] write_keeps [OF assms(2) d i w]
  have ext: "fs_extends fs0 (files f)"
    using assms(1) facts(2) fs_extends_trans by (auto simp: sys_inv_def)
  have out: "laid_out fs0 (files (lm_file (ls_mgr st))) (ls_pushed st) (d # q)"
    using assms(1) PcWrite q by (simp add: sys_inv_def pending_def)
  show ?thesis
  proof (cases "errc = noerror")
    case False
    have fo: "laid_out fs0 (files f) (ls_pushed st) (d # q)"
      using write_fails [OF assms(2) d i w False] out by (auto intro!: laid_out_chunk [OF out])
    from False have "st' = st\<lparr>ls_pc := PcDone, ls_errc := errc, ls_mgr := (ls_mgr st)\<lparr>lm_file := f, lm_logThreadRunning := False\<rparr>\<rparr>"
      using assms(3) PcWrite q w by (simp add: Let_def)
    then show ?thesis
      using assms(1) PcWrite facts ext q fo by (auto simp: sys_inv_def lm_inv_def pending_def)
  next
    case True
    then have st': "st' = st\<lparr>ls_pc := PcNext, ls_errc := noerror, ls_mgr := (ls_mgr st)\<lparr>lm_file := f\<rparr>, ls_written := ls_written st @ [d]\<rparr>"
      using assms(3) PcWrite q w by (simp add: Let_def)
    obtain p where p: "files f = append_file (files (lm_file (ls_mgr st))) p d"
      using write_appends [OF assms(2) d i] w True by blast
    have wo: "laid_out fs0 (files f) (ls_pushed st) q" unfolding p by (rule laid_out_chunk [OF out]) simp
    have "\<exists>ps. map snd ps = ls_written st @ [d] \<and> files f = append_all fs0 ps" if placed: b
    proof -
      obtain ps where ps: "map snd ps = ls_written st" "files (lm_file (ls_mgr st)) = append_all fs0 ps"
        using assms(1) PcWrite placed by (auto simp: sys_inv_def)
      have "map snd (ps @ [(p, d)]) = ls_written st @ [d] \<and> files f = append_all fs0 (ps @ [(p, d)])"
        using ps p by (simp add: append_all_append)
      then show ?thesis by blast
    qed
    then show ?thesis
      using assms(1) PcWrite facts ext q wo by (auto simp: st' sys_inv_def lm_inv_def pending_def)
  qed
next
  case (PcErase atEnd)
  then show ?thesis
    using assms by (cases "lm_queue (ls_mgr st)"; cases atEnd)
      (auto simp: sys_inv_def lm_inv_def pending_def Let_def neq_Nil_conv Suc_le_length_iff)
next
  case PcNext
  then show ?thesis
    using assms by (cases "lm_queue (ls_mgr st)" rule: remdups_adj.cases)
      (auto simp: sys_inv_def lm_inv_def pending_def Let_def)
next
  case PcFlush
  then show ?thesis
    using assms flush_inv [OF assms(2)] flush_files [OF assms(2)]
    by (auto simp: sys_inv_def lm_inv_def pending_def Let_def)
qed (use assms in \<open>auto simp: sys_inv_def lm_inv_def pending_def Let_def split: if_splits\<close>)

lemma step_inv:
  assumes "sys_inv b fs0 st" "lm_step F good st st'"
  shows "sys_inv b fs0 st'"
  using assms(2)
proof (cases rule: lm_step.cases)
  case (thread e)
  then show ?thesis using thread_inv [OF assms(1)] by blast
next
  case (push d)
  have q: "lm_queue (ls_mgr st) \<noteq> []" if "ls_pc st = PcNext \<or> (\<exists>e. ls_pc st = PcErase e)"
    using that assms(1) by (auto simp: sys_inv_def lm_inv_def)
  then have "pending st' = pending st @ [d]" using push by (auto simp: pending_def split: log_pc.splits)
  then have "laid_out fs0 (files (lm_file (ls_mgr st'))) (ls_pushed st') (pending st')"
    using assms(1) push by (simp add: sys_inv_def laid_out_push)
  then show ?thesis
    using assms(1) push by (auto simp: sys_inv_def lm_inv_def pending_def split: log_pc.splits)
next
  case shutdown
  then show ?thesis
    using assms(1) by (auto simp: sys_inv_def lm_inv_def pending_def split: log_pc.splits)
qed

lemma reach_inv:
  assumes "(lm_step F good)\<^sup>*\<^sup>* (lm_start m) st" "inv (lm_file m)" "list_all good (lm_queue m)"
  shows "sys_inv b (files (lm_file m)) st"
  using assms(1) by induction (auto intro: start_inv assms step_inv)

lemma thread_progress:
  assumes "sys_inv b fs0 st" "lft_env F e" "ls_pc st \<noteq> PcDone"
  shows "\<exists>st'. thread_next F e st = Some st'"
proof (cases "ls_pc st")
  case PcWrite
  then obtain d q where q: "lm_queue (ls_mgr st) = d # q" and d: "good d"
    using assms(1) by (cases "lm_queue (ls_mgr st)") (auto simp: sys_inv_def lm_inv_def)
  moreover have "inv (lm_file (ls_mgr st))" using assms(1) by (simp add: sys_inv_def)
  ultimately obtain r where "lft_writeLog F e d (lm_file (ls_mgr st)) = Some r"
    using write_total [OF assms(2)] by blast
  then show ?thesis using PcWrite q by (cases r) (auto simp: Let_def)
next
  case (PcErase atEnd)
  then show ?thesis
    using assms(1) by (cases "lm_queue (ls_mgr st)"; cases atEnd) (auto simp: sys_inv_def lm_inv_def Let_def)
qed (use assms in \<open>auto simp: Let_def\<close>)

end

section \<open>Shutdown\<close>

text \<open>The log thread alone, until it returns or \<open>n\<close> steps are used up.\<close>

fun thread_run :: "('s, 'e) logFileT \<Rightarrow> (nat \<Rightarrow> 'e) \<Rightarrow> nat \<Rightarrow> 's lm_state \<Rightarrow> 's lm_state option" where
  "thread_run F es 0 st = (if ls_pc st = PcDone then Some st else None)"
| "thread_run F es (Suc n) st =
     (if ls_pc st = PcDone then Some st
      else case thread_next F (es n) st of None \<Rightarrow> None | Some st' \<Rightarrow> thread_run F es n st')"

definition lm_shutdown :: "'s lm_state \<Rightarrow> 's lm_state" where
  "lm_shutdown st = st\<lparr>ls_mgr := (ls_mgr st)\<lparr>lm_logShutdown := True\<rparr>\<rparr>"

definition lm_restart :: "'s lm_state \<Rightarrow> 's lm_state" where
  "lm_restart st = st\<lparr>ls_pc := PcTest, ls_mgr := (ls_mgr st)\<lparr>lm_logThreadRunning := True\<rparr>\<rparr>"

text \<open>
  The destructor: set the flag, join the log thread, and run \<open>logThreadExec\<close> once more in the
  calling thread when entries are left. \<open>n\<close> and \<open>k\<close> bound the steps of the two runs.
\<close>

definition logManager_destroy ::
  "('s, 'e) logFileT \<Rightarrow> (nat \<Rightarrow> 'e) \<Rightarrow> nat \<Rightarrow> (nat \<Rightarrow> 'e) \<Rightarrow> nat \<Rightarrow> 's lm_state \<Rightarrow> 's lm_state option" where
  "logManager_destroy F es n es' k st =
     do { st \<leftarrow> thread_run F es n (lm_shutdown st);
          if lm_queue (ls_mgr st) \<noteq> [] then thread_run F es' k (lm_restart st) else Some st }"

definition pc_rank :: "bool \<Rightarrow> log_pc \<Rightarrow> nat" where
  "pc_rank e pc =
     (case pc of
        PcFlush \<Rightarrow> if e then 2 else 7
      | PcTest \<Rightarrow> if e then 1 else 6
      | PcSnap \<Rightarrow> if e then 3 else 5
      | PcWrite \<Rightarrow> 4
      | PcNext \<Rightarrow> 3
      | PcErase _ \<Rightarrow> 2
      | PcDone \<Rightarrow> 0)"

definition lm_measure :: "'s lm_state \<Rightarrow> nat" where
  "lm_measure st =
     8 * length (lm_queue (ls_mgr st)) + pc_rank (lm_queue (ls_mgr st) = []) (ls_pc st)"

lemma thread_next_measure:
  assumes "thread_next F e st = Some st'" "lm_logShutdown (ls_mgr st)"
  shows "lm_measure st' < lm_measure st" "lm_logShutdown (ls_mgr st')"
    "ls_pushed st' = ls_pushed st"
    "ls_pc st' = PcDone \<Longrightarrow> lm_queue (ls_mgr st') = [] \<or> ls_errc st' \<noteq> noerror"
  using assms
  by (auto simp: lm_measure_def pc_rank_def Let_def split: log_pc.splits list.splits option.splits if_splits)

lemma measure_pos: "lm_measure st = 0 \<longleftrightarrow> ls_pc st = PcDone \<and> lm_queue (ls_mgr st) = []"
  by (auto simp: lm_measure_def pc_rank_def split: log_pc.splits if_splits)

lemma thread_run_done: "ls_pc st = PcDone \<Longrightarrow> thread_run F es n st = Some st"
  by (cases n) auto

context log_sink
begin

lemma run_terminates:
  assumes "sys_inv b fs0 st" "lm_logShutdown (ls_mgr st)" "\<And>n. lft_env F (es n)" "lm_measure st \<le> n"
  shows "\<exists>st'. thread_run F es n st = Some st' \<and> sys_inv b fs0 st' \<and> ls_pc st' = PcDone \<and>
    (ls_pc st = PcDone \<or> lm_queue (ls_mgr st') = [] \<or> ls_errc st' \<noteq> noerror) \<and>
    ls_pushed st' = ls_pushed st \<and> lm_logShutdown (ls_mgr st')"
  using assms(1,2,4)
proof (induction n arbitrary: st)
  case 0
  then have "ls_pc st = PcDone" using measure_pos by auto
  then show ?case using 0 by auto
next
  case (Suc n)
  show ?case
  proof (cases "ls_pc st = PcDone")
    case False
    then obtain st1 where n: "thread_next F (es n) st = Some st1"
      using thread_progress [OF Suc.prems(1) assms(3)] by blast
    note m = thread_next_measure [OF n Suc.prems(2)]
    have i: "sys_inv b fs0 st1" using thread_inv [OF Suc.prems(1) assms(3) n] .
    have r: "thread_run F es (Suc n) st = thread_run F es n st1"
      using n False by simp
    show ?thesis
    proof (cases "ls_pc st1 = PcDone")
      case True
      then show ?thesis unfolding r using i m by (auto simp: thread_run_done)
    next
      case ndone: False
      have "lm_measure st1 \<le> n" using m(1) Suc.prems(3) by simp
      from Suc.IH [OF i m(2) this] ndone m(3) show ?thesis unfolding r by auto
    qed
  qed (use Suc.prems in auto)
qed

lemma shutdown_inv: "sys_inv b fs0 st \<Longrightarrow> sys_inv b fs0 (lm_shutdown st)"
  by (rule step_inv [OF _ lm_step.shutdown, folded lm_shutdown_def])

lemma restart_inv:
  "sys_inv b fs0 st \<Longrightarrow> ls_pc st = PcDone \<Longrightarrow> sys_inv False fs0 (lm_restart st)"
  by (simp add: sys_inv_def lm_inv_def lm_restart_def pending_def)

lemma destroy_returns:
  assumes "sys_inv b fs0 st" "\<And>n. lft_env F (es n)" "\<And>n. lft_env F (es' n)"
    and "lm_measure st \<le> n" "8 * length (ls_pushed st) + 7 \<le> k"
  shows "\<exists>st'. logManager_destroy F es n es' k st = Some st' \<and> ls_pc st' = PcDone \<and>
    sys_inv False fs0 st' \<and> ls_pushed st' = ls_pushed st \<and>
    (lm_queue (ls_mgr st') = [] \<or> ls_errc st' \<noteq> noerror)"
proof -
  have a: "lm_measure (lm_shutdown st) \<le> n" "ls_pushed (lm_shutdown st) = ls_pushed st"
    "lm_logShutdown (ls_mgr (lm_shutdown st))"
    using assms(4) by (simp_all add: lm_shutdown_def lm_measure_def)
  obtain st1 where r: "thread_run F es n (lm_shutdown st) = Some st1"
    and 1: "sys_inv b fs0 st1" "ls_pc st1 = PcDone" "ls_pushed st1 = ls_pushed st"
      "lm_logShutdown (ls_mgr st1)"
    using run_terminates [where es = es, OF shutdown_inv [OF assms(1)] a(3) assms(2) a(1)] a(2)
    by (metis (no_types, lifting))
  show ?thesis
  proof (cases "lm_queue (ls_mgr st1) = []")
    case True
    then show ?thesis using r 1 by (auto simp: logManager_destroy_def sys_inv_def)
  next
    case False
    let ?s = "lm_restart st1"
    have "length (lm_queue (ls_mgr st1)) \<le> length (ls_pushed st)"
      using 1 by (auto simp: sys_inv_def lm_inv_def pending_def dest: arg_cong [where f = length])
    then have c: "lm_measure ?s \<le> k" "lm_logShutdown (ls_mgr ?s)" "ls_pushed ?s = ls_pushed st" "ls_pc ?s \<noteq> PcDone"
      using assms(5) 1 by (simp_all add: lm_restart_def lm_measure_def pc_rank_def)
    obtain st2 where "thread_run F es' k ?s = Some st2" "sys_inv False fs0 st2" "ls_pc st2 = PcDone"
      "ls_pushed st2 = ls_pushed st" "lm_queue (ls_mgr st2) = [] \<or> ls_errc st2 \<noteq> noerror"
      using run_terminates [where es = es', OF restart_inv [OF 1(1,2)] c(2) assms(3) c(1)] c(3,4)
      by (metis (no_types, lifting))
    then show ?thesis using r False by (auto simp: logManager_destroy_def)
  qed
qed

end

section \<open>\<open>logFileRaw\<close> keeps the contract\<close>

record thread_env =
  te_log :: log_env
  te_fflush :: "error_t option"
  te_clock :: timespec
  te_close :: create_env

definition raw_writeLog ::
  "thread_env \<Rightarrow> bytes \<Rightarrow> logFileRaw \<times> fsys \<Rightarrow> (error_t \<times> logFileRaw \<times> fsys) option" where
  "raw_writeLog e d s = (case s of (st, fs) \<Rightarrow> writeLog (te_log e) d st fs)"

text \<open>The results of \<open>flush\<close> and \<open>closeIfIntervalElapsed\<close> are ignored by the log thread.\<close>

definition raw_flushClose :: "thread_env \<Rightarrow> logFileRaw \<times> fsys \<Rightarrow> logFileRaw \<times> fsys" where
  "raw_flushClose e s =
     (case s of (st, fs) \<Rightarrow>
        let _ = flush_file (te_fflush e) st in (snd (closeIfIntervalElapsed (te_clock e) (te_close e) st), fs))"

definition raw_logFile :: "(logFileRaw \<times> fsys, thread_env) logFileT" where
  "raw_logFile =
     \<lparr>lft_writeLog = raw_writeLog, lft_flushClose = raw_flushClose, lft_env = (\<lambda>e. log_env_ok (te_log e))\<rparr>"

definition raw_inv :: "logFileRaw \<times> fsys \<Rightarrow> bool" where
  "raw_inv s \<longleftrightarrow> lf_inv (fst s) (snd s)"

text \<open>The buffers that \<open>log\<close> pushes: encoded entries.\<close>

definition log_buffer :: "bytes \<Rightarrow> bool" where
  "log_buffer d \<longleftrightarrow> (\<exists>en. entry_ok en \<and> d = encode_entry en)"

lemma closeIfIntervalElapsed_inv:
  "lf_inv st fs \<Longrightarrow> lf_inv (snd (closeIfIntervalElapsed clk C st)) fs"
  using close_file_state [of C st] by (auto simp: closeIfIntervalElapsed_def lf_inv_def Let_def split: option.splits)

lemma writeLog_append_file:
  assumes "writeLog E (encode_entry en) st fs = Some (noerror, st', fs')"
    and "log_env_ok E" "entry_ok en" "lf_inv st fs"
  shows "\<exists>p. fs' = append_file fs p (encode_entry en)"
  using assms
proof (cases rule: writeLog_cases)
  case (written p c st1 n)
  then have "fs' = append_file fs p (encode_entry en)"
    by (auto simp: append_file_def split: if_splits)
  then show ?thesis by blast
qed simp

lemma writeLog_partial:
  assumes "writeLog E (encode_entry en) st fs = Some (errc, st', fs')"
    and "log_env_ok E" "entry_ok en" "lf_inv st fs" "errc \<noteq> noerror"
  shows "fs' = fs \<or> (\<exists>p n. n < length (encode_entry en) \<and> fs' = append_file fs p (take n (encode_entry en)))"
  using assms(1-4)
proof (cases rule: writeLog_cases)
  case (written p c st1 n)
  then have "n < length (encode_entry en)" "fs' = append_file fs p (take n (encode_entry en))"
    using assms(5) by (auto simp: append_file_def split: if_splits)
  then show ?thesis by blast
qed simp

interpretation raw: log_sink raw_logFile snd raw_inv log_buffer
proof
  fix e d s errc s'
  assume "lft_env raw_logFile e" "log_buffer d" "raw_inv s"
  then obtain en st fs where x: "log_env_ok (te_log e)" "entry_ok en" "d = encode_entry en" "s = (st, fs)" "lf_inv st fs"
    by (cases s) (auto simp: raw_logFile_def log_buffer_def raw_inv_def)
  show "\<exists>r. lft_writeLog raw_logFile e d s = Some r"
    using writeLog_total [OF x(1,2), of st fs] by (auto simp: raw_logFile_def raw_writeLog_def x)
  show "raw_inv s'" if "lft_writeLog raw_logFile e d s = Some (errc, s')"
    using that writeLog_inv(1) [OF _ x(1,2,5)] by (cases s') (auto simp: raw_logFile_def raw_writeLog_def raw_inv_def x)
  show "\<exists>p. snd s' = append_file (snd s) p d" if "lft_writeLog raw_logFile e d s = Some (noerror, s')"
    using that writeLog_append_file [OF _ x(1,2,5)] by (cases s') (auto simp: raw_logFile_def raw_writeLog_def x)
  show "snd s' = snd s \<or> (\<exists>p n. n < length d \<and> snd s' = append_file (snd s) p (take n d))"
    if "lft_writeLog raw_logFile e d s = Some (errc, s')" "errc \<noteq> noerror"
    using that writeLog_partial [OF _ x(1,2,5)] by (cases s') (auto simp: raw_logFile_def raw_writeLog_def x)
  show "fs_extends (snd s) (snd s')" if "lft_writeLog raw_logFile e d s = Some (errc, s')"
    using that writeLog_inv(2) [OF _ x(1,2,5)] by (cases s') (auto simp: raw_logFile_def raw_writeLog_def x)
next
  fix e s
  assume "raw_inv s"
  then show "raw_inv (lft_flushClose raw_logFile e s)"
    by (cases s) (auto simp: raw_logFile_def raw_flushClose_def raw_inv_def intro: closeIfIntervalElapsed_inv)
  show "snd (lft_flushClose raw_logFile e s) = snd s"
    by (cases s) (simp add: raw_logFile_def raw_flushClose_def)
qed

lemma log_ts_entry:
  assumes "unat (lt_length logT msg) = length (lt_format logT msg)"
    and "length (lt_format logT msg) + maxHeadSize < 2 ^ 64"
  shows "log_ts logT heap ts msg level m =
    Some (if sint (e_level (log_entry logT ts msg level)) > sint (lm_logLevel m) then m
          else m\<lparr>lm_queue := lm_queue m @ [encode_entry (log_entry logT ts msg level)]\<rparr>)"
    and "entry_ok (log_entry logT ts msg level)"
proof -
  let ?l = "if level = LOG_DEFAULT then lt_defaultLevel logT else level"
  show ok: "entry_ok (log_entry logT ts msg level)"
    using assms(2) by (simp add: entry_ok_def log_entry_def)
  have e: "log_entry logT ts msg ?l = log_entry logT ts msg level"
    by (simp add: log_entry_def)
  have "createLog logT heap ts msg ?l = Some (encode_entry (log_entry logT ts msg level))"
    using createLog_encodes [OF assms(1), of ts ?l heap] ok unfolding e by simp
  then show "log_ts logT heap ts msg level m =
    Some (if sint (e_level (log_entry logT ts msg level)) > sint (lm_logLevel m) then m
          else m\<lparr>lm_queue := lm_queue m @ [encode_entry (log_entry logT ts msg level)]\<rparr>)"
    by (simp add: log_ts_def Let_def) (simp add: log_entry_def)
qed

section \<open>Properties\<close>

text \<open>C5: for every interleaving of producers, the log thread and a shutdown request, the entries
  written so far followed by those still pending are exactly the entries pushed, in the order
  they were pushed: none is lost, duplicated or reordered. While no write has failed, the log
  files are the initial ones with each written entry appended to one of them, in that order;
  and whatever fails, no byte that was in a file before is lost.\<close>

theorem logManager_fifo:
  assumes "(lm_step raw_logFile log_buffer)\<^sup>*\<^sup>* (lm_start m) st"
    and "raw_inv (lm_file m)" "list_all log_buffer (lm_queue m)"
  shows "ls_written st @ pending st = ls_pushed st \<and>
    fs_extends (snd (lm_file m)) (snd (lm_file (ls_mgr st))) \<and>
    (ls_pc st \<noteq> PcDone \<or> lm_queue (ls_mgr st) = [] \<longrightarrow>
       (\<exists>ps. map snd ps = ls_written st \<and>
          snd (lm_file (ls_mgr st)) = append_all (snd (lm_file m)) ps))"
  using raw.reach_inv [OF assms, of True] by (auto simp: raw.sys_inv_def lm_inv_def)

definition example_mgr :: "(logFileRaw \<times> fsys) logManager" where
  "example_mgr = logManager_new (logFileRaw_new, Map.empty)"

definition example_env :: thread_env where
  "example_env =
     \<lparr>te_log = good_env 1732170800, te_fflush = None, te_clock = \<lparr>tv_sec = 1732170801, tv_nsec = 0\<rparr>,
      te_close = good_create\<rparr>"

lemma example_mgr_ok: "raw_inv (lm_file example_mgr)" "list_all log_buffer (lm_queue example_mgr)"
  using new_inv by (auto simp: example_mgr_def logManager_new_def raw_inv_def)

lemma example_buffer: "log_buffer (encode_entry example_entry)"
  using example_entry_ok by (auto simp: log_buffer_def)

definition example_pushed :: "(logFileRaw \<times> fsys) lm_state" where
  "example_pushed =
     (lm_start example_mgr)
       \<lparr>ls_mgr := (ls_mgr (lm_start example_mgr))\<lparr>lm_queue := [encode_entry example_entry]\<rparr>,
        ls_pushed := [encode_entry example_entry]\<rparr>"

lemma example_reach: "(lm_step raw_logFile log_buffer)\<^sup>*\<^sup>* (lm_start example_mgr) example_pushed"
proof -
  have "lm_step raw_logFile log_buffer (lm_start example_mgr) example_pushed"
    using lm_step.push [where good = log_buffer, OF example_buffer, of raw_logFile "lm_start example_mgr"]
    by (simp add: example_pushed_def lm_start_def example_mgr_def logManager_new_def)
  then show ?thesis by blast
qed

theorem logManager_fifo_witness:
  "ls_written example_pushed @ pending example_pushed = [encode_entry example_entry]"
  using logManager_fifo [OF example_reach example_mgr_ok] by (simp add: example_pushed_def)

text \<open>C27: the destructor returns, whatever state the program is in and whatever the system calls
  do: within a number of steps bounded by the queue length the log thread ends. Afterwards the
  log files are those from before the first entry with the bytes of all entries ever pushed
  appended, each in full and in order, where a failed write may have left an initial part of its
  entry before the entry itself, except for the entries that are still in the queue; and the
  queue is empty unless the last write has failed.\<close>

theorem logManager_destroy_drains:
  assumes "(lm_step raw_logFile log_buffer)\<^sup>*\<^sup>* (lm_start m) st"
    and "raw_inv (lm_file m)" "list_all log_buffer (lm_queue m)"
    and "\<And>n. log_env_ok (te_log (es n))" "\<And>n. log_env_ok (te_log (es' n))"
    and "n \<ge> 8 * length (lm_queue (ls_mgr st)) + 7" "k \<ge> 8 * length (ls_pushed st) + 7"
  shows "\<exists>st' ps. logManager_destroy raw_logFile es n es' k st = Some st' \<and> ls_pc st' = PcDone \<and>
    snd (lm_file (ls_mgr st')) = append_all (snd (lm_file m)) ps \<and>
    laid (ls_pushed st) ps = Some (lm_queue (ls_mgr st')) \<and>
    (lm_queue (ls_mgr st') = [] \<or> ls_errc st' \<noteq> noerror)"
proof -
  have e: "\<And>n. lft_env raw_logFile (es n)" "\<And>n. lft_env raw_logFile (es' n)"
    using assms(4,5) by (simp_all add: raw_logFile_def)
  have "lm_measure st \<le> n"
    using assms(6) by (auto simp: lm_measure_def pc_rank_def split: log_pc.splits)
  then show ?thesis
    using raw.destroy_returns [where es = es and es' = es', OF raw.reach_inv [OF assms(1-3), of True] e _ assms(7)]
    by (fastforce simp: raw.sys_inv_def laid_out_def pending_def)
qed

theorem logManager_destroy_drains_witness:
  "\<exists>st' ps. logManager_destroy raw_logFile (\<lambda>_. example_env) 15 (\<lambda>_. example_env) 15 example_pushed = Some st' \<and>
     ls_pc st' = PcDone \<and> snd (lm_file (ls_mgr st')) = append_all Map.empty ps \<and>
     laid [encode_entry example_entry] ps = Some (lm_queue (ls_mgr st'))"
  using logManager_destroy_drains [OF example_reach example_mgr_ok, of "\<lambda>_. example_env" "\<lambda>_. example_env" 15 15]
  by (auto simp: example_env_def good_env_works example_pushed_def example_mgr_def logManager_new_def)

text \<open>\<open>log\<close> drops an entry whose level, the type's default when none is given, is above the
  configured level, and otherwise queues exactly one buffer behind the others: the encoding of
  that level, the type's event code, the time stamp and the formatted message. It never
  writes outside the buffer, and the buffer is one the log file accepts.\<close>

theorem log_ts_queues:
  assumes "unat (lt_length logT msg) = length (lt_format logT msg)"
    and "length (lt_format logT msg) + maxHeadSize < 2 ^ 64"
  shows "\<exists>m'. log_ts logT heap ts msg level m = Some m' \<and>
    (let lvl = (if level = LOG_DEFAULT then lt_defaultLevel logT else level) in
     if sint lvl > sint (lm_logLevel m) then m' = m
     else \<exists>b. m' = m\<lparr>lm_queue := lm_queue m @ [b]\<rparr> \<and> log_buffer b \<and>
       b = encode_entry \<lparr>e_level = lvl, e_code = lt_eventCode logT, e_time = ts, e_msg = lt_format logT msg\<rparr>)"
  using log_ts_entry(1) [OF assms, of heap ts level m] log_ts_entry(2) [OF assms, of ts level]
  by (auto simp: log_entry_def log_buffer_def Let_def)

theorem log_ts_queues_witness:
  "\<exists>m'. log_ts \<lparr>lt_eventCode = 1000, lt_defaultLevel = LOG_INFO,
        lt_length = (\<lambda>m. word_of_nat (length m)), lt_format = (\<lambda>m. m)\<rparr>
      (\<lambda>_. 0) (TimespecX 1732170780 5) [104, 105] LOG_DEFAULT example_mgr = Some m' \<and>
     lm_queue m' = [encode_entry example_entry]"
  using log_ts_queues [of "\<lparr>lt_eventCode = 1000, lt_defaultLevel = LOG_INFO,
        lt_length = (\<lambda>m. word_of_nat (length m)), lt_format = (\<lambda>m. m)\<rparr>" "[104, 105]"
        "\<lambda>_. 0" "TimespecX 1732170780 5" LOG_DEFAULT example_mgr]
  by (simp add: maxHeadSize_def minHeadSize_def example_mgr_def logManager_new_def example_entry_def
      split: if_splits)

end
