(* ===== verification/LogMap.thy ===== *)
theory LogMap
  imports FileNames "HOL-Library.AList"
begin

text \<open>
  Reading log files back (\<open>libMagAOX/logger/logMap.hpp\<close> and \<open>logMap.cpp\<close>): the sanity check of
  an entry, resynchronisation after corruption, loading files into one buffer with the
  provenance of its bytes, and the search for the entry before or after a time.

  A \<open>char *\<close> into a buffer is an offset, a null pointer is \<^const>\<open>None\<close>. Every function that
  reads memory has an outer option: \<^const>\<open>None\<close> is a read outside the buffer, or the use of an
  iterator outside its container. \<open>eventCodeName\<close> is generated at build time from the list of
  log types; the code only compares its result with the text for an unknown code, so it is the
  parameter \<open>known\<close>. The reading of a file is the parameter \<open>R\<close>.
\<close>

section \<open>Sanity of an entry\<close>

definition logMapPriorityValid :: "logPrioT \<Rightarrow> bool" where
  "logMapPriorityValid prio \<longleftrightarrow>
     sint prio \<ge> sint LOG_EMERGENCY \<and> sint prio \<le> sint LOG_DEBUG2 \<or> prio = LOG_TELEM"

definition logMapEntryExtentValid :: "bytes \<Rightarrow> nat \<Rightarrow> nat \<Rightarrow> (bool \<times> u64) option" where
  "logMapEntryExtentValid b buffer bufferEnd =
     (if buffer \<ge> bufferEnd then Some (False, 0)
      else let remaining = bufferEnd - buffer in
      if remaining < minHeadSize then Some (False, 0)
      else do { hs \<leftarrow> headerSize b buffer;
        if hs = 0 \<or> unat hs > remaining then Some (False, 0)
        else do { tot \<leftarrow> totalSize b buffer;
          Some (unat tot > 0 \<and> unat tot \<le> remaining, tot) } })"

definition logMapEntrySane ::
  "(u16 \<Rightarrow> bool) \<Rightarrow> bytes \<Rightarrow> nat \<Rightarrow> nat \<Rightarrow> timespecX option \<Rightarrow> (bool \<times> u64) option" where
  "logMapEntrySane known b buffer bufferEnd minTs =
     (case logMapEntryExtentValid b buffer bufferEnd of
        None \<Rightarrow> None
      | Some (ok, tot) \<Rightarrow>
          if \<not> ok then Some (False, tot)
          else do { lvl \<leftarrow> logLevel b buffer;
            if \<not> logMapPriorityValid lvl then Some (False, tot)
            else do { ec \<leftarrow> eventCode b buffer;
              if \<not> known ec then Some (False, tot)
              else (case minTs of
                      None \<Rightarrow> Some (True, tot)
                    | Some t \<Rightarrow> do { ts \<leftarrow> timespec_get b buffer; Some (\<not> timespecX_lt ts t, tot) }) } })"

section \<open>Resynchronisation\<close>

text \<open>
  The inner loop of \<open>logMapResync\<close>: \<open>k\<close> more links are allowed. The result tells whether three
  links were found, and otherwise where the chain broke and after how many links.
\<close>

fun resync_chain ::
  "(u16 \<Rightarrow> bool) \<Rightarrow> bytes \<Rightarrow> nat \<Rightarrow> nat \<Rightarrow> nat \<Rightarrow> nat \<Rightarrow> timespecX option \<Rightarrow> (bool \<times> nat \<times> nat) option" where
  "resync_chain known b bufferEnd 0 chainLinks chain minTs = Some (True, chain, chainLinks)"
| "resync_chain known b bufferEnd (Suc k) chainLinks chain minTs =
     (if \<not> chain < bufferEnd then Some (False, chain, chainLinks)
      else case logMapEntrySane known b chain bufferEnd minTs of
        None \<Rightarrow> None
      | Some (ok, tot) \<Rightarrow>
          if \<not> ok then Some (False, chain, chainLinks)
          else if chainLinks + 1 \<ge> 3 then Some (True, chain, chainLinks + 1)
          else do { ts \<leftarrow> timespec_get b chain;
                    resync_chain known b bufferEnd k (chainLinks + 1) (chain + unat tot) (Some ts) })"

definition resync_candidate ::
  "(u16 \<Rightarrow> bool) \<Rightarrow> bytes \<Rightarrow> nat \<Rightarrow> timespecX option \<Rightarrow> nat \<Rightarrow> bool option" where
  "resync_candidate known b bufferEnd minTs candidate =
     (case resync_chain known b bufferEnd 3 0 candidate minTs of
        None \<Rightarrow> None
      | Some (full, chain, links) \<Rightarrow> Some (full \<or> chain = bufferEnd \<and> links > 0))"

fun resync_scan ::
  "(u16 \<Rightarrow> bool) \<Rightarrow> bytes \<Rightarrow> nat \<Rightarrow> timespecX option \<Rightarrow> nat list \<Rightarrow> nat option option" where
  "resync_scan known b bufferEnd minTs [] = Some None"
| "resync_scan known b bufferEnd minTs (c # cs) =
     (case resync_candidate known b bufferEnd minTs c of
        None \<Rightarrow> None
      | Some ok \<Rightarrow> if ok then Some (Some c) else resync_scan known b bufferEnd minTs cs)"

definition logMapResync ::
  "(u16 \<Rightarrow> bool) \<Rightarrow> bytes \<Rightarrow> nat \<Rightarrow> nat \<Rightarrow> timespecX option \<Rightarrow> nat option option" where
  "logMapResync known b buffer bufferEnd minTs =
     resync_scan known b bufferEnd minTs [buffer + 1 ..< bufferEnd]"

text \<open>
  What each of the scanning loops does first with the entry at \<open>buffer\<close>: accept it with its
  size, or look for the next plausible entry, or give up.
\<close>

datatype scan_res = Accept nat | Resync nat | GiveUp

definition entry_or_resync ::
  "(u16 \<Rightarrow> bool) \<Rightarrow> bytes \<Rightarrow> nat \<Rightarrow> nat \<Rightarrow> timespecX option \<Rightarrow> scan_res option" where
  "entry_or_resync known b buffer bufferEnd minTs =
     (case logMapEntrySane known b buffer bufferEnd minTs of
        None \<Rightarrow> None
      | Some (ok, tot) \<Rightarrow>
          if ok then Some (Accept (unat tot))
          else case logMapResync known b buffer bufferEnd minTs of
            None \<Rightarrow> None
          | Some None \<Rightarrow> Some GiveUp
          | Some (Some q) \<Rightarrow> Some (Resync q))"

lemma extent_pos:
  "logMapEntryExtentValid b p e = Some (True, tot) \<Longrightarrow> 0 < unat tot \<and> p + unat tot \<le> e \<and> p < e"
  by (auto simp: logMapEntryExtentValid_def Let_def split: if_splits bind_splits)

lemma sane_extent:
  "logMapEntrySane known b p e minTs = Some (True, tot) \<Longrightarrow> logMapEntryExtentValid b p e = Some (True, tot)"
  by (auto simp: logMapEntrySane_def split: option.splits if_splits bind_splits)

lemma resync_scan_mem: "resync_scan known b e minTs cs = Some (Some q) \<Longrightarrow> q \<in> set cs"
  by (induction cs) (auto split: option.splits if_splits)

lemma resync_bounds: "logMapResync known b p e minTs = Some (Some q) \<Longrightarrow> p < q \<and> q < e"
  by (auto simp: logMapResync_def dest!: resync_scan_mem)

lemma accept_advances: "entry_or_resync known b p e minTs = Some (Accept n) \<Longrightarrow> 0 < n \<and> p + n \<le> e"
  using extent_pos sane_extent by (fastforce simp: entry_or_resync_def split: option.splits if_splits)

lemma resync_advances: "entry_or_resync known b p e minTs = Some (Resync q) \<Longrightarrow> p < q \<and> q < e"
  using resync_bounds by (fastforce simp: entry_or_resync_def split: option.splits if_splits)

section \<open>Loading files\<close>

record loadedFile =
  m_begin :: nat
  m_end :: nat
  m_name :: string

record logInMemory =
  lim_memory :: bytes
  lim_startTime :: timespecX
  lim_endTime :: timespecX
  lim_loadedFiles :: "loadedFile list"
  lim_recoverableErrors :: u64

definition logInMemory_new :: logInMemory where
  "logInMemory_new =
     \<lparr>lim_memory = [], lim_startTime = TimespecX 0 0, lim_endTime = TimespecX 0 0,
      lim_loadedFiles = [], lim_recoverableErrors = 0\<rparr>"

text \<open>
  The scan of \<open>loadFile\<close>: the first and last good entries and the number of errors. The time
  of the last good entry is the least plausible time of the next one.
\<close>

function load_scan ::
  "(u16 \<Rightarrow> bool) \<Rightarrow> bytes \<Rightarrow> nat \<Rightarrow> nat option \<Rightarrow> nat option \<Rightarrow> u64 \<Rightarrow> (nat option \<times> nat option \<times> u64) option" where
  "load_scan known b buffer firstGood lastGood errs =
     (if \<not> buffer < length b then Some (firstGood, lastGood, errs)
      else
        case (case lastGood of None \<Rightarrow> Some None | Some q \<Rightarrow> map_option Some (timespec_get b q)) of
          None \<Rightarrow> None
        | Some minTs \<Rightarrow>
        (case entry_or_resync known b buffer (length b) minTs of
           None \<Rightarrow> None
         | Some GiveUp \<Rightarrow> Some (firstGood, lastGood, errs + 1)
         | Some (Resync q) \<Rightarrow> load_scan known b q firstGood lastGood (errs + 1)
         | Some (Accept n) \<Rightarrow>
             load_scan known b (buffer + n)
               (case firstGood of None \<Rightarrow> Some buffer | Some _ \<Rightarrow> firstGood) (Some buffer) errs))"
  by pat_completeness auto

termination load_scan
  by (relation "measure (\<lambda>(known, b, p, fg, lg, errs). length b - p)")
    (auto dest: accept_advances resync_advances)

declare load_scan.simps [simp del]

text \<open>What \<open>open\<close>, \<open>fileSize\<close> and \<open>read\<close> give for a file: no bytes when it cannot be opened.\<close>

record file_read =
  fr_data :: bytes
  fr_nrd :: int

definition loadFile ::
  "(u16 \<Rightarrow> bool) \<Rightarrow> (string \<Rightarrow> file_read) \<Rightarrow> stdFileName \<Rightarrow> logInMemory \<Rightarrow> (int \<times> logInMemory) option" where
  "loadFile known R lfn lim =
     (let name = fst (get_fullName lfn); memory = fr_data (R name) in
      if length memory = 0 then Some (- 1, lim)
      else if fr_nrd (R name) \<noteq> int (length memory) then Some (- 1, lim)
      else case load_scan known memory 0 None None (lim_recoverableErrors lim) of
        None \<Rightarrow> None
      | Some (firstGood, lastGood, errs) \<Rightarrow>
          let lim = lim\<lparr>lim_recoverableErrors := errs\<rparr> in
          case (firstGood, lastGood) of
            (Some fg, Some lg) \<Rightarrow>
              do { startTime \<leftarrow> timespec_get memory fg;
                   endTime \<leftarrow> timespec_get memory lg;
                   if length (lim_memory lim) = 0 then
                     Some (0, lim\<lparr>lim_memory := memory, lim_startTime := startTime, lim_endTime := endTime,
                       lim_loadedFiles := lim_loadedFiles lim @ [\<lparr>m_begin = 0, m_end = length memory, m_name = name\<rparr>]\<rparr>)
                   else if timespecX_lt startTime (lim_startTime lim) then
                     (if timespecX_ge endTime (lim_startTime lim) then Some (- 1, lim)
                      else Some (0, lim\<lparr>lim_memory := memory @ lim_memory lim,
                        lim_loadedFiles :=
                          \<lparr>m_begin = 0, m_end = length memory, m_name = name\<rparr> #
                          map (\<lambda>l. l\<lparr>m_begin := m_begin l + length memory, m_end := m_end l + length memory\<rparr>)
                            (lim_loadedFiles lim),
                        lim_startTime := startTime\<rparr>))
                   else if timespecX_gt startTime (lim_endTime lim) then
                     Some (0, lim\<lparr>lim_memory := lim_memory lim @ memory,
                       lim_loadedFiles := lim_loadedFiles lim @
                         [\<lparr>m_begin = length (lim_memory lim), m_end = length (lim_memory lim) + length memory,
                           m_name = name\<rparr>],
                       lim_endTime := endTime\<rparr>)
                   else Some (- 1, lim) }
          | _ \<Rightarrow> Some (- 1, lim))"

text \<open>The first loaded file whose range holds an offset.\<close>

definition find_loaded :: "nat \<Rightarrow> loadedFile list \<Rightarrow> loadedFile option" where
  "find_loaded offset ls = find (\<lambda>l. m_begin l \<le> offset \<and> offset < m_end l) ls"

text \<open>
  The pointer argument: null, or an offset that may lie outside the buffer (a negative offset
  is a pointer before its start).
\<close>

definition sourceFile :: "int option \<Rightarrow> logInMemory \<Rightarrow> string" where
  "sourceFile log lim =
     (case log of
        None \<Rightarrow> ''<unknown>''
      | Some p \<Rightarrow>
          if lim_memory lim = [] then ''<unknown>''
          else if p < 0 \<or> p \<ge> int (length (lim_memory lim)) then ''<outside-loaded-buffer>''
          else case find_loaded (nat p) (lim_loadedFiles lim) of
            Some l \<Rightarrow> m_name l
          | None \<Rightarrow> ''<unknown-loaded-file>'')"

definition SIZE_MAX :: nat where "SIZE_MAX = 2 ^ 64 - 1"

definition sourceOffset :: "int option \<Rightarrow> logInMemory \<Rightarrow> nat" where
  "sourceOffset log lim =
     (case log of
        None \<Rightarrow> SIZE_MAX
      | Some p \<Rightarrow>
          if lim_memory lim = [] then SIZE_MAX
          else if p < 0 \<or> p \<ge> int (length (lim_memory lim)) then SIZE_MAX
          else case find_loaded (nat p) (lim_loadedFiles lim) of
            Some l \<Rightarrow> nat p - m_begin l
          | None \<Rightarrow> SIZE_MAX)"

section \<open>The map of applications\<close>

text \<open>
  Files of an application are kept sorted by base name, as the \<open>std::set\<close> with
  \<open>compStdFileName\<close> keeps them. \<open>operator[]\<close> of a map gives a fresh value for a new key.
\<close>

record logMap =
  lmp_files :: "(string \<times> stdFileName list) list"
  lmp_buffers :: "(string \<times> logInMemory) list"

definition files_of :: "logMap \<Rightarrow> string \<Rightarrow> stdFileName list" where
  "files_of m app = (case map_of (lmp_files m) app of None \<Rightarrow> [] | Some l \<Rightarrow> l)"

definition buffer_of :: "logMap \<Rightarrow> string \<Rightarrow> logInMemory" where
  "buffer_of m app = (case map_of (lmp_buffers m) app of None \<Rightarrow> logInMemory_new | Some l \<Rightarrow> l)"

definition set_buffer :: "string \<Rightarrow> logInMemory \<Rightarrow> logMap \<Rightarrow> logMap" where
  "set_buffer app lim m = m\<lparr>lmp_buffers := AList.update app lim (lmp_buffers m)\<rparr>"

definition recordRecoverableError :: "string \<Rightarrow> logMap \<Rightarrow> logMap" where
  "recordRecoverableError app m =
     (let lim = buffer_of m app
      in set_buffer app (lim\<lparr>lim_recoverableErrors := lim_recoverableErrors lim + 1\<rparr>) m)"

definition recoverableErrors :: "logMap \<Rightarrow> u64" where
  "recoverableErrors m = sum_list (map (lim_recoverableErrors \<circ> snd) (lmp_buffers m))"

fun set_insert :: "stdFileName \<Rightarrow> stdFileName list \<Rightarrow> stdFileName list" where
  "set_insert f [] = [f]"
| "set_insert f (g # gs) =
     (if compStdFileName f g then f # g # gs
      else if compStdFileName g f then g # set_insert f gs
      else g # gs)"

text \<open>The names from position \<open>n0\<close> up to \<open>nf\<close>; reading past the end of the list is \<^const>\<open>None\<close>.\<close>

definition add_candidate :: "mxlib \<Rightarrow> string \<Rightarrow> string \<Rightarrow> logMap \<Rightarrow> logMap" where
  "add_candidate L dev f m =
     (let sfn = stdFileName_string L f in
      if \<not> fn_valid sfn then m
      else if fst (get_appName sfn) \<noteq> dev then m
      else m\<lparr>lmp_files := AList.update dev (set_insert sfn (files_of m dev)) (lmp_files m)\<rparr>)"

definition addFileListToFileMap ::
  "mxlib \<Rightarrow> string \<Rightarrow> string list \<Rightarrow> nat \<Rightarrow> nat \<Rightarrow> logMap \<Rightarrow> (error_t \<times> logMap) option" where
  "addFileListToFileMap L dev flist n0 nf m =
     (if n0 < nf \<and> length flist < nf then None
      else Some (noerror, fold (add_candidate L dev) (map (\<lambda>n. flist ! n) [n0 ..< nf]) m))"

section \<open>Searching\<close>

function prior_scan ::
  "(u16 \<Rightarrow> bool) \<Rightarrow> bytes \<Rightarrow> u16 \<Rightarrow> timespecX \<Rightarrow> nat \<Rightarrow> nat option \<Rightarrow> nat option option" where
  "prior_scan known b ev ts buffer priorBuffer =
     (if \<not> buffer < length b then Some priorBuffer
      else
        case (case priorBuffer of None \<Rightarrow> Some None | Some q \<Rightarrow> map_option Some (timespec_get b q)) of
          None \<Rightarrow> None
        | Some minTs \<Rightarrow>
        (case entry_or_resync known b buffer (length b) minTs of
           None \<Rightarrow> None
         | Some GiveUp \<Rightarrow> Some priorBuffer
         | Some (Resync q) \<Rightarrow> prior_scan known b ev ts q priorBuffer
         | Some (Accept n) \<Rightarrow>
             (case timespec_get b buffer of
                None \<Rightarrow> None
              | Some t \<Rightarrow>
                  if timespecX_lt ts t then Some priorBuffer
                  else case eventCode b buffer of
                    None \<Rightarrow> None
                  | Some ec \<Rightarrow>
                      prior_scan known b ev ts (buffer + n) (if ec = ev then Some buffer else priorBuffer))))"
  by pat_completeness auto

termination prior_scan
  by (relation "measure (\<lambda>(known, b, ev, ts, p, prior). length b - p)")
    (auto dest: accept_advances resync_advances)

declare prior_scan.simps [simp del]

function next_scan ::
  "(u16 \<Rightarrow> bool) \<Rightarrow> bytes \<Rightarrow> u16 \<Rightarrow> timespecX \<Rightarrow> nat \<Rightarrow> nat option option" where
  "next_scan known b ev currentTs buffer =
     (if \<not> buffer < length b then Some None
      else case entry_or_resync known b buffer (length b) (Some currentTs) of
        None \<Rightarrow> None
      | Some GiveUp \<Rightarrow> Some None
      | Some (Resync q) \<Rightarrow> next_scan known b ev currentTs q
      | Some (Accept n) \<Rightarrow>
          (case eventCode b buffer of
             None \<Rightarrow> None
           | Some ec \<Rightarrow>
               if ec = ev then Some (Some buffer)
               else next_scan known b ev currentTs (buffer + n)))"
  by pat_completeness auto

termination next_scan
  by (relation "measure (\<lambda>(known, b, ev, ts, p). length b - p)")
    (auto dest: accept_advances resync_advances)

declare next_scan.simps [simp del]

text \<open>
  \<open>getNextLog\<close>: the result code and the entry found. \<open>logCurrent + currentSize > bufferEnd\<close> is
  a comparison of 64-bit addresses; the buffer starts at address \<open>base\<close>.
\<close>

definition getNextLog ::
  "(u16 \<Rightarrow> bool) \<Rightarrow> u64 \<Rightarrow> int option \<Rightarrow> logInMemory \<Rightarrow> (int \<times> nat option) option" where
  "getNextLog known base logCurrent lim =
     (let b = lim_memory lim in
      case logCurrent of
        None \<Rightarrow> Some (- 1, None)
      | Some c \<Rightarrow>
          if length b = 0 then Some (- 1, None)
          else if c < 0 \<or> c \<ge> int (length b) then Some (- 1, None)
          else let cur = nat c in
          do { currentSize \<leftarrow> totalSize b cur;
               if currentSize = 0 \<or> base + word_of_nat cur + currentSize > base + word_of_nat (length b)
               then Some (- 1, None)
               else do { ev \<leftarrow> eventCode b cur;
                         currentTs \<leftarrow> timespec_get b cur;
                         r \<leftarrow> next_scan known b ev currentTs (cur + unat currentSize);
                         case r of None \<Rightarrow> Some (1, None) | Some p \<Rightarrow> Some (0, Some p) } })"


text \<open>
  \<open>loadFiles\<close> walks the set of files with iterators: position \<open>length files\<close> is \<open>end()\<close>, which
  may not be dereferenced, and position 0 may not be decremented.
\<close>

definition file_time :: "stdFileName \<Rightarrow> timespecX" where
  "file_time f = fst (get_timestamp f)"

function iter_forward :: "stdFileName list \<Rightarrow> timespecX \<Rightarrow> nat \<Rightarrow> nat option" where
  "iter_forward files t i =
     (if i \<ge> length files then None
      else if timespecX_lt (file_time (files ! i)) t
      then (if i + 1 = length files then Some (i + 1) else iter_forward files t (i + 1))
      else Some i)"
  by pat_completeness auto

termination iter_forward
  by (relation "measure (\<lambda>(files, t, i). length files - i)") auto

declare iter_forward.simps [simp del]

fun iter_back :: "stdFileName list \<Rightarrow> timespecX \<Rightarrow> nat \<Rightarrow> nat option" where
  "iter_back files t 0 =
     (if length files = 0 then None else if timespecX_gt (file_time (files ! 0)) t then None else Some 0)"
| "iter_back files t (Suc j) =
     (if Suc j \<ge> length files then None
      else if timespecX_gt (file_time (files ! Suc j)) t
      then (if j = 0 then Some 0 else iter_back files t j)
      else Some (Suc j))"

fun load_list ::
  "(u16 \<Rightarrow> bool) \<Rightarrow> (string \<Rightarrow> file_read) \<Rightarrow> stdFileName list \<Rightarrow> logInMemory \<Rightarrow> logInMemory option" where
  "load_list known R [] lim = Some lim"
| "load_list known R (f # fs) lim =
     (case loadFile known R f lim of None \<Rightarrow> None | Some (rv, lim') \<Rightarrow> load_list known R fs lim')"

definition loadFiles ::
  "(u16 \<Rightarrow> bool) \<Rightarrow> (string \<Rightarrow> file_read) \<Rightarrow> string \<Rightarrow> timespecX \<Rightarrow> logMap \<Rightarrow> (int \<times> logMap) option" where
  "loadFiles known R app startTime m =
     (let files = files_of m app; lim = buffer_of m app in
      if length files = 0 then Some (- 1, m)
      else if length (lim_memory lim) > 0 then
        (if timespecX_le (lim_startTime lim) startTime \<and> timespecX_ge (lim_endTime lim) startTime then Some (0, m)
         else if timespecX_gt (lim_startTime lim) startTime then
           do { last \<leftarrow> iter_forward files (lim_startTime lim) 0;
                first \<leftarrow> iter_back files startTime last;
                if last = 0 \<or> first = 0 then None
                else do { lim' \<leftarrow> load_list known R (rev (map (\<lambda>n. files ! n) [first ..< last])) lim;
                          Some (0, set_buffer app lim' m) } }
         else
           do { first \<leftarrow> iter_back files (lim_endTime lim) (length files - 1);
                last \<leftarrow> iter_forward files startTime (first + 1);
                lim' \<leftarrow> load_list known R (map (\<lambda>n. files ! n) [first + 1 ..< last]) lim;
                Some (0, set_buffer app lim' m) })
      else
        let before = length (takeWhile (\<lambda>f. timespecX_lt (file_time f) startTime) files) in
        if before = 0 then Some (- 1, m)
        else do { lim' \<leftarrow> load_list known R
                    (files ! (before - 1) # (if before < length files then [files ! before] else [])) lim;
                  Some (0, set_buffer app lim' m) })"

text \<open>\<open>getPriorLog\<close>; the margin of 30 seconds is added in 32 bits.\<close>

definition getPriorLog ::
  "(u16 \<Rightarrow> bool) \<Rightarrow> (string \<Rightarrow> file_read) \<Rightarrow> string \<Rightarrow> u16 \<Rightarrow> timespecX \<Rightarrow> logMap \<Rightarrow>
   (int \<times> nat option \<times> logMap) option" where
  "getPriorLog known R app ev ts m =
     (if length (files_of m app) = 0 then Some (- 1, None, m)
      else
        let lim = buffer_of m app;
            et = TimespecX (time_s (lim_endTime lim) + 30) (time_ns (lim_endTime lim))
        in case (if timespecX_gt (lim_startTime lim) ts \<or> timespecX_lt et ts
                 then loadFiles known R app ts m else Some (0, m)) of
             None \<Rightarrow> None
           | Some (rv, m) \<Rightarrow>
               if rv < 0 then Some (- 1, None, m)
               else let b = lim_memory (buffer_of m app) in
               if length b = 0 then Some (- 1, None, m)
               else case prior_scan known b ev ts 0 None of
                 None \<Rightarrow> None
               | Some None \<Rightarrow> Some (- 1, None, m)
               | Some (Some p) \<Rightarrow> Some (0, Some p, m))"

section \<open>No read outside the buffer\<close>

lemma headerSize_values:
  assumes "headerSize b p = Some hs"
  obtains l0 where "msgLen0 b p = Some l0" "unat l0 < 254" "hs = 12"
  | "msgLen0 b p = Some 254" "hs = 14"
  | l0 where "msgLen0 b p = Some l0" "unat l0 = 255" "hs = 20"
proof -
  obtain l0 where l0: "msgLen0 b p = Some l0"
    using assms by (auto simp: headerSize_def lenSize_def split: bind_splits)
  have "unat l0 < 256" using unsigned_less [of l0, where ?'a = nat] by simp
  then consider "unat l0 < 254" | "unat l0 = 254" | "unat l0 = 255" by linarith
  then show ?thesis
  proof cases
    case 1
    then show ?thesis
      using that(1) l0 assms by (auto simp: headerSize_def lenSize_def MAX_LEN0_def)
  next
    case 2
    then have "l0 = 254" by (simp add: word_unat_eq_iff)
    then show ?thesis
      using that(2) l0 assms by (auto simp: headerSize_def lenSize_def MAX_LEN0_def)
  next
    case 3
    then show ?thesis
      using that(3) l0 assms by (auto simp: headerSize_def lenSize_def MAX_LEN0_def)
  qed
qed

lemma rd_Some:
  "p + 1 \<le> length b \<Longrightarrow> \<exists>v. rd8 b p = Some v"
  "p + 2 \<le> length b \<Longrightarrow> \<exists>v. rd16 b p = Some v"
  "p + 4 \<le> length b \<Longrightarrow> \<exists>v. rd32 b p = Some v"
  "p + 8 \<le> length b \<Longrightarrow> \<exists>v. rd64 b p = Some v"
  by (simp_all add: rd8_def rd16_def rd32_def rd64_def load_def)

lemma header_reads:
  assumes "p + 12 \<le> length b"
  shows "\<exists>v. logLevel b p = Some v" "\<exists>v. eventCode b p = Some v" "\<exists>v. timespec_get b p = Some v"
    "\<exists>v. headerSize b p = Some v"
proof -
  show "\<exists>v. logLevel b p = Some v" using assms rd_Some(1) [of p b] by (simp add: logLevel_def)
  show "\<exists>v. eventCode b p = Some v" using assms rd_Some(2) [of "p + 1" b] by (simp add: eventCode_def)
  show "\<exists>v. timespec_get b p = Some v"
    using assms rd_Some(3) [of "p + 3" b] rd_Some(3) [of "p + 7" b] by (auto simp: timespec_get_def)
  show "\<exists>v. headerSize b p = Some v"
    using assms rd_Some(1) [of "p + 11" b] by (auto simp: headerSize_def lenSize_def msgLen0_def)
qed

lemma totalSize_reads:
  assumes "headerSize b p = Some hs" "p + unat hs \<le> length b"
  shows "\<exists>v. totalSize b p = Some v"
  using assms(1)
proof (cases rule: headerSize_values)
  case (1 l0)
  then show ?thesis using assms by (simp add: totalSize_def msgLen_def MAX_LEN0_def)
next
  case 2
  then show ?thesis
    using assms rd_Some(2) [of "p + 12" b] by (auto simp: totalSize_def msgLen_def msgLen1_def MAX_LEN0_def)
next
  case (3 l0)
  then show ?thesis
    using assms rd_Some(4) [of "p + 12" b] by (auto simp: totalSize_def msgLen_def MAX_LEN0_def)
qed

lemma extent_total:
  assumes "e \<le> length b"
  shows "\<exists>ok tot. logMapEntryExtentValid b p e = Some (ok, tot) \<and> (ok \<longrightarrow> p + 12 \<le> e)"
proof (cases "p < e \<and> 12 \<le> e - p")
  case True
  then have "p + 12 \<le> length b" using assms by linarith
  then obtain hs where hs: "headerSize b p = Some hs"
    using header_reads(4) [of p b] by auto
  have pe: "p + 12 \<le> e" and "unat hs \<le> e - p \<Longrightarrow> p + unat hs \<le> length b"
    using True assms by linarith+
  then have "unat hs \<le> e - p \<Longrightarrow> \<exists>v. totalSize b p = Some v"
    using totalSize_reads [OF hs] by blast
  then show ?thesis
    using True pe hs by (auto simp: logMapEntryExtentValid_def minHeadSize_def Let_def not_less)
qed (auto simp: logMapEntryExtentValid_def minHeadSize_def Let_def)

lemma sane_total:
  assumes "e \<le> length b"
  shows "\<exists>ok tot. logMapEntrySane known b p e minTs = Some (ok, tot) \<and> (ok \<longrightarrow> p + 12 \<le> e)"
proof -
  obtain ok tot where x: "logMapEntryExtentValid b p e = Some (ok, tot)" "ok \<longrightarrow> p + 12 \<le> e"
    using extent_total [OF assms] by blast
  show ?thesis
  proof (cases ok)
    case True
    then have "p + 12 \<le> length b" using x assms by simp
    from header_reads [OF this] show ?thesis
      using x True by (auto simp: logMapEntrySane_def split: option.splits)
  qed (use x in \<open>auto simp: logMapEntrySane_def\<close>)
qed

lemma resync_chain_total:
  "e \<le> length b \<Longrightarrow> \<exists>r. resync_chain known b e k links chain minTs = Some r"
proof (induction k arbitrary: links chain minTs)
  case (Suc k)
  obtain ok tot where s: "logMapEntrySane known b chain e minTs = Some (ok, tot)" "ok \<longrightarrow> chain + 12 \<le> e"
    using sane_total [OF Suc.prems] by blast
  show ?case
  proof (cases ok)
    case True
    then obtain ts where "timespec_get b chain = Some ts"
      using header_reads(3) [of chain b] s Suc.prems by auto
    then show ?thesis
      using Suc.IH [OF Suc.prems] s by (auto split: if_splits)
  qed (use s in auto)
qed (auto simp del: split_paired_Ex)

lemma resync_candidate_total:
  "e \<le> length b \<Longrightarrow> \<exists>r. resync_candidate known b e minTs c = Some r"
  using resync_chain_total [of e b known 3 0 c minTs] unfolding resync_candidate_def
  by (auto split: prod.splits)

lemma resync_scan_total: "e \<le> length b \<Longrightarrow> \<exists>r. resync_scan known b e minTs cs = Some r"
proof (induction cs)
  case (Cons c cs)
  then show ?case using resync_candidate_total [of e b known minTs c] by (auto split: if_splits)
qed simp

lemma entry_or_resync_total:
  assumes "e \<le> length b"
  shows "\<exists>r. entry_or_resync known b p e minTs = Some r \<and> (\<forall>n. r = Accept n \<longrightarrow> p + 12 \<le> e)"
proof -
  obtain ok tot where s: "logMapEntrySane known b p e minTs = Some (ok, tot)" "ok \<longrightarrow> p + 12 \<le> e"
    using sane_total [OF assms] by blast
  obtain r where "logMapResync known b p e minTs = Some r"
    using resync_scan_total [OF assms, of known minTs "[p + 1 ..< e]"] by (auto simp: logMapResync_def)
  then show ?thesis
    using s by (auto simp: entry_or_resync_def split: option.splits)
qed

definition ptr_ok :: "bytes \<Rightarrow> nat option \<Rightarrow> bool" where
  "ptr_ok b q \<longleftrightarrow> (case q of None \<Rightarrow> True | Some p \<Rightarrow> p + 12 \<le> length b)"

lemma min_ts_total:
  assumes "ptr_ok b q"
  shows "\<exists>t. (case q of None \<Rightarrow> Some None | Some p \<Rightarrow> map_option Some (timespec_get b p)) = Some t"
proof (cases q)
  case (Some p)
  then show ?thesis using assms header_reads(3) [of p b] by (auto simp: ptr_ok_def)
qed simp

lemma load_scan_total:
  "ptr_ok b fg \<Longrightarrow> ptr_ok b lg \<Longrightarrow>
   \<exists>fg' lg' errs'. load_scan known b p fg lg errs = Some (fg', lg', errs') \<and> ptr_ok b fg' \<and> ptr_ok b lg'"
proof (induction known b p fg lg errs rule: load_scan.induct)
  case (1 known b p fg lg errs)
  show ?case
  proof (cases "p < length b")
    case True
    obtain t where t: "(case lg of None \<Rightarrow> Some None | Some p \<Rightarrow> map_option Some (timespec_get b p)) = Some t"
      using min_ts_total "1.prems"(2) by blast
    obtain r where r: "entry_or_resync known b p (length b) t = Some r" "\<forall>n. r = Accept n \<longrightarrow> p + 12 \<le> length b"
      using entry_or_resync_total [of "length b" b] by blast
    show ?thesis
    proof (cases r)
      case (Accept n)
      have "ptr_ok b (case fg of None \<Rightarrow> Some p | Some _ \<Rightarrow> fg)" "ptr_ok b (Some p)"
        using "1.prems"(1) r Accept by (auto simp: ptr_ok_def split: option.splits)
      then show ?thesis
        using "1.IH"(1) [OF _ t r(1) Accept] True t r Accept
        by (simp add: load_scan.simps [of known b p])
    next
      case (Resync q)
      then show ?thesis
        using "1.IH"(2) [OF _ t r(1) Resync] True t r "1.prems" by (simp add: load_scan.simps [of known b p])
    next
      case GiveUp
      then show ?thesis
        using True t r "1.prems" by (simp add: load_scan.simps [of known b p])
    qed
  qed (use "1.prems" in \<open>simp add: load_scan.simps [of known b p]\<close>)
qed

lemma loadFile_total: "\<exists>r. loadFile known R lfn lim = Some r"
proof -
  let ?b = "fr_data (R (fst (get_fullName lfn)))"
  obtain fg lg errs where s: "load_scan known ?b 0 None None (lim_recoverableErrors lim) = Some (fg, lg, errs)"
    and ok: "ptr_ok ?b fg" "ptr_ok ?b lg"
    using load_scan_total [of ?b None None known 0 "lim_recoverableErrors lim"] by (auto simp: ptr_ok_def)
  have t: "\<exists>t. timespec_get ?b q = Some t" if "ptr_ok ?b (Some q)" for q
    using header_reads(3) [of q ?b] that by (auto simp: ptr_ok_def)
  show ?thesis
  proof (cases "fg = None \<or> lg = None")
    case True
    then show ?thesis using s by (cases fg; cases lg) (auto simp: loadFile_def Let_def)
  next
    case False
    then obtain f l where fl: "fg = Some f" "lg = Some l" by auto
    obtain tf tl where "timespec_get ?b f = Some tf" "timespec_get ?b l = Some tl"
      using t ok fl by blast
    then show ?thesis using s fl by (auto simp: loadFile_def Let_def)
  qed
qed


section \<open>Scanning a well-formed log\<close>

definition encode_log :: "entry list \<Rightarrow> bytes" where
  "encode_log es = concat (map encode_entry es)"

definition good_entry :: "(u16 \<Rightarrow> bool) \<Rightarrow> entry \<Rightarrow> bool" where
  "good_entry known en \<longleftrightarrow> entry_ok en \<and> logMapPriorityValid (e_level en) \<and> known (e_code en)"

definition good_log :: "(u16 \<Rightarrow> bool) \<Rightarrow> entry list \<Rightarrow> bool" where
  "good_log known es \<longleftrightarrow> list_all (good_entry known) es \<and> sorted (map e_time es)"

lemma encode_log_simps [simp]:
  "encode_log [] = []" "encode_log (en # es) = encode_entry en @ encode_log es"
  "encode_log (es @ es') = encode_log es @ encode_log es'"
  by (simp_all add: encode_log_def)

lemma encode_entry_pos: "0 < length (encode_entry en)"
  using encode_entry_min [of en] unfolding minHeadSize_def by linarith

lemma encode_log_Nil_iff [simp]: "encode_log es = [] \<longleftrightarrow> es = []"
  using encode_entry_pos by (cases es) (auto simp flip: length_greater_0_conv)

lemma good_log_Cons:
  "good_log known (en # es) \<longleftrightarrow> good_entry known en \<and> good_log known es \<and> (\<forall>x \<in> set es. e_time en \<le> e_time x)"
  by (auto simp: good_log_def)

lemma sane_at:
  assumes "good_entry known en" "length xs = p" "b = xs @ encode_entry en @ ys"
    and "case minTs of None \<Rightarrow> True | Some t \<Rightarrow> t \<le> e_time en"
  shows "logMapEntrySane known b p (length b) minTs = Some (True, word_of_nat (length (encode_entry en)))"
proof -
  have ok: "entry_ok en" using assms(1) by (simp add: good_entry_def)
  have len: "length b - p = length (encode_entry en) + length ys" "p < length b"
    using assms(2,3) encode_entry_pos [of en] by auto
  have hd: "length (encode_header en) \<le> length (encode_entry en)" "12 \<le> length (encode_header en)"
    using encode_header_bounds(1) [of en] by (simp_all add: length_encode_entry minHeadSize_def)
  have hu: "unat (word_of_nat (length (encode_header en)) :: u64) = length (encode_header en)"
    by (rule unat_header)
  then have hnz: "(word_of_nat (length (encode_header en)) :: u64) \<noteq> 0"
    using hd(2) by (metis not_numeral_le_zero unsigned_0)
  have "logMapEntryExtentValid b p (length b) = Some (True, word_of_nat (length (encode_entry en)))"
    using ok len hd hu hnz encode_entry_pos [of en] headerSize_at [OF assms(2) ok, of ys] totalSize_at [OF assms(2) ok, of ys]
    by (simp add: logMapEntryExtentValid_def Let_def assms(3) unat_total minHeadSize_def)
  then show ?thesis
    using assms(1,4) logLevel_at [OF assms(2), of en ys] eventCode_at [OF assms(2), of en ys]
      timespec_at [OF assms(2), of en ys]
    by (auto simp: logMapEntrySane_def good_entry_def assms(3) timespecX_ops split: option.splits)
qed

lemma accept_at:
  assumes "good_entry known en" "length xs = p" "b = xs @ encode_entry en @ ys"
    and "case minTs of None \<Rightarrow> True | Some t \<Rightarrow> t \<le> e_time en"
  shows "entry_or_resync known b p (length b) minTs = Some (Accept (length (encode_entry en)))"
  using sane_at [OF assms] assms(1) by (simp add: entry_or_resync_def good_entry_def unat_total)

text \<open>What is known about a saved entry pointer while a well-formed log is scanned.\<close>

definition ptr_before :: "bytes \<Rightarrow> entry list \<Rightarrow> nat option \<Rightarrow> bool" where
  "ptr_before b es q \<longleftrightarrow>
     (case q of None \<Rightarrow> True | Some p \<Rightarrow> (\<exists>t. timespec_get b p = Some t \<and> (\<forall>x \<in> set es. t \<le> e_time x)))"

lemma ptr_before_min:
  assumes "ptr_before b (en # es) q"
  obtains minTs where
    "(case q of None \<Rightarrow> Some None | Some p \<Rightarrow> map_option Some (timespec_get b p)) = Some minTs"
    "case minTs of None \<Rightarrow> True | Some t \<Rightarrow> t \<le> e_time en"
  using assms by (cases q) (auto simp: ptr_before_def)

lemma load_scan_good:
  assumes "good_log known es" "b = encode_log pre @ encode_log es" "ptr_before b es lg"
  shows "load_scan known b (length (encode_log pre)) fg lg errs =
    Some (if es = [] then (fg, lg, errs)
          else (case fg of None \<Rightarrow> Some (length (encode_log pre)) | Some _ \<Rightarrow> fg,
                Some (length (encode_log (pre @ butlast es))), errs))"
  using assms
proof (induction es arbitrary: pre fg lg)
  case Nil
  then show ?case by (simp add: load_scan.simps)
next
  case (Cons en es)
  let ?p = "length (encode_log pre)"
  obtain minTs where m: "(case lg of None \<Rightarrow> Some None | Some p \<Rightarrow> map_option Some (timespec_get b p)) = Some minTs"
    "case minTs of None \<Rightarrow> True | Some t \<Rightarrow> t \<le> e_time en"
    using ptr_before_min [OF Cons.prems(3)] by blast
  have g: "good_entry known en" "good_log known es" "\<forall>x \<in> set es. e_time en \<le> e_time x"
    using Cons.prems(1) by (auto simp: good_log_Cons)
  have b: "b = encode_log pre @ encode_entry en @ encode_log es"
    using Cons.prems(2) by simp
  have lt: "?p < length b" using b encode_entry_pos [of en] by simp
  have a: "entry_or_resync known b ?p (length b) minTs = Some (Accept (length (encode_entry en)))"
    by (rule accept_at [OF g(1) refl b m(2)])
  have t: "timespec_get b ?p = Some (e_time en)"
    unfolding b by (rule timespec_at) simp
  have pb: "ptr_before b es (Some ?p)" using g(3) t by (simp add: ptr_before_def)
  have "load_scan known b ?p fg lg errs =
      load_scan known b (length (encode_log (pre @ [en]))) (case fg of None \<Rightarrow> Some ?p | Some _ \<Rightarrow> fg) (Some ?p) errs"
    using lt m(1) a by (simp add: load_scan.simps [of known b ?p])
  also have "\<dots> = Some (if es = [] then (case fg of None \<Rightarrow> Some ?p | Some _ \<Rightarrow> fg, Some ?p, errs)
          else (case fg of None \<Rightarrow> Some ?p | Some _ \<Rightarrow> fg, Some (length (encode_log ((pre @ [en]) @ butlast es))), errs))"
    using Cons.IH [OF g(2), of "pre @ [en]" "Some ?p" "case fg of None \<Rightarrow> Some ?p | Some _ \<Rightarrow> fg"] b pb
    by (auto split: option.splits)
  finally show ?case by simp
qed

text \<open>The search before a time, on the list of entries.\<close>

fun prior_spec :: "u16 \<Rightarrow> timespecX \<Rightarrow> nat \<Rightarrow> nat option \<Rightarrow> entry list \<Rightarrow> nat option" where
  "prior_spec ev ts off prior [] = prior"
| "prior_spec ev ts off prior (en # es) =
     (if ts < e_time en then prior
      else prior_spec ev ts (off + length (encode_entry en)) (if e_code en = ev then Some off else prior) es)"

lemma prior_scan_good:
  assumes "good_log known es" "b = encode_log pre @ encode_log es" "ptr_before b es prior"
  shows "prior_scan known b ev ts (length (encode_log pre)) prior =
    Some (prior_spec ev ts (length (encode_log pre)) prior es)"
  using assms
proof (induction es arbitrary: pre prior)
  case Nil
  then show ?case by (simp add: prior_scan.simps)
next
  case (Cons en es)
  let ?p = "length (encode_log pre)"
  obtain minTs where m: "(case prior of None \<Rightarrow> Some None | Some p \<Rightarrow> map_option Some (timespec_get b p)) = Some minTs"
    "case minTs of None \<Rightarrow> True | Some t \<Rightarrow> t \<le> e_time en"
    using ptr_before_min [OF Cons.prems(3)] by blast
  have g: "good_entry known en" "good_log known es" "\<forall>x \<in> set es. e_time en \<le> e_time x"
    using Cons.prems(1) by (auto simp: good_log_Cons)
  have b: "b = encode_log pre @ encode_entry en @ encode_log es"
    using Cons.prems(2) by simp
  have lt: "?p < length b" using b encode_entry_pos [of en] by simp
  have a: "entry_or_resync known b ?p (length b) minTs = Some (Accept (length (encode_entry en)))"
    by (rule accept_at [OF g(1) refl b m(2)])
  have t: "timespec_get b ?p = Some (e_time en)" "eventCode b ?p = Some (e_code en)"
    unfolding b by (rule timespec_at eventCode_at; simp)+
  let ?q = "if e_code en = ev then Some ?p else prior"
  have pb: "ptr_before b es ?q" using g(3) t Cons.prems(3) by (auto simp: ptr_before_def split: option.splits)
  show ?case
  proof (cases "ts < e_time en")
    case True
    then show ?thesis using lt m(1) a t by (simp add: prior_scan.simps [of known b ev ts ?p] timespecX_ops)
  next
    case False
    then have "prior_scan known b ev ts ?p prior = prior_scan known b ev ts (length (encode_log (pre @ [en]))) ?q"
      using lt m(1) a t by (simp add: prior_scan.simps [of known b ev ts ?p] timespecX_ops)
    then show ?thesis
      using Cons.IH [OF g(2), of "pre @ [en]" ?q] b pb False by simp
  qed
qed

lemma prior_spec_skip:
  "\<forall>x \<in> set es. e_code x \<noteq> ev \<or> ts < e_time x \<Longrightarrow> prior_spec ev ts off prior es = prior"
  by (induction es arbitrary: off prior) auto

lemma prior_spec_found:
  assumes "sorted (map e_time (es1 @ en # es2))" "e_code en = ev" "e_time en \<le> ts"
    and "\<forall>x \<in> set es2. e_code x \<noteq> ev \<or> ts < e_time x"
  shows "prior_spec ev ts off prior (es1 @ en # es2) = Some (off + length (encode_log es1))"
  using assms
proof (induction es1 arbitrary: off prior)
  case Nil
  then have "\<not> ts < e_time en" by simp
  then show ?case using Nil prior_spec_skip [of es2] by simp
next
  case (Cons x es1)
  have "\<not> ts < e_time x" using Cons.prems by (auto simp: not_less)
  then show ?case using Cons by (simp add: add.assoc)
qed


lemma next_scan_good:
  assumes "good_log known es" "b = encode_log pre @ encode_log es" "\<forall>x \<in> set es. t \<le> e_time x"
  shows "next_scan known b ev t (length (encode_log pre)) =
    Some (if \<exists>x \<in> set es. e_code x = ev
          then Some (length (encode_log (pre @ takeWhile (\<lambda>x. e_code x \<noteq> ev) es))) else None)"
  using assms
proof (induction es arbitrary: pre)
  case Nil
  then show ?case by (simp add: next_scan.simps)
next
  case (Cons en es)
  let ?p = "length (encode_log pre)"
  have g: "good_entry known en" "good_log known es"
    using Cons.prems(1) by (auto simp: good_log_Cons)
  have b: "b = encode_log pre @ encode_entry en @ encode_log es"
    using Cons.prems(2) by simp
  have lt: "?p < length b" using b encode_entry_pos [of en] by simp
  have a: "entry_or_resync known b ?p (length b) (Some t) = Some (Accept (length (encode_entry en)))"
    by (rule accept_at [OF g(1) refl b]) (use Cons.prems(3) in simp)
  have c: "eventCode b ?p = Some (e_code en)"
    unfolding b by (rule eventCode_at) simp
  show ?case
  proof (cases "e_code en = ev")
    case True
    then show ?thesis using lt a c by (simp add: next_scan.simps [of known b ev t ?p])
  next
    case False
    then have "next_scan known b ev t ?p = next_scan known b ev t (length (encode_log (pre @ [en])))"
      using lt a c by (simp add: next_scan.simps [of known b ev t ?p])
    then show ?thesis
      using Cons.IH [OF g(2), of "pre @ [en]"] b Cons.prems(3) False by simp
  qed
qed

section \<open>Resynchronisation finds the next intact part\<close>





section \<open>Loading a well-formed file\<close>

lemma loadFile_good:
  assumes "good_log known es" "es \<noteq> []"
    and "R (fst (get_fullName lfn)) = \<lparr>fr_data = encode_log es, fr_nrd = int (length (encode_log es))\<rparr>"
    and "lim_memory lim = []"
  shows "\<exists>lim'. loadFile known R lfn lim = Some (0, lim') \<and> lim_memory lim' = encode_log es \<and>
    lim_recoverableErrors lim' = lim_recoverableErrors lim \<and>
    lim_startTime lim' = e_time (hd es) \<and> lim_endTime lim' = e_time (last es)"
proof -
  have scan: "load_scan known (encode_log es) 0 None None (lim_recoverableErrors lim) =
      Some (Some 0, Some (length (encode_log (butlast es))), lim_recoverableErrors lim)"
    using load_scan_good [OF assms(1), of "encode_log es" "[]" None None] assms(2) by (simp add: ptr_before_def)
  have first: "timespec_get (encode_log es) 0 = Some (e_time (hd es))"
    using timespec_at [of "[]" 0 "hd es" "encode_log (tl es)"] assms(2) by (cases es) simp_all
  have "encode_log es = encode_log (butlast es) @ encode_entry (last es) @ []"
    using assms(2) encode_log_simps(3) [of "butlast es" "[last es]"] by simp
  then have last: "timespec_get (encode_log es) (length (encode_log (butlast es))) = Some (e_time (last es))"
    using timespec_at [OF refl, of "encode_log (butlast es)" "last es" "[]"] by simp
  show ?thesis
    using assms(2,3,4) scan first last by (simp add: loadFile_def Let_def)
qed

section \<open>Provenance of loaded bytes\<close>

fun ranges_ok :: "(string \<Rightarrow> file_read) \<Rightarrow> nat \<Rightarrow> loadedFile list \<Rightarrow> bool" where
  "ranges_ok R off [] = True"
| "ranges_ok R off (l # ls) \<longleftrightarrow>
     m_begin l = off \<and> m_end l = off + length (fr_data (R (m_name l))) \<and> fr_data (R (m_name l)) \<noteq> [] \<and>
     ranges_ok R (m_end l) ls"

definition loaded_bytes :: "(string \<Rightarrow> file_read) \<Rightarrow> loadedFile list \<Rightarrow> bytes" where
  "loaded_bytes R ls = concat (map (\<lambda>l. fr_data (R (m_name l))) ls)"

text \<open>The buffer is the concatenation of the files in the list, whose ranges partition it.\<close>

definition prov_ok :: "(string \<Rightarrow> file_read) \<Rightarrow> logInMemory \<Rightarrow> bool" where
  "prov_ok R lim \<longleftrightarrow>
     ranges_ok R 0 (lim_loadedFiles lim) \<and> lim_memory lim = loaded_bytes R (lim_loadedFiles lim)"

lemma loaded_bytes_simps [simp]:
  "loaded_bytes R [] = []" "loaded_bytes R (l # ls) = fr_data (R (m_name l)) @ loaded_bytes R ls"
  "loaded_bytes R (ls @ ls') = loaded_bytes R ls @ loaded_bytes R ls'"
  by (simp_all add: loaded_bytes_def)

lemma ranges_ok_append:
  "ranges_ok R off (ls @ ls') \<longleftrightarrow> ranges_ok R off ls \<and> ranges_ok R (off + length (loaded_bytes R ls)) ls'"
  by (induction ls arbitrary: off) (simp_all add: add.assoc cong: conj_cong)

lemma ranges_ok_shift:
  "ranges_ok R off ls \<Longrightarrow>
   ranges_ok R (off + n) (map (\<lambda>l. l\<lparr>m_begin := m_begin l + n, m_end := m_end l + n\<rparr>) ls)"
  by (induction ls arbitrary: off) auto

lemma loaded_bytes_shift [simp]:
  "loaded_bytes R (map (\<lambda>l. l\<lparr>m_begin := m_begin l + n, m_end := m_end l + n\<rparr>) ls) = loaded_bytes R ls"
  by (simp add: loaded_bytes_def comp_def)

lemma ranges_ok_empty: "ranges_ok R off ls \<Longrightarrow> loaded_bytes R ls = [] \<longleftrightarrow> ls = []"
  by (cases ls) auto

lemma new_prov: "prov_ok R logInMemory_new"
  by (simp add: prov_ok_def logInMemory_new_def)

text \<open>The ways \<open>loadFile\<close> can change the object.\<close>

lemma loadFile_cases:
  assumes "loadFile known R lfn lim = Some (rv, lim')"
  defines "name \<equiv> fst (get_fullName lfn)"
  defines "d \<equiv> fr_data (R name)"
  obtains (refused) "rv = - 1" "lim_memory lim' = lim_memory lim" "lim_loadedFiles lim' = lim_loadedFiles lim"
  | (initial) "rv = 0" "d \<noteq> []" "lim_memory lim = []" "lim_memory lim' = d"
      "lim_loadedFiles lim' = lim_loadedFiles lim @ [\<lparr>m_begin = 0, m_end = length d, m_name = name\<rparr>]"
  | (prepended) "rv = 0" "d \<noteq> []" "lim_memory lim' = d @ lim_memory lim"
      "lim_loadedFiles lim' = \<lparr>m_begin = 0, m_end = length d, m_name = name\<rparr> #
         map (\<lambda>l. l\<lparr>m_begin := m_begin l + length d, m_end := m_end l + length d\<rparr>) (lim_loadedFiles lim)"
  | (appended) "rv = 0" "d \<noteq> []" "lim_memory lim' = lim_memory lim @ d"
      "lim_loadedFiles lim' = lim_loadedFiles lim @
         [\<lparr>m_begin = length (lim_memory lim), m_end = length (lim_memory lim) + length d, m_name = name\<rparr>]"
  using assms(1) unfolding loadFile_def Let_def name_def [symmetric] d_def [symmetric]
  by (auto split: if_splits option.splits prod.splits bind_splits)

lemma loadFile_prov:
  assumes "prov_ok R lim" "loadFile known R lfn lim = Some (rv, lim')"
  shows "prov_ok R lim'"
  using assms(2)
proof (cases rule: loadFile_cases)
  case initial
  then have "lim_loadedFiles lim = []"
    using assms(1) ranges_ok_empty by (metis prov_ok_def)
  then show ?thesis using initial by (simp add: prov_ok_def)
next
  case prepended
  then show ?thesis
    using assms(1) ranges_ok_shift [of R 0 "lim_loadedFiles lim"] by (simp add: prov_ok_def)
next
  case appended
  then show ?thesis using assms(1) by (simp add: prov_ok_def ranges_ok_append)
qed (use assms(1) in \<open>simp add: prov_ok_def\<close>)

lemma find_loaded_data:
  assumes "ranges_ok R off ls" "off \<le> p" "p < off + length (loaded_bytes R ls)"
  shows "\<exists>l. find_loaded p ls = Some l \<and> m_begin l \<le> p \<and>
    p - m_begin l < length (fr_data (R (m_name l))) \<and>
    fr_data (R (m_name l)) ! (p - m_begin l) = loaded_bytes R ls ! (p - off)"
  using assms
proof (induction ls arbitrary: off)
  case (Cons l ls)
  show ?case
  proof (cases "p < m_end l")
    case True
    then show ?thesis using Cons.prems by (auto simp: find_loaded_def nth_append)
  next
    case False
    then have "\<exists>l'. find_loaded p ls = Some l' \<and> m_begin l' \<le> p \<and>
        p - m_begin l' < length (fr_data (R (m_name l'))) \<and>
        fr_data (R (m_name l')) ! (p - m_begin l') = loaded_bytes R ls ! (p - m_end l)"
      using Cons.prems by (intro Cons.IH) auto
    moreover have "loaded_bytes R (l # ls) ! (p - off) = loaded_bytes R ls ! (p - m_end l)"
    proof -
      have "\<not> p - off < length (fr_data (R (m_name l)))" "p - off - length (fr_data (R (m_name l))) = p - m_end l"
        using False Cons.prems by auto
      then show ?thesis by (simp only: loaded_bytes_simps nth_append if_False)
    qed
    ultimately show ?thesis
      using False by (auto simp: find_loaded_def)
  qed
qed simp

section \<open>Runs of entries and ranges of times\<close>


lemma sane_reads_time:
  assumes "logMapEntrySane known b p (length b) minTs = Some (True, tot)"
  shows "\<exists>ts. timespec_get b p = Some ts \<and> (case minTs of None \<Rightarrow> True | Some t \<Rightarrow> t \<le> ts)"
proof -
  obtain r where r: "entry_or_resync known b p (length b) minTs = Some r" "\<forall>n. r = Accept n \<longrightarrow> p + 12 \<le> length b"
    using entry_or_resync_total [of "length b" b] by blast
  then have "p + 12 \<le> length b" using assms by (auto simp: entry_or_resync_def)
  then obtain ts where "timespec_get b p = Some ts" using header_reads(3) [of p b] by blast
  then show ?thesis
    using assms by (auto simp: logMapEntrySane_def timespecX_ops split: option.splits if_splits bind_splits)
qed





text \<open>The first and the last good entry of a scan are in order of time.\<close>

definition in_order :: "bytes \<Rightarrow> nat option \<Rightarrow> nat option \<Rightarrow> bool" where
  "in_order b fg lg \<longleftrightarrow>
     (case (fg, lg) of
        (Some f, Some l) \<Rightarrow> (\<exists>tf tl. timespec_get b f = Some tf \<and> timespec_get b l = Some tl \<and> tf \<le> tl)
      | (None, None) \<Rightarrow> True
      | _ \<Rightarrow> False)"

lemma load_scan_order:
  "load_scan known b p fg lg errs = Some (fg', lg', errs') \<Longrightarrow> in_order b fg lg \<Longrightarrow> in_order b fg' lg'"
proof (induction known b p fg lg errs rule: load_scan.induct)
  case (1 known b p fg lg errs)
  show ?case
  proof (cases "p < length b")
    case True
    obtain t where t: "(case lg of None \<Rightarrow> Some None | Some p \<Rightarrow> map_option Some (timespec_get b p)) = Some t"
      using "1.prems" True by (cases "case lg of None \<Rightarrow> Some None | Some p \<Rightarrow> map_option Some (timespec_get b p)")
        (auto simp: load_scan.simps [of known b p])
    obtain r where r: "entry_or_resync known b p (length b) t = Some r"
      using entry_or_resync_total [of "length b" b] by blast
    show ?thesis
    proof (cases r)
      case (Accept n)
      then obtain ts where ts: "timespec_get b p = Some ts" "case t of None \<Rightarrow> True | Some t \<Rightarrow> t \<le> ts"
        using r sane_reads_time [of known b p t] by (auto simp: entry_or_resync_def split: option.splits if_splits)
      have "in_order b (case fg of None \<Rightarrow> Some p | Some _ \<Rightarrow> fg) (Some p)"
        using "1.prems"(2) t ts by (cases fg; cases lg) (auto simp: in_order_def intro: order_trans)
      then show ?thesis
        using "1.IH"(1) [OF _ t r Accept] True t r Accept "1.prems"(1) by (simp add: load_scan.simps [of known b p])
    next
      case (Resync q)
      then show ?thesis
        using "1.IH"(2) [OF _ t r Resync] True t r "1.prems" by (simp add: load_scan.simps [of known b p])
    next
      case GiveUp
      then show ?thesis using True t r "1.prems" by (simp add: load_scan.simps [of known b p])
    qed
  qed (use "1.prems" in \<open>simp add: load_scan.simps [of known b p]\<close>)
qed

text \<open>A well-formed buffer: the loaded files make it up, and its range of times is not reversed.\<close>

definition lim_ok :: "(string \<Rightarrow> file_read) \<Rightarrow> logInMemory \<Rightarrow> bool" where
  "lim_ok R lim \<longleftrightarrow> prov_ok R lim \<and> (lim_memory lim \<noteq> [] \<longrightarrow> lim_startTime lim \<le> lim_endTime lim)"

lemma loadFile_times:
  assumes "loadFile known R lfn lim = Some (rv, lim')" "lim_memory lim \<noteq> [] \<longrightarrow> lim_startTime lim \<le> lim_endTime lim"
  shows "(lim_memory lim' \<noteq> [] \<longrightarrow> lim_startTime lim' \<le> lim_endTime lim') \<and>
    (lim_memory lim \<noteq> [] \<longrightarrow> lim_startTime lim' \<le> lim_startTime lim \<and> lim_endTime lim \<le> lim_endTime lim')"
proof -
  let ?b = "fr_data (R (fst (get_fullName lfn)))"
  obtain fg lg errs where s: "load_scan known ?b 0 None None (lim_recoverableErrors lim) = Some (fg, lg, errs)"
    using load_scan_total [of ?b None None known 0 "lim_recoverableErrors lim"] by (auto simp: ptr_ok_def)
  have o: "in_order ?b fg lg" by (rule load_scan_order [OF s]) (simp add: in_order_def)
  then consider "fg = None" "lg = None" | f l tf tl where "fg = Some f" "lg = Some l" "timespec_get ?b f = Some tf" "timespec_get ?b l = Some tl" "tf \<le> tl"
    by (cases fg; cases lg) (auto simp: in_order_def)
  then show ?thesis
  proof cases
    case 1
    then show ?thesis using assms s by (auto simp: loadFile_def Let_def split: if_splits)
  next
    case (2 f l tf tl)
    then show ?thesis using assms s
      by (auto simp: loadFile_def Let_def timespecX_ops split: if_splits)
  qed
qed


text \<open>A buffer that holds intact entries in order of time, with the range of their times.\<close>

definition holds :: "(u16 \<Rightarrow> bool) \<Rightarrow> entry list \<Rightarrow> logInMemory \<Rightarrow> bool" where
  "holds known es lim \<longleftrightarrow>
     good_log known es \<and> lim_memory lim = encode_log es \<and>
     (es \<noteq> [] \<longrightarrow> lim_startTime lim = e_time (hd es) \<and> lim_endTime lim = e_time (last es))"

lemma good_log_append:
  "good_log known (es @ fs) \<longleftrightarrow> good_log known es \<and> good_log known fs \<and> (\<forall>x \<in> set es. \<forall>y \<in> set fs. e_time x \<le> e_time y)"
  by (auto simp: good_log_def sorted_append)

lemma good_log_ends:
  assumes "good_log known es" "x \<in> set es"
  shows "e_time (hd es) \<le> e_time x" "e_time x \<le> e_time (last es)"
proof -
  have s: "sorted (map e_time es)" using assms(1) by (simp add: good_log_def)
  show "e_time (hd es) \<le> e_time x" using s assms(2) by (cases es) auto
  show "e_time x \<le> e_time (last es)"
    using s assms(2) by (induction es) auto
qed

lemma good_log_joined:
  assumes "good_log known es" "good_log known fs" "es \<noteq> []" "fs \<noteq> []" "e_time (last es) \<le> e_time (hd fs)"
  shows "good_log known (es @ fs)"
proof -
  have "e_time x \<le> e_time y" if "x \<in> set es" "y \<in> set fs" for x y
    using good_log_ends(2) [OF assms(1) that(1)] good_log_ends(1) [OF assms(2) that(2)] assms(5) by order
  then show ?thesis using assms(1,2) by (simp add: good_log_append)
qed

section \<open>An example log\<close>

definition log_of :: "u16 \<Rightarrow> u32 \<Rightarrow> entry" where
  "log_of c s = \<lparr>e_level = LOG_INFO, e_code = c, e_time = TimespecX s 0, e_msg = [1, 2]\<rparr>"

definition example_log :: "entry list" where
  "example_log = [log_of 7 100, log_of 8 150, log_of 7 200, log_of 7 300]"

lemma log_of_sel [simp]: "e_code (log_of c s) = c" "e_time (log_of c s) = TimespecX s 0"
  by (simp_all add: log_of_def)

lemma log_of_good: "good_entry known (log_of c s) \<longleftrightarrow> known c"
  by (simp add: good_entry_def log_of_def entry_ok_def logMapPriorityValid_def logPrio_defs maxHeadSize_def
      minHeadSize_def)

lemma example_log_good: "good_log (\<lambda>_. True) example_log" "example_log \<noteq> []"
  by (simp_all add: example_log_def good_log_def log_of_good)
    (simp add: log_of_def less_eq_timespecX_def timespecX_le_def timespecX_lt_def)

section \<open>Properties\<close>

text \<open>C11: loading a log file never reads outside it, whatever bytes the file holds, and always
  returns. A refused file leaves the loaded bytes, their provenance and their range of times as they were; an
  accepted one is put before or after them as a whole, and its range is joined to theirs. The
  buffer stays well formed: it is the concatenation of the loaded files, whose ranges partition
  it, and its first time is not after its last.\<close>

theorem loadFile_safe:
  "\<exists>rv lim'. loadFile known R lfn lim = Some (rv, lim') \<and> (lim_ok R lim \<longrightarrow> lim_ok R lim') \<and>
     (if rv = 0
      then (lim_memory lim' = fr_data (R (fst (get_fullName lfn))) @ lim_memory lim \<or>
            lim_memory lim' = lim_memory lim @ fr_data (R (fst (get_fullName lfn)))) \<and>
        (lim_ok R lim \<and> lim_memory lim \<noteq> [] \<longrightarrow>
            lim_startTime lim' \<le> lim_startTime lim \<and> lim_endTime lim \<le> lim_endTime lim')
      else rv = - 1 \<and> lim' = lim\<lparr>lim_recoverableErrors := lim_recoverableErrors lim'\<rparr>)"
proof -
  obtain rv lim' where l: "loadFile known R lfn lim = Some (rv, lim')"
    using loadFile_total by fast
  have "lim_ok R lim'" if "lim_ok R lim"
    using that loadFile_prov [OF _ l] loadFile_times [OF l] by (simp add: lim_ok_def)
  moreover have "lim_startTime lim' \<le> lim_startTime lim \<and> lim_endTime lim \<le> lim_endTime lim'" if "lim_ok R lim" "lim_memory lim \<noteq> []"
    using that loadFile_times [OF l] by (simp add: lim_ok_def)
  moreover have "if rv = 0 then lim_memory lim' = fr_data (R (fst (get_fullName lfn))) @ lim_memory lim \<or>
            lim_memory lim' = lim_memory lim @ fr_data (R (fst (get_fullName lfn))) else rv = - 1"
    using l by (cases rule: loadFile_cases) auto
  moreover have "lim' = lim\<lparr>lim_recoverableErrors := lim_recoverableErrors lim'\<rparr>" if "rv \<noteq> 0"
    using l that by (auto simp: loadFile_def Let_def split: if_splits option.splits prod.splits bind_splits)
  ultimately show ?thesis using l by (auto split: if_splits)
qed

theorem loadFile_safe_witness:
  "\<exists>rv lim'. loadFile (\<lambda>_. True) (\<lambda>_. \<lparr>fr_data = [255, 255, 255], fr_nrd = 3\<rparr>) stdFileName_new logInMemory_new =
     Some (rv, lim') \<and> lim_ok (\<lambda>_. \<lparr>fr_data = [255, 255, 255], fr_nrd = 3\<rparr>) lim'"
proof -
  have "lim_ok R logInMemory_new" for R using new_prov by (simp add: lim_ok_def logInMemory_new_def)
  then show ?thesis
    using loadFile_safe [of "\<lambda>_. True" "\<lambda>_. \<lparr>fr_data = [255, 255, 255], fr_nrd = 3\<rparr>" stdFileName_new logInMemory_new] by auto
qed

text \<open>C28: a file that holds entries with known codes, valid priorities and non-decreasing times
  loads without a recoverable error into a buffer of such entries: as its first, or before or after the
  entries that are there, when all of its entries are earlier or later than they; the buffer
  then holds all entries in order of time, with their range of times. A file that
  overlaps the buffer is refused, and the buffer is left as it is.\<close>

theorem loadFile_good_log:
  assumes "good_log known es" "es \<noteq> []"
    and "R (fst (get_fullName lfn)) = \<lparr>fr_data = encode_log es, fr_nrd = int (length (encode_log es))\<rparr>"
    and "holds known old lim"
  shows "\<exists>rv lim'. loadFile known R lfn lim = Some (rv, lim') \<and> lim_recoverableErrors lim' = lim_recoverableErrors lim \<and>
    (if old = [] then rv = 0 \<and> holds known es lim'
     else if e_time (last es) < e_time (hd old) then rv = 0 \<and> holds known (es @ old) lim'
     else if e_time (last old) < e_time (hd es) then rv = 0 \<and> holds known (old @ es) lim'
     else rv = - 1 \<and> lim' = lim)"
proof -
  have scan: "load_scan known (encode_log es) 0 None None (lim_recoverableErrors lim) =
      Some (Some 0, Some (length (encode_log (butlast es))), lim_recoverableErrors lim)"
    using load_scan_good [OF assms(1), of "encode_log es" "[]" None None] assms(2) by (simp add: ptr_before_def)
  have first: "timespec_get (encode_log es) 0 = Some (e_time (hd es))"
    using timespec_at [of "[]" 0 "hd es" "encode_log (tl es)"] assms(2) by (cases es) simp_all
  have "encode_log es = encode_log (butlast es) @ encode_entry (last es) @ []"
    using assms(2) encode_log_simps(3) [of "butlast es" "[last es]"] by simp
  then have end_time: "timespec_get (encode_log es) (length (encode_log (butlast es))) = Some (e_time (last es))"
    using timespec_at [OF refl, of "encode_log (butlast es)" "last es" "[]"] by simp
  have m: "lim_memory lim = encode_log old" and g: "good_log known old"
    and t: "old \<noteq> [] \<Longrightarrow> lim_startTime lim = e_time (hd old) \<and> lim_endTime lim = e_time (last old)"
    using assms(4) by (simp_all add: holds_def)
  have le: "e_time (hd es) \<le> e_time (last es)" using good_log_ends(1) [OF assms(1)] assms(2) by simp
  have le': "old \<noteq> [] \<Longrightarrow> e_time (hd old) \<le> e_time (last old)" using good_log_ends(1) [OF g] by simp
  have j: "e_time (last es) < e_time (hd old) \<Longrightarrow> old \<noteq> [] \<Longrightarrow> good_log known (es @ old)"
    "e_time (last old) < e_time (hd es) \<Longrightarrow> old \<noteq> [] \<Longrightarrow> good_log known (old @ es)"
    using good_log_joined assms(1,2) g by (blast intro: less_imp_le)+
  show ?thesis
  proof (cases "old = []")
    case True
    then show ?thesis using assms(1-3) scan first end_time m by (auto simp: loadFile_def holds_def Let_def)
  next
    case False
    have "\<not> (e_time (last old) < e_time (hd es) \<and> e_time (hd es) < e_time (hd old))" using le' [OF False] by (auto dest: less_trans)
    then show ?thesis
      using False assms(1-3) scan first end_time m t [OF False] le j
      by (auto simp: loadFile_def holds_def timespecX_ops Let_def)
  qed
qed

theorem loadFile_good_log_witness:
  "\<exists>lim'. loadFile (\<lambda>_. True) (\<lambda>_. \<lparr>fr_data = encode_log example_log, fr_nrd = int (length (encode_log example_log))\<rparr>)
      stdFileName_new logInMemory_new = Some (0, lim') \<and> lim_endTime lim' = TimespecX 300 0"
proof -
  have "holds (\<lambda>_. True) [] logInMemory_new" by (simp add: holds_def logInMemory_new_def good_log_def)
  then show ?thesis using loadFile_good_log [OF example_log_good, of "\<lambda>_. \<lparr>fr_data = encode_log example_log,
      fr_nrd = int (length (encode_log example_log))\<rparr>" stdFileName_new "[]" logInMemory_new]
    by (auto simp: holds_def example_log_def log_of_def)
qed

text \<open>C17: in a buffer that covers the requested time and holds well-formed entries in order of
  time, \<open>getPriorLog\<close> returns exactly the last entry with the requested event code whose time
  is not after the requested one, and fails only when there is none.\<close>

theorem getPriorLog_correct:
  assumes "good_log known es" "es \<noteq> []" "lim_memory (buffer_of m app) = encode_log es"
    and "files_of m app \<noteq> []" "lim_startTime (buffer_of m app) \<le> ts"
    and "ts \<le> TimespecX (time_s (lim_endTime (buffer_of m app)) + 30) (time_ns (lim_endTime (buffer_of m app)))"
  shows "(\<forall>es1 en es2. es = es1 @ en # es2 \<and> e_code en = ev \<and> e_time en \<le> ts \<and>
      (\<forall>x \<in> set es2. e_code x \<noteq> ev \<or> ts < e_time x) \<longrightarrow>
      getPriorLog known R app ev ts m = Some (0, Some (length (encode_log es1)), m)) \<and>
    ((\<forall>x \<in> set es. e_code x \<noteq> ev \<or> ts < e_time x) \<longrightarrow>
      getPriorLog known R app ev ts m = Some (- 1, None, m))"
proof -
  have scan: "prior_scan known (encode_log es) ev ts 0 None = Some (prior_spec ev ts 0 None es)"
    using prior_scan_good [OF assms(1), of "encode_log es" "[]" None] by (simp add: ptr_before_def)
  have g: "getPriorLog known R app ev ts m =
      (case prior_spec ev ts 0 None es of None \<Rightarrow> Some (- 1, None, m) | Some p \<Rightarrow> Some (0, Some p, m))"
  proof -
    have "\<not> ts < lim_startTime (buffer_of m app)"
      "\<not> TimespecX (time_s (lim_endTime (buffer_of m app)) + 30) (time_ns (lim_endTime (buffer_of m app))) < ts"
      using assms(5,6) by (simp_all add: not_less)
    then show ?thesis
      using assms(2-4) scan by (simp add: getPriorLog_def timespecX_ops Let_def split: option.splits)
  qed
  have srt: "sorted (map e_time es)" using assms(1) by (simp add: good_log_def)
  show ?thesis
  proof (intro conjI allI impI)
    fix es1 en es2
    assume a: "es = es1 @ en # es2 \<and> e_code en = ev \<and> e_time en \<le> ts \<and>
      (\<forall>x \<in> set es2. e_code x \<noteq> ev \<or> ts < e_time x)"
    then have "prior_spec ev ts 0 None es = Some (length (encode_log es1))"
      using prior_spec_found [of es1 en es2 ev ts 0 None] srt by simp
    then show "getPriorLog known R app ev ts m = Some (0, Some (length (encode_log es1)), m)"
      by (simp add: g)
  next
    assume "\<forall>x \<in> set es. e_code x \<noteq> ev \<or> ts < e_time x"
    then show "getPriorLog known R app ev ts m = Some (- 1, None, m)"
      by (simp add: g prior_spec_skip)
  qed
qed

definition example_lim :: logInMemory where
  "example_lim =
     logInMemory_new\<lparr>lim_memory := encode_log example_log, lim_startTime := TimespecX 100 0,
       lim_endTime := TimespecX 300 0\<rparr>"

definition example_map :: logMap where
  "example_map = \<lparr>lmp_files = [(''app'', [stdFileName_new])], lmp_buffers = [(''app'', example_lim)]\<rparr>"

lemma example_map_simps:
  "buffer_of example_map ''app'' = example_lim" "files_of example_map ''app'' \<noteq> []"
  by (simp_all add: buffer_of_def files_of_def example_map_def)

theorem getPriorLog_correct_witness:
  "getPriorLog (\<lambda>_. True) (\<lambda>_. \<lparr>fr_data = [], fr_nrd = 0\<rparr>) ''app'' 7 (TimespecX 250 0) example_map =
     Some (0, Some (length (encode_log [log_of 7 100, log_of 8 150])), example_map)"
proof -
  have o: "example_log = [log_of 7 100, log_of 8 150] @ log_of 7 200 # [log_of 7 300]" by (simp add: example_log_def)
  show ?thesis
    using getPriorLog_correct [OF example_log_good, of example_map "''app''" "TimespecX 250 0" 7
        "\<lambda>_. \<lparr>fr_data = [], fr_nrd = 0\<rparr>", THEN conjunct1, rule_format,
        of "[log_of 7 100, log_of 8 150]" "log_of 7 200" "[log_of 7 300]"] o
    by (simp add: example_map_simps example_lim_def)
      (simp add: log_of_def less_eq_timespecX_def less_timespecX_def timespecX_le_def timespecX_lt_def)
qed

text \<open>C29: \<open>getNextLog\<close> from an entry of a well-formed buffer returns the next entry with the same
  event code, and 1 when there is none.\<close>

theorem getNextLog_correct:
  assumes "good_log known (es1 @ c # es2)" "lim_memory lim = encode_log (es1 @ c # es2)"
    and "unat base + length (lim_memory lim) < 2 ^ 64"
  shows "getNextLog known base (Some (int (length (encode_log es1)))) lim =
    Some (if \<exists>x \<in> set es2. e_code x = e_code c
          then (0, Some (length (encode_log (es1 @ c # takeWhile (\<lambda>x. e_code x \<noteq> e_code c) es2))))
          else (1, None))"
proof -
  let ?b = "encode_log (es1 @ c # es2)" and ?p = "length (encode_log es1)"
  have g: "good_entry known c" "good_log known es2" "\<forall>x \<in> set es2. e_time c \<le> e_time x"
    using assms(1) by (auto simp: good_log_def sorted_append)
  have ok: "entry_ok c" using g(1) by (simp add: good_entry_def)
  have b: "?b = encode_log es1 @ encode_entry c @ encode_log es2" by simp
  have tot: "totalSize ?b ?p = Some (word_of_nat (length (encode_entry c)))"
    unfolding b by (rule totalSize_at [OF refl ok])
  have rd: "timespec_get ?b ?p = Some (e_time c)" "eventCode ?b ?p = Some (e_code c)"
    unfolding b by (rule timespec_at [OF refl] eventCode_at [OF refl])+
  have u: "unat (word_of_nat (length (encode_entry c)) :: u64) = length (encode_entry c)"
    by (rule unat_total [OF ok])
  then have nz: "(word_of_nat (length (encode_entry c)) :: u64) \<noteq> 0"
    using encode_entry_pos [of c] by (metis less_numeral_extra(3) unsigned_0)
  have addr: "unat (base + word_of_nat n) = unat base + n" if "n \<le> length ?b" for n
  proof -
    have "unat base + n < 2 ^ 64" using that assms(2,3) by simp
    then show ?thesis by (simp add: unat_word_ariths unat_of_nat)
  qed
  have "base + word_of_nat ?p + word_of_nat (length (encode_entry c)) =
      base + word_of_nat (?p + length (encode_entry c))"
    by (simp add: add.assoc)
  then have na: "\<not> base + word_of_nat ?p + word_of_nat (length (encode_entry c)) > base + word_of_nat (length ?b)"
    using addr [of "?p + length (encode_entry c)"] addr [of "length ?b"] by (simp add: word_less_nat_alt add.assoc)
  have scan: "next_scan known ?b (e_code c) (e_time c) (length (encode_log (es1 @ [c]))) =
    Some (if \<exists>x \<in> set es2. e_code x = e_code c
          then Some (length (encode_log ((es1 @ [c]) @ takeWhile (\<lambda>x. e_code x \<noteq> e_code c) es2))) else None)"
    by (rule next_scan_good [OF g(2) _ g(3)]) simp
  have "?p < length ?b" using encode_entry_pos [of c] by simp
  then have "\<not> int (length ?b) \<le> int ?p" "?b \<noteq> []" by (simp_all only: of_nat_le_iff not_le) auto
  then show ?thesis
    using tot rd u nz na scan unfolding getNextLog_def assms(2) Let_def
    by (auto simp: add.commute)
qed

theorem getNextLog_correct_witness:
  "getNextLog (\<lambda>_. True) 4096 (Some 0) example_lim =
     Some (0, Some (length (encode_log [log_of 7 100, log_of 8 150])))"
proof -
  let ?rest = "[log_of 8 150, log_of 7 200, log_of 7 300]"
  have m: "lim_memory example_lim = encode_log ([] @ log_of 7 100 # ?rest)"
    by (simp add: example_lim_def example_log_def)
  have "length (lim_memory example_lim) = 56"
    by (simp add: m length_encode_entry length_encode_header length_len_field) (simp add: log_of_def)
  then have "unat (4096 :: u64) + length (lim_memory example_lim) < 2 ^ 64" by simp
  from getNextLog_correct [OF _ m this] example_log_good(1) show ?thesis
    by (simp add: example_log_def)
qed

text \<open>C31: provenance. After any sequence of loads the byte at every position of the buffer is the
  byte that the reported source file holds at the reported source offset.\<close>

theorem sourceFile_provenance:
  assumes "load_list known R lfns logInMemory_new = Some lim" "p < length (lim_memory lim)"
  shows "sourceOffset (Some (int p)) lim < length (fr_data (R (sourceFile (Some (int p)) lim))) \<and>
    fr_data (R (sourceFile (Some (int p)) lim)) ! sourceOffset (Some (int p)) lim = lim_memory lim ! p"
proof -
  have "prov_ok R lim" if "load_list known R fs lim0 = Some lim" "prov_ok R lim0" for fs lim0
    using that by (induction fs arbitrary: lim0) (auto intro: loadFile_prov split: option.splits)
  then have "prov_ok R lim" using assms(1) new_prov by blast
  then have "\<exists>l. find_loaded p (lim_loadedFiles lim) = Some l \<and> m_begin l \<le> p \<and>
    p - m_begin l < length (fr_data (R (m_name l))) \<and>
    fr_data (R (m_name l)) ! (p - m_begin l) = lim_memory lim ! p"
    using find_loaded_data [of R 0 "lim_loadedFiles lim" p] assms(2) by (simp add: prov_ok_def)
  then show ?thesis
    using assms(2) by (auto simp: sourceFile_def sourceOffset_def)
qed

theorem sourceFile_provenance_witness:
  "\<exists>lim. load_list (\<lambda>_. True) (\<lambda>_. \<lparr>fr_data = encode_log example_log, fr_nrd = int (length (encode_log example_log))\<rparr>)
      [stdFileName_new] logInMemory_new = Some lim \<and>
     encode_log example_log ! sourceOffset (Some 5) lim = lim_memory lim ! 5"
proof -
  let ?R = "\<lambda>_. \<lparr>fr_data = encode_log example_log, fr_nrd = int (length (encode_log example_log))\<rparr> :: file_read"
  obtain lim where l: "load_list (\<lambda>_. True) ?R [stdFileName_new] logInMemory_new = Some lim"
      "lim_memory lim = encode_log example_log"
    using loadFile_good [OF example_log_good, of ?R stdFileName_new logInMemory_new]
    by (auto simp: logInMemory_new_def)
  have "length (encode_log example_log) = 56"
    by (simp add: example_log_def log_of_def length_encode_entry length_encode_header length_len_field)
  then show ?thesis
    using sourceFile_provenance [OF l(1), of 5] l by auto
qed



text \<open>C32: a request for a time after the loaded range, when the last file of the application is
  not newer than that range, makes \<open>loadFiles\<close> dereference the end iterator of the set of
  files.\<close>

theorem loadFiles_past_end:
  assumes "files_of m app \<noteq> []" "lim_memory (buffer_of m app) \<noteq> []"
    and "lim_startTime (buffer_of m app) \<le> startTime" "lim_endTime (buffer_of m app) < startTime"
    and "file_time (last (files_of m app)) \<le> lim_endTime (buffer_of m app)"
  shows "loadFiles known R app startTime m = None"
proof -
  let ?f = "files_of m app" and ?t = "lim_endTime (buffer_of m app)"
  have "iter_back ?f ?t (length ?f - 1) = Some (length ?f - 1)"
    using assms(1,5) by (cases "length ?f - 1") (auto simp: timespecX_ops last_conv_nth)
  moreover have "iter_forward ?f startTime (length ?f - 1 + 1) = None"
    using assms(1) by (simp add: iter_forward.simps)
  moreover have "\<not> startTime < lim_startTime (buffer_of m app)" "\<not> startTime \<le> ?t"
    using assms(3,4) by (simp_all add: not_less not_le)
  ultimately show ?thesis
    using assms(1,2) by (simp add: loadFiles_def Let_def timespecX_ops)
qed

theorem loadFiles_past_end_witness:
  "loadFiles (\<lambda>_. True) (\<lambda>_. \<lparr>fr_data = [], fr_nrd = 0\<rparr>) ''app'' (TimespecX 1000 0) example_map = None"
proof (rule loadFiles_past_end)
  show "lim_memory (buffer_of example_map ''app'') \<noteq> []"
    using example_log_good(2) by (simp add: example_map_simps example_lim_def)
qed (simp_all add: example_map_simps, simp_all add: example_lim_def files_of_def example_map_def file_time_def
    get_timestamp_def stdFileName_new_def less_eq_timespecX_def less_timespecX_def timespecX_le_def timespecX_lt_def)

text \<open>A request before the loaded range that needs the first file decrements the begin iterator.\<close>

lemma loadFiles_before_begin:
  assumes "files_of m app = [f, g]" "lim_memory (buffer_of m app) \<noteq> []"
    and "startTime < lim_startTime (buffer_of m app)"
    and "file_time f \<le> startTime" "file_time g = lim_startTime (buffer_of m app)"
  shows "loadFiles known R app startTime m = None"
proof -
  have f: "file_time f < lim_startTime (buffer_of m app)" using assms(3,4) by simp
  have "iter_forward [f, g] (lim_startTime (buffer_of m app)) 0 = Some 1"
    using f assms(5) by (simp add: iter_forward.simps timespecX_ops)
  moreover have "iter_back [f, g] startTime 1 = Some 0"
    using assms by (simp add: timespecX_ops)
  moreover have "\<not> lim_startTime (buffer_of m app) \<le> startTime" using assms(3) by (simp add: not_le)
  ultimately show ?thesis
    using assms(1-3) by (simp add: loadFiles_def Let_def timespecX_ops)
qed

end
