(* ===== verification/StdMap.thy ===== *)
theory StdMap
  imports Prelude "HOL-Library.Char_ord" "HOL-Library.List_Lexorder"
begin

text \<open>
  \<open>std::map\<close> as the components use it: pairs in strictly increasing order of the keys, which is
  the order of iteration. \<open>std::string\<close> keys are compared as byte strings; that is the
  lexicographic order of the library on lists of characters.

  The interface \<open>ordered_map\<close> states what a client may rely on (what a lookup finds after an
  assignment and an erase, and the iteration order), its lemmas are the ones the clients use,
  and it is interpreted on the definitions of this theory.
\<close>

type_synonym ('k, 'v) std_map = "('k \<times> 'v) list"

definition map_wf :: "('k::linorder, 'v) std_map \<Rightarrow> bool" where
  "map_wf m \<longleftrightarrow> sorted_wrt (<) (map fst m)"

definition map_find :: "'k \<Rightarrow> ('k, 'v) std_map \<Rightarrow> 'v option" where
  "map_find k m = map_of m k"

text \<open>\<open>m[k] = v\<close>.\<close>

fun map_assign :: "'k::linorder \<Rightarrow> 'v \<Rightarrow> ('k, 'v) std_map \<Rightarrow> ('k, 'v) std_map" where
  "map_assign k v [] = [(k, v)]"
| "map_assign k v ((l, w) # m) =
     (if k < l then (k, v) # (l, w) # m
      else if k = l then (k, v) # m
      else (l, w) # map_assign k v m)"

text \<open>\<open>m.emplace(k, v)\<close>: the element already there is kept; the flag is \<open>inserted\<close>.\<close>

definition map_emplace :: "'k::linorder \<Rightarrow> 'v \<Rightarrow> ('k, 'v) std_map \<Rightarrow> bool \<times> ('k, 'v) std_map" where
  "map_emplace k v m = (case map_find k m of Some _ \<Rightarrow> (False, m) | None \<Rightarrow> (True, map_assign k v m))"

definition map_erase :: "'k \<Rightarrow> ('k, 'v) std_map \<Rightarrow> ('k, 'v) std_map" where
  "map_erase k m = filter (\<lambda>p. fst p \<noteq> k) m"

locale ordered_map =
  fixes wf :: "'m \<Rightarrow> bool"
    and find :: "'k::linorder \<Rightarrow> 'm \<Rightarrow> 'v option"
    and assign :: "'k \<Rightarrow> 'v \<Rightarrow> 'm \<Rightarrow> 'm"
    and erase :: "'k \<Rightarrow> 'm \<Rightarrow> 'm"
    and items :: "'m \<Rightarrow> ('k \<times> 'v) list"
  assumes wf_assign: "wf m \<Longrightarrow> wf (assign k v m)"
    and wf_erase: "wf m \<Longrightarrow> wf (erase k m)"
    and find_assign: "wf m \<Longrightarrow> find j (assign k v m) = (if j = k then Some v else find j m)"
    and find_erase: "wf m \<Longrightarrow> find j (erase k m) = (if j = k then None else find j m)"
    and items_sorted: "wf m \<Longrightarrow> sorted_wrt (<) (map fst (items m))"
    and items_find: "wf m \<Longrightarrow> (k, v) \<in> set (items m) \<longleftrightarrow> find k m = Some v"
begin

lemma items_distinct: "wf m \<Longrightarrow> distinct (map fst (items m))"
  using items_sorted strict_sorted_iff by blast

lemma same_items:
  assumes "wf m" "wf n" "\<And>k. find k m = find k n"
  shows "items m = items n"
proof -
  have set: "set (items m) = set (items n)"
  proof (rule set_eqI)
    show "p \<in> set (items m) \<longleftrightarrow> p \<in> set (items n)" for p
      using items_find [of m "fst p" "snd p"] items_find [of n "fst p" "snd p"] assms by simp
  qed
  have "inj_on fst (set (items m) \<union> set (items n))"
    using items_distinct [OF assms(1)] set by (simp add: distinct_map)
  moreover have "sorted (map fst (items m))" "sorted (map fst (items n))"
    using items_sorted assms(1,2) strict_sorted_iff by blast+
  ultimately show ?thesis
    using map_sorted_distinct_set_unique [of fst "items m" "items n"]
      items_distinct [OF assms(1)] items_distinct [OF assms(2)] set by blast
qed

lemma length_eq_keys:
  assumes "wf m" "wf n" "length (items m) = length (items n)"
    and "\<And>k. find k m \<noteq> None \<Longrightarrow> find k n \<noteq> None"
  shows "find k m \<noteq> None \<longleftrightarrow> find k n \<noteq> None"
proof -
  let ?M = "fst ` set (items m)" and ?N = "fst ` set (items n)"
  have in_keys: "k \<in> fst ` set (items x) \<longleftrightarrow> find k x \<noteq> None" if "wf x" for x k
  proof -
    have "k \<in> fst ` set (items x) \<longleftrightarrow> (\<exists>v. (k, v) \<in> set (items x))"
      by force
    then show ?thesis using items_find [OF that] by auto
  qed
  have "?M \<subseteq> ?N"
    using assms(1,2,4) in_keys by blast
  moreover have "card ?M = length (items m)" "card ?N = length (items n)"
    using items_distinct [OF assms(1)] items_distinct [OF assms(2)]
    by (metis distinct_card length_map list.set_map)+
  ultimately have "?M = ?N"
    using assms(3) card_subset_eq [of ?N ?M] by simp
  then show ?thesis
    using in_keys [OF assms(1), of k] in_keys [OF assms(2), of k] by simp
qed

lemma assign_same: "wf m \<Longrightarrow> find k m = Some v \<Longrightarrow> items (assign k v m) = items m"
  by (rule same_items) (auto simp: wf_assign find_assign)

lemma erase_assign: "wf m \<Longrightarrow> find k m = None \<Longrightarrow> items (erase k (assign k v m)) = items m"
  by (rule same_items) (auto simp: wf_assign wf_erase find_assign find_erase)

lemma assign_swap:
  "wf m \<Longrightarrow> j \<noteq> k \<Longrightarrow> items (assign j u (assign k v m)) = items (assign k v (assign j u m))"
  by (rule same_items) (auto simp: wf_assign find_assign)

end

lemma map_wf_Nil [simp]: "map_wf []"
  by (simp add: map_wf_def)

lemma map_wf_Cons: "map_wf (p # m) \<longleftrightarrow> (\<forall>q \<in> set m. fst p < fst q) \<and> map_wf m"
  by (auto simp: map_wf_def)

lemma map_assign_keys: "fst ` set (map_assign k v m) = insert k (fst ` set m)"
  by (induction k v m rule: map_assign.induct) auto

lemma map_wf_assign: "map_wf m \<Longrightarrow> map_wf (map_assign k v m)"
proof (induction k v m rule: map_assign.induct)
  case (2 k v l w m)
  show ?case
  proof (cases "k < l \<or> k = l")
    case True
    with 2 show ?thesis by (fastforce simp: map_wf_Cons)
  next
    case False
    have keys: "fst p = k \<or> fst p \<in> fst ` set m" if "p \<in> set (map_assign k v m)" for p
      using that map_assign_keys [of k v m] by blast
    have "\<forall>q \<in> set (map_assign k v m). l < fst q"
    proof
      fix q assume "q \<in> set (map_assign k v m)"
      from keys [OF this] show "l < fst q"
        using False 2(2) by (auto simp: map_wf_Cons)
    qed
    with False 2 show ?thesis by (auto simp: map_wf_Cons)
  qed
qed (simp add: map_wf_def)

lemma map_wf_distinct: "map_wf m \<Longrightarrow> distinct (map fst m)"
  unfolding map_wf_def using strict_sorted_iff by blast

lemma map_find_assign:
  "map_wf m \<Longrightarrow> map_find j (map_assign k v m) = (if j = k then Some v else map_find j m)"
  unfolding map_find_def
  by (induction k v m rule: map_assign.induct) (auto simp: map_wf_Cons)

lemma map_wf_erase: "map_wf m \<Longrightarrow> map_wf (map_erase k m)"
  by (induction m) (auto simp: map_erase_def map_wf_Cons)

lemma map_find_erase: "map_find j (map_erase k m) = (if j = k then None else map_find j m)"
  by (induction m) (auto simp: map_erase_def map_find_def)

interpretation smap: ordered_map map_wf map_find map_assign map_erase "\<lambda>m. m"
proof
  show "sorted_wrt (<) (map fst m)" if "map_wf m" for m :: "('k::linorder, 'v) std_map"
    using that by (simp add: map_wf_def)
  show "(k, v) \<in> set m \<longleftrightarrow> map_find k m = Some v" if "map_wf m" for m :: "('k::linorder, 'v) std_map" and k v
    using map_wf_distinct [OF that] by (simp add: map_find_def)
qed (simp_all add: map_wf_assign map_wf_erase map_find_assign map_find_erase)

lemma map_emplace_wf: "map_wf m \<Longrightarrow> map_wf (snd (map_emplace k v m))"
  by (simp add: map_emplace_def map_wf_assign split: option.split)

lemma map_find_emplace:
  "map_wf m \<Longrightarrow>
     map_find j (snd (map_emplace k v m)) = (if j = k \<and> map_find k m = None then Some v else map_find j m)"
  by (auto simp: map_emplace_def map_find_assign split: option.split)

end
