(* ===== verification/Indi.thy ===== *)
theory Indi
  imports StdMap
begin

text \<open>
  INDI properties and elements (\<open>INDI/libcommon/IndiProperty.cpp\<close>, \<open>IndiElement.cpp\<close>) and
  the helpers of \<open>libMagAOX/app/indiUtils.hpp\<close> that publish them.

  A property is a record of its attributes and a \<open>std::map\<close> of elements. The time stamp, the
  time-out and the read/write locks have no field: no modelled result depends on them. A
  thrown exception is an \<open>Inl\<close> value; the branch of the index operators that walks past the
  end of an empty map is \<^const>\<open>None\<close>. Values that the helpers publish are given in the text
  form the code compares and stores (\<open>operator<<\<close> on a string stream).
\<close>

section \<open>Elements\<close>

datatype LightStateType = UnknownLightState | LightIdle | LightOk | LightBusy | LightAlert

datatype SwitchStateType = UnknownSwitchState | Off | On

datatype ElementType =
    UnknownType | DefBLOB | DefLight | DefNumber | DefSwitch | DefText
  | OneBLOB | OneLight | OneNumber | OneSwitch | OneText

record IndiElement =
  ie_format :: string
  ie_label :: string
  ie_max :: string
  ie_min :: string
  ie_name :: string
  ie_size :: string
  ie_step :: string
  ie_value :: string
  ie_light :: LightStateType
  ie_switch :: SwitchStateType

definition IndiElement_new :: "string \<Rightarrow> string \<Rightarrow> IndiElement" where
  "IndiElement_new name val =
     \<lparr>ie_format = ''%g'', ie_label = [], ie_max = ''0'', ie_min = ''0'', ie_name = name, ie_size = ''0'',
      ie_step = ''0'', ie_value = val, ie_light = UnknownLightState, ie_switch = UnknownSwitchState\<rparr>"

definition IndiElement_switch :: "string \<Rightarrow> SwitchStateType \<Rightarrow> IndiElement" where
  "IndiElement_switch name ss = (IndiElement_new name [])\<lparr>ie_switch := ss\<rparr>"

text \<open>\<open>get<std::string>\<close> reads the value with \<open>operator>>\<close>: its first word.\<close>

definition get_word :: "IndiElement \<Rightarrow> string" where
  "get_word e = takeWhile (\<lambda>c. \<not> char_isspace c) (dropWhile char_isspace (ie_value e))"

text \<open>
  \<open>isNumeric\<close> extracts an \<open>int\<close> and tests \<open>good()\<close>, which is false when the extraction
  reached the end of the text.
\<close>

definition isNumeric :: "IndiElement \<Rightarrow> bool" where
  "isNumeric e =
     (let s = dropWhile char_isspace (ie_value e);
          (neg, s) = (case s of [] \<Rightarrow> (False, s)
                      | c # cs \<Rightarrow> if c = CHR ''-'' then (True, cs) else if c = CHR ''+'' then (False, cs) else (False, s));
          ds = takeWhile char_isdigit s;
          v = (if neg then - int (digits_val 0 ds) else int (digits_val 0 ds))
      in ds \<noteq> [] \<and> - (2 ^ 31) \<le> v \<and> v < 2 ^ 31 \<and> dropWhile char_isdigit s \<noteq> [])"

definition getLightStateType :: "string \<Rightarrow> LightStateType" where
  "getLightStateType s =
     (if s = ''Idle'' then LightIdle else if s = ''Ok'' then LightOk
      else if s = ''Busy'' then LightBusy else if s = ''Alert'' then LightAlert else UnknownLightState)"

fun getLightStateString :: "LightStateType \<Rightarrow> string" where
  "getLightStateString UnknownLightState = []"
| "getLightStateString LightIdle = ''Idle''"
| "getLightStateString LightOk = ''Ok''"
| "getLightStateString LightBusy = ''Busy''"
| "getLightStateString LightAlert = ''Alert''"

definition getSwitchStateType :: "string \<Rightarrow> SwitchStateType" where
  "getSwitchStateType s = (if s = ''Off'' then Off else if s = ''On'' then On else UnknownSwitchState)"

fun getSwitchStateString :: "SwitchStateType \<Rightarrow> string" where
  "getSwitchStateString UnknownSwitchState = []"
| "getSwitchStateString Off = ''Off''"
| "getSwitchStateString On = ''On''"

fun element_convertTypeToString :: "ElementType \<Rightarrow> string" where
  "element_convertTypeToString UnknownType = []"
| "element_convertTypeToString DefBLOB = ''defBLOB''"
| "element_convertTypeToString DefLight = ''defLight''"
| "element_convertTypeToString DefNumber = ''defNumber''"
| "element_convertTypeToString DefSwitch = ''defSwitch''"
| "element_convertTypeToString DefText = ''defText''"
| "element_convertTypeToString OneBLOB = ''oneBLOB''"
| "element_convertTypeToString OneLight = ''oneLight''"
| "element_convertTypeToString OneNumber = ''oneNumber''"
| "element_convertTypeToString OneSwitch = ''oneSwitch''"
| "element_convertTypeToString OneText = ''oneText''"

definition element_convertStringToType :: "string \<Rightarrow> ElementType" where
  "element_convertStringToType tag =
     (if tag = ''defBLOB'' then DefBLOB else if tag = ''defLight'' then DefLight
      else if tag = ''defNumber'' then DefNumber else if tag = ''defSwitch'' then DefSwitch
      else if tag = ''defText'' then DefText else if tag = ''oneBLOB'' then OneBLOB
      else if tag = ''oneLight'' then OneLight else if tag = ''oneNumber'' then OneNumber
      else if tag = ''oneSwitch'' then OneSwitch else if tag = ''oneText'' then OneText
      else UnknownType)"

section \<open>Properties\<close>

datatype BLOBEnableType = UnknownBLOBEnable | Also | Only | Never

datatype PropertyStateType = UnknownPropertyState | Alert | Busy | Ok | Idle

datatype SwitchRuleType = UnknownSwitchRule | AnyOfMany | AtMostOne | OneOfMany

datatype PropertyPermType = UnknownPropertyPerm | ReadOnly | ReadWrite | WriteOnly

datatype PropertyType = Unknown | BLOB | Light | Number | Switch | Text

datatype indi_exn =
    ElementNotFound string \<comment> \<open>the \<open>runtime_error\<close> of \<open>at\<close> and \<open>operator[]\<close>\<close>
  | ErrCouldntFindElement
  | ErrElementAlreadyExists
  | ErrIndexOutOfBounds

record IndiProperty =
  ip_device :: string
  ip_group :: string
  ip_label :: string
  ip_message :: string
  ip_name :: string
  ip_perm :: PropertyPermType
  ip_rule :: SwitchRuleType
  ip_state :: PropertyStateType
  ip_requested :: bool
  ip_version :: string
  ip_blob :: BLOBEnableType
  ip_elements :: "(string, IndiElement) std_map"
  ip_type :: PropertyType

definition IndiProperty_new :: "PropertyType \<Rightarrow> string \<Rightarrow> string \<Rightarrow> IndiProperty" where
  "IndiProperty_new ty dev name =
     \<lparr>ip_device = dev, ip_group = [], ip_label = [], ip_message = [], ip_name = name,
      ip_perm = UnknownPropertyPerm, ip_rule = UnknownSwitchRule, ip_state = UnknownPropertyState,
      ip_requested = False, ip_version = [], ip_blob = UnknownBLOBEnable, ip_elements = [], ip_type = ty\<rparr>"

text \<open>
  The comparisons return early when both sides are the same object; on equal values the tests
  below give the same results.
\<close>

definition property_eq :: "IndiProperty \<Rightarrow> IndiProperty \<Rightarrow> bool" where
  "property_eq rhs this \<longleftrightarrow>
     length (ip_elements rhs) = length (ip_elements this) \<and>
     list_all (\<lambda>(k, e). case map_find k (ip_elements rhs) of None \<Rightarrow> False | Some e' \<Rightarrow> e' = e) (ip_elements this) \<and>
     ip_device this = ip_device rhs \<and> ip_group this = ip_group rhs \<and> ip_label this = ip_label rhs \<and>
     ip_message this = ip_message rhs \<and> ip_name this = ip_name rhs \<and> ip_perm this = ip_perm rhs \<and>
     ip_rule this = ip_rule rhs \<and> ip_state this = ip_state rhs \<and> ip_version this = ip_version rhs \<and>
     ip_blob this = ip_blob rhs \<and> ip_type this = ip_type rhs"

definition char_isalnum :: "char \<Rightarrow> bool" where
  "char_isalnum c \<longleftrightarrow>
     char_isdigit c \<or> 65 \<le> (of_char c :: nat) \<and> (of_char c :: nat) \<le> 90
     \<or> 97 \<le> (of_char c :: nat) \<and> (of_char c :: nat) \<le> 122"

text \<open>The loop of \<open>scrubName\<close>: every dot becomes three underscores.\<close>

fun replace_dots :: "string \<Rightarrow> string" where
  "replace_dots [] = []"
| "replace_dots (c # cs) = (if c = CHR ''.'' then ''___'' @ replace_dots cs else c # replace_dots cs)"

definition scrubName :: "string \<Rightarrow> string" where
  "scrubName name = map (\<lambda>c. if char_isalnum c then c else CHR ''_'') (replace_dots name)"

definition compareProperty :: "IndiProperty \<Rightarrow> IndiProperty \<Rightarrow> bool" where
  "compareProperty ipComp this \<longleftrightarrow>
     ip_type ipComp = ip_type this \<and> ip_device ipComp = ip_device this \<and> ip_name ipComp = ip_name this \<and>
     length (ip_elements ipComp) = length (ip_elements this) \<and>
     list_all (\<lambda>(k, e). map_find k (ip_elements ipComp) \<noteq> None) (ip_elements this)"

definition compareValue :: "IndiProperty \<Rightarrow> string \<Rightarrow> IndiProperty \<Rightarrow> bool" where
  "compareValue ipComp el this =
     (if ip_type ipComp \<noteq> ip_type this then False
      else if ip_device ipComp \<noteq> ip_device this \<or> ip_name ipComp \<noteq> ip_name this then False
      else case map_find el (ip_elements this) of
        None \<Rightarrow> False
      | Some e \<Rightarrow>
          (case map_find el (ip_elements ipComp) of None \<Rightarrow> False | Some e' \<Rightarrow> ie_value e = ie_value e'))"

definition compareValues :: "IndiProperty \<Rightarrow> IndiProperty \<Rightarrow> bool" where
  "compareValues ipComp this \<longleftrightarrow>
     ip_type ipComp = ip_type this \<and> ip_device ipComp = ip_device this \<and> ip_name ipComp = ip_name this \<and>
     length (ip_elements ipComp) = length (ip_elements this) \<and>
     list_all (\<lambda>(k, e). case map_find k (ip_elements ipComp) of None \<Rightarrow> False | Some e' \<Rightarrow> ie_value e' = ie_value e)
       (ip_elements this)"

definition hasNewValue :: "IndiProperty \<Rightarrow> string \<Rightarrow> IndiProperty \<Rightarrow> bool" where
  "hasNewValue ipComp el this =
     (if ip_type ipComp \<noteq> ip_type this then False
      else if ip_device ipComp \<noteq> ip_device this \<or> ip_name ipComp \<noteq> ip_name this then False
      else case map_find el (ip_elements this) of
        None \<Rightarrow> False
      | Some e \<Rightarrow>
          (case map_find el (ip_elements ipComp) of
             None \<Rightarrow> False
           | Some e' \<Rightarrow> ie_value e \<noteq> ie_value e' \<and> length (ie_value e') > 0))"

definition createUniqueKey :: "IndiProperty \<Rightarrow> string" where
  "createUniqueKey p = ip_device p @ ''.'' @ ip_name p"

definition property_clear :: "IndiProperty \<Rightarrow> IndiProperty" where
  "property_clear p = p\<lparr>ip_elements := []\<rparr>"

definition property_at :: "string \<Rightarrow> IndiProperty \<Rightarrow> indi_exn + IndiElement" where
  "property_at name p =
     (case map_find name (ip_elements p) of None \<Rightarrow> Inl (ElementNotFound name) | Some e \<Rightarrow> Inr e)"

text \<open>
  Access by index compares an \<open>unsigned int\<close> with \<open>size() - 1\<close> in \<open>size_t\<close>: on an empty map
  the bound is \<open>2^64 - 1\<close>, the test never fires and the iterator is advanced past the end.
\<close>

definition property_at_index :: "u32 \<Rightarrow> IndiProperty \<Rightarrow> (indi_exn + IndiElement) option" where
  "property_at_index i p =
     (if (ucast i :: u64) > word_of_nat (length (ip_elements p)) - 1 then Some (Inl ErrIndexOutOfBounds)
      else if unat i < length (ip_elements p) then Some (Inr (snd (ip_elements p ! unat i)))
      else None)"

definition property_find :: "string \<Rightarrow> IndiProperty \<Rightarrow> bool" where
  "property_find name p \<longleftrightarrow> map_find name (ip_elements p) \<noteq> None"

definition property_set :: "IndiElement \<Rightarrow> IndiProperty \<Rightarrow> IndiProperty" where
  "property_set e p = p\<lparr>ip_elements := map_assign (ie_name e) e (ip_elements p)\<rparr>"

definition property_update :: "IndiElement \<Rightarrow> IndiProperty \<Rightarrow> IndiProperty" where
  "property_update e p = property_set e p"

definition property_addIfNoExist :: "IndiElement \<Rightarrow> IndiProperty \<Rightarrow> IndiProperty" where
  "property_addIfNoExist e p = (if map_find (ie_name e) (ip_elements p) = None then property_set e p else p)"

definition property_add :: "IndiElement \<Rightarrow> IndiProperty \<Rightarrow> indi_exn + IndiProperty" where
  "property_add e p =
     (if map_find (ie_name e) (ip_elements p) \<noteq> None then Inl ErrElementAlreadyExists else Inr (property_set e p))"

definition property_remove :: "string \<Rightarrow> IndiProperty \<Rightarrow> indi_exn + IndiProperty" where
  "property_remove name p =
     (if map_find name (ip_elements p) = None then Inl ErrCouldntFindElement
      else Inr (p\<lparr>ip_elements := map_erase name (ip_elements p)\<rparr>))"

definition property_update_at :: "string \<Rightarrow> IndiElement \<Rightarrow> IndiProperty \<Rightarrow> indi_exn + IndiProperty" where
  "property_update_at name e p =
     (if map_find name (ip_elements p) = None then Inl ErrCouldntFindElement
      else Inr (p\<lparr>ip_elements := map_assign name e (ip_elements p)\<rparr>))"

section \<open>Names of the enumerations\<close>

definition getBLOBEnableType :: "string \<Rightarrow> BLOBEnableType" where
  "getBLOBEnableType s =
     (if s = ''Never'' then Never else if s = ''Also'' then Also else if s = ''Only'' then Only
      else UnknownBLOBEnable)"

fun getBLOBEnableString :: "BLOBEnableType \<Rightarrow> string" where
  "getBLOBEnableString UnknownBLOBEnable = []"
| "getBLOBEnableString Never = ''Never''"
| "getBLOBEnableString Also = ''Also''"
| "getBLOBEnableString Only = ''Only''"

definition getPropertyStateType :: "string \<Rightarrow> PropertyStateType" where
  "getPropertyStateType s =
     (if s = ''Idle'' then Idle else if s = ''Ok'' then Ok else if s = ''Busy'' then Busy
      else if s = ''Alert'' then Alert else UnknownPropertyState)"

fun getPropertyStateString :: "PropertyStateType \<Rightarrow> string" where
  "getPropertyStateString UnknownPropertyState = []"
| "getPropertyStateString Idle = ''Idle''"
| "getPropertyStateString Ok = ''Ok''"
| "getPropertyStateString Busy = ''Busy''"
| "getPropertyStateString Alert = ''Alert''"

definition getSwitchRuleType :: "string \<Rightarrow> SwitchRuleType" where
  "getSwitchRuleType s =
     (if s = ''OneOfMany'' then OneOfMany else if s = ''AtMostOne'' then AtMostOne
      else if s = ''AnyOfMany'' then AnyOfMany else UnknownSwitchRule)"

fun getSwitchRuleString :: "SwitchRuleType \<Rightarrow> string" where
  "getSwitchRuleString OneOfMany = ''OneOfMany''"
| "getSwitchRuleString AtMostOne = ''AtMostOne''"
| "getSwitchRuleString AnyOfMany = ''AnyOfMany''"
| "getSwitchRuleString UnknownSwitchRule = []"

definition getPropertyPermType :: "string \<Rightarrow> PropertyPermType" where
  "getPropertyPermType s =
     (if s = ''ro'' then ReadOnly else if s = ''wo'' then WriteOnly else if s = ''rw'' then ReadWrite
      else UnknownPropertyPerm)"

fun getPropertyPermString :: "PropertyPermType \<Rightarrow> string" where
  "getPropertyPermString UnknownPropertyPerm = []"
| "getPropertyPermString ReadOnly = ''ro''"
| "getPropertyPermString WriteOnly = ''wo''"
| "getPropertyPermString ReadWrite = ''rw''"

fun property_convertTypeToString :: "PropertyType \<Rightarrow> string" where
  "property_convertTypeToString Unknown = []"
| "property_convertTypeToString BLOB = ''BLOB''"
| "property_convertTypeToString Light = ''Light''"
| "property_convertTypeToString Number = ''Number''"
| "property_convertTypeToString Switch = ''Switch''"
| "property_convertTypeToString Text = ''Text''"

definition property_convertStringToType :: "string \<Rightarrow> PropertyType" where
  "property_convertStringToType tag =
     (if tag = ''BLOB'' then BLOB else if tag = ''Light'' then Light else if tag = ''Number'' then Number
      else if tag = ''Switch'' then Switch else if tag = ''Text'' then Text else Unknown)"

section \<open>Publishing\<close>

text \<open>
  The helpers change a property and may send it; the second result lists what is sent to the
  driver. Without a driver they do nothing. An exception (a missing element) is caught: the
  property keeps the changes made before it and nothing is sent.
\<close>

definition set_value :: "string \<Rightarrow> string \<Rightarrow> IndiProperty \<Rightarrow> IndiProperty" where
  "set_value el v p =
     p\<lparr>ip_elements := map (\<lambda>(k, e). (k, if k = el then e\<lparr>ie_value := v\<rparr> else e)) (ip_elements p)\<rparr>"

definition set_switch :: "string \<Rightarrow> SwitchStateType \<Rightarrow> IndiProperty \<Rightarrow> IndiProperty" where
  "set_switch el v p =
     p\<lparr>ip_elements := map (\<lambda>(k, e). (k, if k = el then e\<lparr>ie_switch := v\<rparr> else e)) (ip_elements p)\<rparr>"

definition updateIfChanged ::
  "bool \<Rightarrow> string \<Rightarrow> string \<Rightarrow> PropertyStateType \<Rightarrow> IndiProperty \<Rightarrow> IndiProperty \<times> IndiProperty list" where
  "updateIfChanged driver el newVal newState p =
     (if \<not> driver then (p, [])
      else case property_at el p of
        Inl _ \<Rightarrow> (p, [])
      | Inr e \<Rightarrow>
          if ie_value e \<noteq> newVal \<or> ip_state p \<noteq> newState
          then let p = (set_value el newVal p)\<lparr>ip_state := newState\<rparr> in (p, [p])
          else (p, []))"

text \<open>The loops of the vector versions: the search for a change, and the assignments.\<close>

fun any_changed :: "IndiProperty \<Rightarrow> (string \<times> string) list \<Rightarrow> indi_exn + bool" where
  "any_changed p [] = Inr False"
| "any_changed p ((el, v) # evs) =
     (case property_at el p of
        Inl x \<Rightarrow> Inl x
      | Inr e \<Rightarrow> if ie_value e \<noteq> v then Inr True else any_changed p evs)"

fun set_values :: "(string \<times> string) list \<Rightarrow> IndiProperty \<Rightarrow> bool \<times> IndiProperty" where
  "set_values [] p = (True, p)"
| "set_values ((el, v) # evs) p =
     (case property_at el p of
        Inl x \<Rightarrow> (False, p)
      | Inr e \<Rightarrow> set_values evs (set_value el v p))"

definition updatesIfChanged ::
  "bool \<Rightarrow> (string \<times> string) list \<Rightarrow> PropertyStateType \<Rightarrow> IndiProperty \<Rightarrow> IndiProperty \<times> IndiProperty list" where
  "updatesIfChanged driver evs newState p =
     (if \<not> driver then (p, [])
      else case (if ip_state p \<noteq> newState then Inr True else any_changed p evs) of
        Inl _ \<Rightarrow> (p, [])
      | Inr False \<Rightarrow> (p, [])
      | Inr True \<Rightarrow>
          (case set_values evs p of
             (False, p) \<Rightarrow> (p, [])
           | (True, p) \<Rightarrow> let p = p\<lparr>ip_state := newState\<rparr> in (p, [p])))"

definition updateSwitchIfChanged ::
  "bool \<Rightarrow> string \<Rightarrow> SwitchStateType \<Rightarrow> PropertyStateType \<Rightarrow> IndiProperty \<Rightarrow> IndiProperty \<times> IndiProperty list" where
  "updateSwitchIfChanged driver el newVal newState p =
     (if \<not> driver then (p, [])
      else case property_at el p of
        Inl _ \<Rightarrow> (p, [])
      | Inr e \<Rightarrow>
          if ie_switch e \<noteq> newVal \<or> ip_state p \<noteq> newState
          then let p = (set_switch el newVal p)\<lparr>ip_state := newState\<rparr> in (p, [p])
          else (p, []))"

fun select_switch :: "string \<Rightarrow> (string, IndiElement) std_map \<Rightarrow> bool \<times> (string, IndiElement) std_map" where
  "select_switch el [] = (False, [])"
| "select_switch el ((k, e) # m) =
     (let ss = (if k = el then On else Off); (changed, m) = select_switch el m
      in if ie_switch e \<noteq> ss then (True, (k, e\<lparr>ie_switch := ss\<rparr>) # m) else (changed, (k, e) # m))"

definition updateSelectionSwitchIfChanged ::
  "bool \<Rightarrow> string \<Rightarrow> PropertyStateType \<Rightarrow> IndiProperty \<Rightarrow> IndiProperty \<times> IndiProperty list" where
  "updateSelectionSwitchIfChanged driver el newState p =
     (if \<not> driver then (p, [])
      else if \<not> property_find el p then (p, [])
      else
        let (changed, els) = select_switch el (ip_elements p); p' = p\<lparr>ip_elements := els\<rparr>
        in if changed \<or> ip_state p \<noteq> newState
           then let p' = p'\<lparr>ip_state := newState\<rparr> in (p', [p'])
           else (p', []))"

text \<open>\<open>parseIndiKey\<close>: the return value and the new values of \<open>devName\<close> and \<open>propName\<close>.\<close>

fun find_char :: "char \<Rightarrow> string \<Rightarrow> nat option" where
  "find_char c [] = None"
| "find_char c (x # xs) = (if x = c then Some 0 else map_option Suc (find_char c xs))"

definition parseIndiKey :: "string \<Rightarrow> string \<times> string \<Rightarrow> int \<times> string \<times> string" where
  "parseIndiKey key old =
     (if length key < 3 then (- 1, old)
      else case find_char CHR ''.'' key of
        None \<Rightarrow> (- 2, [], [])
      | Some p \<Rightarrow>
          if p = 0 then (- 3, [], [])
          else if p = length key - 1 then (- 4, [], [])
          else (0, take p key, drop (p + 1) key))"

section \<open>Comparisons\<close>

lemma list_all_find:
  assumes "map_wf m"
  shows "list_all (\<lambda>(k, e). P k e) m \<longleftrightarrow> (\<forall>k e. map_find k m = Some e \<longrightarrow> P k e)"
  using smap.items_find [OF assms] by (fastforce simp: list_all_iff)

text \<open>Two maps of the same size, one covered by the other under a relation on the values.\<close>

lemma covered_iff:
  fixes m n :: "('k::linorder, 'v) std_map"
  assumes "map_wf m" "map_wf n"
  shows "length n = length m \<and>
      list_all (\<lambda>(k, e). case map_find k n of None \<Rightarrow> False | Some e' \<Rightarrow> R e' e) m \<longleftrightarrow>
    (\<forall>k. rel_option R (map_find k n) (map_find k m))"
proof
  assume "\<forall>k. rel_option R (map_find k n) (map_find k m)"
  then have rel: "rel_option R (map_find k n) (map_find k m)" for k
    by blast
  have none: "map_find k n = None \<longleftrightarrow> map_find k m = None" for k
    using rel [of k] by (cases "map_find k n"; cases "map_find k m") auto
  have "set (map fst n) = set (map fst m)"
    using none by (auto simp: map_find_def map_of_eq_None_iff)
  then have "map fst n = map fst m"
    using assms strict_sorted_equal unfolding map_wf_def by blast
  then have "length n = length m"
    by (metis length_map)
  moreover have "list_all (\<lambda>(k, e). case map_find k n of None \<Rightarrow> False | Some e' \<Rightarrow> R e' e) m"
    unfolding list_all_find [OF assms(1)]
  proof (intro allI impI)
    fix k e assume "map_find k m = Some e"
    with rel [of k] show "case map_find k n of None \<Rightarrow> False | Some e' \<Rightarrow> R e' e"
      by (cases "map_find k n") auto
  qed
  ultimately show "length n = length m \<and>
      list_all (\<lambda>(k, e). case map_find k n of None \<Rightarrow> False | Some e' \<Rightarrow> R e' e) m"
    by blast
next
  assume asm: "length n = length m \<and>
      list_all (\<lambda>(k, e). case map_find k n of None \<Rightarrow> False | Some e' \<Rightarrow> R e' e) m"
  then have cov: "case map_find k n of None \<Rightarrow> False | Some e' \<Rightarrow> R e' e" if "map_find k m = Some e" for k e
    using that list_all_find [OF assms(1), where P = "\<lambda>k e. case map_find k n of None \<Rightarrow> False | Some e' \<Rightarrow> R e' e"]
    by blast
  have sub: "map_find k m \<noteq> None \<Longrightarrow> map_find k n \<noteq> None" for k
    using cov [of k] by (cases "map_find k m"; cases "map_find k n") auto
  have "rel_option R (map_find k n) (map_find k m)" for k
  proof (cases "map_find k m")
    case None
    then have "map_find k n = None"
      using smap.length_eq_keys [OF assms, of k] asm sub by auto
    with None show ?thesis by simp
  next
    case (Some e)
    with cov [of k e] show ?thesis
      by (cases "map_find k n") auto
  qed
  then show "\<forall>k. rel_option R (map_find k n) (map_find k m)" by blast
qed

lemma elements_eq_iff:
  assumes "map_wf m" "map_wf n"
  shows "(\<forall>k. rel_option (=) (map_find k n) (map_find k m)) \<longleftrightarrow> n = m"
  using smap.same_items [OF assms(2,1)] by (auto simp: option.rel_eq)

text \<open>What an observer of values sees of a property.\<close>

definition element_values :: "IndiProperty \<Rightarrow> string \<Rightarrow> string option" where
  "element_values p el = map_option ie_value (map_find el (ip_elements p))"

definition same_property :: "IndiProperty \<Rightarrow> IndiProperty \<Rightarrow> bool" where
  "same_property p q \<longleftrightarrow> ip_type p = ip_type q \<and> ip_device p = ip_device q \<and> ip_name p = ip_name q"

lemma property_eq_spec:
  assumes "map_wf (ip_elements p)" "map_wf (ip_elements q)"
  shows "property_eq q p \<longleftrightarrow> p\<lparr>ip_requested := r\<rparr> = q\<lparr>ip_requested := r\<rparr>"
proof -
  have els: "length (ip_elements q) = length (ip_elements p) \<and>
     list_all (\<lambda>(k, e). case map_find k (ip_elements q) of None \<Rightarrow> False | Some e' \<Rightarrow> e' = e) (ip_elements p) \<longleftrightarrow>
     ip_elements q = ip_elements p"
    using covered_iff [OF assms, of "(=)"] elements_eq_iff [OF assms] by simp
  have "property_eq q p \<longleftrightarrow> ip_elements q = ip_elements p \<and>
     ip_device p = ip_device q \<and> ip_group p = ip_group q \<and> ip_label p = ip_label q \<and>
     ip_message p = ip_message q \<and> ip_name p = ip_name q \<and> ip_perm p = ip_perm q \<and>
     ip_rule p = ip_rule q \<and> ip_state p = ip_state q \<and> ip_version p = ip_version q \<and>
     ip_blob p = ip_blob q \<and> ip_type p = ip_type q"
    unfolding property_eq_def using els by blast
  then show ?thesis
    by (cases p; cases q) auto
qed

lemma compareProperty_spec:
  assumes "map_wf (ip_elements p)" "map_wf (ip_elements q)"
  shows "compareProperty q p \<longleftrightarrow> same_property q p \<and> (\<forall>el. property_find el q = property_find el p)"
proof -
  have some: "rel_option (\<lambda>_ _. True) x y \<longleftrightarrow> (x \<noteq> None) = (y \<noteq> None)" for x y :: "IndiElement option"
    by (cases x; cases y) auto
  have "(\<lambda>(k :: string, e :: IndiElement). case map_find k (ip_elements q) of None \<Rightarrow> False | Some _ \<Rightarrow> True) =
      (\<lambda>(k, e). map_find k (ip_elements q) \<noteq> None)"
    by (auto split: option.splits)
  then show ?thesis
    unfolding compareProperty_def same_property_def property_find_def some [symmetric]
    using covered_iff [OF assms, of "\<lambda>_ _. True"] by auto
qed

lemma compareValues_spec:
  assumes "map_wf (ip_elements p)" "map_wf (ip_elements q)"
  shows "compareValues q p \<longleftrightarrow> same_property q p \<and> element_values q = element_values p"
proof -
  have eq: "rel_option (\<lambda>e' e. ie_value e' = ie_value e) x y \<longleftrightarrow> map_option ie_value x = map_option ie_value y"
    for x y :: "IndiElement option"
    by (cases x; cases y) auto
  have "element_values q = element_values p \<longleftrightarrow>
      length (ip_elements q) = length (ip_elements p) \<and>
      list_all (\<lambda>(k, e). case map_find k (ip_elements q) of None \<Rightarrow> False | Some e' \<Rightarrow> ie_value e' = ie_value e)
        (ip_elements p)"
    unfolding fun_eq_iff element_values_def eq [symmetric]
    using covered_iff [OF assms, of "\<lambda>e' e. ie_value e' = ie_value e"] by blast
  then show ?thesis
    unfolding compareValues_def same_property_def by blast
qed

lemma hasNewValue_spec:
  "hasNewValue q el p \<longleftrightarrow>
     same_property q p \<and>
     (\<exists>v w. element_values p el = Some v \<and> element_values q el = Some w \<and> v \<noteq> w \<and> w \<noteq> [])"
  unfolding hasNewValue_def same_property_def element_values_def
  by (cases "map_find el (ip_elements p)"; cases "map_find el (ip_elements q)") auto

lemma property_set_wf [wf_intros]: "map_wf (ip_elements p) \<Longrightarrow> map_wf (ip_elements (property_set e p))"
  by (simp add: property_set_def map_wf_assign)

lemma IndiProperty_new_wf [wf_intros]: "map_wf (ip_elements (IndiProperty_new ty dev name))"
  by (simp add: IndiProperty_new_def)

text \<open>C37: For properties with well-formed element maps, \<open>operator==\<close> holds exactly when the two are
  equal in every attribute but the request flag, \<open>compareProperty\<close> when type, device, name and
  the set of element names agree, \<open>compareValues\<close> when also every value agrees, and
  \<open>hasNewValue\<close> when the element exists on both sides and the other value is new and not empty.
\<close>

theorem comparisons_spec:
  assumes "map_wf (ip_elements p)" "map_wf (ip_elements q)"
  shows "(property_eq q p \<longleftrightarrow> p\<lparr>ip_requested := False\<rparr> = q\<lparr>ip_requested := False\<rparr>) \<and>
    (compareProperty q p \<longleftrightarrow> same_property q p \<and> (\<forall>el. property_find el q = property_find el p)) \<and>
    (compareValues q p \<longleftrightarrow> same_property q p \<and> element_values q = element_values p) \<and>
    (hasNewValue q el p \<longleftrightarrow> same_property q p \<and>
      (\<exists>v w. element_values p el = Some v \<and> element_values q el = Some w \<and> v \<noteq> w \<and> w \<noteq> []))"
  using property_eq_spec [OF assms] compareProperty_spec [OF assms] compareValues_spec [OF assms]
    hasNewValue_spec [of q el p] by blast

definition example_prop :: "string \<Rightarrow> IndiProperty" where
  "example_prop v = property_set (IndiElement_new ''target'' v) (property_set (IndiElement_new ''state'' ''Off'')
     (IndiProperty_new Text ''pdu0'' ''lamp''))"

theorem comparisons_spec_witness:
  "map_wf (ip_elements (example_prop ''On'')) \<and>
   (property_eq (example_prop ''On'') (example_prop ''Off'') \<longleftrightarrow>
      (example_prop ''Off'')\<lparr>ip_requested := False\<rparr> = (example_prop ''On'')\<lparr>ip_requested := False\<rparr>) \<and>
   hasNewValue (example_prop ''On'') ''target'' (example_prop ''Off'')"
proof -
  have wf: "map_wf (ip_elements (example_prop v))" for v
    unfolding example_prop_def by (intro wf_intros)
  have vals: "element_values (example_prop v) ''target'' = Some v" for v
    by (simp add: example_prop_def property_set_def IndiProperty_new_def IndiElement_new_def element_values_def
        map_find_def)
  have "same_property (example_prop ''On'') (example_prop ''Off'')"
    by (simp add: same_property_def example_prop_def property_set_def)
  then have "hasNewValue (example_prop ''On'') ''target'' (example_prop ''Off'')"
    using comparisons_spec [OF wf wf, of "''On''" "''Off''" "''target''"] vals by simp
  then show ?thesis
    using wf comparisons_spec [OF wf wf, of "''On''" "''Off''"] by blast
qed

section \<open>Names\<close>

lemma replace_dots_no_dot: "CHR ''.'' \<notin> set (replace_dots s)"
  by (induction s) auto

lemma scrubName_chars: "c \<in> set (scrubName s) \<Longrightarrow> char_isalnum c \<or> c = CHR ''_''"
  by (auto simp: scrubName_def split: if_splits)

lemma alnum_dot: "\<not> char_isalnum CHR ''.''" "\<not> char_isalnum CHR ''_''"
  by (simp_all add: char_isalnum_def char_isdigit_def)

lemma replace_dots_id: "CHR ''.'' \<notin> set s \<Longrightarrow> replace_dots s = s"
  by (induction s) auto

lemma scrubName_idem: "scrubName (scrubName s) = scrubName s"
proof -
  have "CHR ''.'' \<notin> set (scrubName s)"
    using scrubName_chars alnum_dot by fastforce
  then have "replace_dots (scrubName s) = scrubName s"
    by (rule replace_dots_id)
  then have "scrubName (scrubName s) = map (\<lambda>c. if char_isalnum c then c else CHR ''_'') (scrubName s)"
    by (simp only: scrubName_def [of "scrubName s"])
  also have "\<dots> = scrubName s"
    by (rule map_idI) (use scrubName_chars in auto)
  finally show ?thesis .
qed

lemma find_char_append: "c \<notin> set xs \<Longrightarrow> find_char c (xs @ c # ys) = Some (length xs)"
  by (induction xs) auto

lemma find_char_Some: "find_char c s = Some p \<Longrightarrow> p < length s \<and> s ! p = c \<and> c \<notin> set (take p s)"
  by (induction c s arbitrary: p rule: find_char.induct) (auto split: if_splits)

lemma find_char_None: "find_char c s = None \<longleftrightarrow> c \<notin> set s"
  by (induction c s rule: find_char.induct) auto

lemma parseIndiKey_join:
  assumes "dev \<noteq> []" "CHR ''.'' \<notin> set dev" "name \<noteq> []"
  shows "parseIndiKey (dev @ ''.'' @ name) old = (0, dev, name)"
proof -
  have "find_char CHR ''.'' (dev @ ''.'' @ name) = Some (length dev)"
    using find_char_append [OF assms(2)] by simp
  moreover have "2 \<le> length dev + length name"
    using assms(1,3) by (cases dev; cases name) auto
  ultimately show ?thesis
    using assms(1,3) by (simp add: parseIndiKey_def)
qed

lemma parseIndiKey_inv:
  assumes "parseIndiKey key old = (0, dev, name)"
  shows "key = dev @ ''.'' @ name \<and> dev \<noteq> [] \<and> CHR ''.'' \<notin> set dev \<and> name \<noteq> []"
proof -
  obtain p where p: "find_char CHR ''.'' key = Some p" "p \<noteq> 0" "p \<noteq> length key - 1"
    and dn: "dev = take p key" "name = drop (p + 1) key"
    using assms by (auto simp: parseIndiKey_def split: if_splits option.splits)
  have fc: "p < length key" "key ! p = CHR ''.''" "CHR ''.'' \<notin> set (take p key)"
    using find_char_Some [OF p(1)] by blast+
  then have "key = take p key @ key ! p # drop (Suc p) key"
    using id_take_nth_drop by blast
  with dn fc p show ?thesis by auto
qed

text \<open>\<open>parseIndiKey\<close> accepts exactly the keys made of a non-empty device name without a dot, a
  dot, and a non-empty property name, and splits them there; in particular it gives back device
  and name of the key \<open>createUniqueKey\<close> makes for such a property, and such keys are unique.
\<close>

theorem indiKey_roundtrip:
  "(parseIndiKey key old = (0, dev, name)) \<longleftrightarrow>
     key = createUniqueKey (IndiProperty_new ty dev name) \<and> dev \<noteq> [] \<and> CHR ''.'' \<notin> set dev \<and> name \<noteq> []"
  using parseIndiKey_join [of dev name old] parseIndiKey_inv [of key old dev name]
  by (auto simp: createUniqueKey_def IndiProperty_new_def)

text \<open>The INDI names of every enumeration are read back by the matching parser: light and switch
  states, element tags, BLOB modes, property states, switch rules, permissions and types; and
  any text that is not such a name is read as the unknown value, whose name is empty.
\<close>

theorem enum_roundtrip:
  "getLightStateType (getLightStateString ls) = ls \<and> getSwitchStateType (getSwitchStateString ss) = ss \<and>
   element_convertStringToType (element_convertTypeToString et) = et \<and>
   getBLOBEnableType (getBLOBEnableString be) = be \<and> getPropertyStateType (getPropertyStateString ps) = ps \<and>
   getSwitchRuleType (getSwitchRuleString sr) = sr \<and> getPropertyPermType (getPropertyPermString pp) = pp \<and>
   property_convertStringToType (property_convertTypeToString pt) = pt \<and>
   (getLightStateString (getLightStateType s) \<in> {s, []} \<and> getSwitchStateString (getSwitchStateType s) \<in> {s, []} \<and>
    element_convertTypeToString (element_convertStringToType s) \<in> {s, []} \<and>
    getBLOBEnableString (getBLOBEnableType s) \<in> {s, []} \<and>
    getPropertyStateString (getPropertyStateType s) \<in> {s, []} \<and>
    getSwitchRuleString (getSwitchRuleType s) \<in> {s, []} \<and>
    getPropertyPermString (getPropertyPermType s) \<in> {s, []} \<and>
    property_convertTypeToString (property_convertStringToType s) \<in> {s, []})"
proof (intro conjI)
  show "getLightStateType (getLightStateString ls) = ls" by (cases ls) (simp_all add: getLightStateType_def)
  show "getSwitchStateType (getSwitchStateString ss) = ss" by (cases ss) (simp_all add: getSwitchStateType_def)
  show "element_convertStringToType (element_convertTypeToString et) = et"
    by (cases et) (simp_all add: element_convertStringToType_def)
  show "getBLOBEnableType (getBLOBEnableString be) = be" by (cases be) (simp_all add: getBLOBEnableType_def)
  show "getPropertyStateType (getPropertyStateString ps) = ps"
    by (cases ps) (simp_all add: getPropertyStateType_def)
  show "getSwitchRuleType (getSwitchRuleString sr) = sr" by (cases sr) (simp_all add: getSwitchRuleType_def)
  show "getPropertyPermType (getPropertyPermString pp) = pp"
    by (cases pp) (simp_all add: getPropertyPermType_def)
  show "property_convertStringToType (property_convertTypeToString pt) = pt"
    by (cases pt) (simp_all add: property_convertStringToType_def)
qed (simp_all add: getLightStateType_def getSwitchStateType_def element_convertStringToType_def
    getBLOBEnableType_def getPropertyStateType_def getSwitchRuleType_def getPropertyPermType_def
    property_convertStringToType_def)

text \<open>A plain integer is not recognised by \<open>isNumeric\<close>; it must be followed by another character.\<close>

lemma isNumeric_plain_integer:
  assumes "ie_value e = ds" "\<forall>c \<in> set ds. char_isdigit c"
  shows "\<not> isNumeric e"
proof -
  have nsp: "\<not> char_isspace c" if "char_isdigit c" for c
    using that by (auto simp: char_isspace_def char_isdigit_def)
  have "dropWhile char_isspace ds = ds"
    using assms(2) nsp by (cases ds) auto
  moreover have "dropWhile char_isdigit ds = []" "takeWhile char_isdigit ds = ds"
    using assms(2) by (auto simp: takeWhile_eq_all_conv)
  moreover have "c \<noteq> CHR ''-'' \<and> c \<noteq> CHR ''+''" if "char_isdigit c" for c
    using that by (auto simp: char_isdigit_def)
  ultimately show ?thesis
    using assms by (cases ds) (auto simp: isNumeric_def Let_def)
qed

text \<open>The index operators on a property without elements step past the end of its map.\<close>

lemma property_at_index_empty:
  assumes "ip_elements p = []" shows "property_at_index i p = None"
proof -
  have "\<not> (ucast i :: u64) > - 1"
    using word_order.extremum_strict [of "ucast i :: u64"] by (simp add: not_less)
  then show ?thesis
    using assms by (simp add: property_at_index_def)
qed

section \<open>Publishing\<close>

lemma map_find_map_snd: "map_find k (map (\<lambda>(k, e). (k, f k e)) m) = map_option (f k) (map_find k m)"
  by (induction m) (auto simp: map_find_def)

lemma map_wf_map_snd: "map_wf (map (\<lambda>(k, e). (k, f k e)) m) = map_wf m"
  by (simp add: map_wf_def comp_def case_prod_beta)

lemma map_find_update_one:
  "map_find k (map (\<lambda>(k, e). (k, if k = el then f e else e)) m) =
     (if k = el then map_option f (map_find k m) else map_find k m)"
  by (induction m) (auto simp: map_find_def)

lemma map_wf_update_one [simp]: "map_wf (map (\<lambda>(k, e). (k, if k = el then f e else e)) m) = map_wf m"
proof -
  have "map fst (map (\<lambda>(k, e). (k, if k = el then f e else e)) m) = map fst m"
    by (induction m) auto
  then show ?thesis by (simp only: map_wf_def)
qed

lemma set_value_wf [wf_intros]: "map_wf (ip_elements p) \<Longrightarrow> map_wf (ip_elements (set_value el v p))"
  by (simp add: set_value_def map_wf_map_snd)

lemma element_values_set_value [simp]:
  "element_values (set_value el v p) k = (if k = el \<and> property_find el p then Some v else element_values p k)"
  unfolding element_values_def set_value_def property_find_def
  by (cases "k = el"; cases "map_find k (ip_elements p)") (auto simp: map_find_map_snd)

lemma element_values_state [simp]: "element_values (p\<lparr>ip_state := s\<rparr>) = element_values p"
  by (simp add: element_values_def fun_eq_iff)

lemma property_find_values: "property_find el p \<longleftrightarrow> element_values p el \<noteq> None"
  by (simp add: property_find_def element_values_def)

lemma property_at_values: "property_at el p = Inr e \<Longrightarrow> element_values p el = Some (ie_value e)"
  by (auto simp: property_at_def element_values_def split: option.splits)

lemma property_at_find: "property_find el p \<longleftrightarrow> (\<exists>e. property_at el p = Inr e)"
  by (auto simp: property_at_def property_find_def split: option.splits)

lemma set_value_same: "map_wf (ip_elements p) \<Longrightarrow> property_at el p = Inr e \<Longrightarrow> ie_value e = v \<Longrightarrow> set_value el v p = p"
proof -
  assume wf: "map_wf (ip_elements p)" and at: "property_at el p = Inr e" and v: "ie_value e = v"
  have "(case x of (k, e) \<Rightarrow> (k, if k = el then e\<lparr>ie_value := v\<rparr> else e)) = x" if "x \<in> set (ip_elements p)" for x
  proof (cases x)
    case (Pair k f)
    show ?thesis
    proof (cases "k = el")
      case True
      have "map_find el (ip_elements p) = Some f"
        using smap.items_find [OF wf] that Pair True by blast
      then have "f = e"
        using at by (simp add: property_at_def)
      with v Pair show ?thesis by (cases f) auto
    qed (simp add: Pair)
  qed
  then have "map (\<lambda>(k, e). (k, if k = el then e\<lparr>ie_value := v\<rparr> else e)) (ip_elements p) = ip_elements p"
    by (rule map_idI)
  then show "set_value el v p = p"
    by (simp add: set_value_def)
qed

lemma set_value_twice: "set_value el v ((set_value el v p)\<lparr>ip_state := s\<rparr>) = (set_value el v p)\<lparr>ip_state := s\<rparr>"
proof -
  have "(\<lambda>(k, e :: IndiElement). (k, if k = el then e\<lparr>ie_value := v\<rparr> else e)) \<circ> (\<lambda>(k, e). (k, if k = el then e\<lparr>ie_value := v\<rparr> else e))
      = (\<lambda>(k, e). (k, if k = el then e\<lparr>ie_value := v\<rparr> else e))"
    by (auto simp: fun_eq_iff)
  then show ?thesis
    by (simp add: set_value_def)
qed

lemma updateIfChanged_result:
  assumes "map_wf (ip_elements p)" "property_find el p"
  shows "updateIfChanged True el v s p =
    (let p' = (set_value el v p)\<lparr>ip_state := s\<rparr> in (p', if p' = p then [] else [p']))"
proof -
  obtain e where e: "property_at el p = Inr e"
    using assms(2) property_at_find by blast
  show ?thesis
  proof (cases "ie_value e \<noteq> v \<or> ip_state p \<noteq> s")
    case True
    have "(set_value el v p)\<lparr>ip_state := s\<rparr> \<noteq> p"
    proof
      assume eq: "(set_value el v p)\<lparr>ip_state := s\<rparr> = p"
      then have "ip_state p = s"
        by (metis IndiProperty.select_convs(8) IndiProperty.surjective IndiProperty.update_convs(8))
      moreover have "element_values p el = Some v"
        using assms(2) by (subst eq [symmetric]) simp
      ultimately show False
        using True property_at_values [OF e] by simp
    qed
    with True e show ?thesis
      by (simp add: updateIfChanged_def Let_def)
  next
    case False
    then have "(set_value el v p)\<lparr>ip_state := s\<rparr> = p"
      using set_value_same [OF assms(1) e] by auto
    with False e show ?thesis
      by (simp add: updateIfChanged_def Let_def)
  qed
qed

lemma select_switch_spec:
  "select_switch el m =
     (let m' = map (\<lambda>(k, e). (k, e\<lparr>ie_switch := if k = el then On else Off\<rparr>)) m in (m' \<noteq> m, m'))"
proof (induction el m rule: select_switch.induct)
  case (2 el k e m)
  have "e\<lparr>ie_switch := ss\<rparr> = e \<longleftrightarrow> ie_switch e = ss" for ss
    by (cases e) auto
  with 2 show ?case
    by (auto simp: Let_def)
qed simp

lemma updateSelection_result:
  assumes "property_find el p"
  shows "updateSelectionSwitchIfChanged True el s p =
    (let p' = p\<lparr>ip_elements := map (\<lambda>(k, e). (k, e\<lparr>ie_switch := if k = el then On else Off\<rparr>)) (ip_elements p),
                ip_state := s\<rparr>
     in (p', if p' = p then [] else [p']))"
proof -
  let ?els = "map (\<lambda>(k, e). (k, e\<lparr>ie_switch := if k = el then On else Off\<rparr>)) (ip_elements p)"
  have "p\<lparr>ip_elements := ?els, ip_state := s\<rparr> = p \<longleftrightarrow> ?els = ip_elements p \<and> ip_state p = s"
    by (cases p) auto
  then show ?thesis
    using assms by (auto simp: updateSelectionSwitchIfChanged_def select_switch_spec Let_def)
qed

text \<open>The switches that are on.\<close>

definition switches_on :: "IndiProperty \<Rightarrow> string list" where
  "switches_on p = map fst (filter (\<lambda>(k, e). ie_switch e = On) (ip_elements p))"

lemma filter_key:
  "distinct (map fst m) \<Longrightarrow> k \<in> fst ` set m \<Longrightarrow> map fst (filter (\<lambda>p. fst p = k) m) = [k]"
proof (induction m)
  case (Cons x m)
  show ?case
  proof (cases "fst x = k")
    case True
    then have "filter (\<lambda>p. fst p = k) m = []"
      using Cons.prems(1) by (auto simp: filter_empty_conv intro: rev_image_eqI)
    with True show ?thesis by simp
  next
    case False
    with Cons show ?thesis by auto
  qed
qed simp

lemma switches_on_selected:
  assumes "map_wf (ip_elements p)" "property_find el p"
  shows "switches_on (fst (updateSelectionSwitchIfChanged True el s p)) = [el]"
proof -
  let ?f = "\<lambda>(k, e :: IndiElement). (k, e\<lparr>ie_switch := if k = el then On else Off\<rparr>)"
  have "map_of (ip_elements p) el \<noteq> None"
    using assms(2) by (simp add: property_find_def map_find_def)
  then have "el \<in> fst ` set (ip_elements p)"
    by (simp only: map_of_eq_None_iff not_not)
  then have one: "map fst (filter (\<lambda>q. fst q = el) (ip_elements p)) = [el]"
    by (rule filter_key [OF map_wf_distinct [OF assms(1)]])
  have on: "(\<lambda>(k, e :: IndiElement). ie_switch e = On) \<circ> ?f = (\<lambda>q. fst q = el)"
    by (rule ext) (simp add: case_prod_beta)
  have fst: "fst \<circ> ?f = fst"
    by (rule ext) (simp add: case_prod_beta)
  have "switches_on (fst (updateSelectionSwitchIfChanged True el s p)) =
      map fst (filter (\<lambda>(k, e :: IndiElement). ie_switch e = On) (map ?f (ip_elements p)))"
    unfolding updateSelection_result [OF assms(2)] by (simp only: Let_def switches_on_def fst_conv
        IndiProperty.select_convs IndiProperty.update_convs) simp
  also have "\<dots> = map fst (filter (\<lambda>q. fst q = el) (ip_elements p))"
    by (simp only: filter_map on map_map fst)
  finally show ?thesis
    using one by (rule trans)
qed

text \<open>C36: With a driver and an element that exists, \<open>updateIfChanged\<close> leaves the property with that
  value and state and every other element as it was, sends it exactly once when that is a
  change and not at all otherwise, and a repeated call sends nothing;
  \<open>updateSelectionSwitchIfChanged\<close> does the same and leaves exactly the selected switch on.
  Without the element nothing changes and nothing is sent.
\<close>

theorem publish_if_changed:
  assumes "map_wf (ip_elements p)"
    and "updateIfChanged True el v s p = (q, sent)"
    and "updateSelectionSwitchIfChanged True el s p = (q', sent')"
  shows "if property_find el p
    then element_values q = (element_values p)(el \<mapsto> v) \<and> ip_state q = s \<and> sent = (if q = p then [] else [q]) \<and>
      updateIfChanged True el v s q = (q, []) \<and>
      switches_on q' = [el] \<and> ip_state q' = s \<and> sent' = (if q' = p then [] else [q']) \<and>
      updateSelectionSwitchIfChanged True el s q' = (q', [])
    else q = p \<and> sent = [] \<and> q' = p \<and> sent' = []"
proof (cases "property_find el p")
  case False
  then have "property_at el p \<noteq> Inr e" for e
    using property_at_find by blast
  then have "q = p \<and> sent = []"
    using assms(2) by (cases "property_at el p") (auto simp: updateIfChanged_def)
  with False assms(3) show ?thesis
    by (simp add: updateSelectionSwitchIfChanged_def)
next
  case True
  have q: "q = (set_value el v p)\<lparr>ip_state := s\<rparr>" and sent: "sent = (if q = p then [] else [q])"
    using assms(2) unfolding updateIfChanged_result [OF assms(1) True] by (auto simp: Let_def)
  have vals: "element_values q = (element_values p)(el \<mapsto> v)"
    using True by (auto simp: q)
  have fq: "property_find el q"
    using vals by (simp add: property_find_values)
  have wfq: "map_wf (ip_elements q)"
    using set_value_wf [OF assms(1)] by (simp add: q)
  have "(set_value el v q)\<lparr>ip_state := s\<rparr> = q"
    by (simp add: q set_value_twice)
  then have again: "updateIfChanged True el v s q = (q, [])"
    unfolding updateIfChanged_result [OF wfq fq] by (simp add: Let_def)
  have q': "q' = p\<lparr>ip_elements := map (\<lambda>(k, e). (k, e\<lparr>ie_switch := if k = el then On else Off\<rparr>)) (ip_elements p),
                   ip_state := s\<rparr>" and sent': "sent' = (if q' = p then [] else [q'])"
    using assms(3) unfolding updateSelection_result [OF True] by (auto simp: Let_def)
  have fq': "property_find el q'"
    using True by (simp add: q' property_find_def map_find_map_snd)
  have "updateSelectionSwitchIfChanged True el s q' = (q', [])"
    unfolding updateSelection_result [OF fq'] by (simp add: Let_def q' comp_def case_prod_beta)
  moreover have "switches_on q' = [el]"
    using switches_on_selected [OF assms(1) True, of s] assms(3) by simp
  ultimately show ?thesis
    using True vals sent again sent' by (simp add: q q')
qed

theorem publish_if_changed_witness:
  "property_find ''target'' (example_prop ''Off'') \<and>
   (let (q, sent) = updateIfChanged True ''target'' ''On'' Busy (example_prop ''Off'')
    in element_values q ''target'' = Some ''On'' \<and> updateIfChanged True ''target'' ''On'' Busy q = (q, []))"
proof -
  have wf: "map_wf (ip_elements (example_prop ''Off''))"
    unfolding example_prop_def by (intro wf_intros)
  have f: "property_find ''target'' (example_prop ''Off'')"
    by (simp add: example_prop_def property_set_def IndiProperty_new_def IndiElement_new_def property_find_def
        map_find_def)
  obtain q sent where q: "updateIfChanged True ''target'' ''On'' Busy (example_prop ''Off'') = (q, sent)"
    by (cases "updateIfChanged True ''target'' ''On'' Busy (example_prop ''Off'')")
  obtain q' sent' where q': "updateSelectionSwitchIfChanged True ''target'' Busy (example_prop ''Off'') = (q', sent')"
    by (cases "updateSelectionSwitchIfChanged True ''target'' Busy (example_prop ''Off'')")
  show ?thesis
    using publish_if_changed [OF wf q q'] f by (simp add: q)
qed

end
