(* ===== verification/Outlets.thy ===== *)
theory Outlets
  imports Indi Flatlogs "HOL-Library.AList" "HOL-Library.Sublist" Complex_Main
begin

text \<open>
  The outlet controller (\<open>libMagAOX/app/dev/outletController.hpp\<close>): channels made of outlets
  of a power device, switched in a configured order with configured delays.

  The class is a base for its driver (\<open>derivedT\<close>), so its state is an extensible record: a
  driver's record extends it, and the operations are polymorphic in the extension. What the
  driver provides is a record of operations; its environment \<open>'e\<close> holds the results of the
  system and device calls of one operation. Log entries, sleeps and INDI messages are events
  in the order the code makes them. Indexing a vector out of range is undefined in the source
  and \<^const>\<open>None\<close> here.

  \<open>m_channels\<close> is a \<open>std::unordered_map\<close>: an association list whose order stands for the
  unspecified order of iteration. \<open>double\<close> values (the state delay) are real numbers; rounding
  is not modelled.
\<close>

section \<open>State\<close>

definition OUTLET_STATE_UNKNOWN :: int where "OUTLET_STATE_UNKNOWN = - 1"
definition OUTLET_STATE_OFF :: int where "OUTLET_STATE_OFF = 0"
definition OUTLET_STATE_INTERMEDIATE :: int where "OUTLET_STATE_INTERMEDIATE = 1"
definition OUTLET_STATE_ON :: int where "OUTLET_STATE_ON = 2"
definition OUTLET_E_NOOUTLETS :: int where "OUTLET_E_NOOUTLETS = - 10"
definition OUTLET_E_NOCHANNELS :: int where "OUTLET_E_NOCHANNELS = - 15"
definition OUTLET_E_NOVALIDCH :: int where "OUTLET_E_NOVALIDCH = - 20"

lemmas outlet_state_defs =
  OUTLET_STATE_UNKNOWN_def OUTLET_STATE_OFF_def OUTLET_STATE_INTERMEDIATE_def OUTLET_STATE_ON_def

record channelSpec =
  cs_outlets :: "nat list"
  cs_onOrder :: "nat list"
  cs_offOrder :: "nat list"
  cs_onDelays :: "nat list"
  cs_offDelays :: "nat list"
  cs_stateTime :: timespec
  cs_prop :: IndiProperty
  cs_mutex :: bool

definition channelSpec_new :: channelSpec where
  "channelSpec_new =
     \<lparr>cs_outlets = [], cs_onOrder = [], cs_offOrder = [], cs_onDelays = [], cs_offDelays = [],
      cs_stateTime = \<lparr>tv_sec = 0, tv_nsec = 0\<rparr>, cs_prop = IndiProperty_new Unknown [] [], cs_mutex = False\<rparr>"

datatype oc_event =
    LogOutletState nat int \<comment> \<open>\<open>outlet_state\<close>: the number as \<open>uint8_t\<close> and the state\<close>
  | LogChannelState string int
  | LogSoftwareError
  | LogConfigError
  | MilliSleep nat
  | SendSetProperty IndiProperty
  | SendNewProperty IndiProperty
  | TelemOutlet bool "int list"

record outletController =
  oc_firstOne :: bool
  oc_stateDelay :: real
  oc_outletStates :: "int list"
  oc_channels :: "(string \<times> channelSpec) list"
  oc_stateTimes :: IndiProperty
  oc_chOutlets :: IndiProperty
  oc_chOnDelays :: IndiProperty
  oc_chOffDelays :: IndiProperty
  oc_outletProp :: IndiProperty
  oc_lastOutletStates :: "int list"
  oc_outletTelemRecorded :: bool
  oc_driver :: bool \<comment> \<open>\<open>m_indiDriver\<close> of the application is not null\<close>
  oc_ready :: bool \<comment> \<open>\<open>state() == stateCodes::READY\<close>\<close>
  oc_events :: "oc_event list"

text \<open>\<open>m_channels[name]\<close> inserts an empty specification when the name is new.\<close>

definition channel :: "string \<Rightarrow> 'm outletController_scheme \<Rightarrow> channelSpec" where
  "channel name st = (case map_of (oc_channels st) name of None \<Rightarrow> channelSpec_new | Some c \<Rightarrow> c)"

definition touch_channel :: "string \<Rightarrow> 'm outletController_scheme \<Rightarrow> 'm outletController_scheme" where
  "touch_channel name st = st\<lparr>oc_channels := AList.update name (channel name st) (oc_channels st)\<rparr>"

definition set_channel :: "string \<Rightarrow> channelSpec \<Rightarrow> 'm outletController_scheme \<Rightarrow> 'm outletController_scheme" where
  "set_channel name c st = st\<lparr>oc_channels := AList.update name c (oc_channels st)\<rparr>"

definition emit :: "oc_event list \<Rightarrow> 'm outletController_scheme \<Rightarrow> 'm outletController_scheme" where
  "emit evs st = st\<lparr>oc_events := oc_events st @ evs\<rparr>"

definition vec_at :: "'a list \<Rightarrow> nat \<Rightarrow> 'a option" where
  "vec_at xs i = (if i < length xs then Some (xs ! i) else None)"

text \<open>What the derived class provides.\<close>

record ('s, 'e) outletDriver =
  turnOutletOn :: "'e \<Rightarrow> nat \<Rightarrow> 's \<Rightarrow> int \<times> 's"
  turnOutletOff :: "'e \<Rightarrow> nat \<Rightarrow> 's \<Rightarrow> int \<times> 's"
  updateOutletState :: "'e \<Rightarrow> nat \<Rightarrow> 's \<Rightarrow> (int \<times> 's) option"

section \<open>Configuration\<close>

text \<open>
  The configurator of mxlib, outside the repository: the sections not claimed by other options
  in order, whether a key of a section is set, and the values it converts to.
\<close>

record configurator =
  cfg_unusedSections :: "string list"
  cfg_isSetUnused :: "string \<Rightarrow> string \<Rightarrow> bool"
  cfg_numbers :: "string \<Rightarrow> string \<Rightarrow> nat list" \<comment> \<open>as \<open>vector<size_t>\<close> or \<open>vector<unsigned>\<close>\<close>
  cfg_words :: "string \<Rightarrow> string \<Rightarrow> string list" \<comment> \<open>as \<open>vector<string>\<close>\<close>
  cfg_word :: "string \<Rightarrow> string \<Rightarrow> string" \<comment> \<open>as \<open>string\<close>, empty when it is not set\<close>

text \<open>The outlets of a channel: subtract one when the device numbers from one.\<close>

fun config_outlets :: "bool \<Rightarrow> nat \<Rightarrow> nat list \<Rightarrow> nat list option" where
  "config_outlets firstOne n [] = Some []"
| "config_outlets firstOne n (k # ks) =
     (let f = (if firstOne then 1 else 0)
      in if k < f \<or> k - f \<ge> n then None else map_option (Cons (k - f)) (config_outlets firstOne n ks))"

text \<open>An optional vector: unset, of the wrong size, or set.\<close>

definition config_vector :: "configurator \<Rightarrow> string \<Rightarrow> string \<Rightarrow> nat \<Rightarrow> nat list \<Rightarrow> nat list option" where
  "config_vector cfg sec key sz old =
     (if cfg_isSetUnused cfg sec key
      then if length (cfg_numbers cfg sec key) \<noteq> sz then None else Some (cfg_numbers cfg sec key)
      else Some old)"

text \<open>One section: the new specification, and whether it was accepted.\<close>

definition config_channel :: "configurator \<Rightarrow> bool \<Rightarrow> nat \<Rightarrow> string \<Rightarrow> channelSpec \<Rightarrow> bool \<times> channelSpec" where
  "config_channel cfg firstOne n sec c =
     (let outlets = (if cfg_isSetUnused cfg sec ''outlet'' then cfg_numbers cfg sec ''outlet''
                     else cfg_numbers cfg sec ''outlets'')
      in if length outlets = 0 then (False, c)
      else case config_outlets firstOne n outlets of
        None \<Rightarrow> (False, c)
      | Some outlets \<Rightarrow>
          let c = c\<lparr>cs_outlets := outlets\<rparr>; sz = length outlets
          in case config_vector cfg sec ''onOrder'' sz (cs_onOrder c) of
            None \<Rightarrow> (False, c)
          | Some v \<Rightarrow>
          let c = c\<lparr>cs_onOrder := v\<rparr>
          in case config_vector cfg sec ''offOrder'' sz (cs_offOrder c) of
            None \<Rightarrow> (False, c)
          | Some v \<Rightarrow>
          let c = c\<lparr>cs_offOrder := v\<rparr>
          in case config_vector cfg sec ''onDelays'' sz (cs_onDelays c) of
            None \<Rightarrow> (False, c)
          | Some v \<Rightarrow>
          let c = c\<lparr>cs_onDelays := v\<rparr>
          in case config_vector cfg sec ''offDelays'' sz (cs_offDelays c) of
            None \<Rightarrow> (False, c)
          | Some v \<Rightarrow> (True, c\<lparr>cs_offDelays := v\<rparr>))"

fun config_channels ::
  "configurator \<Rightarrow> string list \<Rightarrow> 'm outletController_scheme \<Rightarrow> bool \<times> 'm outletController_scheme" where
  "config_channels cfg [] st = (True, st)"
| "config_channels cfg (sec # secs) st =
     (let (ok, c) = config_channel cfg (oc_firstOne st) (length (oc_outletStates st)) sec (channel sec st);
          st = set_channel sec c st
      in if ok then config_channels cfg secs st else (False, st))"

definition channel_sections :: "configurator \<Rightarrow> string list" where
  "channel_sections cfg =
     filter (\<lambda>s. cfg_isSetUnused cfg s ''outlet'' \<or> cfg_isSetUnused cfg s ''outlets'') (cfg_unusedSections cfg)"

definition outlet_loadConfig ::
  "configurator \<Rightarrow> 'm outletController_scheme \<Rightarrow> int \<times> 'm outletController_scheme" where
  "outlet_loadConfig cfg st =
     (if length (oc_outletStates st) = 0 then (OUTLET_E_NOOUTLETS, emit [LogSoftwareError] st)
      else if length (cfg_unusedSections cfg) = 0 then (OUTLET_E_NOCHANNELS, emit [LogSoftwareError] st)
      else if length (channel_sections cfg) = 0 then (OUTLET_E_NOVALIDCH, emit [LogSoftwareError] st)
      else case config_channels cfg (channel_sections cfg) st of
        (False, st) \<Rightarrow> (- 1, emit [LogSoftwareError] st)
      | (True, st) \<Rightarrow>
          (0, st\<lparr>oc_channels := map (\<lambda>(name, c). (name, c\<lparr>cs_mutex := True\<rparr>)) (oc_channels st)\<rparr>))"

definition setNumberOfOutlets :: "nat \<Rightarrow> 'm outletController_scheme \<Rightarrow> int \<times> 'm outletController_scheme" where
  "setNumberOfOutlets n st =
     (0, st\<lparr>oc_outletStates := take n (oc_outletStates st) @ replicate (n - length (oc_outletStates st)) (- 1)\<rparr>)"

section \<open>Outlet states\<close>

definition outletState :: "nat \<Rightarrow> 'm outletController_scheme \<Rightarrow> int option" where
  "outletState n st = vec_at (oc_outletStates st) n"

definition setOutletState :: "nat \<Rightarrow> int \<Rightarrow> 'm outletController_scheme \<Rightarrow> 'm outletController_scheme option" where
  "setOutletState n s st =
     (if n < length (oc_outletStates st) then Some (st\<lparr>oc_outletStates := (oc_outletStates st)[n := s]\<rparr>) else None)"

definition setAllOutletStates :: "int \<Rightarrow> 'm outletController_scheme \<Rightarrow> 'm outletController_scheme" where
  "setAllOutletStates s st = st\<lparr>oc_outletStates := map (\<lambda>_. s) (oc_outletStates st)\<rparr>"

fun update_outlets ::
  "('m outletController_scheme, 'e) outletDriver \<Rightarrow> (nat \<Rightarrow> 'e) \<Rightarrow> nat list \<Rightarrow> 'm outletController_scheme \<Rightarrow>
   (int \<times> 'm outletController_scheme) option" where
  "update_outlets D es [] st = Some (0, st)"
| "update_outlets D es (n # ns) st =
     do { (rv, st) \<leftarrow> updateOutletState D (es n) n st;
          if rv < 0 then Some (rv, emit [LogSoftwareError] st) else update_outlets D es ns st }"

definition updateOutletStates ::
  "('m outletController_scheme, 'e) outletDriver \<Rightarrow> (nat \<Rightarrow> 'e) \<Rightarrow> 'm outletController_scheme \<Rightarrow>
   (int \<times> 'm outletController_scheme) option" where
  "updateOutletStates D es st = update_outlets D es [0 ..< length (oc_outletStates st)] st"

definition recordOutletStates :: "bool \<Rightarrow> int \<Rightarrow> 'm outletController_scheme \<Rightarrow> int \<times> 'm outletController_scheme" where
  "recordOutletStates force telem_rv st =
     (if \<not> force \<and> oc_outletTelemRecorded st \<and> oc_lastOutletStates st = oc_outletStates st then (0, st)
      else
        let st = emit [TelemOutlet (oc_firstOne st) (oc_outletStates st)] st
        in if telem_rv < 0 then (telem_rv, st)
           else (0, st\<lparr>oc_lastOutletStates := oc_outletStates st, oc_outletTelemRecorded := True\<rparr>))"

fun combine_states :: "int list \<Rightarrow> int \<Rightarrow> nat list \<Rightarrow> int option" where
  "combine_states states s [] = Some s"
| "combine_states states s (n # ns) =
     do { t \<leftarrow> vec_at states n;
          combine_states states (if s \<noteq> t then OUTLET_STATE_INTERMEDIATE else s) ns }"

definition channelState :: "string \<Rightarrow> 'm outletController_scheme \<Rightarrow> int option" where
  "channelState name st =
     (case cs_outlets (channel name st) of
        [] \<Rightarrow> None
      | n # ns \<Rightarrow> do { s \<leftarrow> vec_at (oc_outletStates st) n; combine_states (oc_outletStates st) s ns })"

section \<open>Switching a channel\<close>

text \<open>The results of the clock reads, and the environments of the driver's calls in order.\<close>

record 'e channel_env =
  tc_now :: timespec
  tc_calls :: "nat \<Rightarrow> 'e"
  tc_end :: "timespec option" \<comment> \<open>\<^const>\<open>None\<close> when \<open>clock_gettime\<close> fails\<close>

definition time_of :: "timespec \<Rightarrow> real" where
  "time_of t = real_of_int (tv_sec t) + real_of_int (tv_nsec t) / 1000000000"

definition set_target :: "string \<Rightarrow> string \<Rightarrow> 'm outletController_scheme \<Rightarrow> 'm outletController_scheme" where
  "set_target name target st =
     (let (p, sent) = updateIfChanged (oc_driver st) ''target'' target Busy (cs_prop (channel name st))
      in emit (map SendSetProperty sent) (set_channel name ((channel name st)\<lparr>cs_prop := p\<rparr>) st))"

text \<open>
  One outlet of the sequence: \<open>i\<close> is the position, \<open>order\<close> and \<open>delays\<close> the vectors in force.
  The log entry has the position within the channel, as in the code.
\<close>

definition outlet_number_log :: "nat \<Rightarrow> bool \<Rightarrow> nat" where
  "outlet_number_log n firstOne = (n + (if firstOne then 1 else 0)) mod 256"

definition turn_one ::
  "('e \<Rightarrow> nat \<Rightarrow> 'm outletController_scheme \<Rightarrow> int \<times> 'm outletController_scheme) \<Rightarrow> (nat \<Rightarrow> 'e) \<Rightarrow>
   (channelSpec \<Rightarrow> nat list) \<Rightarrow> (channelSpec \<Rightarrow> nat list) \<Rightarrow> int \<Rightarrow> string \<Rightarrow> nat \<Rightarrow> 'm outletController_scheme \<Rightarrow>
   (bool \<times> 'm outletController_scheme) option" where
  "turn_one op es order delays code name i st =
     do { let c = channel name st;
          n \<leftarrow> (if length (order c) = length (cs_outlets c) then vec_at (order c) i else Some i);
          st \<leftarrow> (if i > 0 \<and> length (delays c) = length (cs_outlets c)
                then map_option (\<lambda>d. emit [MilliSleep d] st) (vec_at (delays c) i) else Some st);
          outlet \<leftarrow> vec_at (cs_outlets c) n;
          let (rv, st) = op (es i) outlet st;
          if rv < 0 then Some (False, emit [LogSoftwareError] st)
          else Some (True, emit [LogOutletState (outlet_number_log n (oc_firstOne st)) code] st) }"

text \<open>The loop; the code reads the number of outlets again in every round, the driver leaves it alone.\<close>

fun turn_all ::
  "('e \<Rightarrow> nat \<Rightarrow> 'm outletController_scheme \<Rightarrow> int \<times> 'm outletController_scheme) \<Rightarrow> (nat \<Rightarrow> 'e) \<Rightarrow>
   (channelSpec \<Rightarrow> nat list) \<Rightarrow> (channelSpec \<Rightarrow> nat list) \<Rightarrow> int \<Rightarrow> string \<Rightarrow> nat list \<Rightarrow> 'm outletController_scheme \<Rightarrow>
   (bool \<times> 'm outletController_scheme) option" where
  "turn_all op es order delays code name [] st = Some (True, st)"
| "turn_all op es order delays code name (i # js) st =
     do { (ok, st) \<leftarrow> turn_one op es order delays code name i st;
          if ok then turn_all op es order delays code name js st else Some (False, st) }"

definition turn_channel ::
  "('e \<Rightarrow> nat \<Rightarrow> 'm outletController_scheme \<Rightarrow> int \<times> 'm outletController_scheme) \<Rightarrow>
   (channelSpec \<Rightarrow> nat list) \<Rightarrow> (channelSpec \<Rightarrow> nat list) \<Rightarrow> int \<Rightarrow> string \<Rightarrow>
   'e channel_env \<Rightarrow> string \<Rightarrow> 'm outletController_scheme \<Rightarrow> (int \<times> 'm outletController_scheme) option" where
  "turn_channel op order delays code target E name st =
     do { let st = set_target name target (touch_channel name st);
          s \<leftarrow> channelState name st;
          if s = code then Some (0, st)
          else if oc_stateDelay st > 0 \<and>
                  time_of (tc_now E) - time_of (cs_stateTime (channel name st)) < oc_stateDelay st
          then Some (0, st)
          else
          do { (ok, st) \<leftarrow> turn_all op (tc_calls E) order delays code name [0 ..< length (cs_outlets (channel name st))] st;
               if \<not> ok then Some (- 1, st)
               else
                 let st = emit [LogChannelState name code] st
                 in case tc_end E of
                      None \<Rightarrow> Some (- 1, emit [LogSoftwareError] st)
                    | Some t \<Rightarrow>
                        let st = set_channel name ((channel name st)\<lparr>cs_stateTime := t\<rparr>) st;
                            (p, sent) = updateIfChanged (oc_driver st) name (fmt0 1 (tv_sec t)) Idle (oc_stateTimes st)
                        in Some (0, emit (map SendSetProperty sent) (st\<lparr>oc_stateTimes := p\<rparr>)) } }"

definition turnChannelOn ::
  "('m outletController_scheme, 'e) outletDriver \<Rightarrow> 'e channel_env \<Rightarrow> string \<Rightarrow> 'm outletController_scheme \<Rightarrow>
   (int \<times> 'm outletController_scheme) option" where
  "turnChannelOn D = turn_channel (turnOutletOn D) cs_onOrder cs_onDelays OUTLET_STATE_ON ''On''"

definition turnChannelOff ::
  "('m outletController_scheme, 'e) outletDriver \<Rightarrow> 'e channel_env \<Rightarrow> string \<Rightarrow> 'm outletController_scheme \<Rightarrow>
   (int \<times> 'm outletController_scheme) option" where
  "turnChannelOff D = turn_channel (turnOutletOff D) cs_offOrder cs_offDelays OUTLET_STATE_OFF ''Off''"

text \<open>\<open>toUpper\<close> is \<open>mx::ioutils::toUpper\<close> of mxlib, a parameter.\<close>

definition request_target :: "(string \<Rightarrow> string) \<Rightarrow> IndiProperty \<Rightarrow> string" where
  "request_target toUpper ipRecv =
     (let state = (case map_find ''state'' (ip_elements ipRecv) of Some e \<Rightarrow> get_word e | None \<Rightarrow> []);
          target = (case map_find ''target'' (ip_elements ipRecv) of Some e \<Rightarrow> get_word e | None \<Rightarrow> [])
      in toUpper (if target = [] then state else target))"

definition newCallBack_channels ::
  "(string \<Rightarrow> string) \<Rightarrow> ('m outletController_scheme, 'e) outletDriver \<Rightarrow> 'e channel_env \<Rightarrow> IndiProperty \<Rightarrow>
   'm outletController_scheme \<Rightarrow> (int \<times> 'm outletController_scheme) option" where
  "newCallBack_channels toUpper D E ipRecv st =
     (if \<not> oc_ready st then Some (- 1, emit [LogSoftwareError] st)
      else
        let name = ip_name ipRecv; target = request_target toUpper ipRecv
        in if target = ''ON'' then turnChannelOn D E name st
           else if target = ''OFF'' then turnChannelOff D E name st
           else Some (0, st))"

section \<open>Publishing\<close>

definition stateIntToString :: "int \<Rightarrow> string" where
  "stateIntToString st =
     (if st = OUTLET_STATE_OFF then ''Off'' else if st = OUTLET_STATE_INTERMEDIATE then ''Int''
      else if st = OUTLET_STATE_ON then ''On'' else ''Unk'')"

fun publish_outlets :: "(nat \<times> int) list \<Rightarrow> 'm outletController_scheme \<Rightarrow> 'm outletController_scheme" where
  "publish_outlets [] st = st"
| "publish_outlets ((i, s) # iss) st =
     (let n = i + (if oc_firstOne st then 1 else 0);
          (p, sent) = updateIfChanged (oc_driver st) (fmt0 1 (int n)) (stateIntToString s) Ok (oc_outletProp st)
      in publish_outlets iss (emit (map SendSetProperty sent) (st\<lparr>oc_outletProp := p\<rparr>)))"

fun publish_channels :: "string list \<Rightarrow> 'm outletController_scheme \<Rightarrow> 'm outletController_scheme option" where
  "publish_channels [] st = Some st"
| "publish_channels (name # names) st =
     do { s \<leftarrow> channelState name st;
          let (p, sent) = updateIfChanged (oc_driver st) ''state'' (stateIntToString s) Ok (cs_prop (channel name st));
          publish_channels names
            (emit (map SendSetProperty sent) (set_channel name ((channel name st)\<lparr>cs_prop := p\<rparr>) st)) }"

definition updateINDI :: "'m outletController_scheme \<Rightarrow> (int \<times> 'm outletController_scheme) option" where
  "updateINDI st =
     (if \<not> oc_driver st then Some (0, st)
      else map_option (Pair 0)
        (publish_channels (map fst (oc_channels st))
          (publish_outlets (zip [0 ..< length (oc_outletStates st)] (oc_outletStates st)) st)))"

section \<open>Start-up\<close>

definition ro_property :: "PropertyType \<Rightarrow> string \<Rightarrow> string \<Rightarrow> IndiProperty" where
  "ro_property ty dev name = (IndiProperty_new ty dev name)\<lparr>ip_perm := ReadOnly, ip_state := Idle\<rparr>"

text \<open>Adding an element that is already there throws; the exception is not caught here.\<close>

definition add_value :: "string \<Rightarrow> string \<Rightarrow> IndiProperty \<Rightarrow> IndiProperty option" where
  "add_value name v p = (case property_add (IndiElement_new name v) p of Inl _ \<Rightarrow> None | Inr p \<Rightarrow> Some p)"

definition comma_list :: "nat list \<Rightarrow> string" where
  "comma_list ns = (case map (\<lambda>n. fmt0 1 (int n)) ns of [] \<Rightarrow> [] | s # ss \<Rightarrow> s @ concat (map (\<lambda>t. CHR '','' # t) ss))"

text \<open>
  The property of a channel, and its entries in the four properties of the controller. \<open>reg\<close>
  is the result of registering a property by its name. An error is the pair of the return value
  and the state reached; an exception or a read outside a vector is \<^const>\<open>None\<close>.
\<close>

definition channel_property :: "string \<Rightarrow> string \<Rightarrow> IndiProperty" where
  "channel_property dev name =
     property_set (IndiElement_new ''target'' []) (property_set (IndiElement_new ''state'' [])
       ((IndiProperty_new Text dev name)\<lparr>ip_perm := ReadWrite, ip_state := Idle\<rparr>))"

fun startup_channels ::
  "string \<Rightarrow> (string \<Rightarrow> int) \<Rightarrow> string list \<Rightarrow> 'm outletController_scheme \<Rightarrow>
   (bool \<times> 'm outletController_scheme) option" where
  "startup_channels dev reg [] st = Some (True, st)"
| "startup_channels dev reg (name # names) st =
     (let c = (channel name st)\<lparr>cs_prop := channel_property dev name\<rparr>; st = set_channel name c st in
      if reg name < 0 then Some (False, emit [LogSoftwareError] st)
      else
      do { times \<leftarrow> add_value name ''0'' (oc_stateTimes st);
           _ \<leftarrow> vec_at (cs_outlets c) 0;
           outs \<leftarrow> add_value name (comma_list (cs_outlets c)) (oc_chOutlets st);
           ons \<leftarrow> add_value name (fmt0 1 (int (sum_list (cs_onDelays c)))) (oc_chOnDelays st);
           offs \<leftarrow> add_value name (fmt0 1 (int (sum_list (cs_offDelays c)))) (oc_chOffDelays st);
           startup_channels dev reg names
             (st\<lparr>oc_stateTimes := times, oc_chOutlets := outs, oc_chOnDelays := ons, oc_chOffDelays := offs\<rparr>) })"

fun add_outlets :: "nat list \<Rightarrow> IndiProperty \<Rightarrow> IndiProperty option" where
  "add_outlets [] p = Some p"
| "add_outlets (n # ns) p = do { p \<leftarrow> add_value (fmt0 1 (int n)) [] p; add_outlets ns p }"

definition outlet_appStartup ::
  "string \<Rightarrow> (string \<Rightarrow> int) \<Rightarrow> 'm outletController_scheme \<Rightarrow> (int \<times> 'm outletController_scheme) option" where
  "outlet_appStartup dev reg st =
     (let st = st\<lparr>oc_stateTimes := ro_property Number dev ''stateTimes''\<rparr> in
      if reg ''stateTimes'' < 0 then Some (- 1, emit [LogSoftwareError] st)
      else let st = st\<lparr>oc_chOutlets := ro_property Text dev ''channelOutlets''\<rparr> in
      if reg ''channelOutlets'' < 0 then Some (- 1, emit [LogSoftwareError] st)
      else let st = st\<lparr>oc_chOnDelays := ro_property Number dev ''channelOnDelays''\<rparr> in
      if reg ''channelOnDelays'' < 0 then Some (- 1, emit [LogSoftwareError] st)
      else let st = st\<lparr>oc_chOffDelays := ro_property Number dev ''channelOffDelays''\<rparr> in
      if reg ''channelOffDelays'' < 0 then Some (- 1, emit [LogSoftwareError] st)
      else
      do { (ok, st) \<leftarrow> startup_channels dev reg (map fst (oc_channels st)) st;
           if \<not> ok then Some (- 1, st)
           else
             let st = st\<lparr>oc_outletProp := (IndiProperty_new Text dev ''outlet'')\<lparr>ip_perm := ReadWrite, ip_state := Idle\<rparr>\<rparr> in
             if reg ''outlet'' < 0 then Some (- 1, emit [LogSoftwareError] st)
             else
             do { p \<leftarrow> add_outlets (map (\<lambda>i. i + (if oc_firstOne st then 1 else 0)) [0 ..< length (oc_outletStates st)])
                      (oc_outletProp st);
                  Some (0, st\<lparr>oc_outletProp := p\<rparr>) } })"

section \<open>The state of a channel\<close>

lemma vec_at_in [simp]: "i < length xs \<Longrightarrow> vec_at xs i = Some (xs ! i)"
  by (simp add: vec_at_def)

lemma combine_states_spec:
  "\<forall>n \<in> set ns. n < length states \<Longrightarrow>
     combine_states states s ns = Some (if \<forall>n \<in> set ns. states ! n = s then s else OUTLET_STATE_INTERMEDIATE)"
  by (induction ns arbitrary: s) (auto split: if_splits)

lemma channelState_eq:
  assumes "cs_outlets (channel name st) \<noteq> []"
    and "\<forall>n \<in> set (cs_outlets (channel name st)). n < length (oc_outletStates st)"
  shows "channelState name st =
    Some (let s = oc_outletStates st ! hd (cs_outlets (channel name st))
          in if \<forall>n \<in> set (cs_outlets (channel name st)). oc_outletStates st ! n = s then s
             else OUTLET_STATE_INTERMEDIATE)"
proof (cases "cs_outlets (channel name st)")
  case (Cons n ns)
  then have "\<forall>n \<in> set ns. n < length (oc_outletStates st)" "n < length (oc_outletStates st)"
    using assms(2) by auto
  with Cons show ?thesis
    by (simp add: channelState_def combine_states_spec Let_def)
qed (use assms(1) in simp)

text \<open>The state of a channel is the common state of its outlets when they agree, and
  intermediate when they do not; in particular it is on exactly when every outlet is on and off
  exactly when every outlet is off. The result is defined when the channel has an outlet and
  its outlets exist.
\<close>

theorem channelState_spec:
  assumes "cs_outlets (channel name st) \<noteq> []"
    and "\<forall>n \<in> set (cs_outlets (channel name st)). n < length (oc_outletStates st)"
  shows "\<exists>s. channelState name st = Some s \<and>
    (\<forall>t. t \<noteq> OUTLET_STATE_INTERMEDIATE \<longrightarrow>
       (s = t \<longleftrightarrow> (\<forall>n \<in> set (cs_outlets (channel name st)). oc_outletStates st ! n = t))) \<and>
    (s = OUTLET_STATE_INTERMEDIATE \<longleftrightarrow>
       (\<nexists>t. t \<noteq> OUTLET_STATE_INTERMEDIATE \<and>
          (\<forall>n \<in> set (cs_outlets (channel name st)). oc_outletStates st ! n = t)))"
proof -
  define outs where "outs = cs_outlets (channel name st)"
  define states where "states = oc_outletStates st"
  define s where "s = (if \<forall>n \<in> set outs. states ! n = states ! hd outs then states ! hd outs
                       else OUTLET_STATE_INTERMEDIATE)"
  have hd: "hd outs \<in> set outs"
    using assms(1) by (simp add: outs_def)
  have same: "s = t \<longleftrightarrow> (\<forall>n \<in> set outs. states ! n = t)" if t: "t \<noteq> OUTLET_STATE_INTERMEDIATE" for t
  proof (cases "\<forall>n \<in> set outs. states ! n = states ! hd outs")
    case True
    then have "s = states ! hd outs" unfolding s_def by (rule if_P)
    then show ?thesis using True hd by metis
  next
    case False
    then have "s = OUTLET_STATE_INTERMEDIATE" unfolding s_def by (rule if_not_P)
    then have "s \<noteq> t" using t by simp
    moreover have "\<not> (\<forall>n \<in> set outs. states ! n = t)" using False hd by metis
    ultimately show ?thesis by blast
  qed
  have "s = OUTLET_STATE_INTERMEDIATE \<longleftrightarrow>
      (\<nexists>t. t \<noteq> OUTLET_STATE_INTERMEDIATE \<and> (\<forall>n \<in> set outs. states ! n = t))"
    using same by blast
  moreover have "channelState name st = Some s"
    using channelState_eq [OF assms] by (simp only: Let_def s_def outs_def states_def)
  ultimately show ?thesis
    using same unfolding outs_def states_def by blast
qed

definition example_chan :: channelSpec where
  "example_chan = channelSpec_new\<lparr>cs_outlets := [2, 0], cs_onOrder := [1, 0], cs_onDelays := [0, 150]\<rparr>"

definition example_oc :: outletController where
  "example_oc =
     \<lparr>oc_firstOne = True, oc_stateDelay = 0, oc_outletStates = [2, 0, 2], oc_channels = [(''sue'', example_chan)],
      oc_stateTimes = IndiProperty_new Number ''pdu'' ''stateTimes'', oc_chOutlets = IndiProperty_new Unknown [] [],
      oc_chOnDelays = IndiProperty_new Unknown [] [], oc_chOffDelays = IndiProperty_new Unknown [] [],
      oc_outletProp = IndiProperty_new Text ''pdu'' ''outlet'',
      oc_lastOutletStates = [], oc_outletTelemRecorded = False, oc_driver = True, oc_ready = True, oc_events = []\<rparr>"

lemma channel_example: "channel ''sue'' example_oc = example_chan"
  by (simp add: channel_def example_oc_def)

theorem channelState_spec_witness:
  "\<exists>s. channelState ''sue'' example_oc = Some s \<and>
     (\<forall>t. t \<noteq> OUTLET_STATE_INTERMEDIATE \<longrightarrow> (s = t \<longleftrightarrow> (\<forall>n \<in> {2, 0}. [2, 0, 2] ! n = t)))"
proof -
  have outs: "cs_outlets (channel ''sue'' example_oc) = [2, 0]" and states: "oc_outletStates example_oc = [2, 0, 2]"
    by (simp_all add: channel_example example_chan_def) (simp add: example_oc_def)
  have ne: "cs_outlets (channel ''sue'' example_oc) \<noteq> []"
    by (simp add: outs)
  have lt: "\<forall>n \<in> set (cs_outlets (channel ''sue'' example_oc)). n < length (oc_outletStates example_oc)"
    by (simp add: outs states)
  have "set (cs_outlets (channel ''sue'' example_oc)) = {2, 0}"
    by (simp add: outs)
  then show ?thesis
    using channelState_spec [OF ne lt] unfolding states by fastforce
qed

section \<open>Configuration\<close>

text \<open>What an accepted configuration guarantees of a channel of a controller with \<open>n\<close> outlets.\<close>

definition fits :: "nat list \<Rightarrow> channelSpec \<Rightarrow> bool" where
  "fits v c \<longleftrightarrow> v = [] \<or> length v = length (cs_outlets c)"

definition spec_ok :: "nat \<Rightarrow> channelSpec \<Rightarrow> bool" where
  "spec_ok n c \<longleftrightarrow>
     cs_outlets c \<noteq> [] \<and> (\<forall>k \<in> set (cs_outlets c). k < n) \<and>
     fits (cs_onOrder c) c \<and> fits (cs_offOrder c) c \<and> fits (cs_onDelays c) c \<and> fits (cs_offDelays c) c"

text \<open>The outlet numbers a section gives, as written in the file.\<close>

definition section_outlets :: "configurator \<Rightarrow> string \<Rightarrow> nat list" where
  "section_outlets cfg sec =
     (if cfg_isSetUnused cfg sec ''outlet'' then cfg_numbers cfg sec ''outlet'' else cfg_numbers cfg sec ''outlets'')"

lemma config_outlets_Some:
  "config_outlets f n ks = Some os \<Longrightarrow>
     os = map (\<lambda>k. k - (if f then 1 else 0)) ks \<and> (\<forall>k \<in> set os. k < n) \<and> (f \<longrightarrow> 0 \<notin> set ks)"
  by (induction f n ks arbitrary: os rule: config_outlets.induct) (auto simp: Let_def split: if_splits)

lemma config_vector_fits:
  assumes "config_vector cfg sec key sz [] = Some v"
  shows "v = [] \<or> length v = sz"
  using assms by (auto simp: config_vector_def split: if_splits)

lemma config_channel_True:
  assumes "config_channel cfg f n sec channelSpec_new = (True, c)"
  shows "spec_ok n c \<and> cs_outlets c = map (\<lambda>k. k - (if f then 1 else 0)) (section_outlets cfg sec)"
proof -
  let ?outs = "section_outlets cfg sec"
  obtain os where os: "config_outlets f n ?outs = Some os" and ne: "?outs \<noteq> []"
    using assms by (auto simp: config_channel_def section_outlets_def Let_def split: if_splits option.splits)
  obtain v1 v2 v3 v4 where v:
    "config_vector cfg sec ''onOrder'' (length os) [] = Some v1"
    "config_vector cfg sec ''offOrder'' (length os) [] = Some v2"
    "config_vector cfg sec ''onDelays'' (length os) [] = Some v3"
    "config_vector cfg sec ''offDelays'' (length os) [] = Some v4"
    and c: "c = channelSpec_new\<lparr>cs_outlets := os, cs_onOrder := v1, cs_offOrder := v2, cs_onDelays := v3, cs_offDelays := v4\<rparr>"
    using assms os
    by (auto simp: config_channel_def section_outlets_def Let_def channelSpec_new_def split: if_splits option.splits)
  note cv = v [THEN config_vector_fits]
  have "os \<noteq> []" "\<forall>k \<in> set os. k < n"
    using config_outlets_Some [OF os] ne by auto
  with cv config_outlets_Some [OF os] show ?thesis
    by (simp add: c spec_ok_def fits_def)
qed

lemma spec_ok_mutex [simp]: "spec_ok n (c\<lparr>cs_mutex := b\<rparr>) = spec_ok n c"
  by (simp add: spec_ok_def fits_def)

lemma alist_update_new: "k \<notin> fst ` set al \<Longrightarrow> AList.update k v al = al @ [(k, v)]"
  by (induction al) auto

lemma channel_set_channel [simp]:
  "channel name (set_channel name' c st) = (if name = name' then c else channel name st)"
  by (simp add: channel_def set_channel_def update_conv')

lemma set_channel_fields [simp]:
  "oc_firstOne (set_channel name c st) = oc_firstOne st" "oc_outletStates (set_channel name c st) = oc_outletStates st"
  "oc_stateDelay (set_channel name c st) = oc_stateDelay st" "oc_events (set_channel name c st) = oc_events st"
  "oc_driver (set_channel name c st) = oc_driver st" "oc_stateTimes (set_channel name c st) = oc_stateTimes st"
  "oc_ready (set_channel name c st) = oc_ready st" "outletController.more (set_channel name c st) = outletController.more st"
  by (simp_all add: set_channel_def)

lemma emit_fields [simp]:
  "oc_firstOne (emit evs st) = oc_firstOne st" "oc_outletStates (emit evs st) = oc_outletStates st"
  "oc_stateDelay (emit evs st) = oc_stateDelay st" "oc_channels (emit evs st) = oc_channels st"
  "oc_driver (emit evs st) = oc_driver st" "oc_stateTimes (emit evs st) = oc_stateTimes st"
  "oc_ready (emit evs st) = oc_ready st" "outletController.more (emit evs st) = outletController.more st"
  "channel name (emit evs st) = channel name st" "oc_events (emit evs st) = oc_events st @ evs"
  by (simp_all add: emit_def channel_def)

text \<open>The configuration of the sections already done: a distinct list of names, each as its section says.\<close>

definition configured :: "configurator \<Rightarrow> string list \<Rightarrow> 'm outletController_scheme \<Rightarrow> bool" where
  "configured cfg secs st \<longleftrightarrow>
     distinct (map fst (oc_channels st)) \<and> set (map fst (oc_channels st)) = set secs \<and>
     (\<forall>(name, c) \<in> set (oc_channels st).
        spec_ok (length (oc_outletStates st)) c \<and>
        cs_outlets c = map (\<lambda>k. k - (if oc_firstOne st then 1 else 0)) (section_outlets cfg name))"

lemma configured_update:
  assumes "configured cfg secs st" "sec \<notin> set secs"
    and "config_channel cfg (oc_firstOne st) (length (oc_outletStates st)) sec channelSpec_new = (True, c)"
  shows "configured cfg (secs @ [sec]) (set_channel sec c st)"
proof -
  have new: "sec \<notin> fst ` set (oc_channels st)"
    using assms(1,2) by (simp add: configured_def)
  have "oc_channels (set_channel sec c st) = oc_channels st @ [(sec, c)]"
    using alist_update_new [OF new] by (simp add: set_channel_def)
  then show ?thesis
    using assms(1) new config_channel_True [OF assms(3)] by (auto simp: configured_def)
qed

lemma config_channels_configured:
  assumes "config_channels cfg secs st = (True, st')" "configured cfg done st" "distinct (done @ secs)"
  shows "configured cfg (done @ secs) st' \<and> length (oc_outletStates st') = length (oc_outletStates st) \<and>
    oc_firstOne st' = oc_firstOne st"
  using assms
proof (induction secs arbitrary: st "done")
  case (Cons sec secs)
  have new: "sec \<notin> set done" and "map_of (oc_channels st) sec = None"
    using Cons.prems(2,3) by (auto simp: configured_def map_of_eq_None_iff)
  then have ch: "channel sec st = channelSpec_new"
    by (simp add: channel_def)
  obtain c where c: "config_channel cfg (oc_firstOne st) (length (oc_outletStates st)) sec channelSpec_new = (True, c)"
    and rest: "config_channels cfg secs (set_channel sec c st) = (True, st')"
    using Cons.prems(1) by (auto simp: ch Let_def split: prod.splits if_splits)
  have "configured cfg (done @ [sec]) (set_channel sec c st)"
    by (rule configured_update [OF Cons.prems(2) new c])
  from Cons.IH [OF rest this] Cons.prems(3) show ?case
    by simp
qed simp

lemma outlet_loadConfig_result:
  assumes "distinct (cfg_unusedSections cfg)" and "oc_channels st = []"
    and "outlet_loadConfig cfg st = (rv, st')"
  shows "if rv = 0
    then distinct (map fst (oc_channels st')) \<and> set (map fst (oc_channels st')) = set (channel_sections cfg) \<and>
      oc_channels st' \<noteq> [] \<and>
      (\<forall>(name, c) \<in> set (oc_channels st'). cs_mutex c \<and> spec_ok (length (oc_outletStates st)) c \<and>
         cs_outlets c = map (\<lambda>k. k - (if oc_firstOne st then 1 else 0)) (section_outlets cfg name))
    else rv \<in> {- 1, OUTLET_E_NOOUTLETS, OUTLET_E_NOCHANNELS, OUTLET_E_NOVALIDCH} \<and>
      (rv = OUTLET_E_NOOUTLETS \<longrightarrow> oc_outletStates st = [])"
proof (cases "rv = 0")
  case False
  with assms(3) show ?thesis
    by (auto simp: outlet_loadConfig_def OUTLET_E_NOOUTLETS_def OUTLET_E_NOCHANNELS_def OUTLET_E_NOVALIDCH_def
        split: if_splits prod.splits bool.splits)
next
  case True
  have ne: "channel_sections cfg \<noteq> []"
    using assms(3) True
    by (auto simp: outlet_loadConfig_def OUTLET_E_NOOUTLETS_def OUTLET_E_NOCHANNELS_def OUTLET_E_NOVALIDCH_def
        split: if_splits)
  obtain st1 where st1: "config_channels cfg (channel_sections cfg) st = (True, st1)"
    and st': "st' = st1\<lparr>oc_channels := map (\<lambda>(name, c). (name, c\<lparr>cs_mutex := True\<rparr>)) (oc_channels st1)\<rparr>"
    using assms(3) True
    by (auto simp: outlet_loadConfig_def OUTLET_E_NOOUTLETS_def OUTLET_E_NOCHANNELS_def OUTLET_E_NOVALIDCH_def
        split: if_splits prod.splits bool.splits)
  have "distinct (channel_sections cfg)"
    using assms(1) by (simp add: channel_sections_def)
  then have conf: "configured cfg (channel_sections cfg) st1" "length (oc_outletStates st1) = length (oc_outletStates st)"
    "oc_firstOne st1 = oc_firstOne st"
    using config_channels_configured [OF st1, of "[]"] assms(2) by (auto simp: configured_def)
  have keys: "map fst (oc_channels st') = map fst (oc_channels st1)"
    by (simp add: st' comp_def case_prod_beta)
  have "\<forall>(name, c) \<in> set (oc_channels st'). cs_mutex c \<and> spec_ok (length (oc_outletStates st)) c \<and>
         cs_outlets c = map (\<lambda>k. k - (if oc_firstOne st then 1 else 0)) (section_outlets cfg name)"
    using conf by (fastforce simp: st' configured_def)
  moreover have "oc_channels st' \<noteq> []"
    using keys conf(1) ne by (auto simp: configured_def)
  ultimately show ?thesis
    using True conf(1) unfolding keys by (simp add: configured_def)
qed

lemma config_channels_frame: "config_channels cfg secs st = (ok, st') \<Longrightarrow> \<exists>ch. st' = st\<lparr>oc_channels := ch\<rparr>"
proof (induction cfg secs st rule: config_channels.induct)
  case (1 cfg st)
  then show ?case by (auto intro: exI [of _ "oc_channels st"])
next
  case (2 cfg sec secs st)
  then show ?case
    by (auto simp: Let_def set_channel_def split: prod.splits if_splits)
qed

lemma outlet_loadConfig_frame:
  assumes "outlet_loadConfig cfg st = (rv, st')"
  shows "st' = st\<lparr>oc_channels := oc_channels st', oc_events := oc_events st'\<rparr>"
proof -
  obtain ok st1 where st1: "config_channels cfg (channel_sections cfg) st = (ok, st1)"
    by (cases "config_channels cfg (channel_sections cfg) st")
  obtain ch where "st1 = st\<lparr>oc_channels := ch\<rparr>"
    using config_channels_frame [OF st1] by blast
  with assms st1 show ?thesis
    by (cases ok) (auto simp: outlet_loadConfig_def emit_def split: if_splits)
qed

text \<open>When \<open>loadConfig\<close> of a fresh controller returns 0, there is exactly one channel for every
  section that has an \<open>outlet\<close> or \<open>outlets\<close> entry; it has at least one outlet, its outlets are
  the configured numbers counted from zero and exist on the device, every order or delay vector
  is absent or has one entry per outlet, and the channel has its mutex. In every other case the
  result is one of the documented negative codes.
\<close>

theorem outlet_loadConfig_ok:
  assumes "distinct (cfg_unusedSections cfg)" and "oc_channels st = []"
    and "outlet_loadConfig cfg st = (rv, st')"
  shows "if rv = 0
    then distinct (map fst (oc_channels st')) \<and> set (map fst (oc_channels st')) = set (channel_sections cfg) \<and>
      oc_channels st' \<noteq> [] \<and>
      (\<forall>(name, c) \<in> set (oc_channels st'). cs_mutex c \<and> spec_ok (length (oc_outletStates st)) c \<and>
         cs_outlets c = map (\<lambda>k. k - (if oc_firstOne st then 1 else 0)) (section_outlets cfg name))
    else rv \<in> {- 1, OUTLET_E_NOOUTLETS, OUTLET_E_NOCHANNELS, OUTLET_E_NOVALIDCH} \<and>
      (rv = OUTLET_E_NOOUTLETS \<longrightarrow> oc_outletStates st = [])"
  by (rule outlet_loadConfig_result [OF assms])

definition example_cfg :: configurator where
  "example_cfg =
     \<lparr>cfg_unusedSections = [''sue''],
      cfg_isSetUnused = (\<lambda>sec key. sec = ''sue'' \<and> key \<in> {''outlets'', ''onOrder''}),
      cfg_numbers = (\<lambda>sec key. if key = ''outlets'' then [3, 1] else if key = ''onOrder'' then [1, 0] else []),
      cfg_words = (\<lambda>_ _. []), cfg_word = (\<lambda>_ _. [])\<rparr>"

theorem outlet_loadConfig_ok_witness:
  "fst (outlet_loadConfig example_cfg (example_oc\<lparr>oc_channels := []\<rparr>)) = 0 \<and>
   set (map fst (oc_channels (snd (outlet_loadConfig example_cfg (example_oc\<lparr>oc_channels := []\<rparr>))))) = {''sue''}"
proof -
  let ?st = "example_oc\<lparr>oc_channels := []\<rparr>"
  have dist: "distinct (cfg_unusedSections example_cfg)" and nil: "oc_channels ?st = []"
    by (simp_all add: example_cfg_def)
  have secs: "channel_sections example_cfg = [''sue'']"
    by (simp add: channel_sections_def example_cfg_def)
  have rv: "fst (outlet_loadConfig example_cfg ?st) = 0"
    by (simp add: outlet_loadConfig_def secs)
      (simp add: example_oc_def example_cfg_def config_channel_def config_vector_def channelSpec_new_def Let_def)
  then have "set (map fst (oc_channels (snd (outlet_loadConfig example_cfg ?st)))) = {''sue''}"
    using outlet_loadConfig_ok [OF dist nil prod.collapse [symmetric]] unfolding secs by simp
  with rv show ?thesis by blast
qed

section \<open>Sequencing\<close>

text \<open>
  What a driver promises to the sequencing of a channel. \<open>trace\<close> is the sequence of commands
  given to the device and of waits between them, \<open>cmd n\<close> the command for outlet \<open>n\<close>. An
  accepted command is appended to the trace, a refused one is not, and neither changes the
  channel specifications; the events of the controller itself add only its waits.
\<close>

datatype 'c seq_step = Cmd 'c | Wait nat

fun controller_event :: "oc_event \<Rightarrow> bool" where
  "controller_event (SendNewProperty p) = False"
| "controller_event _ = True"

fun event_waits :: "oc_event \<Rightarrow> 'c seq_step list" where
  "event_waits (MilliSleep d) = [Wait d]"
| "event_waits _ = []"

locale outlet_driver =
  fixes op :: "'e \<Rightarrow> nat \<Rightarrow> 'm outletController_scheme \<Rightarrow> int \<times> 'm outletController_scheme"
    and cmd :: "nat \<Rightarrow> 'm outletController_scheme \<Rightarrow> 'c"
    and trace :: "'m outletController_scheme \<Rightarrow> 'c seq_step list"
  assumes op_channels: "op e n st = (rv, st') \<Longrightarrow> oc_channels st' = oc_channels st"
    and op_cmd: "op e n st = (rv, st') \<Longrightarrow> cmd k st' = cmd k st"
    and op_ok: "op e n st = (rv, st') \<Longrightarrow> 0 \<le> rv \<Longrightarrow> trace st' = trace st @ [Cmd (cmd n st)]"
    and op_fail: "op e n st = (rv, st') \<Longrightarrow> rv < 0 \<Longrightarrow> trace st' = trace st"
    and trace_emit: "controller_event ev \<Longrightarrow> trace (emit [ev] st) = trace st @ event_waits ev"
    and trace_set_channel: "trace (set_channel name c st) = trace st"
    and trace_stateTimes: "trace (st\<lparr>oc_stateTimes := p\<rparr>) = trace st"
    and cmd_emit: "cmd n (emit evs st) = cmd n st"
    and cmd_set_channel: "cmd n (set_channel name c st) = cmd n st"

text \<open>The planned sequence: the outlets in the configured order, with the configured waits between them.\<close>

definition position :: "nat list \<Rightarrow> nat list \<Rightarrow> nat \<Rightarrow> nat" where
  "position order outlets i = (if length order = length outlets then order ! i else i)"

definition plan_step :: "nat list \<Rightarrow> nat list \<Rightarrow> (nat \<Rightarrow> 'c) \<Rightarrow> nat list \<Rightarrow> nat \<Rightarrow> 'c seq_step list" where
  "plan_step order delays cmd outlets i =
     (if i > 0 \<and> length delays = length outlets then [Wait (delays ! i)] else []) @
     [Cmd (cmd (outlets ! position order outlets i))]"

definition plan :: "nat list \<Rightarrow> nat list \<Rightarrow> (nat \<Rightarrow> 'c) \<Rightarrow> nat list \<Rightarrow> 'c seq_step list" where
  "plan order delays cmd outlets = concat (map (plan_step order delays cmd outlets) [0 ..< length outlets])"

text \<open>An order that can be followed: absent, or an index of an outlet for each position.\<close>

definition order_ok :: "nat list \<Rightarrow> nat list \<Rightarrow> bool" where
  "order_ok order outlets \<longleftrightarrow> order = [] \<or> length order = length outlets \<and> (\<forall>i \<in> set order. i < length outlets)"

lemma position_less: "order_ok order outlets \<Longrightarrow> i < length outlets \<Longrightarrow> position order outlets i < length outlets"
  by (auto simp: position_def order_ok_def)

context outlet_driver
begin

lemma trace_emits: "\<forall>ev \<in> set evs. controller_event ev \<and> event_waits ev = ([] :: 'c seq_step list) \<Longrightarrow>
    trace (emit evs st) = trace st"
proof (induction evs arbitrary: st)
  case Nil
  have "emit [] st = st" by (simp add: emit_def)
  then show ?case by simp
next
  case (Cons ev evs)
  have "emit (ev # evs) st = emit evs (emit [ev] st)"
    by (simp add: emit_def)
  with Cons trace_emit [of ev st] show ?case
    by simp
qed

lemma trace_sends: "trace (emit (map SendSetProperty ps) st) = trace st"
  by (rule trace_emits) auto

lemma turn_one_step:
  assumes "channel name st = c" "i < length (cs_outlets c)"
    and "order_ok (order c) (cs_outlets c)" "delays c = [] \<or> length (delays c) = length (cs_outlets c)"
  shows "\<exists>ok st'. turn_one op es order delays code name i st = Some (ok, st') \<and>
    oc_channels st' = oc_channels st \<and> (\<forall>k. cmd k st' = cmd k st) \<and>
    (ok \<longrightarrow> trace st' = trace st @ plan_step (order c) (delays c) (\<lambda>n. cmd n st) (cs_outlets c) i) \<and>
    (\<not> ok \<longrightarrow> (\<exists>ws. trace st' = trace st @ ws \<and>
       strict_prefix ws (plan_step (order c) (delays c) (\<lambda>n. cmd n st) (cs_outlets c) i)))"
proof -
  define n where "n = position (order c) (cs_outlets c) i"
  define waits where "waits = (if i > 0 \<and> length (delays c) = length (cs_outlets c) then [delays c ! i] else [])"
  define st1 where "st1 = (if waits = [] then st else emit [MilliSleep (hd waits)] st)"
  have n: "n < length (cs_outlets c)"
    using position_less assms(2,3) by (simp add: n_def)
  obtain rv st2 where op: "op (es i) (cs_outlets c ! n) st1 = (rv, st2)"
    by (cases "op (es i) (cs_outlets c ! n) st1")
  have ord: "(if length (order c) = length (cs_outlets c) then vec_at (order c) i else Some i) = Some n"
    using assms(2) by (simp add: n_def position_def)
  have slp: "(if i > 0 \<and> length (delays c) = length (cs_outlets c)
        then map_option (\<lambda>d. emit [MilliSleep d] st) (vec_at (delays c) i) else Some st) = Some st1"
    using assms(2) by (simp add: st1_def waits_def)
  have run: "turn_one op es order delays code name i st =
      (if rv < 0 then Some (False, emit [LogSoftwareError] st2)
       else Some (True, emit [LogOutletState (outlet_number_log n (oc_firstOne st2)) code] st2))"
    unfolding turn_one_def assms(1) Let_def ord slp using n op by (simp add: Let_def)
  have t1: "trace st1 = trace st @ map Wait waits" and c1: "cmd k st1 = cmd k st" and ch1: "oc_channels st1 = oc_channels st" for k
    using trace_emit [of "MilliSleep (hd waits)" st] cmd_emit by (auto simp: st1_def waits_def)
  have step: "plan_step (order c) (delays c) (\<lambda>n. cmd n st) (cs_outlets c) i = map Wait waits @ [Cmd (cmd (cs_outlets c ! n) st)]"
    by (simp add: plan_step_def waits_def n_def)
  show ?thesis
  proof (cases "rv < 0")
    case True
    have "trace (emit [LogSoftwareError] st2) = trace st @ map Wait waits"
      using op_fail [OF op True] t1 trace_emit [of LogSoftwareError st2] by simp
    with True run step show ?thesis
      using op_channels [OF op] op_cmd [OF op] c1 ch1 cmd_emit by (auto simp: strict_prefix_def)
  next
    case False
    have "trace (emit [LogOutletState m code] st2) = trace st @ map Wait waits @ [Cmd (cmd (cs_outlets c ! n) st)]" for m
      using op_ok [OF op] False t1 c1 trace_emit [of "LogOutletState m code" st2] by simp
    with False run step show ?thesis
      using op_channels [OF op] op_cmd [OF op] c1 ch1 cmd_emit by auto
  qed
qed

lemma turn_all_steps:
  assumes "channel name st = c" "\<forall>i \<in> set js. i < length (cs_outlets c)"
    and "order_ok (order c) (cs_outlets c)" "delays c = [] \<or> length (delays c) = length (cs_outlets c)"
  shows "\<exists>ok st' ws. turn_all op es order delays code name js st = Some (ok, st') \<and>
    oc_channels st' = oc_channels st \<and> trace st' = trace st @ ws \<and>
    (let p = concat (map (plan_step (order c) (delays c) (\<lambda>n. cmd n st) (cs_outlets c)) js)
     in if ok then ws = p else strict_prefix ws p)"
  using assms(1,2)
proof (induction js arbitrary: st)
  case (Cons i js)
  obtain ok st1 where one: "turn_one op es order delays code name i st = Some (ok, st1)"
    and ch1: "oc_channels st1 = oc_channels st" and cmd1: "\<And>k. cmd k st1 = cmd k st"
    and good: "ok \<Longrightarrow> trace st1 = trace st @ plan_step (order c) (delays c) (\<lambda>n. cmd n st) (cs_outlets c) i"
    and bad: "\<not> ok \<Longrightarrow> \<exists>ws. trace st1 = trace st @ ws \<and>
       strict_prefix ws (plan_step (order c) (delays c) (\<lambda>n. cmd n st) (cs_outlets c) i)"
    using turn_one_step [where order = order and delays = delays and c = c and i = i and es = es and code = code
        and name = name and st = st] Cons.prems assms(3,4) by auto
  show ?case
  proof (cases ok)
    case False
    with bad obtain ws where ws: "trace st1 = trace st @ ws"
      "strict_prefix ws (plan_step (order c) (delays c) (\<lambda>n. cmd n st) (cs_outlets c) i)" by blast
    have "strict_prefix ws (concat (map (plan_step (order c) (delays c) (\<lambda>n. cmd n st) (cs_outlets c)) (i # js)))"
      using prefix_order.less_le_trans [OF ws(2)] by simp
    moreover have "turn_all op es order delays code name (i # js) st = Some (False, st1)"
      using False one by simp
    ultimately show ?thesis
      using ws(1) ch1 False unfolding Let_def by (metis (no_types, lifting))
  next
    case True
    have "channel name st1 = c"
      using Cons.prems(1) ch1 by (simp add: channel_def)
    from Cons.IH [OF this] Cons.prems(2) obtain ok' st' ws where
      rest: "turn_all op es order delays code name js st1 = Some (ok', st')"
      "oc_channels st' = oc_channels st1" "trace st' = trace st1 @ ws"
      and ws: "let p = concat (map (plan_step (order c) (delays c) (\<lambda>n. cmd n st) (cs_outlets c)) js)
       in if ok' then ws = p else strict_prefix ws p"
      by (auto simp: cmd1)
    let ?s = "plan_step (order c) (delays c) (\<lambda>n. cmd n st) (cs_outlets c) i"
    have "turn_all op es order delays code name (i # js) st = Some (ok', st')"
      using True one rest(1) by simp
    moreover have "oc_channels st' = oc_channels st" "trace st' = trace st @ ?s @ ws"
      using rest(2,3) good [OF True] ch1 by simp_all
    moreover have "let p = concat (map (plan_step (order c) (delays c) (\<lambda>n. cmd n st) (cs_outlets c)) (i # js))
       in if ok' then ?s @ ws = p else strict_prefix (?s @ ws) p"
      using ws by (cases ok') (simp_all add: Let_def strict_prefix_def)
    ultimately show ?thesis by blast
  qed
qed (auto simp: Let_def intro: exI [of _ True])

lemma trace_set_target: "trace (set_target name target st) = trace st"
  unfolding set_target_def Let_def case_prod_beta trace_sends by (rule trace_set_channel)

lemma cmd_set_target: "cmd n (set_target name target st) = cmd n st"
  unfolding set_target_def Let_def case_prod_beta cmd_emit by (rule cmd_set_channel)

end

definition too_soon :: "'e channel_env \<Rightarrow> channelSpec \<Rightarrow> 'm outletController_scheme \<Rightarrow> bool" where
  "too_soon E c st \<longleftrightarrow>
     oc_stateDelay st > 0 \<and> time_of (tc_now E) - time_of (cs_stateTime c) < oc_stateDelay st"

text \<open>The part of a specification that the sequencing reads.\<close>

definition same_wiring :: "channelSpec \<Rightarrow> channelSpec \<Rightarrow> bool" where
  "same_wiring c d \<longleftrightarrow>
     cs_outlets c = cs_outlets d \<and> cs_onOrder c = cs_onOrder d \<and> cs_offOrder c = cs_offOrder d \<and>
     cs_onDelays c = cs_onDelays d \<and> cs_offDelays c = cs_offDelays d \<and> cs_stateTime c = cs_stateTime d"

lemma touch_channel_eq: "touch_channel name st = set_channel name (channel name st) st"
  by (simp add: touch_channel_def set_channel_def)

lemma set_target_fields [simp]:
  "oc_outletStates (set_target name target st) = oc_outletStates st"
  "oc_stateDelay (set_target name target st) = oc_stateDelay st"
  "oc_firstOne (set_target name target st) = oc_firstOne st"
  "oc_driver (set_target name target st) = oc_driver st"
  "oc_ready (set_target name target st) = oc_ready st"
  by (simp_all add: set_target_def Let_def case_prod_beta)

lemma set_target_wiring: "same_wiring (channel name (set_target name target st)) (channel name st)"
  by (simp add: set_target_def Let_def case_prod_beta same_wiring_def)

lemma channelState_cong:
  "cs_outlets (channel name st) = cs_outlets (channel name st') \<Longrightarrow> oc_outletStates st = oc_outletStates st' \<Longrightarrow>
   channelState name st = channelState name st'"
  by (simp add: channelState_def split: list.split)

context outlet_driver
begin

lemma turn_channel_seq:
  assumes c: "channel name st = c" and spec: "spec_ok (length (oc_outletStates st)) c"
    and dir: "(order, delays) \<in> {(cs_onOrder, cs_onDelays), (cs_offOrder, cs_offDelays)}"
    and ord: "order_ok (order c) (cs_outlets c)"
  shows "\<exists>rv st' s. turn_channel op order delays code target E name st = Some (rv, st') \<and>
    channelState name st = Some s \<and>
    (if s = code \<or> too_soon E c st then rv = 0 \<and> trace st' = trace st
     else \<exists>ws. trace st' = trace st @ ws \<and>
       (let p = plan (order c) (delays c) (\<lambda>n. cmd n st) (cs_outlets c)
        in prefix ws p \<and> (rv = 0 \<longrightarrow> ws = p) \<and> (ws \<noteq> p \<longrightarrow> rv = - 1)))"
proof -
  define st0 where "st0 = set_target name target (touch_channel name st)"
  define d where "d = channel name st0"
  have wir: "same_wiring d c"
    using set_target_wiring [of name target "touch_channel name st"] c by (simp add: d_def st0_def touch_channel_eq)
  have tr: "trace st0 = trace st" "\<And>n. cmd n st0 = cmd n st"
    by (simp_all add: st0_def trace_set_target cmd_set_target touch_channel_eq trace_set_channel cmd_set_channel)
  have same: "order d = order c" "delays d = delays c" "cs_outlets d = cs_outlets c" "cs_stateTime d = cs_stateTime c"
    using wir dir by (auto simp: same_wiring_def)
  have fld: "oc_outletStates st0 = oc_outletStates st" "oc_stateDelay st0 = oc_stateDelay st"
    by (simp_all add: st0_def touch_channel_eq)
  obtain s where s: "channelState name st = Some s"
    using channelState_eq [of name st] spec c by (auto simp: spec_ok_def)
  have s0: "channelState name st0 = Some s"
    using channelState_cong [of name st0 st] s fld(1) same(3) c by (simp add: d_def)
  have soon: "too_soon E c st \<longleftrightarrow> oc_stateDelay st0 > 0 \<and> time_of (tc_now E) - time_of (cs_stateTime (channel name st0)) < oc_stateDelay st0"
    using same(4) by (simp add: too_soon_def fld d_def)
  show ?thesis
  proof (cases "s = code \<or> too_soon E c st")
    case True
    then have "turn_channel op order delays code target E name st = Some (0, st0)"
      unfolding turn_channel_def st0_def [symmetric] Let_def using s0 soon by auto
    with True s tr show ?thesis by auto
  next
    case False
    have "delays d = [] \<or> length (delays d) = length (cs_outlets d)" "order_ok (order d) (cs_outlets d)"
      using spec dir same ord by (auto simp: spec_ok_def fits_def)
    then have "\<exists>ok st' ws. turn_all op (tc_calls E) order delays code name [0 ..< length (cs_outlets d)] st0 = Some (ok, st') \<and>
      oc_channels st' = oc_channels st0 \<and> trace st' = trace st0 @ ws \<and>
      (let p = concat (map (plan_step (order d) (delays d) (\<lambda>n. cmd n st0) (cs_outlets d)) [0 ..< length (cs_outlets d)])
       in if ok then ws = p else strict_prefix ws p)"
      by (intro turn_all_steps) (simp_all add: d_def)
    then obtain ok st1 ws where all: "turn_all op (tc_calls E) order delays code name [0 ..< length (cs_outlets d)] st0 = Some (ok, st1)"
      and t1: "trace st1 = trace st @ ws"
      and ws: "let p = plan (order c) (delays c) (\<lambda>n. cmd n st) (cs_outlets c) in if ok then ws = p else strict_prefix ws p"
      unfolding same tr plan_def by blast
    show ?thesis
    proof (cases ok)
      case bad: False
      then have "turn_channel op order delays code target E name st = Some (- 1, st1)"
        unfolding turn_channel_def st0_def [symmetric] Let_def using s0 soon False all d_def by auto
      with bad False s t1 tr ws show ?thesis
        by (auto simp: Let_def strict_prefix_def)
    next
      case True
      define st2 where "st2 = emit [LogChannelState name code] st1"
      have t2: "trace st2 = trace st1"
        using trace_emit [of "LogChannelState name code" st1] by (simp add: st2_def)
      obtain rv st3 where run: "turn_channel op order delays code target E name st = Some (rv, st3)"
        and t3: "trace st3 = trace st2"
      proof (cases "tc_end E")
        case None
        then have "turn_channel op order delays code target E name st = Some (- 1, emit [LogSoftwareError] st2)"
          unfolding turn_channel_def st0_def [symmetric] Let_def using s0 soon False all True d_def by (auto simp: st2_def)
        then show thesis
          using that trace_emit [of LogSoftwareError st2] by auto
      next
        case (Some t)
        define st3 where "st3 = set_channel name ((channel name st2)\<lparr>cs_stateTime := t\<rparr>) st2"
        obtain p sent where ps: "updateIfChanged (oc_driver st3) name (fmt0 1 (tv_sec t)) Idle (oc_stateTimes st3) = (p, sent)"
          by (cases "updateIfChanged (oc_driver st3) name (fmt0 1 (tv_sec t)) Idle (oc_stateTimes st3)")
        have "turn_channel op order delays code target E name st =
            Some (0, emit (map SendSetProperty sent) (st3\<lparr>oc_stateTimes := p\<rparr>))"
          unfolding turn_channel_def st0_def [symmetric] Let_def
          using s0 soon False all True Some ps [unfolded st3_def st2_def] d_def by (auto simp: st3_def st2_def)
        then show thesis
          using that trace_sends trace_stateTimes trace_set_channel by (auto simp: st3_def)
      qed
      show ?thesis
        using run False s t1 t2 t3 tr ws True by (auto simp: Let_def)
    qed
  qed
qed

end

text \<open>
  \<open>loadConfig\<close> checks the length of an order but not its entries; following an entry past the
  outlets of the channel reads outside the vector.
\<close>

lemma turn_one_bad_order:
  assumes "channel name st = c" "i < length (cs_outlets c)" "length (order c) = length (cs_outlets c)"
    and "order c ! i \<ge> length (cs_outlets c)"
  shows "turn_one op es order delays code name i st = None"
  using assms by (simp add: turn_one_def vec_at_def Let_def)

lemma config_order_unchecked:
  "config_vector (example_cfg\<lparr>cfg_numbers := \<lambda>_ _. [7, 9]\<rparr>) ''sue'' ''onOrder'' 2 [] = Some [7, 9]"
  by (simp add: config_vector_def example_cfg_def)

end
