(* ===== verification/VirtualPDU.thy ===== *)
theory VirtualPDU
  imports Outlets "HOL-Library.Multiset"
begin

text \<open>
  The virtual power distribution unit (\<open>apps/virtualPDU/virtualPDU.hpp\<close>): outlets that stand
  for channels of other power controllers. Commands are INDI messages to the remote channel;
  the observed state of an outlet comes only from messages the remote device sends.

  The record of the application extends the record of the outlet controller it derives from.
  Times of the monotonic clock are integers in nanoseconds, intervals in seconds are real. The
  handlers take the clock readings they make and the results of calls into the framework
  (registration, telemetry, sending) as arguments. \<open>m_indiMutex\<close> makes each handler atomic,
  which is how the step relation composes them. Telemetry configuration and the telemeter
  thread are outside the model.
\<close>

section \<open>State\<close>

record endpoint =
  ep_device :: string
  ep_channel :: string
  ep_source :: nat
  ep_state :: int
  ep_haveState :: bool
  ep_received :: int

definition endpoint_new :: endpoint where
  "endpoint_new = \<lparr>ep_device = [], ep_channel = [], ep_source = 0, ep_state = OUTLET_STATE_UNKNOWN,
     ep_haveState = False, ep_received = 0\<rparr>"

record source =
  src_device :: string \<comment> \<open>the device of its \<open>fsm\<close> property\<close>
  src_ready :: bool
  src_received :: int

record virtualPDU = outletController +
  vp_configName :: string
  vp_pollInterval :: real
  vp_staleTimeout :: real
  vp_endpoints :: "endpoint list"
  vp_sources :: "source list"
  vp_lastPoll :: int

section \<open>Configuration\<close>

text \<open>\<open>std::from_chars\<close> on a \<open>size_t\<close>: the value and the rest of the text.\<close>

definition from_chars :: "string \<Rightarrow> (nat \<times> string) option" where
  "from_chars s =
     (let ds = takeWhile char_isdigit s; v = digits_val 0 ds
      in if ds = [] \<or> v \<ge> 2 ^ 64 then None else Some (v, dropWhile char_isdigit s))"

definition to_string :: "nat \<Rightarrow> string" where
  "to_string n = fmt0 1 (int n)"

text \<open>One \<open>[outletN]\<close> section; \<open>identities\<close> has the remote channels already used.\<close>

definition parse_mapping ::
  "configurator \<Rightarrow> string \<Rightarrow> string \<Rightarrow> (string \<times> string) list \<Rightarrow> (nat \<times> endpoint) option" where
  "parse_mapping cfg configName section identities =
     (case from_chars (drop 6 section) of
        None \<Rightarrow> None
      | Some (number, rest) \<Rightarrow>
          if rest \<noteq> [] \<or> number = 0 \<or> section \<noteq> ''outlet'' @ to_string number then None
          else
            let m = endpoint_new\<lparr>ep_device := cfg_word cfg section ''device'',
                                 ep_channel := cfg_word cfg section ''channel''\<rparr>
            in if ep_device m = [] then None
               else if ep_channel m = [] then None
               else if ep_device m = configName then None
               else if ep_channel m = ''fsm'' then None
               else if (ep_device m, ep_channel m) \<in> set identities then None
               else Some (number, m))"

fun parse_mappings ::
  "configurator \<Rightarrow> string \<Rightarrow> string list \<Rightarrow> (string \<times> string) list \<Rightarrow> (nat, endpoint) std_map \<Rightarrow>
   (nat, endpoint) std_map option" where
  "parse_mappings cfg configName [] ids m = Some m"
| "parse_mappings cfg configName (sec # secs) ids m =
     (if take 6 sec \<noteq> ''outlet'' then parse_mappings cfg configName secs ids m
      else case parse_mapping cfg configName sec ids of
        None \<Rightarrow> None
      | Some (number, e) \<Rightarrow>
          parse_mappings cfg configName secs ((ep_device e, ep_channel e) # ids) (snd (map_emplace number e m)))"

definition blank :: "char \<Rightarrow> bool" where
  "blank c \<longleftrightarrow> c = CHR '' '' \<or> c = CHR 0x09"

text \<open>One value of a numeric key, with the blanks around it removed.\<close>

definition number_ok :: "nat \<Rightarrow> string \<Rightarrow> string \<Rightarrow> bool" where
  "number_ok n keyword val =
     (let v = rev (dropWhile blank (rev (dropWhile blank val)))
      in v \<noteq> [] \<and>
         (case from_chars v of
            None \<Rightarrow> False
          | Some (number, rest) \<Rightarrow>
              rest = [] \<and>
              \<not> (keyword \<in> {''outlet'', ''outlets''} \<and> (number = 0 \<or> number > n)) \<and>
              \<not> (keyword \<in> {''onDelays'', ''offDelays''} \<and> number > 4294967295)))"

definition numbers_ok :: "configurator \<Rightarrow> nat \<Rightarrow> bool" where
  "numbers_ok cfg n \<longleftrightarrow>
     list_all (\<lambda>sec. list_all (\<lambda>key. cfg_isSetUnused cfg sec key \<longrightarrow> list_all (number_ok n key) (cfg_words cfg sec key))
       [''outlet'', ''outlets'', ''onOrder'', ''offOrder'', ''onDelays'', ''offDelays'']) (cfg_unusedSections cfg)"

definition reserved_names :: "string list" where
  "reserved_names =
     [''outlet'', ''stateTimes'', ''channelOutlets'', ''channelOnDelays'', ''channelOffDelays'', ''fsm'',
      ''telem_rotate'', ''telem_maxtime'', ''fsm_clear_alert'', ''logs_rotate'', ''logs_maxtime'']"

text \<open>The outlets of one channel are entered into \<open>assigned\<close>; one that is there already is an error.\<close>

fun assign_outlets :: "nat list \<Rightarrow> nat list \<Rightarrow> nat list option" where
  "assign_outlets assigned [] = Some assigned"
| "assign_outlets assigned (n # ns) =
     (if n \<in> set assigned then None else assign_outlets (n # assigned) ns)"

text \<open>A set of the indices has as many members as there are outlets and the largest is in range.\<close>

definition permutation_ok :: "nat list \<Rightarrow> channelSpec \<Rightarrow> bool" where
  "permutation_ok order c \<longleftrightarrow>
     order = [] \<or>
     length (remdups order) = length (cs_outlets c) \<and> foldr max order 0 < length (cs_outlets c)"

fun channels_ok :: "nat list \<Rightarrow> (string \<times> channelSpec) list \<Rightarrow> bool" where
  "channels_ok assigned [] = True"
| "channels_ok assigned ((name, c) # cs) =
     (if name \<in> set reserved_names then False
      else case assign_outlets assigned (cs_outlets c) of
        None \<Rightarrow> False
      | Some assigned \<Rightarrow>
          permutation_ok (cs_onOrder c) c \<and> permutation_ok (cs_offOrder c) c \<and> channels_ok assigned cs)"

definition config_error :: "virtualPDU \<Rightarrow> int \<times> virtualPDU" where
  "config_error st = (- 1, emit [LogConfigError] st)"

text \<open>\<open>poll\<close> and \<open>stale\<close> are the values of the two options, when they are set.\<close>

definition loadConfigImpl ::
  "configurator \<Rightarrow> real option \<Rightarrow> real option \<Rightarrow> virtualPDU \<Rightarrow> int \<times> virtualPDU" where
  "loadConfigImpl cfg poll stale st =
     (let st = st\<lparr>vp_pollInterval := (case poll of None \<Rightarrow> vp_pollInterval st | Some p \<Rightarrow> p),
                  vp_staleTimeout := (case stale of None \<Rightarrow> vp_staleTimeout st | Some s \<Rightarrow> s)\<rparr>
      in if \<not> vp_pollInterval st > 0 then config_error st
      else if \<not> vp_staleTimeout st > vp_pollInterval st then config_error st
      else case parse_mappings cfg (vp_configName st) (cfg_unusedSections cfg) [] [] of
        None \<Rightarrow> config_error st
      | Some m \<Rightarrow>
          if m = [] then config_error st
          else if fst (last m) \<noteq> length m then config_error st
          else
            let st = st\<lparr>vp_endpoints := vp_endpoints st @ map snd m\<rparr>
            in if \<not> numbers_ok cfg (length (vp_endpoints st)) then config_error st
            else
              case outlet_loadConfig cfg (snd (setNumberOfOutlets (length (vp_endpoints st)) st)) of
                (rv, st) \<Rightarrow>
                  if rv < 0 then (- 1, st)
                  else if \<not> channels_ok [] (oc_channels st) then config_error st
                  else (0, st))"

section \<open>Start-up\<close>

text \<open>The sources in the order of their first endpoint.\<close>

fun find_source :: "string \<Rightarrow> source list \<Rightarrow> nat option" where
  "find_source dev [] = None"
| "find_source dev (s # ss) = (if src_device s = dev then Some 0 else map_option Suc (find_source dev ss))"

fun make_sources :: "endpoint list \<Rightarrow> source list \<Rightarrow> endpoint list \<times> source list" where
  "make_sources [] ss = ([], ss)"
| "make_sources (e # es) ss =
     (case find_source (ep_device e) ss of
        Some i \<Rightarrow> let (es, ss) = make_sources es ss in (e\<lparr>ep_source := i\<rparr> # es, ss)
      | None \<Rightarrow>
          let (es, ss') = make_sources es (ss @ [\<lparr>src_device = ep_device e, src_ready = False, src_received = 0\<rparr>])
          in (e\<lparr>ep_source := length ss\<rparr> # es, ss'))"

text \<open>\<open>reg\<close> registers the controller's properties, \<open>reg_set\<close> subscribes to device and property.\<close>

definition vp_appStartup ::
  "(string \<Rightarrow> int) \<Rightarrow> (string \<Rightarrow> string \<Rightarrow> int) \<Rightarrow> virtualPDU \<Rightarrow> (int \<times> virtualPDU) option" where
  "vp_appStartup reg reg_set st =
     do { (rv, st) \<leftarrow> outlet_appStartup (vp_configName st) reg st;
          if rv < 0 then Some (- 1, st)
          else
            let (es, ss) = make_sources (vp_endpoints st) []; st = st\<lparr>vp_endpoints := es, vp_sources := vp_sources st @ ss\<rparr>
            in if list_ex (\<lambda>s. reg_set (src_device s) ''fsm'' < 0) (vp_sources st) then Some (- 1, st)
               else if list_ex (\<lambda>e. reg_set (ep_device e) (ep_channel e) < 0) es then Some (- 1, st)
               else Some (0, st\<lparr>oc_ready := True\<rparr>) }"

section \<open>Observation\<close>

definition seconds :: "int \<Rightarrow> real" where
  "seconds ns = real_of_int ns / 1000000000"

definition available :: "int \<Rightarrow> nat \<Rightarrow> virtualPDU \<Rightarrow> bool option" where
  "available now i st =
     do { m \<leftarrow> vec_at (vp_endpoints st) i;
          if ep_source m \<ge> length (vp_sources st) then Some False
          else
            let device = vp_sources st ! ep_source m
            in Some (ep_haveState m \<and> src_ready device \<and>
                     seconds (now - ep_received m) < vp_staleTimeout st \<and>
                     seconds (now - src_received device) < vp_staleTimeout st) }"

definition vp_updateOutletState :: "int \<Rightarrow> nat \<Rightarrow> virtualPDU \<Rightarrow> (int \<times> virtualPDU) option" where
  "vp_updateOutletState now n st =
     (if n \<ge> length (vp_endpoints st) then Some (- 1, st)
      else
        do { a \<leftarrow> available now n st;
             st \<leftarrow> setOutletState n (if a then ep_state (vp_endpoints st ! n) else OUTLET_STATE_UNKNOWN) st;
             Some (0, st) })"

section \<open>Commands\<close>

text \<open>The environment of a command: the clock, and the result of \<open>sendNewProperty\<close>.\<close>

record send_env =
  se_now :: int
  se_send :: int

definition command :: "string \<Rightarrow> endpoint \<Rightarrow> IndiProperty" where
  "command target m =
     property_set (IndiElement_new ''target'' target) (IndiProperty_new Text (ep_device m) (ep_channel m))"

definition sendOutlet :: "string \<Rightarrow> send_env \<Rightarrow> nat \<Rightarrow> virtualPDU \<Rightarrow> int \<times> virtualPDU" where
  "sendOutlet target e n st =
     (if \<not> oc_ready st \<or> n \<ge> length (vp_endpoints st) \<or> available (se_now e) n st \<noteq> Some True
      then (- 1, emit [LogSoftwareError] st)
      else if se_send e < 0 then (se_send e, st)
      else (se_send e, emit [SendNewProperty (command target (vp_endpoints st ! n))] st))"

definition vp_turnOutletOn :: "send_env \<Rightarrow> nat \<Rightarrow> virtualPDU \<Rightarrow> int \<times> virtualPDU" where
  "vp_turnOutletOn = sendOutlet ''On''"

definition vp_turnOutletOff :: "send_env \<Rightarrow> nat \<Rightarrow> virtualPDU \<Rightarrow> int \<times> virtualPDU" where
  "vp_turnOutletOff = sendOutlet ''Off''"

definition pdu :: "(virtualPDU, send_env) outletDriver" where
  "pdu = \<lparr>turnOutletOn = vp_turnOutletOn, turnOutletOff = vp_turnOutletOff,
          updateOutletState = (\<lambda>e. vp_updateOutletState (se_now e))\<rparr>"

text \<open>The check of all outlets of a channel before anything is sent; \<open>nows\<close> are its clock readings.\<close>

fun all_available :: "(nat \<Rightarrow> int) \<Rightarrow> nat list \<Rightarrow> virtualPDU \<Rightarrow> bool option" where
  "all_available nows [] st = Some True"
| "all_available nows (n # ns) st =
     do { a \<leftarrow> available (nows 0) n st; if a then all_available (nows \<circ> Suc) ns st else Some False }"

definition vp_newCallBack_channels ::
  "(string \<Rightarrow> string) \<Rightarrow> (nat \<Rightarrow> int) \<Rightarrow> send_env channel_env \<Rightarrow> IndiProperty \<Rightarrow> virtualPDU \<Rightarrow>
   (int \<times> virtualPDU) option" where
  "vp_newCallBack_channels toUpper nows E ipRecv st =
     (if \<not> oc_ready st then Some (- 1, st)
      else case map_of (oc_channels st) (ip_name ipRecv) of
        None \<Rightarrow> Some (- 1, st)
      | Some c \<Rightarrow>
          if ip_device ipRecv \<noteq> vp_configName st \<or> ip_type ipRecv \<noteq> Text then Some (- 1, st)
          else
            do { a \<leftarrow> all_available nows (cs_outlets c) st;
                 if a then newCallBack_channels toUpper pdu E ipRecv st
                 else Some (- 1, emit [LogSoftwareError] st) })"

section \<open>Messages from the sources\<close>

text \<open>The endpoints of a source that reported its state machine.\<close>

fun fsm_endpoints :: "(nat \<Rightarrow> int) \<Rightarrow> bool \<Rightarrow> nat \<Rightarrow> nat list \<Rightarrow> virtualPDU \<Rightarrow> virtualPDU option" where
  "fsm_endpoints nows ready i [] st = Some st"
| "fsm_endpoints nows ready i (n # ns) st =
     do { m \<leftarrow> vec_at (vp_endpoints st) n;
          if ep_source m \<noteq> i then fsm_endpoints nows ready i ns st
          else
            do { let st = (if ready then st
                           else st\<lparr>vp_endpoints := (vp_endpoints st)[n := m\<lparr>ep_haveState := False\<rparr>]\<rparr>);
                 (_, st) \<leftarrow> vp_updateOutletState (nows n) n st;
                 fsm_endpoints nows ready i ns st } }"

fun find_endpoint :: "string \<Rightarrow> string \<Rightarrow> endpoint list \<Rightarrow> nat option" where
  "find_endpoint dev ch [] = None"
| "find_endpoint dev ch (e # es) =
     (if ep_device e = dev \<and> ep_channel e = ch then Some 0 else map_option Suc (find_endpoint dev ch es))"

definition state_of_word :: "string \<Rightarrow> int" where
  "state_of_word v =
     (if v = ''On'' then OUTLET_STATE_ON else if v = ''Off'' then OUTLET_STATE_OFF
      else if v = ''Int'' then OUTLET_STATE_INTERMEDIATE else OUTLET_STATE_UNKNOWN)"

text \<open>\<open>telem_rv\<close> is the result of recording telemetry, \<open>now\<close> the first clock reading.\<close>

definition fsm_callback ::
  "int \<Rightarrow> (nat \<Rightarrow> int) \<Rightarrow> int \<Rightarrow> IndiProperty \<Rightarrow> virtualPDU \<Rightarrow> (int \<times> virtualPDU) option" where
  "fsm_callback now nows telem_rv ipRecv st =
     (case find_source (ip_device ipRecv) (vp_sources st) of
        None \<Rightarrow> Some (- 1, st)
      | Some i \<Rightarrow>
          let malformed = (ip_type ipRecv \<noteq> Text)
          in if \<not> malformed \<and> \<not> property_find ''state'' ipRecv then Some (- 1, st)
          else
            let s = vp_sources st ! i;
                ready = (\<not> malformed \<and> (case property_at ''state'' ipRecv of Inr e \<Rightarrow> get_word e = ''READY'' | Inl _ \<Rightarrow> False));
                s = s\<lparr>src_ready := ready, src_received := (if malformed then src_received s else now)\<rparr>;
                st = st\<lparr>vp_sources := (vp_sources st)[i := s]\<rparr>
            in do { st \<leftarrow> fsm_endpoints nows ready i [0 ..< length (vp_endpoints st)] st;
                    (_, st) \<leftarrow> updateINDI st;
                    let (rv, st) = recordOutletStates False telem_rv st;
                    Some (if malformed then - 1 else rv, st) })"

definition channel_callback ::
  "int \<Rightarrow> (nat \<Rightarrow> int) \<Rightarrow> int \<Rightarrow> IndiProperty \<Rightarrow> virtualPDU \<Rightarrow> (int \<times> virtualPDU) option" where
  "channel_callback now nows telem_rv ipRecv st =
     (case find_endpoint (ip_device ipRecv) (ip_name ipRecv) (vp_endpoints st) of
        None \<Rightarrow> Some (- 1, st)
      | Some i \<Rightarrow>
          let text = (ip_type ipRecv = Text)
          in if text \<and> \<not> property_find ''state'' ipRecv then Some (0, st)
          else
            let val = (if text then case property_at ''state'' ipRecv of Inr e \<Rightarrow> get_word e | Inl _ \<Rightarrow> [] else []);
                s = (if text then state_of_word val else OUTLET_STATE_UNKNOWN);
                m = (vp_endpoints st ! i)\<lparr>ep_state := s,
                       ep_haveState := text \<and> (s \<noteq> OUTLET_STATE_UNKNOWN \<or> val = ''Unk''), ep_received := now\<rparr>;
                st = st\<lparr>vp_endpoints := (vp_endpoints st)[i := m]\<rparr>
            in do { (_, st) \<leftarrow> vp_updateOutletState (nows i) i st;
                    (_, st) \<leftarrow> updateINDI st;
                    Some (recordOutletStates False telem_rv st) })"

definition setCallBack_source ::
  "int \<Rightarrow> (nat \<Rightarrow> int) \<Rightarrow> int \<Rightarrow> IndiProperty \<Rightarrow> virtualPDU \<Rightarrow> (int \<times> virtualPDU) option" where
  "setCallBack_source now nows telem_rv ipRecv st =
     (if ip_name ipRecv = ''fsm'' then fsm_callback now nows telem_rv ipRecv st
      else channel_callback now nows telem_rv ipRecv st)"

section \<open>The main loop\<close>

text \<open>\<open>locked\<close>: whether \<open>try_to_lock\<close> got the mutex. Refreshing the subscriptions sends requests only.\<close>

definition vp_appLogic ::
  "bool \<Rightarrow> int \<Rightarrow> (nat \<Rightarrow> send_env) \<Rightarrow> int \<Rightarrow> virtualPDU \<Rightarrow> (int \<times> virtualPDU) option" where
  "vp_appLogic locked now es telem_rv st =
     (if \<not> locked then Some (0, st)
      else
        let st = (if oc_driver st \<and> seconds (now - vp_lastPoll st) \<ge> vp_pollInterval st
                  then st\<lparr>vp_lastPoll := now\<rparr> else st)
        in do { (rv, st) \<leftarrow> updateOutletStates pdu es st;
                if rv < 0 then Some (- 1, st)
                else
                  do { (_, st) \<leftarrow> updateINDI st;
                       let (rv, st) = recordOutletStates False telem_rv st;
                       if rv < 0 then Some (- 1, st) else Some (0, st) } })"

section \<open>The sequence of a request\<close>

fun event_steps :: "oc_event \<Rightarrow> IndiProperty seq_step list" where
  "event_steps (MilliSleep d) = [Wait d]"
| "event_steps (SendNewProperty p) = [Cmd p]"
| "event_steps _ = []"

definition pdu_trace :: "virtualPDU \<Rightarrow> IndiProperty seq_step list" where
  "pdu_trace st = concat (map event_steps (oc_events st))"

definition outlet_command :: "string \<Rightarrow> nat \<Rightarrow> virtualPDU \<Rightarrow> IndiProperty" where
  "outlet_command target n st = command target (vp_endpoints st ! n)"

lemma event_steps_waits: "controller_event ev \<Longrightarrow> event_steps ev = event_waits ev"
  by (cases ev) auto

lemma vp_fields_emit [simp]:
  "vp_endpoints (emit evs st) = vp_endpoints st" "vp_sources (emit evs st) = vp_sources st"
  "vp_staleTimeout (emit evs st) = vp_staleTimeout st" "vp_configName (emit evs st) = vp_configName st"
  by (simp_all add: emit_def)

lemma vp_fields_set_channel [simp]:
  "vp_endpoints (set_channel name c st) = vp_endpoints st" "vp_sources (set_channel name c st) = vp_sources st"
  "vp_staleTimeout (set_channel name c st) = vp_staleTimeout st" "vp_configName (set_channel name c st) = vp_configName st"
  by (simp_all add: set_channel_def)

lemma pdu_driver: "outlet_driver (sendOutlet target) (outlet_command target) pdu_trace"
proof
  fix e n rv k ev name c p and st st' :: virtualPDU and evs
  show "sendOutlet target e n st = (rv, st') \<Longrightarrow> oc_channels st' = oc_channels st"
    by (auto simp: sendOutlet_def split: if_splits)
  show "sendOutlet target e n st = (rv, st') \<Longrightarrow> outlet_command target k st' = outlet_command target k st"
    by (auto simp: sendOutlet_def outlet_command_def split: if_splits)
  show "sendOutlet target e n st = (rv, st') \<Longrightarrow> 0 \<le> rv \<Longrightarrow>
      pdu_trace st' = pdu_trace st @ [Cmd (outlet_command target n st)]"
    by (auto simp: sendOutlet_def outlet_command_def pdu_trace_def split: if_splits)
  show "sendOutlet target e n st = (rv, st') \<Longrightarrow> rv < 0 \<Longrightarrow> pdu_trace st' = pdu_trace st"
    by (auto simp: sendOutlet_def pdu_trace_def split: if_splits)
  show "controller_event ev \<Longrightarrow> pdu_trace (emit [ev] st) = pdu_trace st @ event_waits ev"
    by (simp add: pdu_trace_def event_steps_waits)
  show "pdu_trace (set_channel name c st) = pdu_trace st"
    by (simp add: pdu_trace_def)
  show "pdu_trace (st\<lparr>oc_stateTimes := p\<rparr>) = pdu_trace st"
    by (simp add: pdu_trace_def)
  show "outlet_command target n (emit evs st) = outlet_command target n st"
    by (simp add: outlet_command_def)
  show "outlet_command target n (set_channel name c st) = outlet_command target n st"
    by (simp add: outlet_command_def)
qed

interpretation pdu_on: outlet_driver vp_turnOutletOn "outlet_command ''On''" pdu_trace
  unfolding vp_turnOutletOn_def by (rule pdu_driver)

interpretation pdu_off: outlet_driver vp_turnOutletOff "outlet_command ''Off''" pdu_trace
  unfolding vp_turnOutletOff_def by (rule pdu_driver)

text \<open>An order that visits every outlet once, and what the configuration guarantees of the application.\<close>

definition order_perm :: "nat list \<Rightarrow> nat list \<Rightarrow> bool" where
  "order_perm order outlets \<longleftrightarrow> order = [] \<or> mset order = mset [0 ..< length outlets]"

definition pdu_spec_ok :: "nat \<Rightarrow> channelSpec \<Rightarrow> bool" where
  "pdu_spec_ok n c \<longleftrightarrow>
     spec_ok n c \<and> order_perm (cs_onOrder c) (cs_outlets c) \<and> order_perm (cs_offOrder c) (cs_outlets c)"

definition pdu_wf :: "virtualPDU \<Rightarrow> bool" where
  "pdu_wf st \<longleftrightarrow>
     length (oc_outletStates st) = length (vp_endpoints st) \<and>
     (\<forall>(name, c) \<in> set (oc_channels st). pdu_spec_ok (length (vp_endpoints st)) c)"

lemma order_perm_ok: "order_perm order outlets \<Longrightarrow> order_ok order outlets"
  unfolding order_perm_def order_ok_def
  by (metis atLeastLessThan_iff length_map mset_eq_length mset_eq_setD set_upt length_upt diff_zero)

fun commands_of :: "'c seq_step list \<Rightarrow> 'c list" where
  "commands_of [] = []"
| "commands_of (Cmd c # ss) = c # commands_of ss"
| "commands_of (Wait d # ss) = commands_of ss"

lemma commands_of_append [simp]: "commands_of (xs @ ys) = commands_of xs @ commands_of ys"
  by (induction xs rule: commands_of.induct) auto

lemma commands_of_plan:
  "commands_of (plan order delays f outlets) = map (\<lambda>i. f (outlets ! position order outlets i)) [0 ..< length outlets]"
proof -
  have "commands_of (concat (map (plan_step order delays f outlets) js)) =
      map (\<lambda>i. f (outlets ! position order outlets i)) js" for js
    by (induction js) (auto simp: plan_step_def)
  then show ?thesis
    by (simp add: plan_def)
qed

lemma mset_commands_of_plan:
  assumes "order_perm order outlets"
  shows "mset (commands_of (plan order delays f outlets)) = mset (map f outlets)"
proof (cases "length order = length outlets \<and> order \<noteq> []")
  case True
  then have m: "mset order = mset [0 ..< length outlets]"
    using assms by (auto simp: order_perm_def)
  have "commands_of (plan order delays f outlets) = map (\<lambda>i. f (outlets ! i)) order"
    unfolding commands_of_plan by (rule nth_equalityI) (use True in \<open>auto simp: position_def\<close>)
  also have "mset \<dots> = image_mset (\<lambda>i. f (outlets ! i)) (mset [0 ..< length outlets])"
    using m by simp
  also have "\<dots> = mset (map f (map (\<lambda>i. outlets ! i) [0 ..< length outlets]))"
    by (simp add: multiset.map_comp comp_def)
  finally show ?thesis
    by (simp only: map_nth)
next
  case False
  then have "position order outlets i = i" if "i < length outlets" for i
    using that assms by (auto simp: position_def order_perm_def)
  then have "commands_of (plan order delays f outlets) = map f (map (\<lambda>i. outlets ! i) [0 ..< length outlets])"
    by (simp add: commands_of_plan)
  then show ?thesis by (simp only: map_nth)
qed

lemma pdu_wf_channel:
  assumes "pdu_wf st" "map_of (oc_channels st) name = Some c"
  shows "channel name st = c" "pdu_spec_ok (length (vp_endpoints st)) c"
  using assms by (auto simp: channel_def pdu_wf_def dest!: map_of_SomeD)

lemma available_defined: "i < length (vp_endpoints st) \<Longrightarrow> \<exists>a. available now i st = Some a"
  by (auto simp: available_def Let_def)

lemma all_available_spec:
  "\<forall>n \<in> set ns. n < length (vp_endpoints st) \<Longrightarrow>
     all_available nows ns st = Some (\<forall>i < length ns. available (nows i) (ns ! i) st = Some True)"
proof (induction ns arbitrary: nows)
  case (Cons n ns)
  obtain a where a: "available (nows 0) n st = Some a"
    using available_defined [of n st] Cons.prems by auto
  have "(\<forall>i < length (n # ns). available (nows i) ((n # ns) ! i) st = Some True) \<longleftrightarrow>
      a \<and> (\<forall>i < length ns. available (nows (Suc i)) (ns ! i) st = Some True)"
    unfolding length_Cons All_less_Suc2 using a by auto
  with Cons a show ?case
    by (cases a) auto
qed simp

text \<open>The conditions under which a request is passed on to the sequencing.\<close>

definition request_accepted :: "(nat \<Rightarrow> int) \<Rightarrow> IndiProperty \<Rightarrow> channelSpec \<Rightarrow> virtualPDU \<Rightarrow> bool" where
  "request_accepted nows ip c st \<longleftrightarrow>
     oc_ready st \<and> ip_device ip = vp_configName st \<and> ip_type ip = Text \<and>
     (\<forall>i < length (cs_outlets c). available (nows i) (cs_outlets c ! i) st = Some True)"

text \<open>The sequence a target calls for.\<close>

definition target_plan :: "string \<Rightarrow> channelSpec \<Rightarrow> virtualPDU \<Rightarrow> IndiProperty seq_step list" where
  "target_plan target c st =
     (if target = ''ON'' then plan (cs_onOrder c) (cs_onDelays c) (\<lambda>n. outlet_command ''On'' n st) (cs_outlets c)
      else if target = ''OFF'' then plan (cs_offOrder c) (cs_offDelays c) (\<lambda>n. outlet_command ''Off'' n st) (cs_outlets c)
      else [])"

definition target_state :: "string \<Rightarrow> int" where
  "target_state target = (if target = ''ON'' then OUTLET_STATE_ON else OUTLET_STATE_OFF)"

lemma turn_target:
  assumes wf: "pdu_wf st" and c: "map_of (oc_channels st) name = Some c" and t: "target \<in> {''ON'', ''OFF''}"
  shows "\<exists>rv st' s. (if target = ''ON'' then turnChannelOn pdu E name st else turnChannelOff pdu E name st) = Some (rv, st') \<and>
    channelState name st = Some s \<and>
    (if s = target_state target \<or> too_soon E c st then rv = 0 \<and> pdu_trace st' = pdu_trace st
     else \<exists>ws. pdu_trace st' = pdu_trace st @ ws \<and> prefix ws (target_plan target c st) \<and>
       (rv = 0 \<longrightarrow> ws = target_plan target c st) \<and> (ws \<noteq> target_plan target c st \<longrightarrow> rv = - 1))"
proof -
  have ch: "channel name st = c" and spec: "spec_ok (length (oc_outletStates st)) c"
    and on: "order_ok (cs_onOrder c) (cs_outlets c)" and off: "order_ok (cs_offOrder c) (cs_outlets c)"
    using pdu_wf_channel [OF wf c] wf by (auto simp: pdu_spec_ok_def pdu_wf_def intro: order_perm_ok)
  show ?thesis
  proof (cases "target = ''ON''")
    case True
    have "(cs_onOrder, cs_onDelays) \<in> {(cs_onOrder, cs_onDelays), (cs_offOrder, cs_offDelays)}" by simp
    note seq = pdu_on.turn_channel_seq [OF ch spec this on, of OUTLET_STATE_ON "''On''" E]
    have "(if target = ''ON'' then turnChannelOn pdu E name st else turnChannelOff pdu E name st) =
        turn_channel vp_turnOutletOn cs_onOrder cs_onDelays OUTLET_STATE_ON ''On'' E name st"
      and "target_plan target c st = plan (cs_onOrder c) (cs_onDelays c) (\<lambda>n. outlet_command ''On'' n st) (cs_outlets c)"
      and "target_state target = OUTLET_STATE_ON"
      using True by (simp_all add: turnChannelOn_def pdu_def target_plan_def target_state_def)
    with seq show ?thesis
      by (simp only: Let_def)
  next
    case False
    have "(cs_offOrder, cs_offDelays) \<in> {(cs_onOrder, cs_onDelays), (cs_offOrder, cs_offDelays)}" by simp
    note seq = pdu_off.turn_channel_seq [OF ch spec this off, of OUTLET_STATE_OFF "''Off''" E]
    have "(if target = ''ON'' then turnChannelOn pdu E name st else turnChannelOff pdu E name st) =
        turn_channel vp_turnOutletOff cs_offOrder cs_offDelays OUTLET_STATE_OFF ''Off'' E name st"
      and "target_plan target c st = plan (cs_offOrder c) (cs_offDelays c) (\<lambda>n. outlet_command ''Off'' n st) (cs_outlets c)"
      and "target_state target = OUTLET_STATE_OFF"
      using False t by (simp_all add: turnChannelOff_def pdu_def target_plan_def target_state_def)
    with seq show ?thesis
      by (simp only: Let_def)
  qed
qed

lemma pdu_trace_err: "pdu_trace (emit [LogSoftwareError] st) = pdu_trace st"
  by (simp add: pdu_trace_def)

lemma vp_newCallBack_cases:
  assumes wf: "pdu_wf st" and c: "map_of (oc_channels st) (ip_name ip) = Some c"
  shows "if request_accepted nows ip c st
    then vp_newCallBack_channels toUpper nows E ip st = newCallBack_channels toUpper pdu E ip st
    else \<exists>st'. vp_newCallBack_channels toUpper nows E ip st = Some (- 1, st') \<and> pdu_trace st' = pdu_trace st"
proof -
  have "\<forall>n \<in> set (cs_outlets c). n < length (vp_endpoints st)"
    using pdu_wf_channel [OF wf c] by (auto simp: pdu_spec_ok_def spec_ok_def)
  from all_available_spec [OF this, of nows] c show ?thesis
    by (auto simp: vp_newCallBack_channels_def request_accepted_def pdu_trace_err split: if_splits)
qed

text \<open>C6: A request to a channel of a well-configured virtual PDU is always carried out without
  undefined behaviour. When the application is not ready, the message is not for it, a remote
  source is unavailable or the target is neither on nor off, no command is sent. When the
  channel is already in the target state or was changed too recently, it returns 0 and sends
  nothing. Otherwise the commands and waits are a prefix of the configured sequence - each
  outlet's command once, in the configured order, with the configured delays - and the whole
  sequence when the result is 0; a sequence cut short returns -1.
\<close>

theorem request_sequence:
  assumes wf: "pdu_wf st" and c: "map_of (oc_channels st) (ip_name ip) = Some c"
  shows "\<exists>rv st' ws. vp_newCallBack_channels toUpper nows E ip st = Some (rv, st') \<and> pdu_trace st' = pdu_trace st @ ws \<and>
    (let target = request_target toUpper ip; p = target_plan target c st in
     prefix ws p \<and> (ws \<noteq> p \<longrightarrow> rv = - 1 \<or> ws = []) \<and>
     (\<not> request_accepted nows ip c st \<longrightarrow> rv = - 1 \<and> ws = []) \<and>
     (request_accepted nows ip c st \<and> target \<in> {''ON'', ''OFF''} \<longrightarrow>
        (if channelState (ip_name ip) st = Some (target_state target) \<or> too_soon E c st then rv = 0 \<and> ws = []
         else (rv = 0 \<longrightarrow> ws = p) \<and> (ws \<noteq> p \<longrightarrow> rv = - 1))) \<and>
     (target \<in> {''ON'', ''OFF''} \<longrightarrow>
        mset (commands_of p) =
        mset (map (\<lambda>n. outlet_command (if target = ''ON'' then ''On'' else ''Off'') n st) (cs_outlets c))))"
proof -
  let ?target = "request_target toUpper ip"
  have spec: "pdu_spec_ok (length (vp_endpoints st)) c"
    using pdu_wf_channel [OF wf c] by blast
  have cmds: "?target \<in> {''ON'', ''OFF''} \<longrightarrow> mset (commands_of (target_plan ?target c st)) =
      mset (map (\<lambda>n. outlet_command (if ?target = ''ON'' then ''On'' else ''Off'') n st) (cs_outlets c))"
    using spec by (auto simp: target_plan_def pdu_spec_ok_def mset_commands_of_plan)
  note cases = vp_newCallBack_cases [OF wf c, of nows toUpper E]
  show ?thesis
  proof (cases "request_accepted nows ip c st")
    case False
    then obtain st' where "vp_newCallBack_channels toUpper nows E ip st = Some (- 1, st')" "pdu_trace st' = pdu_trace st"
      using cases by auto
    with False cmds show ?thesis
      by (auto simp: Let_def)
  next
    case acc: True
    then have ready: "oc_ready st"
      by (simp add: request_accepted_def)
    have eq: "vp_newCallBack_channels toUpper nows E ip st = newCallBack_channels toUpper pdu E ip st"
      using cases acc by simp
    show ?thesis
    proof (cases "?target \<in> {''ON'', ''OFF''}")
      case False
      then have "vp_newCallBack_channels toUpper nows E ip st = Some (0, st)"
        using ready by (simp add: eq newCallBack_channels_def Let_def)
      with False acc cmds show ?thesis
        by (auto simp: Let_def target_plan_def)
    next
      case True
      obtain rv st' s where run: "(if ?target = ''ON'' then turnChannelOn pdu E (ip_name ip) st
            else turnChannelOff pdu E (ip_name ip) st) = Some (rv, st')"
        and s: "channelState (ip_name ip) st = Some s"
        and res: "if s = target_state ?target \<or> too_soon E c st then rv = 0 \<and> pdu_trace st' = pdu_trace st
          else \<exists>ws. pdu_trace st' = pdu_trace st @ ws \<and> prefix ws (target_plan ?target c st) \<and>
            (rv = 0 \<longrightarrow> ws = target_plan ?target c st) \<and> (ws \<noteq> target_plan ?target c st \<longrightarrow> rv = - 1)"
        using turn_target [OF wf c True, of E] by blast
      have nb: "newCallBack_channels toUpper pdu E ip st =
          (if ?target = ''ON'' then turnChannelOn pdu E (ip_name ip) st else turnChannelOff pdu E (ip_name ip) st)"
        using ready True by (auto simp: newCallBack_channels_def Let_def)
      have run': "vp_newCallBack_channels toUpper nows E ip st = Some (rv, st')"
        by (simp only: eq nb run)
      show ?thesis
      proof (cases "s = target_state ?target \<or> too_soon E c st")
        case True
        with run' res s cmds acc show ?thesis
          by (auto simp: Let_def)
      next
        case False
        with res obtain ws where "pdu_trace st' = pdu_trace st @ ws" "prefix ws (target_plan ?target c st)"
          "rv = 0 \<longrightarrow> ws = target_plan ?target c st" "ws \<noteq> target_plan ?target c st \<longrightarrow> rv = - 1" by auto
        with run' s False cmds acc show ?thesis
          unfolding Let_def by (intro exI [of _ rv] exI [of _ st'] exI [of _ ws]) auto
      qed
    qed
  qed
qed


definition example_pdu :: virtualPDU where
  "example_pdu =
     outletController.extend
       (example_oc\<lparr>oc_outletStates := [0, 0], oc_channels := [(''sue'', example_chan\<lparr>cs_outlets := [1, 0]\<rparr>)]\<rparr>)
       (virtualPDU.fields ''vpdu'' 5 15
          [endpoint_new\<lparr>ep_device := ''ac'', ep_channel := ''power'', ep_state := 0, ep_haveState := True\<rparr>,
           endpoint_new\<lparr>ep_device := ''usb'', ep_channel := ''power'', ep_source := 1, ep_state := 0, ep_haveState := True\<rparr>]
          [\<lparr>src_device = ''ac'', src_ready = True, src_received = 0\<rparr>, \<lparr>src_device = ''usb'', src_ready = True, src_received = 0\<rparr>]
          0)"

definition example_request :: IndiProperty where
  "example_request = property_set (IndiElement_new ''target'' ''On'') (IndiProperty_new Text ''vpdu'' ''sue'')"

definition example_send :: "send_env channel_env" where
  "example_send = \<lparr>tc_now = \<lparr>tv_sec = 1, tv_nsec = 0\<rparr>, tc_calls = (\<lambda>_. \<lparr>se_now = 1000, se_send = 0\<rparr>), tc_end = None\<rparr>"

lemmas example_pdu_defs =
  example_pdu_def virtualPDU.defs outletController.defs example_oc_def example_chan_def channelSpec_new_def

lemma example_pdu_wf: "pdu_wf example_pdu"
  by (simp add: example_pdu_defs pdu_wf_def pdu_spec_ok_def spec_ok_def fits_def order_perm_def upt_rec
      del: mset_upt)

theorem request_sequence_witness:
  "pdu_wf example_pdu \<and> (\<exists>c. map_of (oc_channels example_pdu) ''sue'' = Some c \<and>
     (\<exists>rv st' ws. vp_newCallBack_channels (map char_toupper) (\<lambda>_. 1000) example_send example_request example_pdu = Some (rv, st') \<and>
        pdu_trace st' = pdu_trace example_pdu @ ws \<and>
        prefix ws (target_plan (request_target (map char_toupper) example_request) c example_pdu)))"
proof -
  have name: "ip_name example_request = ''sue''"
    by (simp add: example_request_def property_set_def IndiProperty_new_def)
  obtain c where c: "map_of (oc_channels example_pdu) (ip_name example_request) = Some c"
    unfolding name by (simp add: example_pdu_defs)
  show ?thesis
    using request_sequence [OF example_pdu_wf c, of "map char_toupper" "\<lambda>_. 1000" example_send] example_pdu_wf c
    unfolding name Let_def by blast
qed

section \<open>What an accepted configuration guarantees\<close>

lemma strict_sorted_gap:
  fixes xs :: "nat list"
  assumes "sorted_wrt (<) xs" "i \<le> j" "j < length xs"
  shows "xs ! i + (j - i) \<le> xs ! j"
  using assms(2,3)
proof (induction j)
  case (Suc j)
  show ?case
  proof (cases "i = Suc j")
    case False
    then have "xs ! i + (j - i) \<le> xs ! j"
      using Suc by simp
    moreover have "xs ! j < xs ! Suc j"
      using assms(1) Suc.prems(2) by (simp add: sorted_wrt_nth_less)
    ultimately show ?thesis
      using False Suc.prems(1) by linarith
  qed simp
qed simp

lemma consecutive_keys:
  fixes xs :: "nat list"
  assumes "sorted_wrt (<) xs" "\<forall>x \<in> set xs. 0 < x" "xs \<noteq> []" "last xs = length xs" "i < length xs"
  shows "xs ! i = i + 1"
proof -
  let ?l = "length xs - 1"
  have l: "?l < length xs" "xs ! ?l = length xs"
    using assms(3,4) by (auto simp: last_conv_nth)
  have "xs ! 0 + (i - 0) \<le> xs ! i" "xs ! i + (?l - i) \<le> xs ! ?l"
    using strict_sorted_gap [OF assms(1), of 0 i] strict_sorted_gap [OF assms(1), of i ?l] assms(5) by simp_all
  moreover have "0 < xs ! 0"
    using assms(2,3) by auto
  ultimately show ?thesis
    using l(2) assms(5) by linarith
qed

text \<open>The entry of one mapping section, and the state of the parse after some of the sections.\<close>

definition ident :: "endpoint \<Rightarrow> string \<times> string" where
  "ident e = (ep_device e, ep_channel e)"

definition mapping_of :: "configurator \<Rightarrow> string \<Rightarrow> string \<Rightarrow> endpoint \<Rightarrow> bool" where
  "mapping_of cfg configName sec e \<longleftrightarrow>
     ep_device e = cfg_word cfg sec ''device'' \<and> ep_channel e = cfg_word cfg sec ''channel'' \<and>
     ep_device e \<noteq> [] \<and> ep_channel e \<noteq> [] \<and> ep_device e \<noteq> configName \<and> ep_channel e \<noteq> ''fsm'' \<and>
     ep_state e = OUTLET_STATE_UNKNOWN \<and> \<not> ep_haveState e"

definition parse_inv ::
  "configurator \<Rightarrow> string \<Rightarrow> string list \<Rightarrow> (string \<times> string) list \<Rightarrow> (nat, endpoint) std_map \<Rightarrow> bool" where
  "parse_inv cfg configName secs ids m \<longleftrightarrow>
     map_wf m \<and>
     (\<forall>(k, e) \<in> set m. 0 < k \<and> ''outlet'' @ to_string k \<in> set secs \<and>
        mapping_of cfg configName (''outlet'' @ to_string k) e \<and> ident e \<in> set ids) \<and>
     inj_on (ident \<circ> snd) (set m)"

lemma parse_mapping_Some:
  assumes "parse_mapping cfg configName sec ids = Some (k, e)"
  shows "0 < k \<and> sec = ''outlet'' @ to_string k \<and> mapping_of cfg configName sec e \<and> ident e \<notin> set ids"
  using assms
  by (auto simp: parse_mapping_def mapping_of_def ident_def endpoint_new_def Let_def split: option.splits if_splits)

lemma set_map_assign_new:
  "map_find k m = None \<Longrightarrow> set (map_assign k v m) = insert (k, v) (set m)"
  by (induction k v m rule: map_assign.induct) (auto simp: map_find_def split: if_splits)

lemma parse_inv_add:
  assumes inv: "parse_inv cfg cn secs ids m" and new: "sec \<notin> set secs"
    and p: "parse_mapping cfg cn sec ids = Some (k, e)"
  shows "parse_inv cfg cn (sec # secs) (ident e # ids) (snd (map_emplace k e m))"
proof -
  note pm = parse_mapping_Some [OF p]
  have "map_find k m = None"
  proof (rule ccontr)
    assume "map_find k m \<noteq> None"
    then obtain f where "(k, f) \<in> set m"
      by (auto simp: map_find_def dest: map_of_SomeD)
    with inv have "''outlet'' @ to_string k \<in> set secs"
      by (auto simp: parse_inv_def)
    with pm new show False by simp
  qed
  then have s: "set (snd (map_emplace k e m)) = insert (k, e) (set m)"
    by (simp add: map_emplace_def set_map_assign_new)
  have "ident e \<notin> (ident \<circ> snd) ` set m"
    using inv pm by (fastforce simp: parse_inv_def)
  then have "inj_on (ident \<circ> snd) (insert (k, e) (set m))"
    using inv by (auto simp: parse_inv_def inj_on_insert)
  then show ?thesis
    using inv pm map_emplace_wf [of m k e] unfolding parse_inv_def s by (auto simp: ident_def)
qed

lemma parse_inv_skip: "parse_inv cfg cn secs ids m \<Longrightarrow> parse_inv cfg cn (sec # secs) ids m"
  by (auto simp: parse_inv_def)

lemma parse_mappings_inv:
  assumes "parse_mappings cfg cn secs ids m = Some m'" "parse_inv cfg cn before ids m" "distinct (secs @ before)"
  shows "\<exists>ids'. parse_inv cfg cn (rev secs @ before) ids' m'"
  using assms
proof (induction secs arbitrary: before ids m)
  case (Cons sec secs)
  show ?case
  proof (cases "take 6 sec \<noteq> ''outlet''")
    case True
    then show ?thesis
      using Cons.IH [of ids m "sec # before"] Cons.prems parse_inv_skip by auto
  next
    case False
    with Cons.prems(1) obtain k e where ke: "parse_mapping cfg cn sec ids = Some (k, e)"
      and rest: "parse_mappings cfg cn secs (ident e # ids) (snd (map_emplace k e m)) = Some m'"
      by (auto simp: ident_def split: option.splits)
    have "parse_inv cfg cn (sec # before) (ident e # ids) (snd (map_emplace k e m))"
      using parse_inv_add [OF Cons.prems(2) _ ke] Cons.prems(3) by simp
    from Cons.IH [OF rest this] Cons.prems(3) show ?thesis
      by auto
  qed
qed auto

lemma parse_mappings_result:
  assumes "parse_mappings cfg cn secs [] [] = Some m" "distinct secs" "m \<noteq> []" "fst (last m) = length m"
  shows "distinct (map ident (map snd m)) \<and>
    (\<forall>i < length m. mapping_of cfg cn (''outlet'' @ to_string (i + 1)) (map snd m ! i))"
proof -
  have "parse_inv cfg cn [] [] []"
    by (simp add: parse_inv_def)
  then obtain ids where inv: "parse_inv cfg cn (rev secs) ids m"
    using parse_mappings_inv [OF assms(1), of "[]"] assms(2) by auto
  then have wf: "map_wf m" and pos: "\<forall>x \<in> set (map fst m). 0 < x" and inj: "inj_on (ident \<circ> snd) (set m)"
    by (auto simp: parse_inv_def)
  have "last (map fst m) = length (map fst m)"
    using assms(3,4) by (simp add: last_map)
  then have key: "fst (m ! i) = i + 1" if "i < length m" for i
    using consecutive_keys [of "map fst m" i] wf pos assms(3) that by (simp add: map_wf_def)
  have "mapping_of cfg cn (''outlet'' @ to_string (i + 1)) (map snd m ! i)" if "i < length m" for i
  proof -
    have "m ! i \<in> set m"
      using that by simp
    with inv have "mapping_of cfg cn (''outlet'' @ to_string (fst (m ! i))) (snd (m ! i))"
      by (auto simp: parse_inv_def)
    with key that show ?thesis by simp
  qed
  moreover have "distinct (map (ident \<circ> snd) m)"
    using inj map_wf_distinct [OF wf] by (simp add: distinct_map)
  ultimately show ?thesis
    by simp
qed


lemma assign_outlets_Some:
  "assign_outlets a ns = Some b \<Longrightarrow> set b = set a \<union> set ns \<and> (distinct a \<longrightarrow> distinct ns \<and> set a \<inter> set ns = {})"
  by (induction a ns arbitrary: b rule: assign_outlets.induct) (auto split: if_splits)

lemma foldr_max_ge: "x \<in> set xs \<Longrightarrow> (x :: nat) \<le> foldr max xs 0"
  by (induction xs) auto

lemma permutation_ok_perm:
  assumes "permutation_ok order c" "fits order c"
  shows "order_perm order (cs_outlets c)"
proof (cases "order = []")
  case False
  then have len: "length order = length (cs_outlets c)"
    using assms(2) by (simp add: fits_def)
  have "length (remdups order) = length order" and max: "foldr max order 0 < length (cs_outlets c)"
    using assms(1) False len by (simp_all add: permutation_ok_def)
  then have dist: "distinct order"
    by simp
  have "set order \<subseteq> {0 ..< length order}"
    using foldr_max_ge [of _ order] max len by fastforce
  moreover have "card (set order) = card {0 ..< length order}"
    using distinct_card [OF dist] by simp
  ultimately have "set order = {0 ..< length order}"
    by (simp add: card_subset_eq)
  then have "mset order = mset [0 ..< length order]"
    using dist by (metis distinct_upt set_eq_iff_mset_eq_distinct set_upt)
  then show ?thesis
    by (simp add: order_perm_def len)
qed (simp add: order_perm_def)

lemma channels_ok_spec:
  assumes "channels_ok a cs" "distinct a" "\<forall>(name, c) \<in> set cs. spec_ok n c"
  shows "(\<forall>(name, c) \<in> set cs. pdu_spec_ok n c \<and> name \<notin> set reserved_names) \<and>
    distinct (concat (map (\<lambda>p. cs_outlets (snd p)) cs)) \<and> set a \<inter> set (concat (map (\<lambda>p. cs_outlets (snd p)) cs)) = {}"
  using assms
proof (induction a cs rule: channels_ok.induct)
  case (2 a name c cs)
  obtain b where b: "assign_outlets a (cs_outlets c) = Some b"
    and ok: "name \<notin> set reserved_names" "permutation_ok (cs_onOrder c) c" "permutation_ok (cs_offOrder c) c" "channels_ok b cs"
    using "2.prems"(1) by (auto split: if_splits option.splits)
  have bd: "set b = set a \<union> set (cs_outlets c)" "distinct (cs_outlets c)" "set a \<inter> set (cs_outlets c) = {}"
    using assign_outlets_Some [OF b] "2.prems"(2) by auto
  have "distinct b"
  proof -
    have "assign_outlets a' ns = Some b' \<Longrightarrow> distinct a' \<Longrightarrow> distinct b'" for a' ns b'
      by (induction a' ns arbitrary: b' rule: assign_outlets.induct) (auto split: if_splits)
    with b "2.prems"(2) show ?thesis by blast
  qed
  with 2 ok b have IH: "\<forall>(name, c) \<in> set cs. pdu_spec_ok n c \<and> name \<notin> set reserved_names"
    "distinct (concat (map (\<lambda>p. cs_outlets (snd p)) cs))" "set b \<inter> set (concat (map (\<lambda>p. cs_outlets (snd p)) cs)) = {}"
    by auto
  have "pdu_spec_ok n c"
    using "2.prems"(3) ok(2,3) permutation_ok_perm by (auto simp: pdu_spec_ok_def spec_ok_def)
  with IH ok(1) bd show ?case
    by auto
qed simp

lemma loadConfigImpl_result:
  assumes "distinct (cfg_unusedSections cfg)" and "oc_channels st = []" "vp_endpoints st = []"
    and "loadConfigImpl cfg poll stale st = (rv, st')"
  shows "rv \<in> {0, - 1} \<and>
    (rv = 0 \<longrightarrow>
       0 < vp_pollInterval st' \<and> vp_pollInterval st' < vp_staleTimeout st' \<and>
       vp_endpoints st' \<noteq> [] \<and> distinct (map ident (vp_endpoints st')) \<and>
       (\<forall>i < length (vp_endpoints st').
          mapping_of cfg (vp_configName st) (''outlet'' @ to_string (i + 1)) (vp_endpoints st' ! i)) \<and>
       pdu_wf st' \<and> distinct (concat (map (\<lambda>p. cs_outlets (snd p)) (oc_channels st'))) \<and>
       set (map fst (oc_channels st')) \<inter> set reserved_names = {} \<and>
       (oc_outletStates st = [] \<longrightarrow> oc_outletStates st' = replicate (length (vp_endpoints st')) (- 1)))"
proof (cases "rv = 0")
  case False
  with assms(4) show ?thesis
    by (auto simp: loadConfigImpl_def config_error_def Let_def split: if_splits option.splits prod.splits)
next
  case True
  define st1 where "st1 = st\<lparr>vp_pollInterval := (case poll of None \<Rightarrow> vp_pollInterval st | Some p \<Rightarrow> p),
                  vp_staleTimeout := (case stale of None \<Rightarrow> vp_staleTimeout st | Some s \<Rightarrow> s)\<rparr>"
  obtain m where m: "parse_mappings cfg (vp_configName st) (cfg_unusedSections cfg) [] [] = Some m"
    "m \<noteq> []" "fst (last m) = length m"
    and iv: "0 < vp_pollInterval st1" "vp_pollInterval st1 < vp_staleTimeout st1"
    using assms(4) True unfolding loadConfigImpl_def st1_def [symmetric]
    by (auto simp: config_error_def Let_def st1_def split: if_splits option.splits)
  define st2 where "st2 = snd (setNumberOfOutlets (length m) (st1\<lparr>vp_endpoints := map snd m\<rparr>))"
  obtain rv3 st3 where l: "outlet_loadConfig cfg st2 = (rv3, st3)"
    by (cases "outlet_loadConfig cfg st2")
  have rv3: "\<not> rv3 < 0" and chk: "channels_ok [] (oc_channels st3)" and st': "st' = st3"
    using assms(3,4) True m iv l unfolding loadConfigImpl_def st1_def [symmetric]
    by (auto simp: config_error_def Let_def st2_def st1_def split: if_splits)
  have st2: "oc_channels st2 = []" "length (oc_outletStates st2) = length m" "vp_endpoints st2 = map snd m"
    "vp_pollInterval st2 = vp_pollInterval st1" "vp_staleTimeout st2 = vp_staleTimeout st1"
    using assms(2) by (simp_all add: st2_def setNumberOfOutlets_def st1_def)
  note res = outlet_loadConfig_result [OF assms(1) st2(1) l]
  have "rv3 = 0"
    using res rv3 by (auto simp: OUTLET_E_NOOUTLETS_def OUTLET_E_NOCHANNELS_def OUTLET_E_NOVALIDCH_def split: if_splits)
  then have specs: "\<forall>(name, c) \<in> set (oc_channels st3). spec_ok (length m) c"
    using res st2(2) by (fastforce split: if_splits)
  have keep: "vp_endpoints st3 = map snd m" "vp_pollInterval st3 = vp_pollInterval st1"
    "vp_staleTimeout st3 = vp_staleTimeout st1" "length (oc_outletStates st3) = length m"
    using st2 by (subst outlet_loadConfig_frame [OF l], simp)+
  have chk': "\<forall>(name, c) \<in> set (oc_channels st3). pdu_spec_ok (length m) c \<and> name \<notin> set reserved_names"
    "distinct (concat (map (\<lambda>p. cs_outlets (snd p)) (oc_channels st3)))"
    using channels_ok_spec [OF chk _ specs] by auto
  moreover have "set (map fst (oc_channels st3)) \<inter> set reserved_names = {}"
    using chk'(1) by fastforce
  moreover have "pdu_wf st3"
    using chk'(1) keep by (fastforce simp: pdu_wf_def)
  moreover note parse_mappings_result [OF m(1) assms(1) m(2,3)]
  moreover have "oc_outletStates st = [] \<longrightarrow> oc_outletStates st3 = replicate (length m) (- 1)"
    by (subst outlet_loadConfig_frame [OF l]) (simp add: st2_def setNumberOfOutlets_def st1_def)
  ultimately show ?thesis
    using True iv m(2) by (simp add: st' keep del: map_map)
qed

text \<open>C35: When \<open>loadConfigImpl\<close> of a fresh application returns 0, the intervals are positive and the
  time-out exceeds the poll interval; outlet \<open>i\<close> stands for the channel named by the section
  \<open>[outlet(i+1)]\<close>, on another device and never its state machine; no remote channel is used
  twice; every channel is well formed, its orders are permutations, no outlet belongs to two
  channels or twice to one, and no channel has a reserved name. Otherwise it returns -1.
\<close>

theorem loadConfigImpl_ok:
  assumes "distinct (cfg_unusedSections cfg)" and "oc_channels st = []" "vp_endpoints st = []"
    and "loadConfigImpl cfg poll stale st = (rv, st')"
  shows "rv \<in> {0, - 1} \<and>
    (rv = 0 \<longrightarrow>
       0 < vp_pollInterval st' \<and> vp_pollInterval st' < vp_staleTimeout st' \<and>
       vp_endpoints st' \<noteq> [] \<and> distinct (map ident (vp_endpoints st')) \<and>
       (\<forall>i < length (vp_endpoints st').
          mapping_of cfg (vp_configName st) (''outlet'' @ to_string (i + 1)) (vp_endpoints st' ! i)) \<and>
       pdu_wf st' \<and> distinct (concat (map (\<lambda>p. cs_outlets (snd p)) (oc_channels st'))) \<and>
       set (map fst (oc_channels st')) \<inter> set reserved_names = {})"
  using loadConfigImpl_result [OF assms] by blast

definition example_vcfg :: configurator where
  "example_vcfg =
     \<lparr>cfg_unusedSections = [''outlet1'', ''sue''],
      cfg_isSetUnused = (\<lambda>sec key. sec = ''sue'' \<and> key = ''outlet''),
      cfg_numbers = (\<lambda>sec key. if key = ''outlet'' then [1] else []),
      cfg_words = (\<lambda>sec key. if key = ''outlet'' then [''1''] else []),
      cfg_word = (\<lambda>sec key. if sec = ''outlet1'' then if key = ''device'' then ''ac'' else ''power'' else [])\<rparr>"

definition fresh_pdu :: virtualPDU where
  "fresh_pdu = example_pdu\<lparr>oc_outletStates := [], oc_channels := [], vp_endpoints := [], vp_sources := []\<rparr>"

lemma to_string_1: "to_string 1 = ''1''"
  by code_simp

lemma from_chars_1: "from_chars ''1'' = Some (1, [])"
  by (simp add: from_chars_def char_isdigit_def digit_val_def Let_def)

lemma fresh_pdu_fields:
  "vp_configName fresh_pdu = ''vpdu''" "vp_pollInterval fresh_pdu = 5" "vp_staleTimeout fresh_pdu = 15"
  "vp_endpoints fresh_pdu = []" "oc_channels fresh_pdu = []" "oc_outletStates fresh_pdu = []" "oc_firstOne fresh_pdu"
  by (simp_all add: fresh_pdu_def example_pdu_defs)

lemma example_parses:
  "parse_mappings example_vcfg ''vpdu'' (cfg_unusedSections example_vcfg) [] [] =
     Some [(1, endpoint_new\<lparr>ep_device := ''ac'', ep_channel := ''power''\<rparr>)]"
  by (simp add: parse_mapping_def from_chars_1 to_string_1 [simplified] example_vcfg_def endpoint_new_def
      map_emplace_def map_find_def)

lemma example_numbers: "numbers_ok example_vcfg 1"
  by (simp add: numbers_ok_def example_vcfg_def number_ok_def from_chars_1 blank_def)

lemma example_sections: "channel_sections example_vcfg = [''sue'']" "cfg_unusedSections example_vcfg = [''outlet1'', ''sue'']"
  by (simp_all add: channel_sections_def example_vcfg_def)

lemma example_channel:
  "config_channel example_vcfg True (Suc 0) ''sue'' channelSpec_new = (True, channelSpec_new\<lparr>cs_outlets := [0]\<rparr>)"
  by (simp add: config_channel_def example_vcfg_def config_vector_def channelSpec_new_def)

lemma example_loads: "fst (loadConfigImpl example_vcfg None None fresh_pdu) = 0"
proof -
  have "outlet_loadConfig example_vcfg st = (0, st\<lparr>oc_channels := [(''sue'', channelSpec_new\<lparr>cs_outlets := [0], cs_mutex := True\<rparr>)]\<rparr>)"
    if "oc_outletStates st = [- 1]" "oc_firstOne st" "oc_channels st = []" for st :: virtualPDU
    using that by (simp add: outlet_loadConfig_def example_sections example_channel channel_def set_channel_def)
  then show ?thesis
    by (simp add: loadConfigImpl_def fresh_pdu_fields Let_def example_parses example_numbers [simplified]
        setNumberOfOutlets_def reserved_names_def permutation_ok_def channelSpec_new_def)
qed

theorem loadConfigImpl_ok_witness:
  "fst (loadConfigImpl example_vcfg None None fresh_pdu) = 0 \<and> pdu_wf (snd (loadConfigImpl example_vcfg None None fresh_pdu))"
proof -
  have "distinct (cfg_unusedSections example_vcfg)"
    by (simp add: example_sections)
  from loadConfigImpl_ok [OF this fresh_pdu_fields(5,4) prod.collapse [symmetric]] example_loads show ?thesis
    by simp
qed

section \<open>Frames\<close>

text \<open>The configured part of the channels, which no handler changes.\<close>

definition wiring :: "channelSpec \<Rightarrow> nat list \<times> nat list \<times> nat list \<times> nat list \<times> nat list" where
  "wiring c = (cs_outlets c, cs_onOrder c, cs_offOrder c, cs_onDelays c, cs_offDelays c)"

definition channel_wiring :: "'m outletController_scheme \<Rightarrow> (string \<times> nat list \<times> nat list \<times> nat list \<times> nat list \<times> nat list) list" where
  "channel_wiring st = map (\<lambda>(name, c). (name, wiring c)) (oc_channels st)"

lemma map_update_same:
  assumes "map_of al k = Some w" "f (k, v) = f (k, w)"
  shows "map f (AList.update k v al) = map f al"
  using assms by (induction al) (auto split: if_splits)

lemma channel_wiring_set_channel [simp]:
  assumes "map_of (oc_channels st) name = Some d" "wiring c = wiring d"
  shows "channel_wiring (set_channel name c st) = channel_wiring st"
  unfolding channel_wiring_def set_channel_def by (simp add: map_update_same [OF assms(1)] assms(2))

lemma channel_wiring_fields [simp]:
  "channel_wiring (emit evs st) = channel_wiring st"
  "channel_wiring (st\<lparr>oc_outletProp := p\<rparr>) = channel_wiring st"
  "channel_wiring (st\<lparr>oc_stateTimes := p\<rparr>) = channel_wiring st"
  "channel_wiring (st\<lparr>oc_outletStates := s\<rparr>) = channel_wiring st"
  by (simp_all add: channel_wiring_def)

lemma channel_wiring_names: "channel_wiring st' = channel_wiring st \<Longrightarrow> map fst (oc_channels st') = map fst (oc_channels st)"
proof -
  assume "channel_wiring st' = channel_wiring st"
  then have "map fst (channel_wiring st') = map fst (channel_wiring st)" by simp
  then show ?thesis by (simp add: channel_wiring_def comp_def case_prod_beta)
qed

lemma pdu_wf_iff_wiring:
  "pdu_wf st \<longleftrightarrow> length (oc_outletStates st) = length (vp_endpoints st) \<and>
     (\<forall>(name, outs, on, off, don, doff) \<in> set (channel_wiring st).
        pdu_spec_ok (length (vp_endpoints st))
          (channelSpec_new\<lparr>cs_outlets := outs, cs_onOrder := on, cs_offOrder := off, cs_onDelays := don, cs_offDelays := doff\<rparr>))"
  by (auto simp: pdu_wf_def channel_wiring_def wiring_def pdu_spec_ok_def spec_ok_def fits_def)

lemma pdu_wf_cong:
  assumes "channel_wiring st' = channel_wiring st" "length (oc_outletStates st') = length (oc_outletStates st)"
    "length (vp_endpoints st') = length (vp_endpoints st)"
  shows "pdu_wf st' = pdu_wf st"
  using assms by (simp add: pdu_wf_iff_wiring)

text \<open>Publishing changes properties and events only.\<close>

definition publishes :: "'m outletController_scheme \<Rightarrow> 'm outletController_scheme \<Rightarrow> bool" where
  "publishes st st' \<longleftrightarrow>
     st' = st\<lparr>oc_channels := oc_channels st', oc_outletProp := oc_outletProp st', oc_events := oc_events st'\<rparr> \<and>
     channel_wiring st' = channel_wiring st"

lemma publishes_refl: "publishes st st"
  by (simp add: publishes_def)

lemma publishes_trans:
  assumes "publishes st st'" "publishes st' st''"
  shows "publishes st st''"
proof -
  have a: "st' = st\<lparr>oc_channels := oc_channels st', oc_outletProp := oc_outletProp st', oc_events := oc_events st'\<rparr>"
    and b: "st'' = st'\<lparr>oc_channels := oc_channels st'', oc_outletProp := oc_outletProp st'', oc_events := oc_events st''\<rparr>"
    using assms by (simp_all add: publishes_def)
  have "st'' = st\<lparr>oc_channels := oc_channels st'', oc_outletProp := oc_outletProp st'', oc_events := oc_events st''\<rparr>"
    by (subst b, subst a) simp
  then show ?thesis
    using assms by (simp add: publishes_def)
qed

lemma publishes_fields:
  assumes "publishes st st'"
  shows "oc_outletStates st' = oc_outletStates st" "oc_driver st' = oc_driver st" "oc_ready st' = oc_ready st"
    "oc_firstOne st' = oc_firstOne st" "oc_lastOutletStates st' = oc_lastOutletStates st"
    "oc_outletTelemRecorded st' = oc_outletTelemRecorded st" "outletController.more st' = outletController.more st"
proof -
  have a: "st' = st\<lparr>oc_channels := oc_channels st', oc_outletProp := oc_outletProp st', oc_events := oc_events st'\<rparr>"
    using assms by (simp add: publishes_def)
  show "oc_outletStates st' = oc_outletStates st" "oc_driver st' = oc_driver st" "oc_ready st' = oc_ready st"
    "oc_firstOne st' = oc_firstOne st" "oc_lastOutletStates st' = oc_lastOutletStates st"
    "oc_outletTelemRecorded st' = oc_outletTelemRecorded st" "outletController.more st' = outletController.more st"
    by (subst a, simp)+
qed

lemma publishes_emit: "publishes st (emit evs st)"
  by (simp add: publishes_def) (simp add: emit_def)

lemma publishes_outletProp: "publishes st (st\<lparr>oc_outletProp := p\<rparr>)"
  by (simp add: publishes_def)

lemma publishes_set_channel:
  assumes "map_of (oc_channels st) name = Some d" "wiring c = wiring d"
  shows "publishes st (set_channel name c st)"
  unfolding publishes_def channel_wiring_set_channel [OF assms] by (simp add: set_channel_def)

lemma publish_outlets_frame: "publishes st (publish_outlets iss st)"
proof (induction iss st rule: publish_outlets.induct)
  case (2 i s iss st)
  let ?n = "i + (if oc_firstOne st then 1 else 0)"
  obtain p sent where ps: "updateIfChanged (oc_driver st) (fmt0 1 (int ?n)) (stateIntToString s) Ok (oc_outletProp st) = (p, sent)"
    by (cases "updateIfChanged (oc_driver st) (fmt0 1 (int ?n)) (stateIntToString s) Ok (oc_outletProp st)")
  have pub: "publishes st (emit (map SendSetProperty sent) (st\<lparr>oc_outletProp := p\<rparr>))"
    by (rule publishes_trans [OF publishes_outletProp publishes_emit])
  have eq: "publish_outlets ((i, s) # iss) st = publish_outlets iss (emit (map SendSetProperty sent) (st\<lparr>oc_outletProp := p\<rparr>))"
    by (simp only: publish_outlets.simps Let_def ps prod.case)
  show ?case
    unfolding eq by (rule publishes_trans [OF pub 2 [OF refl ps [symmetric] refl]])
qed (simp add: publishes_refl)

lemma publish_channels_frame:
  assumes "\<forall>name \<in> set names. \<exists>c. map_of (oc_channels st) name = Some c \<and> spec_ok (length (oc_outletStates st)) c"
  shows "\<exists>st'. publish_channels names st = Some st' \<and> publishes st st'"
  using assms
proof (induction names arbitrary: st)
  case (Cons name names)
  obtain c where c: "map_of (oc_channels st) name = Some c" and spec: "spec_ok (length (oc_outletStates st)) c"
    using Cons.prems by auto
  have ch: "channel name st = c"
    using c by (simp add: channel_def)
  obtain s where s: "channelState name st = Some s"
    using channelState_eq [of name st] spec unfolding ch spec_ok_def by blast
  obtain p sent where ps: "updateIfChanged (oc_driver st) ''state'' (stateIntToString s) Ok (cs_prop c) = (p, sent)"
    by (cases "updateIfChanged (oc_driver st) ''state'' (stateIntToString s) Ok (cs_prop c)")
  define st1 where "st1 = emit (map SendSetProperty sent) (set_channel name (c\<lparr>cs_prop := p\<rparr>) st)"
  have w: "wiring (c\<lparr>cs_prop := p\<rparr>) = wiring c"
    by (simp add: wiring_def)
  have pub: "publishes st st1"
    unfolding st1_def by (rule publishes_trans [OF publishes_set_channel [OF c w] publishes_emit])
  have mo: "map_of (oc_channels st1) = (map_of (oc_channels st))(name \<mapsto> c\<lparr>cs_prop := p\<rparr>)"
    by (simp add: st1_def set_channel_def update_conv')
  have "spec_ok (length (oc_outletStates st)) (c\<lparr>cs_prop := p\<rparr>)"
    using spec by (simp add: spec_ok_def fits_def)
  then have "\<forall>name \<in> set names. \<exists>c. map_of (oc_channels st1) name = Some c \<and> spec_ok (length (oc_outletStates st1)) c"
    using Cons.prems unfolding mo publishes_fields(1) [OF pub] by (metis fun_upd_apply list.set_intros(2))
  from Cons.IH [OF this] obtain st' where "publish_channels names st1 = Some st'" "publishes st1 st'"
    by blast
  moreover have "publish_channels (name # names) st = publish_channels names st1"
    unfolding publish_channels.simps s ch st1_def by (simp only: bind.bind_lunit Let_def ps prod.case)
  ultimately show ?case
    using publishes_trans [OF pub] by auto
qed (simp add: publishes_refl)

lemma channel_specs_cong:
  assumes "channel_wiring st' = channel_wiring st" "\<forall>(name, c) \<in> set (oc_channels st). spec_ok n c"
  shows "\<forall>(name, c) \<in> set (oc_channels st'). spec_ok n c"
proof (intro ballI, clarify)
  fix name c assume "(name, c) \<in> set (oc_channels st')"
  then have "(name, wiring c) \<in> set (channel_wiring st')"
    unfolding channel_wiring_def set_map by (rule rev_image_eqI) simp
  then have "(name, wiring c) \<in> set (channel_wiring st)"
    by (simp only: assms(1))
  then obtain d where d: "(name, d) \<in> set (oc_channels st)" "wiring d = wiring c"
    by (auto simp: channel_wiring_def)
  then have "spec_ok n d"
    using assms(2) by auto
  with d(2) show "spec_ok n c"
    by (simp add: spec_ok_def fits_def wiring_def)
qed

lemma updateINDI_frame:
  assumes specs: "\<forall>(name, c) \<in> set (oc_channels st). spec_ok (length (oc_outletStates st)) c"
  shows "\<exists>st'. updateINDI st = Some (0, st') \<and> publishes st st'"
proof (cases "oc_driver st")
  case True
  define st1 where "st1 = publish_outlets (zip [0 ..< length (oc_outletStates st)] (oc_outletStates st)) st"
  have pub: "publishes st st1"
    by (simp add: st1_def publish_outlets_frame)
  have specs1: "\<forall>(name, c) \<in> set (oc_channels st1). spec_ok (length (oc_outletStates st1)) c"
    using channel_specs_cong [of st1 st, OF _ specs] pub publishes_fields(1) [OF pub] by (simp add: publishes_def)
  have "\<exists>c. map_of (oc_channels st1) name = Some c \<and> spec_ok (length (oc_outletStates st1)) c"
    if name: "name \<in> set (map fst (oc_channels st))" for name
  proof -
    have "name \<in> fst ` set (oc_channels st1)"
      using name channel_wiring_names [of st1 st] pub by (simp add: publishes_def) (metis list.set_map)
    then obtain c where "map_of (oc_channels st1) name = Some c"
      by (metis map_of_eq_None_iff not_None_eq)
    with specs1 show ?thesis
      by (auto dest: map_of_SomeD)
  qed
  then obtain st' where "publish_channels (map fst (oc_channels st)) st1 = Some st'" "publishes st1 st'"
    using publish_channels_frame [of "map fst (oc_channels st)" st1] by blast
  with True show ?thesis
    using publishes_trans [OF pub] by (auto simp: updateINDI_def st1_def)
qed (simp add: updateINDI_def publishes_refl)

section \<open>Observed power\<close>

text \<open>
  An outlet is shown in a known state only when the last state message of its remote channel
  named that state and the last report of the remote device's state machine was ready.
\<close>

definition obs_at :: "virtualPDU \<Rightarrow> nat \<Rightarrow> bool" where
  "obs_at st n \<longleftrightarrow>
     (let e = vp_endpoints st ! n in
      oc_outletStates st ! n \<noteq> OUTLET_STATE_UNKNOWN \<longrightarrow>
      oc_outletStates st ! n = ep_state e \<and> ep_haveState e \<and>
      ep_source e < length (vp_sources st) \<and> src_ready (vp_sources st ! ep_source e))"

definition obs_inv :: "virtualPDU \<Rightarrow> bool" where
  "obs_inv st \<longleftrightarrow> (\<forall>n < length (vp_endpoints st). obs_at st n)"

lemma more_eq_fields:
  assumes "outletController.more st' = outletController.more (st :: virtualPDU)"
  shows "vp_endpoints st' = vp_endpoints st" "vp_sources st' = vp_sources st" "vp_configName st' = vp_configName st"
    "vp_staleTimeout st' = vp_staleTimeout st" "vp_lastPoll st' = vp_lastPoll st" "vp_pollInterval st' = vp_pollInterval st"
  using assms by (cases st; cases st'; simp)+

text \<open>Changes that leave outlet states, endpoints, sources and wiring alone.\<close>

definition quiet :: "virtualPDU \<Rightarrow> virtualPDU \<Rightarrow> bool" where
  "quiet st st' \<longleftrightarrow>
     oc_outletStates st' = oc_outletStates st \<and> vp_endpoints st' = vp_endpoints st \<and>
     vp_sources st' = vp_sources st \<and> channel_wiring st' = channel_wiring st"

lemma quiet_wf: "quiet st st' \<Longrightarrow> pdu_wf st' = pdu_wf st"
  by (rule pdu_wf_cong) (simp_all add: quiet_def)

lemma quiet_obs: "quiet st st' \<Longrightarrow> obs_inv st' = obs_inv st"
  by (simp add: quiet_def obs_inv_def obs_at_def)

lemma publishes_quiet: "publishes st st' \<Longrightarrow> quiet st st'"
  using publishes_fields [of st st'] more_eq_fields [of st' st] by (simp add: quiet_def publishes_def)

lemma record_quiet: "recordOutletStates force rv0 st = (rv, st') \<Longrightarrow> quiet st st'"
  by (auto simp: recordOutletStates_def Let_def quiet_def channel_wiring_def split: if_splits)

lemma sendOutlet_quiet: "sendOutlet target e n st = (rv, st') \<Longrightarrow> quiet st st'"
  by (auto simp: sendOutlet_def quiet_def split: if_splits)

lemma pdu_wf_specs: "pdu_wf st \<Longrightarrow> \<forall>(name, c) \<in> set (oc_channels st). spec_ok (length (oc_outletStates st)) c"
  by (auto simp: pdu_wf_def pdu_spec_ok_def)

text \<open>Refreshing one outlet establishes the relation for it and changes nothing else.\<close>

lemma updateOutletState_effect:
  assumes "pdu_wf st" "n < length (vp_endpoints st)"
  shows "\<exists>v. vp_updateOutletState now n st = Some (0, st\<lparr>oc_outletStates := (oc_outletStates st)[n := v]\<rparr>) \<and>
    obs_at (st\<lparr>oc_outletStates := (oc_outletStates st)[n := v]\<rparr>) n"
proof -
  obtain a where a: "available now n st = Some a"
    using available_defined [OF assms(2)] by blast
  let ?v = "if a then ep_state (vp_endpoints st ! n) else OUTLET_STATE_UNKNOWN"
  have len: "n < length (oc_outletStates st)"
    using assms by (simp add: pdu_wf_def)
  have "a \<Longrightarrow> ep_haveState (vp_endpoints st ! n) \<and> ep_source (vp_endpoints st ! n) < length (vp_sources st) \<and>
      src_ready (vp_sources st ! ep_source (vp_endpoints st ! n))"
    using a assms(2) by (auto simp: available_def Let_def split: if_splits)
  then have "obs_at (st\<lparr>oc_outletStates := (oc_outletStates st)[n := ?v]\<rparr>) n"
    using len by (auto simp: obs_at_def Let_def)
  moreover have "vp_updateOutletState now n st = Some (0, st\<lparr>oc_outletStates := (oc_outletStates st)[n := ?v]\<rparr>)"
    using a assms(2) len by (auto simp: vp_updateOutletState_def setOutletState_def)
  ultimately show ?thesis by blast
qed

lemma obs_at_other:
  "k \<noteq> n \<Longrightarrow> obs_at (st\<lparr>oc_outletStates := (oc_outletStates st)[n := v]\<rparr>) k = obs_at st k"
  by (simp add: obs_at_def)

lemma pdu_wf_states: "pdu_wf (st\<lparr>oc_outletStates := (oc_outletStates st)[n := v]\<rparr>) = pdu_wf st"
  by (rule pdu_wf_cong) simp_all

lemma pdu_wf_endpoints: "pdu_wf (st\<lparr>vp_endpoints := (vp_endpoints st)[n := e]\<rparr>) = pdu_wf st"
  by (rule pdu_wf_cong) (simp_all add: channel_wiring_def)

lemma pdu_wf_sources: "pdu_wf (st\<lparr>vp_sources := ss\<rparr>) = pdu_wf st"
  by (rule pdu_wf_cong) (simp_all add: channel_wiring_def)

lemma update_outlets_obs:
  assumes "pdu_wf st" "obs_inv st" "\<forall>n \<in> set ns. n < length (vp_endpoints st)"
  shows "\<exists>st'. update_outlets pdu es ns st = Some (0, st') \<and> pdu_wf st' \<and> obs_inv st'"
  using assms
proof (induction ns arbitrary: st)
  case (Cons n ns)
  then have n: "n < length (vp_endpoints st)" by simp
  obtain v where u: "vp_updateOutletState (se_now (es n)) n st = Some (0, st\<lparr>oc_outletStates := (oc_outletStates st)[n := v]\<rparr>)"
    and o: "obs_at (st\<lparr>oc_outletStates := (oc_outletStates st)[n := v]\<rparr>) n"
    using updateOutletState_effect [OF Cons.prems(1) n] by blast
  define st1 where "st1 = st\<lparr>oc_outletStates := (oc_outletStates st)[n := v]\<rparr>"
  have "obs_at st1 k" if "k < length (vp_endpoints st)" for k
    using o obs_at_other [of k n st v] Cons.prems(2) that by (cases "k = n") (auto simp: st1_def obs_inv_def)
  then have "obs_inv st1"
    by (simp add: obs_inv_def st1_def)
  moreover have "pdu_wf st1"
    using Cons.prems(1) by (simp add: st1_def pdu_wf_states)
  moreover have "\<forall>n \<in> set ns. n < length (vp_endpoints st1)"
    using Cons.prems(3) by (simp add: st1_def)
  ultimately obtain st' where "update_outlets pdu es ns st1 = Some (0, st')" "pdu_wf st'" "obs_inv st'"
    using Cons.IH by blast
  then show ?case
    using u by (simp add: pdu_def st1_def)
qed simp

text \<open>The outlets of a source that reported: all others already agree, these are refreshed in turn.\<close>

lemma fsm_endpoints_obs:
  assumes "pdu_wf st" "\<forall>n \<in> set ns. n < length (vp_endpoints st)"
    and "\<forall>k < length (vp_endpoints st). ep_source (vp_endpoints st ! k) \<noteq> i \<or> k \<notin> set ns \<longrightarrow> obs_at st k"
  shows "\<exists>st'. fsm_endpoints nows ready i ns st = Some st' \<and> pdu_wf st' \<and> obs_inv st'"
  using assms
proof (induction ns arbitrary: st)
  case Nil
  then show ?case by (simp add: obs_inv_def)
next
  case (Cons n ns)
  let ?e = "vp_endpoints st ! n"
  have n: "n < length (vp_endpoints st)"
    using Cons.prems(2) by simp
  show ?case
  proof (cases "ep_source ?e = i")
    case False
    then have "\<forall>k < length (vp_endpoints st). ep_source (vp_endpoints st ! k) \<noteq> i \<or> k \<notin> set ns \<longrightarrow> obs_at st k"
      using Cons.prems(3) by auto
    with Cons.IH [OF Cons.prems(1)] Cons.prems(2) obtain st' where
      "fsm_endpoints nows ready i ns st = Some st'" "pdu_wf st'" "obs_inv st'" by auto
    with False n show ?thesis by simp
  next
    case True
    define st1 where "st1 = (if ready then st
       else st\<lparr>vp_endpoints := (vp_endpoints st)[n := ?e\<lparr>ep_haveState := False\<rparr>]\<rparr>)"
    have wf1: "pdu_wf st1" and len1: "length (vp_endpoints st1) = length (vp_endpoints st)"
      using Cons.prems(1) by (simp_all add: st1_def pdu_wf_endpoints)
    obtain v where u: "vp_updateOutletState (nows n) n st1 = Some (0, st1\<lparr>oc_outletStates := (oc_outletStates st1)[n := v]\<rparr>)"
      and o: "obs_at (st1\<lparr>oc_outletStates := (oc_outletStates st1)[n := v]\<rparr>) n"
      using updateOutletState_effect [OF wf1, of n "nows n"] n len1 by auto
    define st2 where "st2 = st1\<lparr>oc_outletStates := (oc_outletStates st1)[n := v]\<rparr>"
    have src: "ep_source (vp_endpoints st2 ! k) = ep_source (vp_endpoints st ! k)" if "k < length (vp_endpoints st)" for k
      using that by (cases "k = n") (auto simp: st2_def st1_def)
    have keep: "obs_at st2 k = obs_at st k" if "k \<noteq> n" for k
      using that by (auto simp: st2_def st1_def obs_at_def)
    have "\<forall>k < length (vp_endpoints st2). ep_source (vp_endpoints st2 ! k) \<noteq> i \<or> k \<notin> set ns \<longrightarrow> obs_at st2 k"
    proof (intro allI impI)
      fix k assume k: "k < length (vp_endpoints st2)" "ep_source (vp_endpoints st2 ! k) \<noteq> i \<or> k \<notin> set ns"
      then show "obs_at st2 k"
        using o keep [of k] Cons.prems(3) src len1 by (cases "k = n") (auto simp: st2_def)
    qed
    moreover have "pdu_wf st2"
      using wf1 by (simp add: st2_def pdu_wf_states)
    moreover have "\<forall>n \<in> set ns. n < length (vp_endpoints st2)"
      using Cons.prems(2) len1 by (simp add: st2_def)
    ultimately obtain st' where "fsm_endpoints nows ready i ns st2 = Some st'" "pdu_wf st'" "obs_inv st'"
      using Cons.IH by blast
    moreover have "fsm_endpoints nows ready i (n # ns) st = fsm_endpoints nows ready i ns st2"
      using True n u by (simp add: st1_def [symmetric] st2_def Let_def)
    ultimately show ?thesis by auto
  qed
qed


lemma finish_obs:
  assumes "pdu_wf st" "obs_inv st"
  shows "\<exists>st1. updateINDI st = Some (0, st1) \<and> pdu_wf st1 \<and> obs_inv st1 \<and>
    pdu_wf (snd (recordOutletStates force rv st1)) \<and> obs_inv (snd (recordOutletStates force rv st1))"
proof -
  obtain st1 where st1: "updateINDI st = Some (0, st1)" "publishes st st1"
    using updateINDI_frame [OF pdu_wf_specs [OF assms(1)]] by blast
  have q1: "quiet st st1"
    by (rule publishes_quiet [OF st1(2)])
  have q2: "quiet st1 (snd (recordOutletStates force rv st1))"
    using record_quiet [of force rv st1] by (metis prod.collapse)
  show ?thesis
    using st1(1) assms quiet_wf [OF q1] quiet_obs [OF q1] quiet_wf [OF q2] quiet_obs [OF q2] by blast
qed

lemma find_source_Some: "find_source dev ss = Some i \<Longrightarrow> i < length ss \<and> src_device (ss ! i) = dev"
  by (induction dev ss arbitrary: i rule: find_source.induct) (auto split: if_splits)

lemma find_endpoint_Some:
  "find_endpoint dev ch es = Some i \<Longrightarrow> i < length es \<and> ep_device (es ! i) = dev \<and> ep_channel (es ! i) = ch"
  by (induction dev ch es arbitrary: i rule: find_endpoint.induct) (auto split: if_splits)

lemma fsm_callback_obs:
  assumes "pdu_wf st" "obs_inv st"
  shows "\<exists>rv st'. fsm_callback now nows trv ip st = Some (rv, st') \<and> pdu_wf st' \<and> obs_inv st'"
proof (cases "find_source (ip_device ip) (vp_sources st)")
  case None
  with assms show ?thesis by (simp add: fsm_callback_def)
next
  case (Some i)
  show ?thesis
  proof (cases "ip_type ip = Text \<and> \<not> property_find ''state'' ip")
    case True
    with Some assms show ?thesis by (simp add: fsm_callback_def Let_def)
  next
    case False
    define ready where "ready = (ip_type ip = Text \<and> (case property_at ''state'' ip of Inr e \<Rightarrow> get_word e = ''READY'' | Inl _ \<Rightarrow> False))"
    define s where "s = (vp_sources st ! i)\<lparr>src_ready := ready, src_received := (if ip_type ip \<noteq> Text then src_received (vp_sources st ! i) else now)\<rparr>"
    define st1 where "st1 = st\<lparr>vp_sources := (vp_sources st)[i := s]\<rparr>"
    have "obs_at st1 k" if "k < length (vp_endpoints st)" "ep_source (vp_endpoints st ! k) \<noteq> i" for k
      using assms(2) that by (auto simp: obs_inv_def obs_at_def st1_def Let_def)
    then have "\<forall>k < length (vp_endpoints st1). ep_source (vp_endpoints st1 ! k) \<noteq> i \<or> k \<notin> set [0 ..< length (vp_endpoints st1)] \<longrightarrow> obs_at st1 k"
      by (simp add: st1_def)
    then obtain st2 where st2: "fsm_endpoints nows ready i [0 ..< length (vp_endpoints st1)] st1 = Some st2" "pdu_wf st2" "obs_inv st2"
      using fsm_endpoints_obs [of st1 "[0 ..< length (vp_endpoints st1)]" i nows ready] assms(1)
      by (auto simp: st1_def pdu_wf_sources)
    obtain st3 where st3: "updateINDI st2 = Some (0, st3)"
      "pdu_wf (snd (recordOutletStates False trv st3))" "obs_inv (snd (recordOutletStates False trv st3))"
      using finish_obs [OF st2(2,3), of False trv] by blast
    have "fsm_callback now nows trv ip st =
        Some (if ip_type ip \<noteq> Text then - 1 else fst (recordOutletStates False trv st3), snd (recordOutletStates False trv st3))"
      using False Some st2(1) st3(1)
      by (auto simp: fsm_callback_def Let_def ready_def [symmetric] s_def [symmetric] st1_def case_prod_beta)
    with st3 show ?thesis by blast
  qed
qed

lemma channel_callback_obs:
  assumes "pdu_wf st" "obs_inv st"
  shows "\<exists>rv st'. channel_callback now nows trv ip st = Some (rv, st') \<and> pdu_wf st' \<and> obs_inv st'"
proof (cases "find_endpoint (ip_device ip) (ip_name ip) (vp_endpoints st)")
  case None
  with assms show ?thesis by (simp add: channel_callback_def)
next
  case (Some i)
  note i = find_endpoint_Some [OF Some]
  show ?thesis
  proof (cases "ip_type ip = Text \<and> \<not> property_find ''state'' ip")
    case True
    with Some assms show ?thesis by (simp add: channel_callback_def Let_def)
  next
    case False
    define val where "val = (if ip_type ip = Text then case property_at ''state'' ip of Inr e \<Rightarrow> get_word e | Inl _ \<Rightarrow> [] else [])"
    define s where "s = (if ip_type ip = Text then state_of_word val else OUTLET_STATE_UNKNOWN)"
    define m where "m = (vp_endpoints st ! i)\<lparr>ep_state := s,
      ep_haveState := ip_type ip = Text \<and> (s \<noteq> OUTLET_STATE_UNKNOWN \<or> val = ''Unk''), ep_received := now\<rparr>"
    define st1 where "st1 = st\<lparr>vp_endpoints := (vp_endpoints st)[i := m]\<rparr>"
    have wf1: "pdu_wf st1" and len1: "length (vp_endpoints st1) = length (vp_endpoints st)"
      using assms(1) by (simp_all add: st1_def pdu_wf_endpoints)
    obtain v where u: "vp_updateOutletState (nows i) i st1 = Some (0, st1\<lparr>oc_outletStates := (oc_outletStates st1)[i := v]\<rparr>)"
      and o: "obs_at (st1\<lparr>oc_outletStates := (oc_outletStates st1)[i := v]\<rparr>) i"
      using updateOutletState_effect [OF wf1, of i "nows i"] i len1 by auto
    define st2 where "st2 = st1\<lparr>oc_outletStates := (oc_outletStates st1)[i := v]\<rparr>"
    have "obs_at st2 k" if "k < length (vp_endpoints st)" for k
      using o assms(2) that by (cases "k = i") (auto simp: st2_def st1_def obs_inv_def obs_at_def Let_def)
    then have obs2: "obs_inv st2"
      using len1 by (simp add: obs_inv_def st2_def)
    have wf2: "pdu_wf st2"
      using wf1 by (simp add: st2_def pdu_wf_states)
    obtain st3 where st3: "updateINDI st2 = Some (0, st3)"
      "pdu_wf (snd (recordOutletStates False trv st3))" "obs_inv (snd (recordOutletStates False trv st3))"
      using finish_obs [OF wf2 obs2, of False trv] by blast
    have "channel_callback now nows trv ip st = Some (recordOutletStates False trv st3)"
      unfolding channel_callback_def Let_def Some option.case val_def [symmetric] s_def [symmetric] m_def [symmetric]
        st1_def [symmetric] using False u st3(1) by (auto simp: st2_def)
    with st3 show ?thesis by (metis prod.collapse)
  qed
qed

lemma appLogic_obs:
  assumes "pdu_wf st" "obs_inv st"
  shows "\<exists>rv st'. vp_appLogic locked now es trv st = Some (rv, st') \<and> pdu_wf st' \<and> obs_inv st'"
proof (cases locked)
  case True
  define st1 where "st1 = (if oc_driver st \<and> seconds (now - vp_lastPoll st) \<ge> vp_pollInterval st
                  then st\<lparr>vp_lastPoll := now\<rparr> else st)"
  have q: "quiet st st1"
    by (simp add: st1_def quiet_def channel_wiring_def)
  have wf1: "pdu_wf st1" and obs1: "obs_inv st1"
    using assms quiet_wf [OF q] quiet_obs [OF q] by blast+
  have "\<forall>n \<in> set [0 ..< length (oc_outletStates st1)]. n < length (vp_endpoints st1)"
    using wf1 by (simp add: pdu_wf_def)
  from update_outlets_obs [OF wf1 obs1 this, of es] obtain st2 where
    st2: "update_outlets pdu es [0 ..< length (oc_outletStates st1)] st1 = Some (0, st2)" "pdu_wf st2" "obs_inv st2" by blast
  obtain st3 where st3: "updateINDI st2 = Some (0, st3)"
      "pdu_wf (snd (recordOutletStates False trv st3))" "obs_inv (snd (recordOutletStates False trv st3))"
    using finish_obs [OF st2(2,3), of False trv] by blast
  have "vp_appLogic locked now es trv st =
      Some (if fst (recordOutletStates False trv st3) < 0 then - 1 else 0, snd (recordOutletStates False trv st3))"
    using True st2(1) st3(1)
    by (simp add: vp_appLogic_def updateOutletStates_def st1_def [symmetric] Let_def case_prod_beta del: upt.simps)
  with st3 show ?thesis by blast
qed (use assms in \<open>simp add: vp_appLogic_def\<close>)

lemma startup_channels_frame:
  assumes "startup_channels dev reg names st = Some (ok, st')" "set names \<subseteq> set (map fst (oc_channels st))"
  shows "channel_wiring st' = channel_wiring st \<and> oc_outletStates st' = oc_outletStates st \<and>
    outletController.more st' = outletController.more st"
  using assms
proof (induction names arbitrary: st)
  case (Cons name names)
  obtain d where d: "map_of (oc_channels st) name = Some d"
    using Cons.prems(2) by (metis (no_types, lifting) list.set_intros(1) list.set_map map_of_eq_None_iff not_None_eq subsetD)
  define c where "c = (channel name st)\<lparr>cs_prop := channel_property dev name\<rparr>"
  define st1 where "st1 = set_channel name c st"
  have w: "wiring c = wiring d"
    using d by (simp add: c_def channel_def wiring_def)
  have st1: "channel_wiring st1 = channel_wiring st" "oc_outletStates st1 = oc_outletStates st"
    "outletController.more st1 = outletController.more st"
    using channel_wiring_set_channel [OF d w] by (simp_all add: st1_def)
  show ?case
  proof (cases "reg name < 0")
    case True
    then have "st' = emit [LogSoftwareError] st1"
      using Cons.prems(1) by (simp add: Let_def c_def [symmetric] st1_def [symmetric])
    with st1 show ?thesis by simp
  next
    case False
    then obtain t a b g where
      rest: "startup_channels dev reg names (st1\<lparr>oc_stateTimes := t, oc_chOutlets := a, oc_chOnDelays := b, oc_chOffDelays := g\<rparr>) = Some (ok, st')"
      using Cons.prems(1) by (auto simp: Let_def c_def [symmetric] st1_def [symmetric] bind_eq_Some_conv)
    have "set names \<subseteq> set (map fst (oc_channels st1))"
      using Cons.prems(2) channel_wiring_names [OF st1(1)] by simp
    then show ?thesis
      using Cons.IH [OF rest] st1 by (simp add: channel_wiring_def)
  qed
qed simp

lemma outlet_appStartup_frame:
  assumes "outlet_appStartup dev reg st = Some (rv, st')"
  shows "channel_wiring st' = channel_wiring st \<and> oc_outletStates st' = oc_outletStates st \<and>
    outletController.more st' = outletController.more st"
proof -
  define s where "s = st\<lparr>oc_stateTimes := ro_property Number dev ''stateTimes'', oc_chOutlets := ro_property Text dev ''channelOutlets'',
    oc_chOnDelays := ro_property Number dev ''channelOnDelays'', oc_chOffDelays := ro_property Number dev ''channelOffDelays''\<rparr>"
  show ?thesis
  proof (cases "reg ''stateTimes'' < 0 \<or> reg ''channelOutlets'' < 0 \<or> reg ''channelOnDelays'' < 0 \<or> reg ''channelOffDelays'' < 0")
    case True
    then show ?thesis
      using assms by (auto simp: outlet_appStartup_def Let_def channel_wiring_def split: if_splits)
  next
    case False
    then have run: "outlet_appStartup dev reg st =
       do { (ok, st) \<leftarrow> startup_channels dev reg (map fst (oc_channels s)) s;
           if \<not> ok then Some (- 1, st)
           else
             let st = st\<lparr>oc_outletProp := (IndiProperty_new Text dev ''outlet'')\<lparr>ip_perm := ReadWrite, ip_state := Idle\<rparr>\<rparr> in
             if reg ''outlet'' < 0 then Some (- 1, emit [LogSoftwareError] st)
             else
             do { p \<leftarrow> add_outlets (map (\<lambda>i. i + (if oc_firstOne st then 1 else 0)) [0 ..< length (oc_outletStates st)])
                      (oc_outletProp st);
                  Some (0, st\<lparr>oc_outletProp := p\<rparr>) } }"
      unfolding outlet_appStartup_def Let_def s_def by (simp cong: if_cong)
    obtain ok s1 where s1: "startup_channels dev reg (map fst (oc_channels s)) s = Some (ok, s1)"
      using assms unfolding run by (cases "startup_channels dev reg (map fst (oc_channels s)) s") auto
    have "channel_wiring s1 = channel_wiring s \<and> oc_outletStates s1 = oc_outletStates s \<and>
        outletController.more s1 = outletController.more s"
      using startup_channels_frame [OF s1] by simp
    moreover have "channel_wiring s = channel_wiring st" "oc_outletStates s = oc_outletStates st"
      "outletController.more s = outletController.more st"
      by (simp_all add: s_def channel_wiring_def)
    moreover have "channel_wiring st' = channel_wiring s1 \<and> oc_outletStates st' = oc_outletStates s1 \<and>
        outletController.more st' = outletController.more s1"
      using assms unfolding run s1
      by (cases ok; cases "reg ''outlet'' < 0") (auto simp: Let_def bind_eq_Some_conv simp del: upt.simps)
    ultimately show ?thesis by simp
  qed
qed

lemma make_sources_endpoints:
  assumes "make_sources es ss = (es', ss')"
  shows "length es' = length es \<and> map ident es' = map ident es"
  using assms
proof (induction es ss arbitrary: es' ss' rule: make_sources.induct)
  case (2 e es ss)
  then show ?case
    by (auto simp: ident_def Let_def split: option.splits prod.splits)
qed simp

lemma setCallBack_obs:
  assumes "pdu_wf st" "obs_inv st"
  shows "\<exists>rv st'. setCallBack_source now nows trv ip st = Some (rv, st') \<and> pdu_wf st' \<and> obs_inv st'"
  using fsm_callback_obs [OF assms] channel_callback_obs [OF assms] by (simp add: setCallBack_source_def)

lemma vp_appStartup_inv:
  assumes "pdu_wf st" "oc_outletStates st = replicate (length (vp_endpoints st)) (- 1)"
    and "vp_appStartup reg reg_set st = Some (rv, st')"
  shows "pdu_wf st' \<and> obs_inv st'"
proof -
  obtain rv1 st1 where st1: "outlet_appStartup (vp_configName st) reg st = Some (rv1, st1)"
    using assms(3) by (auto simp: vp_appStartup_def bind_eq_Some_conv)
  note f = outlet_appStartup_frame [OF st1]
  have ep1: "vp_endpoints st1 = vp_endpoints st"
    using f more_eq_fields [of st1 st] by blast
  have main: "pdu_wf s \<and> obs_inv s" if "oc_outletStates s = oc_outletStates st" "channel_wiring s = channel_wiring st"
    "length (vp_endpoints s) = length (vp_endpoints st)" for s
    using pdu_wf_cong [of s st] that assms(1,2) by (auto simp: obs_inv_def obs_at_def OUTLET_STATE_UNKNOWN_def)
  obtain es ss where ms: "make_sources (vp_endpoints st) [] = (es, ss)"
    by (cases "make_sources (vp_endpoints st) []")
  have "length es = length (vp_endpoints st)"
    using make_sources_endpoints [OF ms] by simp
  then have "oc_outletStates st' = oc_outletStates st1 \<and> oc_channels st' = oc_channels st1 \<and>
      length (vp_endpoints st') = length (vp_endpoints st)"
    using assms(3) st1 ep1 ms by (auto simp: vp_appStartup_def Let_def split: if_splits)
  then show ?thesis
    using f by (intro main) (simp_all add: channel_wiring_def)
qed

text \<open>C34: In every state with a well-formed configuration and consistent observations, every message
  from a source - for a known or an unknown device, of any type, with or without a state - and
  every pass of the main loop are handled without undefined behaviour and lead to such a state
  again.
\<close>

theorem handlers_total:
  assumes "pdu_wf st" "obs_inv st"
  shows "(\<exists>rv st'. setCallBack_source now nows trv ip st = Some (rv, st') \<and> pdu_wf st' \<and> obs_inv st') \<and>
    (\<exists>rv st'. vp_appLogic locked now es trv st = Some (rv, st') \<and> pdu_wf st' \<and> obs_inv st')"
  using setCallBack_obs [OF assms] appLogic_obs [OF assms] by blast

lemma example_obs: "obs_inv example_pdu"
  by (simp add: example_pdu_defs obs_inv_def obs_at_def All_less_Suc2 numeral_2_eq_2 endpoint_new_def)

theorem handlers_total_witness:
  "pdu_wf example_pdu \<and> (\<exists>rv st'. setCallBack_source 1 (\<lambda>_. 2) 0 example_request example_pdu = Some (rv, st') \<and> pdu_wf st')"
  using handlers_total [OF example_pdu_wf example_obs] example_pdu_wf by blast

definition loaded_pdu :: virtualPDU where
  "loaded_pdu = fresh_pdu\<lparr>vp_pollInterval := 5, vp_staleTimeout := 15,
     vp_endpoints := [endpoint_new\<lparr>ep_device := ''ac'', ep_channel := ''power''\<rparr>], oc_outletStates := [- 1],
     oc_channels := [(''sue'', channelSpec_new\<lparr>cs_outlets := [0], cs_mutex := True\<rparr>)]\<rparr>"

lemma example_load_result: "loadConfigImpl example_vcfg None None fresh_pdu = (0, loaded_pdu)"
proof -
  have "outlet_loadConfig example_vcfg st = (0, st\<lparr>oc_channels := [(''sue'', channelSpec_new\<lparr>cs_outlets := [0], cs_mutex := True\<rparr>)]\<rparr>)"
    if "oc_outletStates st = [- 1]" "oc_firstOne st" "oc_channels st = []" for st :: virtualPDU
    using that by (simp add: outlet_loadConfig_def example_sections example_channel channel_def set_channel_def)
  then show ?thesis
    by (simp add: loadConfigImpl_def fresh_pdu_fields Let_def example_parses example_numbers [simplified] loaded_pdu_def
        setNumberOfOutlets_def reserved_names_def permutation_ok_def channelSpec_new_def)
qed

lemma example_startup: "\<exists>st. vp_appStartup (\<lambda>_. 0) (\<lambda>_ _. 0) loaded_pdu = Some (0, st)"
proof -
  have el: "map_find name (ip_elements (ro_property ty dev nm)) = None"
    "map_find name (ip_elements (IndiProperty_new ty dev nm)) = None" for name ty dev nm
    by (simp_all add: ro_property_def IndiProperty_new_def map_find_def)
  have ch: "oc_channels loaded_pdu = [(''sue'', channelSpec_new\<lparr>cs_outlets := [0], cs_mutex := True\<rparr>)]"
    "oc_outletStates loaded_pdu = [- 1]" "oc_firstOne loaded_pdu"
    by (simp_all add: loaded_pdu_def fresh_pdu_fields)
  have "\<exists>st. outlet_appStartup dev (\<lambda>_. 0) loaded_pdu = Some (0, st)" for dev
    by (simp add: outlet_appStartup_def Let_def ch channel_def set_channel_def add_value_def property_add_def el)
  then obtain st where "outlet_appStartup (vp_configName loaded_pdu) (\<lambda>_. 0) loaded_pdu = Some (0, st)"
    by blast
  then show ?thesis
    by (simp add: vp_appStartup_def Let_def case_prod_beta list_ex_iff)
qed

end
