(* ===== verification/PduTrace.thy ===== *)
theory PduTrace
  imports VirtualPDU
begin

text \<open>
  The virtual PDU and the messages it has received. The handlers are steps that are labelled with
  the messages they take; the state of an outlet is related to the list of all of them.
\<close>

section \<open>Steps and messages\<close>

text \<open>
  The handlers as atomic steps. A channel request is split at its commands, since the mutex is
  released between them: \<open>send\<close> is one command, \<open>sequence\<close> is what the request does to the
  channel's property and time in between. Source messages and the main loop may come at any
  point of a request.
\<close>

inductive vp_step :: "IndiProperty list \<Rightarrow> virtualPDU \<Rightarrow> virtualPDU \<Rightarrow> bool" where
  source: "setCallBack_source now nows trv ip st = Some (rv, st') \<Longrightarrow> vp_step [ip] st st'"
| logic: "vp_appLogic locked now es trv st = Some (rv, st') \<Longrightarrow> vp_step [] st st'"
| send: "sendOutlet target e n st = (rv, st') \<Longrightarrow> vp_step [] st st'"
| sequence: "map_of (oc_channels st) name = Some d \<Longrightarrow> wiring c = wiring d \<Longrightarrow>
    vp_step [] st (emit evs ((set_channel name c st)\<lparr>oc_stateTimes := p\<rparr>))"

inductive_cases vp_stepE: "vp_step ms st st'"






text \<open>A message with \<open>P\<close> was received, and none with \<open>Q\<close> after it.\<close>

definition latest :: "('m \<Rightarrow> bool) \<Rightarrow> ('m \<Rightarrow> bool) \<Rightarrow> 'm list \<Rightarrow> bool" where
  "latest P Q ms \<longleftrightarrow> (\<exists>xs x ys. ms = xs @ x # ys \<and> P x \<and> (\<forall>y \<in> set ys. \<not> Q y))"

lemma latest_Nil [simp]: "\<not> latest P Q []"
  by (simp add: latest_def)




section \<open>Endpoints and sources\<close>







lemma property_find_word: "property_find ''state'' ip \<longleftrightarrow> map_find ''state'' (ip_elements ip) \<noteq> None"
  by (simp add: property_find_def)




section \<open>What is known was received\<close>











section \<open>The start\<close>


















end
