(* ===== verification/Rules.thy ===== *)
theory Rules
  imports Outlets
begin

text \<open>
  The rules of the state rule engine (\<open>apps/stateRuleEngine/indiCompRules.hpp\<close>).

  A rule is a record of what the base class \<open>indiCompRule\<close> keeps and a value of \<open>ruleKind\<close> with
  the data of the derived class. The rules and the properties are owned by two maps
  (\<open>indiRuleMaps\<close>), and a pointer to one of them is the key of the map, \<^const>\<open>None\<close> for
  \<open>nullptr\<close>. \<open>valid\<close> and \<open>value\<close> are virtual and call each other along the rules a
  \<open>ruleCompRule\<close> points to, so the model has a depth of the call stack: \<^const>\<open>None\<close> is a call
  that needs more depth, or undefined behaviour. Exceptions are \<open>Inl\<close> values.

  \<open>double\<close> values are real numbers; rounding is not modelled.
\<close>

section \<open>Numbers in elements\<close>

definition text_sign :: "string \<Rightarrow> bool \<times> string" where
  "text_sign s =
     (case s of [] \<Rightarrow> (False, s)
      | c # cs \<Rightarrow> if c = CHR ''-'' then (True, cs) else if c = CHR ''+'' then (False, cs) else (False, s))"

text \<open>
  Extraction of a \<open>double\<close> from a stream: sign, digits, fraction and exponent. A text that is not
  a number gives 0, and so does an exponent without digits. When there is nothing but white
  space the target is not written, \<^const>\<open>None\<close>.
\<close>

definition parse_double :: "string \<Rightarrow> real option" where
  "parse_double text =
     (let s = dropWhile char_isspace text
      in if s = [] then None
      else
        let (neg, s) = text_sign s;
            ds = takeWhile char_isdigit s;
            s = dropWhile char_isdigit s;
            (fs, s) = (case s of [] \<Rightarrow> ([], s)
                       | c # cs \<Rightarrow> if c = CHR ''.'' then (takeWhile char_isdigit cs, dropWhile char_isdigit cs) else ([], s));
            mant = real (digits_val 0 (ds @ fs)) / 10 ^ length fs;
            mant = (if neg then - mant else mant)
        in if ds @ fs = [] then Some 0
        else case s of
          [] \<Rightarrow> Some mant
        | c # cs \<Rightarrow>
            if c = CHR ''e'' \<or> c = CHR ''E''
            then let (eneg, cs) = text_sign cs; es = takeWhile char_isdigit cs
                 in if es = [] then Some 0
                    else if eneg then Some (mant / 10 ^ digits_val 0 es)
                    else Some (mant * 10 ^ digits_val 0 es)
            else Some mant)"

text \<open>\<open>get<double>\<close>: it returns a variable that is not initialised before the extraction.\<close>

definition get_double :: "IndiElement \<Rightarrow> real option" where
  "get_double e = parse_double (ie_value e)"

section \<open>Comparisons and priorities\<close>

text \<open>\<open>Xor\<close> and \<open>Xnor\<close> are other names of \<open>Neq\<close> and \<open>Eq\<close>.\<close>

datatype ruleComparison = Eq | Neq | Lt | Gt | LtEq | GtEq | And | Nand | Or | Nor | Imply | Nimply

datatype rulePriority = prio_none | prio_info | prio_caution | prio_warning | prio_alert

type_synonym mx_exception = "error_t \<times> string"

type_synonym boolorerr_t = "string + bool"

definition string2comp :: "string \<Rightarrow> mx_exception + ruleComparison" where
  "string2comp cstr =
     (if cstr = ''Eq'' then Inr Eq else if cstr = ''Neq'' then Inr Neq
      else if cstr = ''Lt'' then Inr Lt else if cstr = ''Gt'' then Inr Gt
      else if cstr = ''LtEq'' then Inr LtEq else if cstr = ''GtEq'' then Inr GtEq
      else if cstr = ''And'' then Inr And else if cstr = ''Nand'' then Inr Nand
      else if cstr = ''Or'' then Inr Or else if cstr = ''Nor'' then Inr Nor
      else if cstr = ''Xor'' then Inr Neq else if cstr = ''Xnor'' then Inr Eq
      else if cstr = ''Imply'' then Inr Imply else if cstr = ''Nimply'' then Inr Nimply
      else Inl (invalidarg, cstr @ '' is not a valid comparison''))"

fun comp2string :: "ruleComparison \<Rightarrow> string" where
  "comp2string Eq = ''Eq''"
| "comp2string Neq = ''Neq''"
| "comp2string Lt = ''Lt''"
| "comp2string Gt = ''Gt''"
| "comp2string LtEq = ''LtEq''"
| "comp2string GtEq = ''GtEq''"
| "comp2string And = ''And''"
| "comp2string Nand = ''Nand''"
| "comp2string Or = ''Or''"
| "comp2string Nor = ''Nor''"
| "comp2string Imply = ''Imply''"
| "comp2string Nimply = ''Nimply''"

definition string2priority :: "string \<Rightarrow> mx_exception + rulePriority" where
  "string2priority pstr =
     (if pstr = ''none'' then Inr prio_none else if pstr = ''info'' then Inr prio_info
      else if pstr = ''caution'' then Inr prio_caution else if pstr = ''warning'' then Inr prio_warning
      else if pstr = ''alert'' then Inr prio_alert
      else Inl (invalidarg, pstr @ '' is not a valid priority''))"

section \<open>The classes of rules\<close>

record onePropRule =
  op_type :: PropertyType
  op_property :: "string option"
  op_element :: string

record twoPropRule =
  tp_type :: PropertyType
  tp_property1 :: "string option"
  tp_element1 :: string
  tp_property2 :: "string option"
  tp_element2 :: string

record multiSwitchCombo =
  mc_ruleName :: string
  mc_properties :: "string option list"
  mc_propertyKeys :: "string list"
  mc_multiOn :: "bool list"
  mc_format :: string
  mc_targetProperty :: "string option"
  mc_targetPropertyKey :: string
  mc_targetMultiOn :: bool
  mc_pendingDiagnostics :: "string list"

datatype ruleKind =
    numValRule onePropRule real real \<comment> \<open>target and tolerance\<close>
  | txtValRule onePropRule string
  | swValRule onePropRule SwitchStateType
  | timeDiffRule onePropRule real real
  | elCompNumRule twoPropRule real
  | elCompTxtRule twoPropRule
  | elCompSwRule twoPropRule
  | multiSwitchComboRule multiSwitchCombo
  | ruleCompRule "string option" "string option"

record indiCompRule =
  r_priority :: rulePriority
  r_message :: string
  r_lastMsg :: timespec
  r_messageDelay :: real
  r_messageCount :: int
  r_comparison :: ruleComparison
  r_kind :: ruleKind

fun defaultComparison :: "ruleKind \<Rightarrow> ruleComparison" where
  "defaultComparison (multiSwitchComboRule _) = Neq"
| "defaultComparison (ruleCompRule _ _) = And"
| "defaultComparison _ = Eq"

definition rule_new :: "ruleKind \<Rightarrow> indiCompRule" where
  "rule_new k =
     \<lparr>r_priority = prio_none, r_message = [], r_lastMsg = \<lparr>tv_sec = 0, tv_nsec = 0\<rparr>, r_messageDelay = 0,
      r_messageCount = 0, r_comparison = defaultComparison k, r_kind = k\<rparr>"

fun default_msg_delay :: "rulePriority \<Rightarrow> real" where
  "default_msg_delay prio_info = 0"
| "default_msg_delay prio_caution = 60"
| "default_msg_delay prio_warning = 30"
| "default_msg_delay prio_alert = 5"
| "default_msg_delay prio_none = 0"

definition set_priority :: "rulePriority \<Rightarrow> real \<Rightarrow> indiCompRule \<Rightarrow> indiCompRule" where
  "set_priority p delay r =
     r\<lparr>r_priority := p, r_messageDelay := (if delay < 0 then default_msg_delay p else delay)\<rparr>"

text \<open>
  \<open>message(settime)\<close> and \<open>sinceLastMsg\<close> read the clock; \<^const>\<open>None\<close> is a reading that fails, and
  the call throws (the code translated from \<open>errno\<close> is given as \<^const>\<open>error\<close>).
\<close>

definition rule_message :: "bool \<Rightarrow> timespec option \<Rightarrow> indiCompRule \<Rightarrow> (mx_exception + string) \<times> indiCompRule" where
  "rule_message settime now r =
     (if settime
      then case now of None \<Rightarrow> (Inl (error, ''getting message time''), r)
           | Some t \<Rightarrow> (Inr (r_message r), r\<lparr>r_lastMsg := t\<rparr>)
      else (Inr (r_message r), r))"

definition sinceLastMsg :: "timespec option \<Rightarrow> indiCompRule \<Rightarrow> mx_exception + real" where
  "sinceLastMsg now r =
     (case now of None \<Rightarrow> Inl (error, ''getting current time'') | Some ts \<Rightarrow> Inr (time_of ts - time_of (r_lastMsg r)))"

definition timeToSend :: "timespec option \<Rightarrow> indiCompRule \<Rightarrow> mx_exception + bool" where
  "timeToSend now r =
     (if r_messageDelay r \<le> 0 then Inr (r_messageCount r = 0)
      else if r_messageCount r = 0 then Inr True
      else case sinceLastMsg now r of Inl x \<Rightarrow> Inl x | Inr t \<Rightarrow> Inr (t \<ge> r_messageDelay r))"

definition messageCount :: "int \<Rightarrow> indiCompRule \<Rightarrow> indiCompRule" where
  "messageCount mc r = r\<lparr>r_messageCount := mc\<rparr>"

definition incMessageCount :: "indiCompRule \<Rightarrow> int \<times> indiCompRule" where
  "incMessageCount r = (let r = r\<lparr>r_messageCount := r_messageCount r + 1\<rparr> in (r_messageCount r, r))"

section \<open>Comparing values\<close>

fun compTxt :: "ruleComparison \<Rightarrow> string \<Rightarrow> string \<Rightarrow> boolorerr_t" where
  "compTxt Eq str1 str2 = Inr (str1 = str2)"
| "compTxt Neq str1 str2 = Inr (str1 \<noteq> str2)"
| "compTxt _ _ _ = Inl ''operator not valid for string comparison''"

fun compSw :: "ruleComparison \<Rightarrow> SwitchStateType \<Rightarrow> SwitchStateType \<Rightarrow> boolorerr_t" where
  "compSw Eq sw1 sw2 = Inr (sw1 = sw2)"
| "compSw Neq sw1 sw2 = Inr (sw1 \<noteq> sw2)"
| "compSw _ _ _ = Inl ''operator not valid for switch comparison''"

fun compNum :: "ruleComparison \<Rightarrow> real \<Rightarrow> real \<Rightarrow> real \<Rightarrow> boolorerr_t" where
  "compNum Eq num1 num2 tol = Inr (\<bar>num1 - num2\<bar> \<le> tol)"
| "compNum Neq num1 num2 tol = Inr (\<bar>num1 - num2\<bar> > tol)"
| "compNum Lt num1 num2 tol = Inr (num1 < num2)"
| "compNum Gt num1 num2 tol = Inr (num1 > num2)"
| "compNum LtEq num1 num2 tol = Inr (if \<bar>num1 - num2\<bar> \<le> tol then True else num1 < num2)"
| "compNum GtEq num1 num2 tol = Inr (if \<bar>num1 - num2\<bar> \<le> tol then True else num1 > num2)"
| "compNum _ _ _ _ = Inl ''operator not valid for compNum''"

fun compBool :: "ruleComparison \<Rightarrow> bool \<Rightarrow> bool \<Rightarrow> boolorerr_t" where
  "compBool Eq b1 b2 = Inr (b1 = b2)"
| "compBool Neq b1 b2 = Inr (b1 \<noteq> b2)"
| "compBool And b1 b2 = Inr (b1 \<and> b2)"
| "compBool Nand b1 b2 = Inr (\<not> (b1 \<and> b2))"
| "compBool Or b1 b2 = Inr (b1 \<or> b2)"
| "compBool Nor b1 b2 = Inr (\<not> b1 \<and> \<not> b2)"
| "compBool Imply b1 b2 = Inr (\<not> b1 \<or> b2)"
| "compBool Nimply b1 b2 = Inr (b1 \<and> \<not> b2)"
| "compBool _ _ _ = Inl ''operator not valid for ruleCompRule''"


section \<open>The maps of rules and properties\<close>

record indiRuleMaps =
  rm_rules :: "(string, indiCompRule) std_map"
  rm_props :: "(string, IndiProperty) std_map"

type_synonym prop_map = "(string, IndiProperty) std_map"

subsection \<open>Setters\<close>

definition onePropRule_new :: "PropertyType \<Rightarrow> onePropRule" where
  "onePropRule_new ty = \<lparr>op_type = ty, op_property = None, op_element = []\<rparr>"

definition twoPropRule_new :: "PropertyType \<Rightarrow> twoPropRule" where
  "twoPropRule_new ty =
     \<lparr>tp_type = ty, tp_property1 = None, tp_element1 = [], tp_property2 = None, tp_element2 = []\<rparr>"

definition multiSwitchCombo_new :: multiSwitchCombo where
  "multiSwitchCombo_new =
     \<lparr>mc_ruleName = [], mc_properties = [], mc_propertyKeys = [], mc_multiOn = [], mc_format = [],
      mc_targetProperty = None, mc_targetPropertyKey = [], mc_targetMultiOn = False, mc_pendingDiagnostics = []\<rparr>"

text \<open>
  The checks a property setter makes of its argument; what the pointer refers to is read from
  the map, \<^const>\<open>None\<close> for a pointer that refers to nothing.
\<close>

definition check_property ::
  "prop_map \<Rightarrow> PropertyType \<Rightarrow> string \<Rightarrow> string option \<Rightarrow> (mx_exception + string) option" where
  "check_property props ty what p =
     (case p of
        None \<Rightarrow> Some (Inl (invalidarg, what @ '' is nullptr''))
      | Some q \<Rightarrow>
          do { ip \<leftarrow> map_find q props;
               if ip_type ip \<noteq> ty then Some (Inl (invalidconfig, what @ '' is not correct type''))
               else Some (Inr q) })"

definition onePropRule_property ::
  "prop_map \<Rightarrow> string option \<Rightarrow> onePropRule \<Rightarrow> (mx_exception + onePropRule) option" where
  "onePropRule_property props p r =
     do { rv \<leftarrow> check_property props (op_type r) ''property'' p;
          Some (case rv of Inl x \<Rightarrow> Inl x | Inr q \<Rightarrow> Inr (r\<lparr>op_property := Some q\<rparr>)) }"

definition twoPropRule_property1 ::
  "prop_map \<Rightarrow> string option \<Rightarrow> twoPropRule \<Rightarrow> (mx_exception + twoPropRule) option" where
  "twoPropRule_property1 props p r =
     do { rv \<leftarrow> check_property props (tp_type r) ''property'' p;
          Some (case rv of Inl x \<Rightarrow> Inl x | Inr q \<Rightarrow> Inr (r\<lparr>tp_property1 := Some q\<rparr>)) }"

definition twoPropRule_property2 ::
  "prop_map \<Rightarrow> string option \<Rightarrow> twoPropRule \<Rightarrow> (mx_exception + twoPropRule) option" where
  "twoPropRule_property2 props p r =
     do { rv \<leftarrow> check_property props (tp_type r) ''property'' p;
          Some (case rv of Inl x \<Rightarrow> Inl x | Inr q \<Rightarrow> Inr (r\<lparr>tp_property2 := Some q\<rparr>)) }"

definition multiSwitchCombo_property ::
  "prop_map \<Rightarrow> string option \<Rightarrow> string \<Rightarrow> multiSwitchCombo \<Rightarrow> (mx_exception + multiSwitchCombo) option" where
  "multiSwitchCombo_property props p key r =
     do { rv \<leftarrow> check_property props Switch ''property'' p;
          Some (case rv of
                  Inl x \<Rightarrow> Inl x
                | Inr q \<Rightarrow> Inr (r\<lparr>mc_properties := mc_properties r @ [Some q],
                                mc_propertyKeys := mc_propertyKeys r @ [key],
                                mc_multiOn := mc_multiOn r @ [False]\<rparr>)) }"

definition multiSwitchCombo_targetProperty ::
  "prop_map \<Rightarrow> string option \<Rightarrow> multiSwitchCombo \<Rightarrow> (mx_exception + multiSwitchCombo) option" where
  "multiSwitchCombo_targetProperty props p r =
     do { rv \<leftarrow> check_property props Switch ''targetProperty'' p;
          Some (case rv of Inl x \<Rightarrow> Inl x | Inr q \<Rightarrow> Inr (r\<lparr>mc_targetProperty := Some q\<rparr>)) }"

text \<open>The tolerance setter of the numeric rules, and the switch target given as text.\<close>

definition check_tol :: "real \<Rightarrow> mx_exception + real" where
  "check_tol t = (if t < 0 then Inl (invalidarg, ''tolerance can't be negative'') else Inr t)"

definition swVal_target :: "string \<Rightarrow> mx_exception + SwitchStateType" where
  "swVal_target s =
     (if s = ''On'' then Inr On else if s = ''Off'' then Inr Off else Inl (invalidarg, ''invalid switch state''))"

subsection \<open>Validity\<close>

definition onePropRule_valid :: "prop_map \<Rightarrow> onePropRule \<Rightarrow> boolorerr_t option" where
  "onePropRule_valid props r =
     (case op_property r of
        None \<Rightarrow> Some (Inl ''property is null'')
      | Some q \<Rightarrow>
          do { p \<leftarrow> map_find q props;
               Some (if \<not> property_find (op_element r) p then Inl ''element is not found'' else Inr True) })"

definition twoPropRule_valid :: "prop_map \<Rightarrow> twoPropRule \<Rightarrow> boolorerr_t option" where
  "twoPropRule_valid props r =
     (case tp_property1 r of
        None \<Rightarrow> Some (Inl ''property1 is null'')
      | Some q1 \<Rightarrow>
          do { p1 \<leftarrow> map_find q1 props;
               if \<not> property_find (tp_element1 r) p1 then Some (Inl ''element1 is not found'')
               else case tp_property2 r of
                 None \<Rightarrow> Some (Inl ''property2 is null'')
               | Some q2 \<Rightarrow>
                   do { p2 \<leftarrow> map_find q2 props;
                        Some (if \<not> property_find (tp_element2 r) p2 then Inl ''element2 is not found'' else Inr True) } })"

text \<open>Count plain \<open>{}\<close> placeholders; the flag is \<open>invalidBraces\<close>.\<close>

fun formatPlaceholders :: "string \<Rightarrow> nat \<times> bool" where
  "formatPlaceholders [] = (0, False)"
| "formatPlaceholders (c # cs) =
     (if c = CHR ''{''
      then case cs of
             [] \<Rightarrow> (0, True)
           | d # ds \<Rightarrow> if d = CHR ''}'' then (let (count, inv) = formatPlaceholders ds in (Suc count, inv)) else (0, True)
      else if c = CHR ''}'' then (0, True)
      else formatPlaceholders cs)"

fun check_sources :: "prop_map \<Rightarrow> nat \<Rightarrow> (string option \<times> string) list \<Rightarrow> boolorerr_t option" where
  "check_sources props n [] = Some (Inr True)"
| "check_sources props n ((p, key) # srcs) =
     (case p of
        None \<Rightarrow> Some (Inl (''property'' @ fmt0 1 (int n + 1) @ '' is nullptr''))
      | Some q \<Rightarrow>
          do { ip \<leftarrow> map_find q props;
               if ip_type ip \<noteq> Switch then Some (Inl (''property'' @ fmt0 1 (int n + 1) @ '' is not a switch property''))
               else if key = [] then Some (Inl (''property'' @ fmt0 1 (int n + 1) @ '' key is empty''))
               else check_sources props (Suc n) srcs })"

definition multiSwitchCombo_valid :: "prop_map \<Rightarrow> ruleComparison \<Rightarrow> multiSwitchCombo \<Rightarrow> boolorerr_t option" where
  "multiSwitchCombo_valid props cmp r =
     (if length (mc_properties r) = 0 then Some (Inl ''no source switch properties configured'')
      else if length (mc_properties r) \<noteq> length (mc_propertyKeys r) \<or> length (mc_properties r) \<noteq> length (mc_multiOn r)
      then Some (Inl ''source switch configuration is inconsistent'')
      else
        do { rv \<leftarrow> check_sources props 0 (zip (mc_properties r) (mc_propertyKeys r));
             case rv of
               Inl e \<Rightarrow> Some (Inl e)
             | Inr _ \<Rightarrow>
                 (case mc_targetProperty r of
                    None \<Rightarrow> Some (Inl ''targetProperty is nullptr'')
                  | Some q \<Rightarrow>
                      do { ip \<leftarrow> map_find q props;
                           if ip_type ip \<noteq> Switch then Some (Inl ''targetProperty is not a switch property'')
                           else if mc_targetPropertyKey r = [] then Some (Inl ''targetProperty key is empty'')
                           else
                             let (placeholders, invalidBraces) = formatPlaceholders (mc_format r)
                             in if invalidBraces then Some (Inl ''format only supports literal {} placeholders'')
                             else if placeholders \<noteq> length (mc_properties r)
                             then Some (Inl (''format placeholder count '' @ fmt0 1 (int placeholders) @
                                          '' does not match numSwitches '' @ fmt0 1 (int (length (mc_properties r)))))
                             else if cmp \<noteq> Eq \<and> cmp \<noteq> Neq then Some (Inl ''operator not valid for multiSwitchComboRule'')
                             else Some (Inr True) }) })"

text \<open>\<open>valid()\<close> of every rule that does not point to other rules.\<close>

fun leaf_valid :: "prop_map \<Rightarrow> ruleComparison \<Rightarrow> ruleKind \<Rightarrow> boolorerr_t option" where
  "leaf_valid props cmp (numValRule r _ _) = onePropRule_valid props r"
| "leaf_valid props cmp (txtValRule r _) = onePropRule_valid props r"
| "leaf_valid props cmp (swValRule r _) = onePropRule_valid props r"
| "leaf_valid props cmp (timeDiffRule r _ _) = onePropRule_valid props r"
| "leaf_valid props cmp (elCompNumRule r _) = twoPropRule_valid props r"
| "leaf_valid props cmp (elCompTxtRule r) = twoPropRule_valid props r"
| "leaf_valid props cmp (elCompSwRule r) = twoPropRule_valid props r"
| "leaf_valid props cmp (multiSwitchComboRule r) = multiSwitchCombo_valid props cmp r"
| "leaf_valid props cmp (ruleCompRule _ _) = None"

text \<open>\<open>valid()\<close> of a rule of the maps; \<open>d\<close> is the depth of the call stack.\<close>

fun rule_valid :: "nat \<Rightarrow> indiRuleMaps \<Rightarrow> string \<Rightarrow> boolorerr_t option" where
  "rule_valid 0 m name = None"
| "rule_valid (Suc d) m name =
     do { r \<leftarrow> map_find name (rm_rules m);
          case r_kind r of
            ruleCompRule r1 r2 \<Rightarrow>
              (case r1 of None \<Rightarrow> Some (Inl ''rule1 is nullptr'') | Some n1 \<Rightarrow>
               (case r2 of None \<Rightarrow> Some (Inl ''rule2 is nullptr'') | Some n2 \<Rightarrow>
                do { rv \<leftarrow> rule_valid d m n1;
                     case rv of
                       Inl e \<Rightarrow> Some (Inl e)
                     | Inr _ \<Rightarrow>
                         do { rv \<leftarrow> rule_valid d m n2;
                              case rv of Inl e \<Rightarrow> Some (Inl e) | Inr _ \<Rightarrow> Some (Inr True) } }))
          | k \<Rightarrow> leaf_valid (rm_props m) (r_comparison r) k }"

subsection \<open>Values\<close>

definition element_of :: "prop_map \<Rightarrow> string option \<Rightarrow> string \<Rightarrow> IndiElement option" where
  "element_of props p el =
     do { q \<leftarrow> p; ip \<leftarrow> map_find q props; map_find el (ip_elements ip) }"

text \<open>An error of a check or a comparison is thrown.\<close>

definition throw_error :: "boolorerr_t \<Rightarrow> mx_exception + bool" where
  "throw_error rv = (case rv of Inl e \<Rightarrow> Inl (invalidconfig, e) | Inr b \<Rightarrow> Inr b)"

definition multiOn_message :: "string \<Rightarrow> string \<Rightarrow> string" where
  "multiOn_message ruleName propertyKey =
     ''multiSwitchCombo rule '' @ (if ruleName = [] then ''<unnamed>'' else ruleName) @
     '' found multiple switch elements On in '' @ propertyKey @ ''; using empty string''"

text \<open>The name, the new latch and the diagnostics added.\<close>

definition activeName :: "string \<Rightarrow> IndiProperty \<Rightarrow> string \<Rightarrow> bool \<Rightarrow> string \<times> bool \<times> string list" where
  "activeName ruleName p propertyKey multiOnLatched =
     (case filter (\<lambda>(k, e). ie_switch e = On) (ip_elements p) of
        [] \<Rightarrow> ([], False, [])
      | [(active, _)] \<Rightarrow> (active, False, [])
      | _ \<Rightarrow> ([], True, if \<not> multiOnLatched then [multiOn_message ruleName propertyKey] else []))"

fun formatCombo :: "string list \<Rightarrow> string \<Rightarrow> string option" where
  "formatCombo vals [] = Some []"
| "formatCombo vals (c # cs) =
     (if c = CHR ''{'' \<and> cs \<noteq> [] \<and> hd cs = CHR ''}''
      then case vals of [] \<Rightarrow> None | v # vs \<Rightarrow> map_option ((@) v) (formatCombo vs (tl cs))
      else map_option (Cons c) (formatCombo vals cs))"

fun active_names ::
  "prop_map \<Rightarrow> string \<Rightarrow> (string option \<times> string \<times> bool) list \<Rightarrow> (string list \<times> bool list \<times> string list) option" where
  "active_names props rn [] = Some ([], [], [])"
| "active_names props rn ((p, key, latch) # srcs) =
     do { q \<leftarrow> p;
          ip \<leftarrow> map_find q props;
          (names, latches, diags') \<leftarrow> active_names props rn srcs;
          let (a, l, diags) = activeName rn ip key latch;
          Some (a # names, l # latches, diags @ diags') }"

definition multiSwitchCombo_value ::
  "prop_map \<Rightarrow> ruleComparison \<Rightarrow> multiSwitchCombo \<Rightarrow> ((mx_exception + bool) \<times> multiSwitchCombo) option" where
  "multiSwitchCombo_value props cmp r =
     do { rv \<leftarrow> multiSwitchCombo_valid props cmp r;
          case rv of
            Inl e \<Rightarrow> Some (Inl (invalidconfig, e), r)
          | Inr _ \<Rightarrow>
              do { (names, latches, diags) \<leftarrow>
                     active_names props (mc_ruleName r) (zip (mc_properties r) (zip (mc_propertyKeys r) (mc_multiOn r)));
                   comboName \<leftarrow> formatCombo names (mc_format r);
                   q \<leftarrow> mc_targetProperty r;
                   target \<leftarrow> map_find q props;
                   let (targetName, latch, diags') =
                     activeName (mc_ruleName r) target (mc_targetPropertyKey r) (mc_targetMultiOn r);
                   Some (throw_error (compTxt cmp comboName targetName),
                         r\<lparr>mc_multiOn := latches, mc_targetMultiOn := latch,
                           mc_pendingDiagnostics := mc_pendingDiagnostics r @ diags @ diags'\<rparr>) } }"

definition numValRule_value ::
  "prop_map \<Rightarrow> ruleComparison \<Rightarrow> onePropRule \<Rightarrow> real \<Rightarrow> real \<Rightarrow> (mx_exception + bool) option" where
  "numValRule_value props cmp r target tol =
     do { rv \<leftarrow> onePropRule_valid props r;
          case rv of
            Inl e \<Rightarrow> Some (Inl (invalidconfig, e))
          | Inr _ \<Rightarrow>
              do { e \<leftarrow> element_of props (op_property r) (op_element r);
                   val \<leftarrow> get_double e;
                   Some (throw_error (compNum cmp val target tol)) } }"

definition txtValRule_value ::
  "prop_map \<Rightarrow> ruleComparison \<Rightarrow> onePropRule \<Rightarrow> string \<Rightarrow> (mx_exception + bool) option" where
  "txtValRule_value props cmp r target =
     do { rv \<leftarrow> onePropRule_valid props r;
          case rv of
            Inl e \<Rightarrow> Some (Inl (invalidconfig, e))
          | Inr _ \<Rightarrow>
              do { e \<leftarrow> element_of props (op_property r) (op_element r);
                   Some (throw_error (compTxt cmp (ie_value e) target)) } }"

definition swValRule_value ::
  "prop_map \<Rightarrow> ruleComparison \<Rightarrow> onePropRule \<Rightarrow> SwitchStateType \<Rightarrow> (mx_exception + bool) option" where
  "swValRule_value props cmp r target =
     do { rv \<leftarrow> onePropRule_valid props r;
          case rv of
            Inl e \<Rightarrow> Some (Inl (invalidconfig, e))
          | Inr _ \<Rightarrow>
              do { e \<leftarrow> element_of props (op_property r) (op_element r);
                   Some (throw_error (compSw cmp (ie_switch e) target)) } }"

text \<open>\<open>now\<close> is the reading of the clock.\<close>

definition timeDiffRule_value ::
  "timespec \<Rightarrow> prop_map \<Rightarrow> ruleComparison \<Rightarrow> onePropRule \<Rightarrow> real \<Rightarrow> real \<Rightarrow> (mx_exception + bool) option" where
  "timeDiffRule_value now props cmp r target tol =
     do { rv \<leftarrow> onePropRule_valid props r;
          case rv of
            Inl e \<Rightarrow> Some (Inl (invalidconfig, e))
          | Inr _ \<Rightarrow>
              do { e \<leftarrow> element_of props (op_property r) (op_element r);
                   t \<leftarrow> get_double e;
                   Some (throw_error (compNum cmp (time_of now - t) target tol)) } }"

definition elCompNumRule_value ::
  "prop_map \<Rightarrow> ruleComparison \<Rightarrow> twoPropRule \<Rightarrow> real \<Rightarrow> (mx_exception + bool) option" where
  "elCompNumRule_value props cmp r tol =
     do { rv \<leftarrow> twoPropRule_valid props r;
          case rv of
            Inl e \<Rightarrow> Some (Inl (invalidconfig, e))
          | Inr _ \<Rightarrow>
              do { e1 \<leftarrow> element_of props (tp_property1 r) (tp_element1 r);
                   e2 \<leftarrow> element_of props (tp_property2 r) (tp_element2 r);
                   v1 \<leftarrow> get_double e1;
                   v2 \<leftarrow> get_double e2;
                   Some (throw_error (compNum cmp v1 v2 tol)) } }"

definition elCompTxtRule_value :: "prop_map \<Rightarrow> ruleComparison \<Rightarrow> twoPropRule \<Rightarrow> (mx_exception + bool) option" where
  "elCompTxtRule_value props cmp r =
     do { rv \<leftarrow> twoPropRule_valid props r;
          case rv of
            Inl e \<Rightarrow> Some (Inl (invalidconfig, e))
          | Inr _ \<Rightarrow>
              do { e1 \<leftarrow> element_of props (tp_property1 r) (tp_element1 r);
                   e2 \<leftarrow> element_of props (tp_property2 r) (tp_element2 r);
                   Some (throw_error (compTxt cmp (ie_value e1) (ie_value e2))) } }"

definition elCompSwRule_value :: "prop_map \<Rightarrow> ruleComparison \<Rightarrow> twoPropRule \<Rightarrow> (mx_exception + bool) option" where
  "elCompSwRule_value props cmp r =
     do { rv \<leftarrow> twoPropRule_valid props r;
          case rv of
            Inl e \<Rightarrow> Some (Inl (invalidconfig, e))
          | Inr _ \<Rightarrow>
              do { e1 \<leftarrow> element_of props (tp_property1 r) (tp_element1 r);
                   e2 \<leftarrow> element_of props (tp_property2 r) (tp_element2 r);
                   Some (throw_error (compSw cmp (ie_switch e1) (ie_switch e2))) } }"

lemmas leaf_value_defs =
  numValRule_value_def txtValRule_value_def swValRule_value_def timeDiffRule_value_def
  elCompNumRule_value_def elCompTxtRule_value_def elCompSwRule_value_def

text \<open>The virtual call \<open>value()\<close> of a rule that does not point to other rules; only a combination
  changes its own data.\<close>

fun leaf_value ::
  "timespec \<Rightarrow> prop_map \<Rightarrow> ruleComparison \<Rightarrow> ruleKind \<Rightarrow> ((mx_exception + bool) \<times> ruleKind) option" where
  "leaf_value now props cmp (numValRule r target tol) =
     do { v \<leftarrow> numValRule_value props cmp r target tol; Some (v, numValRule r target tol) }"
| "leaf_value now props cmp (txtValRule r target) =
     do { v \<leftarrow> txtValRule_value props cmp r target; Some (v, txtValRule r target) }"
| "leaf_value now props cmp (swValRule r target) =
     do { v \<leftarrow> swValRule_value props cmp r target; Some (v, swValRule r target) }"
| "leaf_value now props cmp (timeDiffRule r target tol) =
     do { v \<leftarrow> timeDiffRule_value now props cmp r target tol; Some (v, timeDiffRule r target tol) }"
| "leaf_value now props cmp (elCompNumRule r tol) =
     do { v \<leftarrow> elCompNumRule_value props cmp r tol; Some (v, elCompNumRule r tol) }"
| "leaf_value now props cmp (elCompTxtRule r) =
     do { v \<leftarrow> elCompTxtRule_value props cmp r; Some (v, elCompTxtRule r) }"
| "leaf_value now props cmp (elCompSwRule r) =
     do { v \<leftarrow> elCompSwRule_value props cmp r; Some (v, elCompSwRule r) }"
| "leaf_value now props cmp (multiSwitchComboRule r) =
     do { (v, r) \<leftarrow> multiSwitchCombo_value props cmp r; Some (v, multiSwitchComboRule r) }"
| "leaf_value now props cmp (ruleCompRule _ _) = None"

text \<open>
  \<open>value()\<close> of a rule of the maps. C++ leaves the order of the two calls that are arguments of
  \<open>compBool\<close> to the compiler: \<open>ltr\<close> is its choice. \<open>clk\<close> gives the readings of the clock,
  one for each position in the tree of calls.
\<close>

fun rule_value ::
  "nat \<Rightarrow> bool \<Rightarrow> (bool list \<Rightarrow> timespec) \<Rightarrow> string \<Rightarrow> indiRuleMaps \<Rightarrow> ((mx_exception + bool) \<times> indiRuleMaps) option" where
  "rule_value 0 ltr clk name m = None"
| "rule_value (Suc d) ltr clk name m =
     do { r \<leftarrow> map_find name (rm_rules m);
          case r_kind r of
            ruleCompRule r1 r2 \<Rightarrow>
              do { rv \<leftarrow> rule_valid (Suc d) m name;
                   case rv of
                     Inl e \<Rightarrow> Some (Inl (invalidconfig, e), m)
                   | Inr _ \<Rightarrow>
                       do { n1 \<leftarrow> r1;
                            n2 \<leftarrow> r2;
                            let clk1 = (\<lambda>p. clk (False # p));
                            let clk2 = (\<lambda>p. clk (True # p));
                            (va, m) \<leftarrow> (if ltr then rule_value d ltr clk1 n1 m else rule_value d ltr clk2 n2 m);
                            case va of
                              Inl x \<Rightarrow> Some (Inl x, m)
                            | Inr a \<Rightarrow>
                                do { (vb, m) \<leftarrow> (if ltr then rule_value d ltr clk2 n2 m else rule_value d ltr clk1 n1 m);
                                     case vb of
                                       Inl x \<Rightarrow> Some (Inl x, m)
                                     | Inr b \<Rightarrow>
                                         Some (throw_error (if ltr then compBool (r_comparison r) a b
                                                            else compBool (r_comparison r) b a), m) } } }
          | k \<Rightarrow>
              do { (v, k') \<leftarrow> leaf_value (clk []) (rm_props m) (r_comparison r) k;
                   Some (v, m\<lparr>rm_rules := map_assign name (r\<lparr>r_kind := k'\<rparr>) (rm_rules m)\<rparr>) } }"

subsection \<open>Diagnostics\<close>

definition multiSwitchCombo_pop :: "multiSwitchCombo \<Rightarrow> string option \<times> multiSwitchCombo" where
  "multiSwitchCombo_pop c =
     (case mc_pendingDiagnostics c of
        [] \<Rightarrow> (None, c)
      | x # xs \<Rightarrow> (Some x, c\<lparr>mc_pendingDiagnostics := xs\<rparr>))"

text \<open>The virtual call: the other leaves have no diagnostics.\<close>

fun popRuntimeDiagnostic :: "nat \<Rightarrow> string \<Rightarrow> indiRuleMaps \<Rightarrow> (string option \<times> indiRuleMaps) option" where
  "popRuntimeDiagnostic 0 name m = None"
| "popRuntimeDiagnostic (Suc d) name m =
     do { r \<leftarrow> map_find name (rm_rules m);
          case r_kind r of
            multiSwitchComboRule c \<Rightarrow>
              let (x, c) = multiSwitchCombo_pop c
              in Some (x, m\<lparr>rm_rules := map_assign name (r\<lparr>r_kind := multiSwitchComboRule c\<rparr>) (rm_rules m)\<rparr>)
          | ruleCompRule r1 r2 \<Rightarrow>
              do { (x, m) \<leftarrow> (case r1 of None \<Rightarrow> Some (None, m) | Some n1 \<Rightarrow> popRuntimeDiagnostic d n1 m);
                   if x \<noteq> None then Some (x, m)
                   else (case r2 of None \<Rightarrow> Some (None, m) | Some n2 \<Rightarrow> popRuntimeDiagnostic d n2 m) }
          | _ \<Rightarrow> Some (None, m) }"

end
