(* ===== verification/RuleEval.thy ===== *)
theory RuleEval
  imports Rules
begin

text \<open>
  Evaluation of rules: it terminates when the rules do not call each other in a cycle, its result
  is the value of a Boolean expression over the leaves, independent of the stack and of the
  order of evaluation, and it changes nothing but latches and diagnostics.
\<close>

section \<open>Pointers, and the graph of rules\<close>

fun kind_props :: "ruleKind \<Rightarrow> string option list" where
  "kind_props (numValRule r _ _) = [op_property r]"
| "kind_props (txtValRule r _) = [op_property r]"
| "kind_props (swValRule r _) = [op_property r]"
| "kind_props (timeDiffRule r _ _) = [op_property r]"
| "kind_props (elCompNumRule r _) = [tp_property1 r, tp_property2 r]"
| "kind_props (elCompTxtRule r) = [tp_property1 r, tp_property2 r]"
| "kind_props (elCompSwRule r) = [tp_property1 r, tp_property2 r]"
| "kind_props (multiSwitchComboRule r) = mc_targetProperty r # mc_properties r"
| "kind_props (ruleCompRule _ _) = []"

fun kind_rules :: "ruleKind \<Rightarrow> string option list" where
  "kind_rules (ruleCompRule r1 r2) = [r1, r2]"
| "kind_rules _ = []"

fun kind_numbers :: "ruleKind \<Rightarrow> (string option \<times> string) list" where
  "kind_numbers (numValRule r _ _) = [(op_property r, op_element r)]"
| "kind_numbers (timeDiffRule r _ _) = [(op_property r, op_element r)]"
| "kind_numbers (elCompNumRule r _) = [(tp_property1 r, tp_element1 r), (tp_property2 r, tp_element2 r)]"
| "kind_numbers _ = []"

definition points_into :: "(string, 'v) std_map \<Rightarrow> string option \<Rightarrow> bool" where
  "points_into m p = (case p of None \<Rightarrow> True | Some q \<Rightarrow> map_find q m \<noteq> None)"

text \<open>No pointer dangles.\<close>

definition pointers_ok :: "indiRuleMaps \<Rightarrow> bool" where
  "pointers_ok m \<longleftrightarrow>
     map_wf (rm_rules m) \<and>
     list_all (\<lambda>(n, r). list_all (points_into (rm_props m)) (kind_props (r_kind r)) \<and>
                        list_all (points_into (rm_rules m)) (kind_rules (r_kind r))) (rm_rules m)"

text \<open>No element that is read as a number is blank.\<close>

definition numbers_filled :: "indiRuleMaps \<Rightarrow> bool" where
  "numbers_filled m \<longleftrightarrow>
     list_all (\<lambda>(n, r). list_all (\<lambda>(p, el). case element_of (rm_props m) p el of
                                     None \<Rightarrow> True | Some e \<Rightarrow> get_double e \<noteq> None)
                          (kind_numbers (r_kind r))) (rm_rules m)"

definition calls :: "indiRuleMaps \<Rightarrow> (string \<times> string) set" where
  "calls m = {(n, n'). \<exists>r. map_find n (rm_rules m) = Some r \<and> Some n' \<in> set (kind_rules (r_kind r))}"

definition is_ruleComp :: "ruleKind \<Rightarrow> bool" where
  "is_ruleComp k \<longleftrightarrow> (case k of ruleCompRule _ _ \<Rightarrow> True | _ \<Rightarrow> False)"

lemma is_ruleComp_simps [simp]:
  "is_ruleComp (ruleCompRule r1 r2)" "\<not> is_ruleComp (numValRule o1 x y)" "\<not> is_ruleComp (txtValRule o1 s)"
  "\<not> is_ruleComp (swValRule o1 w)" "\<not> is_ruleComp (timeDiffRule o1 x y)" "\<not> is_ruleComp (elCompNumRule t1 x)"
  "\<not> is_ruleComp (elCompTxtRule t1)" "\<not> is_ruleComp (elCompSwRule t1)" "\<not> is_ruleComp (multiSwitchComboRule c)"
  by (simp_all add: is_ruleComp_def)

lemma rule_valid_leaf:
  "map_find n (rm_rules m) = Some r \<Longrightarrow> \<not> is_ruleComp (r_kind r) \<Longrightarrow>
     rule_valid (Suc d) m n = leaf_valid (rm_props m) (r_comparison r) (r_kind r)"
  by (cases "r_kind r") auto

lemma rule_value_leaf:
  "map_find n (rm_rules m) = Some r \<Longrightarrow> \<not> is_ruleComp (r_kind r) \<Longrightarrow>
     rule_value (Suc d) ltr clk n m =
       do { (v, k') \<leftarrow> leaf_value (clk []) (rm_props m) (r_comparison r) (r_kind r);
            Some (v, m\<lparr>rm_rules := map_assign n (r\<lparr>r_kind := k'\<rparr>) (rm_rules m)\<rparr>) }"
  by (cases "r_kind r") auto

lemma is_ruleComp_obtain:
  assumes "is_ruleComp k"
  obtains r1 r2 where "k = ruleCompRule r1 r2"
  using assms by (cases k) auto

lemma pointers_okD:
  assumes "pointers_ok m" "map_find n (rm_rules m) = Some r"
  shows "list_all (points_into (rm_props m)) (kind_props (r_kind r))"
    and "list_all (points_into (rm_rules m)) (kind_rules (r_kind r))"
  using assms by (auto simp: pointers_ok_def list_all_find)

lemma numbers_filledD:
  assumes "numbers_filled m" "pointers_ok m" "map_find n (rm_rules m) = Some r"
  shows "list_all (\<lambda>(p, el). \<forall>e. element_of (rm_props m) p el = Some e \<longrightarrow> get_double e \<noteq> None) (kind_numbers (r_kind r))"
proof -
  have "map_wf (rm_rules m)" using assms(2) by (simp add: pointers_ok_def)
  with assms(1,3) have "list_all (\<lambda>(p, el). case element_of (rm_props m) p el of
      None \<Rightarrow> True | Some e \<Rightarrow> get_double e \<noteq> None) (kind_numbers (r_kind r))"
    by (auto simp: numbers_filled_def list_all_find)
  then show ?thesis
    by (rule list.pred_mono_strong) (auto split: option.splits)
qed

subsection \<open>A rank for acyclic rules\<close>

definition reach :: "indiRuleMaps \<Rightarrow> string \<Rightarrow> string set" where
  "reach m n = {n'. (n, n') \<in> (calls m)\<^sup>+}"

lemma calls_keys: "pointers_ok m \<Longrightarrow> (n, n') \<in> calls m \<Longrightarrow> n' \<in> fst ` set (rm_rules m)"
  using pointers_okD(2) by (fastforce simp: calls_def points_into_def list_all_iff map_find_def map_of_eq_None_iff)

lemma reach_keys: "pointers_ok m \<Longrightarrow> reach m n \<subseteq> fst ` set (rm_rules m)"
  using calls_keys by (auto simp: reach_def elim: tranclE)

lemma reach_finite: "pointers_ok m \<Longrightarrow> finite (reach m n)"
  using reach_keys finite_subset by blast

lemma reach_less:
  assumes "pointers_ok m" "acyclic (calls m)" "(n, n') \<in> calls m"
  shows "card (reach m n') < card (reach m n)"
proof (rule psubset_card_mono [OF reach_finite [OF assms(1)]])
  have "n' \<in> reach m n" using assms(3) by (auto simp: reach_def)
  moreover have "n' \<notin> reach m n'" using assms(2) by (auto simp: reach_def acyclic_def)
  moreover have "reach m n' \<subseteq> reach m n"
    using assms(3) by (auto simp: reach_def intro: trancl_into_trancl2)
  ultimately show "reach m n' \<subset> reach m n" by blast
qed

lemma reach_bound:
  assumes "pointers_ok m" "acyclic (calls m)" "map_find n (rm_rules m) \<noteq> None"
  shows "card (reach m n) < length (rm_rules m)"
proof -
  have n: "n \<in> fst ` set (rm_rules m)"
    using assms(3) by (simp add: map_find_def map_of_eq_None_iff)
  have "n \<notin> reach m n" using assms(2) by (auto simp: reach_def acyclic_def)
  then have "reach m n \<subset> fst ` set (rm_rules m)"
    using n reach_keys [OF assms(1)] by blast
  then have "card (reach m n) < card (fst ` set (rm_rules m))"
    by (rule psubset_card_mono [rotated]) simp
  also have "\<dots> \<le> length (rm_rules m)"
    by (metis card_length length_map list.set_map)
  finally show ?thesis .
qed

lemma bind_total: "x \<noteq> None \<Longrightarrow> (\<And>a. x = Some a \<Longrightarrow> f a \<noteq> None) \<Longrightarrow> x \<bind> f \<noteq> None"
  by (cases x) auto

lemma check_sources_total:
  "list_all (points_into props) ps \<Longrightarrow> check_sources props i (zip ps ks) \<noteq> None"
proof (induction ps arbitrary: ks i)
  case (Cons p ps)
  then show ?case
    by (cases ks) (auto simp: points_into_def split: option.splits)
qed simp

lemma multi_valid_total:
  assumes "list_all (points_into props) (mc_targetProperty c # mc_properties c)"
  shows "multiSwitchCombo_valid props cmp c \<noteq> None"
proof -
  have "check_sources props 0 (zip (mc_properties c) (mc_propertyKeys c)) \<noteq> None"
    using assms by (intro check_sources_total) simp
  moreover have "mc_targetProperty c = Some q \<Longrightarrow> \<exists>ip. map_find q props = Some ip" for q
    using assms by (simp add: points_into_def)
  ultimately show ?thesis
    unfolding multiSwitchCombo_valid_def
    by (fastforce simp: Let_def intro!: bind_total split: sum.split option.split prod.split)
qed

lemma leaf_valid_total:
  assumes "list_all (points_into props) (kind_props k)" "\<not> is_ruleComp k"
  shows "leaf_valid props cmp k \<noteq> None"
  using assms multi_valid_total
  by (cases k) (auto simp: onePropRule_valid_def twoPropRule_valid_def points_into_def split: option.splits)

lemma rule_valid_depth:
  assumes "pointers_ok m" "acyclic (calls m)"
  shows "map_find n (rm_rules m) \<noteq> None \<Longrightarrow> card (reach m n) < d \<Longrightarrow> rule_valid d m n \<noteq> None"
proof (induction d arbitrary: n)
  case (Suc d)
  then obtain r where r: "map_find n (rm_rules m) = Some r" by auto
  show ?case
  proof (cases "is_ruleComp (r_kind r)")
    case False
    then show ?thesis
      using leaf_valid_total pointers_okD(1) [OF assms(1) r] by (simp add: rule_valid_leaf [OF r] del: rule_valid.simps)
  next
    case True
    then obtain r1 r2 where k: "r_kind r = ruleCompRule r1 r2" by (rule is_ruleComp_obtain)
    have sub: "rule_valid d m n' \<noteq> None" if "Some n' \<in> {r1, r2}" for n'
    proof (rule Suc.IH)
      have c: "(n, n') \<in> calls m" using that r k by (auto simp: calls_def)
      show "card (reach m n') < d" using reach_less [OF assms c] Suc.prems by simp
      show "map_find n' (rm_rules m) \<noteq> None"
        using calls_keys [OF assms(1) c] by (simp add: map_find_def map_of_eq_None_iff)
    qed
    show ?thesis using r k sub by (auto split: option.split sum.split intro!: bind_total [unfolded not_None_eq])
  qed
qed simp


section \<open>What evaluation may change\<close>

text \<open>
  The configured part of the rules. Evaluation changes only the latches and the pending
  diagnostics; the engine changes the count and the time of the messages besides.
\<close>

fun static_kind :: "ruleKind \<Rightarrow> ruleKind" where
  "static_kind (multiSwitchComboRule c) =
     multiSwitchComboRule (c\<lparr>mc_multiOn := map (\<lambda>_. False) (mc_multiOn c), mc_targetMultiOn := False,
                             mc_pendingDiagnostics := []\<rparr>)"
| "static_kind k = k"

definition static_rule :: "indiCompRule \<Rightarrow> indiCompRule" where
  "static_rule r =
     r\<lparr>r_kind := static_kind (r_kind r), r_messageCount := 0, r_lastMsg := \<lparr>tv_sec = 0, tv_nsec = 0\<rparr>\<rparr>"

definition static :: "indiRuleMaps \<Rightarrow> indiRuleMaps" where
  "static m = m\<lparr>rm_rules := map (map_prod id static_rule) (rm_rules m)\<rparr>"

lemma static_rule_simps [simp]:
  "r_comparison (static_rule r) = r_comparison r" "r_kind (static_rule r) = static_kind (r_kind r)"
  "r_priority (static_rule r) = r_priority r" "r_message (static_rule r) = r_message r"
  by (simp_all add: static_rule_def)

lemma static_kind_simps [simp]:
  "kind_props (static_kind k) = kind_props k" "kind_rules (static_kind k) = kind_rules k"
  "kind_numbers (static_kind k) = kind_numbers k" "is_ruleComp (static_kind k) = is_ruleComp k"
  "static_kind (static_kind k) = static_kind k"
  by (cases k; simp)+

lemma static_props [simp]: "rm_props (static m) = rm_props m"
  by (simp add: static_def)

lemma map_find_map: "map_find k (map (map_prod id f) m) = map_option f (map_find k m)"
  by (induction m) (auto simp: map_find_def)

lemma map_assign_map:
  "map (map_prod id f) (map_assign k v m) = map_assign k (f v) (map (map_prod id f) m)"
  by (induction k v m rule: map_assign.induct) auto

lemma map_wf_map [simp]: "map_wf (map (map_prod id f) m) = map_wf m"
  by (simp add: map_wf_def comp_def)

lemma static_find [simp]: "map_find n (rm_rules (static m)) = map_option static_rule (map_find n (rm_rules m))"
  by (simp add: static_def map_find_map)

lemma static_wf [simp]: "map_wf (rm_rules (static m)) = map_wf (rm_rules m)"
  by (simp add: static_def)

lemma static_length [simp]: "length (rm_rules (static m)) = length (rm_rules m)"
  by (simp add: static_def)

lemma points_into_static [simp]: "points_into (rm_rules (static m)) = points_into (rm_rules m)"
  by (auto simp: points_into_def fun_eq_iff split: option.splits)

lemma pointers_ok_static [simp]: "pointers_ok (static m) = pointers_ok m"
proof -
  have "list_all P (rm_rules (static m)) = list_all (P \<circ> map_prod id static_rule) (rm_rules m)" for P
    by (simp add: static_def list.pred_map)
  then show ?thesis
    by (simp add: pointers_ok_def comp_def case_prod_unfold)
qed

lemma numbers_filled_static [simp]: "numbers_filled (static m) = numbers_filled m"
  by (simp add: numbers_filled_def static_def list.pred_map comp_def case_prod_unfold)

lemma calls_static [simp]: "calls (static m) = calls m"
  by (fastforce simp: calls_def)

lemma reach_static [simp]: "reach (static m) = reach m"
  by (simp add: reach_def fun_eq_iff)

lemma multi_valid_latches:
  "length ls = length (mc_multiOn c) \<Longrightarrow>
     multiSwitchCombo_valid props cmp (c\<lparr>mc_multiOn := ls, mc_targetMultiOn := l, mc_pendingDiagnostics := ds\<rparr>) =
     multiSwitchCombo_valid props cmp c"
  by (cases c) (simp only: multiSwitchCombo_valid_def multiSwitchCombo.simps)

lemma leaf_valid_static [simp]: "leaf_valid props cmp (static_kind k) = leaf_valid props cmp k"
  by (cases k) (simp_all add: multi_valid_latches)

lemma rule_valid_static [simp]: "rule_valid d (static m) n = rule_valid d m n"
proof (induction d arbitrary: n)
  case (Suc d)
  show ?case
  proof (cases "map_find n (rm_rules m)")
    case (Some r)
    show ?thesis
    proof (cases "is_ruleComp (r_kind r)")
      case True
      then obtain r1 r2 where "r_kind r = ruleCompRule r1 r2" by (rule is_ruleComp_obtain)
      with Some Suc show ?thesis by (simp cong: option.case_cong sum.case_cong)
    next
      case False
      have "rule_valid (Suc d) (static m) n = leaf_valid (rm_props m) (r_comparison r) (static_kind (r_kind r))"
        using rule_valid_leaf [of n "static m" "static_rule r" d] False Some by (simp del: rule_valid.simps)
      then show ?thesis
        by (simp only: rule_valid_leaf [OF Some False] leaf_valid_static)
    qed
  qed simp
qed simp

lemma active_names_Cons:
  "active_names props rn ((p, key, l) # srcs) = Some (names, latches, diags) \<longleftrightarrow>
     (\<exists>q ip names' latches' diags'.
        p = Some q \<and> map_find q props = Some ip \<and> active_names props rn srcs = Some (names', latches', diags') \<and>
        names = fst (activeName rn ip key l) # names' \<and>
        latches = fst (snd (activeName rn ip key l)) # latches' \<and>
        diags = snd (snd (activeName rn ip key l)) @ diags')"
  unfolding active_names.simps bind_eq_Some_conv Let_def case_prod_unfold
  by (simp add: eq_commute)

lemma active_names_lengths:
  "active_names props rn srcs = Some (names, latches, diags) \<Longrightarrow>
     length names = length srcs \<and> length latches = length srcs"
proof (induction srcs arbitrary: names latches diags)
  case (Cons src srcs)
  obtain p k l where src: "src = (p, k, l)" by (cases src) auto
  from Cons.prems obtain a names' l' latches' diags' where 1:
    "active_names props rn srcs = Some (names', latches', diags')" "names = a # names'" "latches = l' # latches'"
    unfolding src active_names_Cons by blast
  from Cons.IH [OF 1(1)] show ?case unfolding 1(2,3) by simp
qed simp

lemma active_names_total:
  assumes "list_all (\<lambda>p. \<exists>q ip. p = Some q \<and> map_find q props = Some ip) ps"
  shows "active_names props rn (zip ps kls) \<noteq> None"
  using assms
proof (induction ps arbitrary: kls)
  case (Cons p ps)
  then obtain q ip where "p = Some q" "map_find q props = Some ip" by auto
  moreover have "active_names props rn (zip ps kls) \<noteq> None" for kls
    using Cons by simp
  ultimately show ?case
    by (cases kls; cases "hd kls") (simp_all add: case_prod_unfold Let_def Option.bind_eq_None_conv del: not_None_eq)
qed simp

lemma formatCombo_total:
  "formatPlaceholders fmt = (length vals, False) \<Longrightarrow> formatCombo vals fmt \<noteq> None"
proof (induction fmt arbitrary: vals rule: formatPlaceholders.induct)
  case (2 c cs)
  show ?case
  proof (cases "c = CHR ''{''")
    case True
    with 2(3) obtain ds where cs: "cs = CHR ''}'' # ds"
      by (auto split: list.splits if_splits)
    with 2(3) True obtain v vs where "vals = v # vs" "formatPlaceholders ds = (length vs, False)"
      by (cases vals) (auto split: prod.splits)
    with 2(1) True cs show ?thesis by simp
  next
    case False
    with 2 show ?thesis by (auto split: if_splits)
  qed
qed simp


lemma check_sources_resolved:
  "check_sources props i (zip ps ks) = Some (Inr b) \<Longrightarrow> length ks = length ps \<Longrightarrow>
     list_all (\<lambda>p. \<exists>q ip. p = Some q \<and> map_find q props = Some ip) ps"
proof (induction ps arbitrary: i ks)
  case (Cons p ps)
  then obtain k ks' where ks: "ks = k # ks'" "length ks' = length ps" by (cases ks) auto
  show ?case
  proof (cases p)
    case None
    then show ?thesis using Cons.prems ks by simp
  next
    case (Some q)
    with Cons.prems ks obtain ip where ip: "map_find q props = Some ip"
      by (cases "map_find q props") auto
    then have "check_sources props (Suc i) (zip ps ks') = Some (Inr b)"
      using Cons.prems(1) Some ks by (simp split: if_splits)
    with Cons.IH [OF _ ks(2)] Some ip show ?thesis by simp
  qed
qed simp

text \<open>What a valid combination rule has.\<close>

lemma multi_validD:
  assumes "multiSwitchCombo_valid props cmp c = Some (Inr b)"
  shows "length (mc_propertyKeys c) = length (mc_properties c)" "length (mc_multiOn c) = length (mc_properties c)"
    and "list_all (\<lambda>p. \<exists>q ip. p = Some q \<and> map_find q props = Some ip) (mc_properties c)"
    and "\<exists>q ip. mc_targetProperty c = Some q \<and> map_find q props = Some ip"
    and "formatPlaceholders (mc_format c) = (length (mc_properties c), False)"
    and "cmp = Eq \<or> cmp = Neq" and "b = True"
proof -
  show len: "length (mc_propertyKeys c) = length (mc_properties c)" "length (mc_multiOn c) = length (mc_properties c)"
    using assms by (auto simp: multiSwitchCombo_valid_def split: if_splits)
  obtain b' where src: "check_sources props 0 (zip (mc_properties c) (mc_propertyKeys c)) = Some (Inr b')"
  proof -
    obtain rv where "check_sources props 0 (zip (mc_properties c) (mc_propertyKeys c)) = Some rv"
      using assms by (auto simp: multiSwitchCombo_valid_def bind_eq_Some_conv split: if_splits)
    moreover from this have "rv \<noteq> Inl e" for e
      using assms by (auto simp: multiSwitchCombo_valid_def split: if_splits)
    ultimately show thesis by (cases rv) (auto intro: that)
  qed
  then show "list_all (\<lambda>p. \<exists>q ip. p = Some q \<and> map_find q props = Some ip) (mc_properties c)"
    using check_sources_resolved len(1) by blast
  obtain q where q: "mc_targetProperty c = Some q"
    using assms src by (cases "mc_targetProperty c") (auto simp: multiSwitchCombo_valid_def split: if_splits)
  obtain ip where ip: "map_find q props = Some ip"
    using assms src q by (cases "map_find q props") (auto simp: multiSwitchCombo_valid_def split: if_splits)
  show "\<exists>q ip. mc_targetProperty c = Some q \<and> map_find q props = Some ip" using q ip by blast
  obtain ph inv where fp: "formatPlaceholders (mc_format c) = (ph, inv)" by (cases "formatPlaceholders (mc_format c)")
  have "\<not> inv \<and> ph = length (mc_properties c) \<and> (cmp = Eq \<or> cmp = Neq) \<and> b = True"
    using assms src q ip fp by (simp add: multiSwitchCombo_valid_def split: if_splits)
  then show "formatPlaceholders (mc_format c) = (length (mc_properties c), False)" "cmp = Eq \<or> cmp = Neq" "b = True"
    using fp by simp_all
qed

lemma multi_value_valid:
  assumes "multiSwitchCombo_valid props cmp c = Some (Inr b)"
  obtains names latches diags combo q target tn l ds where
    "active_names props (mc_ruleName c) (zip (mc_properties c) (zip (mc_propertyKeys c) (mc_multiOn c))) =
       Some (names, latches, diags)"
    "length names = length (mc_properties c)" "length latches = length (mc_properties c)"
    "formatCombo names (mc_format c) = Some combo"
    "mc_targetProperty c = Some q" "map_find q props = Some target"
    "activeName (mc_ruleName c) target (mc_targetPropertyKey c) (mc_targetMultiOn c) = (tn, l, ds)"
    "multiSwitchCombo_value props cmp c =
       Some (throw_error (compTxt cmp combo tn),
             c\<lparr>mc_multiOn := latches, mc_targetMultiOn := l,
               mc_pendingDiagnostics := mc_pendingDiagnostics c @ diags @ ds\<rparr>)"
proof -
  note v = multi_validD [OF assms]
  obtain names latches diags where an:
    "active_names props (mc_ruleName c) (zip (mc_properties c) (zip (mc_propertyKeys c) (mc_multiOn c))) =
       Some (names, latches, diags)"
    using active_names_total [OF v(3)] by (metis not_None_eq prod_cases3)
  have len: "length names = length (mc_properties c)" "length latches = length (mc_properties c)"
    using active_names_lengths [OF an] v(1,2) by simp_all
  obtain combo where fc: "formatCombo names (mc_format c) = Some combo"
    using formatCombo_total [of "mc_format c" names] v(5) len by auto
  obtain q target where t: "mc_targetProperty c = Some q" "map_find q props = Some target"
    using v(4) by blast
  obtain tn l ds where at:
    "activeName (mc_ruleName c) target (mc_targetPropertyKey c) (mc_targetMultiOn c) = (tn, l, ds)"
    by (metis prod_cases3)
  show thesis
    by (rule that [OF an len fc t at]) (simp add: multiSwitchCombo_value_def assms an fc t at)
qed

lemma multi_value_total:
  assumes "multiSwitchCombo_valid props cmp c \<noteq> None"
  shows "\<exists>v c'. multiSwitchCombo_value props cmp c = Some (v, c') \<and>
    static_kind (multiSwitchComboRule c') = static_kind (multiSwitchComboRule c) \<and>
    (\<forall>e. multiSwitchCombo_valid props cmp c = Some (Inl e) \<longrightarrow> v = Inl (invalidconfig, e))"
proof (cases "the (multiSwitchCombo_valid props cmp c)")
  case (Inl e)
  then have "multiSwitchCombo_valid props cmp c = Some (Inl e)" using assms by auto
  then show ?thesis by (auto simp: multiSwitchCombo_value_def)
next
  case (Inr b)
  then have valid: "multiSwitchCombo_valid props cmp c = Some (Inr b)" using assms by auto
  then show ?thesis
    by (rule multi_value_valid) (use valid multi_validD(2) [OF valid] in \<open>simp add: map_replicate_const\<close>)
qed

lemma leaf_value_total:
  assumes "list_all (points_into props) (kind_props k)"
    and "list_all (\<lambda>(p, el). \<forall>e. element_of props p el = Some e \<longrightarrow> get_double e \<noteq> None) (kind_numbers k)"
    and "\<not> is_ruleComp k"
  shows "\<exists>v k'. leaf_value now props cmp k = Some (v, k') \<and> static_kind k' = static_kind k \<and>
    (\<forall>e. leaf_valid props cmp k = Some (Inl e) \<longrightarrow> v = Inl (invalidconfig, e))"
proof (cases k)
  case (multiSwitchComboRule c)
  with assms(1) have "multiSwitchCombo_valid props cmp c \<noteq> None" by (intro multi_valid_total) simp
  from multi_value_total [OF this] multiSwitchComboRule show ?thesis by auto
qed (use assms in \<open>auto simp: leaf_value_defs onePropRule_valid_def twoPropRule_valid_def points_into_def element_of_def
        property_find_def split: option.splits\<close>)


section \<open>The meaning of a rule\<close>

text \<open>
  What the comparisons mean: intervals of the difference of two numbers, equality, and truth
  tables. \<^const>\<open>None\<close> is a comparison that does not apply.
\<close>

fun interval :: "ruleComparison \<Rightarrow> real \<Rightarrow> real set option" where
  "interval Eq tol = Some {- tol .. tol}"
| "interval Neq tol = Some (- {- tol .. tol})"
| "interval Lt tol = Some {..< 0}"
| "interval Gt tol = Some {0 <..}"
| "interval LtEq tol = Some ({..< 0} \<union> {.. tol})"
| "interval GtEq tol = Some ({0 <..} \<union> {- tol ..})"
| "interval _ _ = None"

definition number_meaning :: "ruleComparison \<Rightarrow> real \<Rightarrow> real \<Rightarrow> bool option" where
  "number_meaning cmp tol d = map_option (\<lambda>S. d \<in> S) (interval cmp tol)"

definition equal_meaning :: "ruleComparison \<Rightarrow> bool \<Rightarrow> bool option" where
  "equal_meaning cmp same = (if cmp = Eq then Some same else if cmp = Neq then Some (\<not> same) else None)"

fun truth_table :: "ruleComparison \<Rightarrow> (bool \<times> bool) set option" where
  "truth_table Eq = Some {(False, False), (True, True)}"
| "truth_table Neq = Some {(False, True), (True, False)}"
| "truth_table And = Some {(True, True)}"
| "truth_table Nand = Some {(False, False), (False, True), (True, False)}"
| "truth_table Or = Some {(False, True), (True, False), (True, True)}"
| "truth_table Nor = Some {(False, False)}"
| "truth_table Imply = Some {(False, False), (False, True), (True, True)}"
| "truth_table Nimply = Some {(True, False)}"
| "truth_table _ = None"

definition bool_op :: "ruleComparison \<Rightarrow> bool option \<Rightarrow> bool option \<Rightarrow> bool option" where
  "bool_op cmp a b = do { x \<leftarrow> a; y \<leftarrow> b; S \<leftarrow> truth_table cmp; Some ((x, y) \<in> S) }"

text \<open>
  The text of a combination: its format with the names in the places of the placeholders; every
  brace of the format belongs to a placeholder.
\<close>

inductive combo_text :: "string \<Rightarrow> string list \<Rightarrow> string \<Rightarrow> bool" where
  empty: "combo_text [] [] []"
| literal: "c \<notin> {CHR ''{'', CHR ''}''} \<Longrightarrow> combo_text fmt names out \<Longrightarrow> combo_text (c # fmt) names (c # out)"
| hole: "combo_text fmt names out \<Longrightarrow> combo_text (''{}'' @ fmt) (name # names) (name @ out)"

inductive_simps combo_text_simps: "combo_text [] names out" "combo_text (c # fmt) names out"

text \<open>The name of the switch that is On when there is exactly one.\<close>

definition active_switch :: "IndiProperty \<Rightarrow> string" where
  "active_switch p =
     (let on = filter (\<lambda>(k, e). ie_switch e = On) (ip_elements p) in if length on = 1 then fst (hd on) else [])"

definition active_of :: "prop_map \<Rightarrow> string option \<Rightarrow> string" where
  "active_of props p = active_switch (the (map_find (the p) props))"

definition combo_source :: "prop_map \<Rightarrow> string option \<Rightarrow> string \<Rightarrow> bool" where
  "combo_source props p key \<longleftrightarrow> key \<noteq> [] \<and> (\<exists>q ip. p = Some q \<and> map_find q props = Some ip \<and> ip_type ip = Switch)"

definition combo_ok :: "prop_map \<Rightarrow> multiSwitchCombo \<Rightarrow> bool" where
  "combo_ok props c \<longleftrightarrow>
     mc_properties c \<noteq> [] \<and> length (mc_multiOn c) = length (mc_properties c) \<and>
     list_all2 (combo_source props) (mc_properties c) (mc_propertyKeys c) \<and>
     combo_source props (mc_targetProperty c) (mc_targetPropertyKey c) \<and>
     (\<exists>out. combo_text (mc_format c) (map (active_of props) (mc_properties c)) out)"

definition combo_meaning :: "prop_map \<Rightarrow> ruleComparison \<Rightarrow> multiSwitchCombo \<Rightarrow> bool option" where
  "combo_meaning props cmp c =
     (if combo_ok props c
      then equal_meaning cmp (combo_text (mc_format c) (map (active_of props) (mc_properties c))
                                (active_of props (mc_targetProperty c)))
      else None)"

text \<open>The value of a rule that does not point to other rules, from what was received.\<close>

fun leaf_meaning :: "timespec \<Rightarrow> prop_map \<Rightarrow> ruleComparison \<Rightarrow> ruleKind \<Rightarrow> bool option" where
  "leaf_meaning now props cmp (numValRule r target tol) =
     do { e \<leftarrow> element_of props (op_property r) (op_element r); x \<leftarrow> get_double e; number_meaning cmp tol (x - target) }"
| "leaf_meaning now props cmp (timeDiffRule r target tol) =
     do { e \<leftarrow> element_of props (op_property r) (op_element r); x \<leftarrow> get_double e;
          number_meaning cmp tol (time_of now - x - target) }"
| "leaf_meaning now props cmp (txtValRule r target) =
     do { e \<leftarrow> element_of props (op_property r) (op_element r); equal_meaning cmp (ie_value e = target) }"
| "leaf_meaning now props cmp (swValRule r target) =
     do { e \<leftarrow> element_of props (op_property r) (op_element r); equal_meaning cmp (ie_switch e = target) }"
| "leaf_meaning now props cmp (elCompNumRule r tol) =
     do { e1 \<leftarrow> element_of props (tp_property1 r) (tp_element1 r); e2 \<leftarrow> element_of props (tp_property2 r) (tp_element2 r);
          x1 \<leftarrow> get_double e1; x2 \<leftarrow> get_double e2; number_meaning cmp tol (x1 - x2) }"
| "leaf_meaning now props cmp (elCompTxtRule r) =
     do { e1 \<leftarrow> element_of props (tp_property1 r) (tp_element1 r); e2 \<leftarrow> element_of props (tp_property2 r) (tp_element2 r);
          equal_meaning cmp (ie_value e1 = ie_value e2) }"
| "leaf_meaning now props cmp (elCompSwRule r) =
     do { e1 \<leftarrow> element_of props (tp_property1 r) (tp_element1 r); e2 \<leftarrow> element_of props (tp_property2 r) (tp_element2 r);
          equal_meaning cmp (ie_switch e1 = ie_switch e2) }"
| "leaf_meaning now props cmp (multiSwitchComboRule c) = combo_meaning props cmp c"
| "leaf_meaning now props cmp (ruleCompRule _ _) = None"

definition value_ok :: "mx_exception + bool \<Rightarrow> bool option" where
  "value_ok v = (case v of Inl _ \<Rightarrow> None | Inr b \<Rightarrow> Some b)"

lemma value_ok_simps [simp]: "value_ok (Inl x) = None" "value_ok (Inr b) = Some b"
  by (simp_all add: value_ok_def)

lemma compNum_meaning: "value_ok (throw_error (compNum cmp x y tol)) = number_meaning cmp tol (x - y)"
  by (cases cmp) (auto simp: value_ok_def throw_error_def number_meaning_def)

lemma compTxt_meaning: "value_ok (throw_error (compTxt cmp x y)) = equal_meaning cmp (x = y)"
  by (cases cmp) (auto simp: value_ok_def throw_error_def equal_meaning_def)

lemma compSw_meaning: "value_ok (throw_error (compSw cmp x y)) = equal_meaning cmp (x = y)"
  by (cases cmp) (auto simp: value_ok_def throw_error_def equal_meaning_def)

lemma compBool_meaning: "value_ok (throw_error (compBool cmp x y)) = bool_op cmp (Some x) (Some y)"
  by (cases cmp) (auto simp: value_ok_def throw_error_def bool_op_def)

lemma combo_text_placeholders:
  "formatPlaceholders fmt = (length names, False) \<longleftrightarrow> (\<exists>out. combo_text fmt names out)"
proof (induction fmt arbitrary: names rule: formatPlaceholders.induct)
  case (2 c cs)
  show ?case
  proof (cases "c = CHR ''{''")
    case True
    show ?thesis
    proof (cases "\<exists>ds. cs = CHR ''}'' # ds")
      case cs: True
      then obtain ds where ds: "cs = CHR ''}'' # ds" by blast
      have IH: "formatPlaceholders ds = (length ns, False) \<longleftrightarrow> (\<exists>out. combo_text ds ns out)" for ns
        using 2(1) [OF True ds refl] .
      obtain n inv where p: "formatPlaceholders ds = (n, inv)" by (cases "formatPlaceholders ds")
      show ?thesis
      proof (cases names)
        case (Cons a ns)
        have "(\<exists>out. combo_text (c # cs) names out) \<longleftrightarrow> (\<exists>out. combo_text ds ns out)"
          using True ds Cons by (auto simp: combo_text_simps)
        then show ?thesis using IH [of ns] True ds Cons p by auto
      qed (use True ds p in \<open>auto simp: combo_text_simps\<close>)
    next
      case False
      then show ?thesis using True by (auto simp: combo_text_simps split: list.splits)
    qed
  next
    case False
    then show ?thesis using 2(2) by (auto simp: combo_text_simps)
  qed
qed (auto simp: combo_text_simps)

lemma formatCombo_text:
  "combo_text fmt names out \<Longrightarrow> formatCombo names fmt = Some out"
  by (induction rule: combo_text.induct) auto

lemma activeName_switch: "fst (activeName rn p key l) = active_switch p"
  by (auto simp: activeName_def active_switch_def Let_def split: list.split)

lemma active_names_switch:
  "active_names props rn (zip ps kls) = Some (names, latches, diags) \<Longrightarrow> length kls = length ps \<Longrightarrow>
     names = map (active_of props) ps"
proof (induction ps arbitrary: kls names latches diags)
  case (Cons p ps)
  then obtain k l kls' where kls: "kls = (k, l) # kls'" by (cases kls) auto
  from Cons.prems(1) Cons.IH [of kls'] Cons.prems(2) show ?case
    unfolding kls zip_Cons_Cons active_names_Cons by (auto simp: active_of_def activeName_switch)
qed simp

lemma check_sources_ok:
  "check_sources props i (zip ps ks) = Some rv \<Longrightarrow> length ks = length ps \<Longrightarrow>
     (\<exists>b. rv = Inr b) \<longleftrightarrow> list_all2 (combo_source props) ps ks"
proof (induction ps arbitrary: i ks)
  case (Cons p ps)
  then obtain k ks' where "ks = k # ks'" by (cases ks) auto
  with Cons.prems Cons.IH [of "Suc i" ks'] show ?case
    by (cases p; cases "map_find (the p) props") (auto simp: combo_source_def split: if_splits)
qed auto

lemma multi_valid_ok:
  assumes "multiSwitchCombo_valid props cmp c = Some rv"
  shows "(\<exists>b. rv = Inr b) \<longleftrightarrow> combo_ok props c \<and> (cmp = Eq \<or> cmp = Neq)"
proof (cases "mc_properties c = [] \<or> length (mc_properties c) \<noteq> length (mc_propertyKeys c) \<or>
    length (mc_properties c) \<noteq> length (mc_multiOn c)")
  case True
  then show ?thesis
    using assms by (auto simp: multiSwitchCombo_valid_def combo_ok_def dest: list_all2_lengthD split: if_splits)
next
  case False
  let ?src = "check_sources props 0 (zip (mc_properties c) (mc_propertyKeys c))"
  obtain rs where rs: "?src = Some rs"
    using assms False by (cases ?src) (auto simp: multiSwitchCombo_valid_def)
  note src = check_sources_ok [OF rs]
  have fp: "formatPlaceholders (mc_format c) = (length (mc_properties c), False) \<longleftrightarrow>
      (\<exists>out. combo_text (mc_format c) (map (active_of props) (mc_properties c)) out)"
    using combo_text_placeholders [of "mc_format c" "map (active_of props) (mc_properties c)"] by simp
  show ?thesis
  proof (cases rs)
    case (Inl e)
    then show ?thesis using assms False rs src by (auto simp: multiSwitchCombo_valid_def combo_ok_def)
  next
    case (Inr b)
    obtain ph inv where p: "formatPlaceholders (mc_format c) = (ph, inv)" by (cases "formatPlaceholders (mc_format c)")
    show ?thesis
      using assms False rs src Inr fp p
      by (cases "mc_targetProperty c"; cases "map_find (the (mc_targetProperty c)) props")
        (auto simp: multiSwitchCombo_valid_def combo_ok_def combo_source_def split: if_splits)
  qed
qed

lemma combo_value_meaning:
  assumes "multiSwitchCombo_value props cmp c = Some (v, c')"
  shows "value_ok v = combo_meaning props cmp c"
proof -
  obtain rv where rv: "multiSwitchCombo_valid props cmp c = Some rv"
    using assms by (cases "multiSwitchCombo_valid props cmp c") (auto simp: multiSwitchCombo_value_def)
  note ok = multi_valid_ok [OF rv]
  show ?thesis
  proof (cases rv)
    case (Inl e)
    with ok have "\<not> combo_ok props c \<or> cmp \<noteq> Eq \<and> cmp \<noteq> Neq" by auto
    then show ?thesis using assms rv Inl
      by (auto simp: multiSwitchCombo_value_def value_ok_def combo_meaning_def equal_meaning_def)
  next
    case (Inr b)
    with ok have c: "combo_ok props c" by auto
    obtain names latches diags combo q target tn l ds where 1:
      "active_names props (mc_ruleName c) (zip (mc_properties c) (zip (mc_propertyKeys c) (mc_multiOn c))) =
         Some (names, latches, diags)"
      "formatCombo names (mc_format c) = Some combo" "mc_targetProperty c = Some q" "map_find q props = Some target"
      "activeName (mc_ruleName c) target (mc_targetPropertyKey c) (mc_targetMultiOn c) = (tn, l, ds)"
      "v = throw_error (compTxt cmp combo tn)"
      by (rule multi_value_valid [OF rv [unfolded Inr]]) (use assms in auto)
    have names: "names = map (active_of props) (mc_properties c)"
      using active_names_switch [OF 1(1)] multi_validD(1,2) [OF rv [unfolded Inr]] by simp
    obtain out where out: "combo_text (mc_format c) names out" using c names by (auto simp: combo_ok_def)
    have "combo_text (mc_format c) names t \<longleftrightarrow> combo = t" for t
      using formatCombo_text [of "mc_format c" names] 1(2) out by (metis option.inject)
    moreover have "tn = active_of props (mc_targetProperty c)"
      using activeName_switch [of "mc_ruleName c" target "mc_targetPropertyKey c" "mc_targetMultiOn c"] 1(3-5)
      by (simp add: active_of_def)
    ultimately show ?thesis using c names 1(6) by (simp add: combo_meaning_def compTxt_meaning)
  qed
qed

lemma leaf_value_meaning:
  assumes "leaf_value now props cmp k = Some (v, k')"
  shows "value_ok v = leaf_meaning now props cmp k"
proof (cases k)
  case (multiSwitchComboRule c)
  with assms show ?thesis by (auto simp: bind_eq_Some_conv intro: combo_value_meaning)
qed (use assms in \<open>auto simp: leaf_value_defs onePropRule_valid_def twoPropRule_valid_def element_of_def property_find_def
       bind_eq_Some_conv compNum_meaning compTxt_meaning compSw_meaning
       split: option.splits if_splits\<close>)

lemma leaf_meaning_static [simp]: "leaf_meaning now props cmp (static_kind k) = leaf_meaning now props cmp k"
  by (cases k) (simp_all add: combo_meaning_def combo_ok_def cong: conj_cong if_cong)

text \<open>
  The value of a rule as an expression over the values of its leaves, with no stack, no validity
  check in advance, no order of evaluation and no change of state. \<^const>\<open>None\<close> is a rule whose
  evaluation throws.
\<close>

inductive rule_denotes :: "indiRuleMaps \<Rightarrow> (bool list \<Rightarrow> timespec) \<Rightarrow> string \<Rightarrow> bool option \<Rightarrow> bool" for m where
  leaf: "map_find n (rm_rules m) = Some r \<Longrightarrow> \<not> is_ruleComp (r_kind r) \<Longrightarrow>
         rule_denotes m clk n (leaf_meaning (clk []) (rm_props m) (r_comparison r) (r_kind r))"
| null: "map_find n (rm_rules m) = Some r \<Longrightarrow> r_kind r = ruleCompRule r1 r2 \<Longrightarrow> r1 = None \<or> r2 = None \<Longrightarrow>
         rule_denotes m clk n None"
| comp: "map_find n (rm_rules m) = Some r \<Longrightarrow> r_kind r = ruleCompRule (Some n1) (Some n2) \<Longrightarrow>
         rule_denotes m (\<lambda>p. clk (False # p)) n1 v1 \<Longrightarrow> rule_denotes m (\<lambda>p. clk (True # p)) n2 v2 \<Longrightarrow>
         rule_denotes m clk n (bool_op (r_comparison r) v1 v2)"

lemma rule_denotes_leaf:
  "map_find n (rm_rules m) = Some r \<Longrightarrow> \<not> is_ruleComp (r_kind r) \<Longrightarrow>
     leaf_value (clk []) (rm_props m) (r_comparison r) (r_kind r) = Some (v, k') \<Longrightarrow> rule_denotes m clk n (value_ok v)"
  using rule_denotes.leaf leaf_value_meaning by metis

inductive_cases rule_denotesE: "rule_denotes m clk n v"

lemma rule_denotes_fun: "rule_denotes m clk n v \<Longrightarrow> rule_denotes m clk n w \<Longrightarrow> v = w"
proof (induction arbitrary: w rule: rule_denotes.induct)
  case (leaf n r clk)
  from leaf.prems show ?case by (rule rule_denotesE) (use leaf.hyps in auto)
next
  case (null n r r1 r2 clk)
  from null.prems show ?case by (rule rule_denotesE) (use null.hyps in auto)
next
  case (comp n r n1 n2 clk v1 v2)
  from comp.prems obtain w1 w2 where
    "rule_denotes m (\<lambda>p. clk (False # p)) n1 w1" "rule_denotes m (\<lambda>p. clk (True # p)) n2 w2"
    "w = bool_op (r_comparison r) w1 w2"
    by (rule rule_denotesE) (use comp.hyps(1,2) in auto)
  then show ?case using comp.IH(1) [of w1] comp.IH(2) [of w2] by simp
qed

lemma static_eq_find:
  assumes "static m' = static m" "map_find n (rm_rules m) = Some r"
  obtains r' where "map_find n (rm_rules m') = Some r'" "static_rule r' = static_rule r"
proof -
  have "map_option static_rule (map_find n (rm_rules m')) = Some (static_rule r)"
    using static_find [of n m] static_find [of n m'] assms by simp
  then show thesis using that by (cases "map_find n (rm_rules m')") auto
qed

lemma rule_denotes_static1: "rule_denotes m clk n v \<Longrightarrow> static m' = static m \<Longrightarrow> rule_denotes m' clk n v"
proof (induction rule: rule_denotes.induct)
  case (leaf n r clk)
  obtain r' where r': "map_find n (rm_rules m') = Some r'" "static_rule r' = static_rule r"
    by (rule static_eq_find [OF leaf.prems leaf.hyps(1)])
  have "leaf_meaning (clk []) (rm_props m') (r_comparison r') (r_kind r') =
      leaf_meaning (clk []) (rm_props m) (r_comparison r) (r_kind r)"
    using leaf r' by (metis leaf_meaning_static static_props static_rule_simps(1,2))
  moreover have "\<not> is_ruleComp (r_kind r')"
    using leaf(2) r'(2) by (metis static_kind_simps(4) static_rule_simps(2))
  ultimately show ?case using r' by (metis rule_denotes.leaf)
next
  case (null n r r1 r2 clk)
  obtain r' where r': "map_find n (rm_rules m') = Some r'" "static_rule r' = static_rule r"
    by (rule static_eq_find [OF null.prems null.hyps(1)])
  then have "static_kind (r_kind r') = ruleCompRule r1 r2"
    using null(2) by (metis static_kind.simps(9) static_rule_simps(2))
  then have "r_kind r' = ruleCompRule r1 r2" by (cases "r_kind r'") auto
  then show ?case using r' null by (auto intro: rule_denotes.null)
next
  case (comp n r n1 n2 clk v1 v2)
  obtain r' where r': "map_find n (rm_rules m') = Some r'" "static_rule r' = static_rule r"
    by (rule static_eq_find [OF comp.prems comp.hyps(1)])
  then have "static_kind (r_kind r') = ruleCompRule (Some n1) (Some n2)"
    using comp(2) by (metis static_kind.simps(9) static_rule_simps(2))
  then have "r_kind r' = ruleCompRule (Some n1) (Some n2)" by (cases "r_kind r'") auto
  moreover have "r_comparison r' = r_comparison r" using r'(2) by (metis static_rule_simps(1))
  ultimately show ?case using r' comp rule_denotes.comp by metis
qed

lemma rule_denotes_static: "static m' = static m \<Longrightarrow> rule_denotes m' clk n v \<longleftrightarrow> rule_denotes m clk n v"
  using rule_denotes_static1 by metis

lemma rule_denotes_total:
  assumes "pointers_ok m" "numbers_filled m" "acyclic (calls m)"
  shows "map_find n (rm_rules m) \<noteq> None \<Longrightarrow> \<exists>v. rule_denotes m clk n v"
proof (induction "card (reach m n)" arbitrary: n clk rule: less_induct)
  case less
  then obtain r where r: "map_find n (rm_rules m) = Some r" by auto
  show ?case
  proof (cases "is_ruleComp (r_kind r)")
    case False
    then show ?thesis using rule_denotes.leaf [OF r] by blast
  next
    case True
    then obtain r1 r2 where k: "r_kind r = ruleCompRule r1 r2" by (rule is_ruleComp_obtain)
    have sub: "\<exists>v. rule_denotes m clk' n' v" if "Some n' \<in> {r1, r2}" for n' clk'
    proof (rule less.hyps)
      have c: "(n, n') \<in> calls m" using that r k by (auto simp: calls_def)
      show "card (reach m n') < card (reach m n)" using reach_less [OF assms(1,3) c] .
      show "map_find n' (rm_rules m) \<noteq> None"
        using calls_keys [OF assms(1) c] by (simp add: map_find_def map_of_eq_None_iff)
    qed
    show ?thesis
    proof (cases "r1 = None \<or> r2 = None")
      case True
      with r k show ?thesis by (blast intro: rule_denotes.null)
    next
      case False
      then obtain n1 n2 where "r1 = Some n1" "r2 = Some n2" by auto
      with r k sub show ?thesis by (metis insertCI rule_denotes.comp)
    qed
  qed
qed

lemma bool_op_None [simp]: "bool_op cmp None b = None" "bool_op cmp a None = None"
  by (cases a; simp add: bool_op_def)+

lemma rule_valid_error:
  assumes "pointers_ok m" "numbers_filled m" "acyclic (calls m)"
  shows "rule_valid d m n = Some (Inl e) \<Longrightarrow> rule_denotes m clk n None"
proof (induction d arbitrary: n clk e)
  case (Suc d)
  then obtain r where r: "map_find n (rm_rules m) = Some r" by (cases "map_find n (rm_rules m)") auto
  show ?case
  proof (cases "is_ruleComp (r_kind r)")
    case False
    with Suc.prems r have "leaf_valid (rm_props m) (r_comparison r) (r_kind r) = Some (Inl e)"
      by (simp add: rule_valid_leaf [OF r] del: rule_valid.simps)
    then obtain k' where "leaf_value (clk []) (rm_props m) (r_comparison r) (r_kind r) = Some (Inl (invalidconfig, e), k')"
      using leaf_value_total [OF pointers_okD(1) [OF assms(1) r] numbers_filledD [OF assms(2,1) r] False] by metis
    then have "rule_denotes m clk n (value_ok (Inl (invalidconfig, e)))"
      by (rule rule_denotes_leaf [OF r False])
    then show ?thesis by simp
  next
    case True
    then obtain r1 r2 where k: "r_kind r = ruleCompRule r1 r2" by (rule is_ruleComp_obtain)
    show ?thesis
    proof (cases "r1 = None \<or> r2 = None")
      case True
      with r k show ?thesis by (blast intro: rule_denotes.null)
    next
      case False
      then obtain n1 n2 where k: "r_kind r = ruleCompRule (Some n1) (Some n2)" using k by auto
      have "map_find n' (rm_rules m) \<noteq> None" if "n' \<in> {n1, n2}" for n'
        using pointers_okD(2) [OF assms(1) r] k that by (auto simp: points_into_def)
      then obtain v1 v2 where
        v: "rule_denotes m (\<lambda>p. clk (False # p)) n1 v1" "rule_denotes m (\<lambda>p. clk (True # p)) n2 v2"
        using rule_denotes_total [OF assms] by (metis insertCI)
      have "rule_valid d m n1 = Some (Inl e) \<or> rule_valid d m n2 = Some (Inl e)"
        using Suc.prems r k
        by (cases "rule_valid d m n1"; cases "the (rule_valid d m n1)"; cases "rule_valid d m n2";
            cases "the (rule_valid d m n2)") auto
      then have "v1 = None \<or> v2 = None"
        using Suc.IH rule_denotes_fun v by blast
      moreover have "rule_denotes m clk n (bool_op (r_comparison r) v1 v2)"
        using r k v by (rule rule_denotes.comp)
      ultimately show ?thesis by auto
    qed
  qed
qed simp


lemma static_assign:
  assumes "map_wf (rm_rules m)" "map_find n (rm_rules m) = Some r" "static_rule r' = static_rule r"
  shows "static (m\<lparr>rm_rules := map_assign n r' (rm_rules m)\<rparr>) = static m"
proof -
  have "map_assign n (static_rule r) (map (map_prod id static_rule) (rm_rules m)) = map (map_prod id static_rule) (rm_rules m)"
    using assms by (intro smap.assign_same) (simp_all add: map_find_map)
  then show ?thesis
    using assms(3) by (simp add: static_def map_assign_map)
qed

lemma rule_value_comp:
  assumes r: "map_find n (rm_rules m) = Some r" "r_kind r = ruleCompRule (Some n1) (Some n2)"
    and valid: "rule_valid (Suc d) m n = Some (Inr b)"
    and ev: "\<And>n' m' clk'. n' \<in> {n1, n2} \<Longrightarrow> static m' = static m \<Longrightarrow>
      \<exists>v m''. rule_value d ltr clk' n' m' = Some (v, m'') \<and> static m'' = static m \<and> rule_denotes m clk' n' (value_ok v)"
  shows "\<exists>v m'. rule_value (Suc d) ltr clk n m = Some (v, m') \<and> static m' = static m \<and> rule_denotes m clk n (value_ok v)"
proof -
  define na nb where "na = (if ltr then n1 else n2)" and "nb = (if ltr then n2 else n1)"
  define ca cb where "ca = (\<lambda>p. clk ((\<not> ltr) # p))" and "cb = (\<lambda>p. clk (ltr # p))"
  have n: "na \<in> {n1, n2}" "nb \<in> {n1, n2}" by (simp_all add: na_def nb_def)
  obtain va ma where a: "rule_value d ltr ca na m = Some (va, ma)" "static ma = static m" "rule_denotes m ca na (value_ok va)"
    using ev [OF n(1) refl, of ca] by blast
  obtain vb mb where b: "rule_value d ltr cb nb ma = Some (vb, mb)" "static mb = static m" "rule_denotes m cb nb (value_ok vb)"
    using ev [OF n(2) a(2), of cb] by blast
  have "rule_denotes m clk n (bool_op (r_comparison r) (value_ok (if ltr then va else vb)) (value_ok (if ltr then vb else va)))"
    using a(3) b(3) by (intro rule_denotes.comp [OF r]) (auto simp: na_def nb_def ca_def cb_def split: if_splits)
  then show ?thesis
    using r valid a b
    by (cases ltr; cases va; cases vb)
      (simp_all add: compBool_meaning na_def nb_def ca_def cb_def del: rule_valid.simps)
qed

lemma rule_value_depth:
  "pointers_ok m \<Longrightarrow> numbers_filled m \<Longrightarrow> acyclic (calls m) \<Longrightarrow> map_find n (rm_rules m) \<noteq> None \<Longrightarrow>
   card (reach m n) < d \<Longrightarrow>
     \<exists>v m'. rule_value d ltr clk n m = Some (v, m') \<and> static m' = static m \<and> rule_denotes m clk n (value_ok v)"
proof (induction d arbitrary: n m clk)
  case (Suc d)
  note ok = Suc.prems(1-3)
  obtain r where r: "map_find n (rm_rules m) = Some r" using Suc.prems(4) by auto
  show ?case
  proof (cases "is_ruleComp (r_kind r)")
    case False
    obtain v k' where v: "leaf_value (clk []) (rm_props m) (r_comparison r) (r_kind r) = Some (v, k')"
      "static_kind k' = static_kind (r_kind r)"
      using leaf_value_total [OF pointers_okD(1) [OF ok(1) r] numbers_filledD [OF ok(2,1) r] False] by blast
    have "static_rule (r\<lparr>r_kind := k'\<rparr>) = static_rule r" using v(2) by (simp add: static_rule_def)
    moreover have "rule_denotes m clk n (value_ok v)" using v(1) by (rule rule_denotes_leaf [OF r False])
    ultimately show ?thesis
      using v r ok(1) by (simp add: rule_value_leaf [OF r False] static_assign pointers_ok_def del: rule_value.simps)
  next
    case True
    then obtain r1 r2 where k: "r_kind r = ruleCompRule r1 r2" by (rule is_ruleComp_obtain)
    have "rule_valid (Suc d) m n \<noteq> None" using ok Suc.prems(4,5) by (intro rule_valid_depth)
    then obtain rv where rv: "rule_valid (Suc d) m n = Some rv" by blast
    show ?thesis
    proof (cases rv)
      case (Inl e)
      then have "rule_denotes m clk n None" using rule_valid_error [OF ok] rv by blast
      then show ?thesis using r k rv Inl by (simp add: value_ok_def del: rule_valid.simps)
    next
      case (Inr b)
      then have valid: "rule_valid (Suc d) m n = Some (Inr b)" using rv by simp
      then obtain n1 n2 where kk: "r1 = Some n1" "r2 = Some n2"
        using r k by (auto split: option.splits)
      have sub: "map_find n' (rm_rules m) \<noteq> None \<and> card (reach m n') < d" if "n' \<in> {n1, n2}" for n'
      proof -
        have c: "(n, n') \<in> calls m" using that r k kk by (auto simp: calls_def)
        show ?thesis
          using reach_less [OF ok(1,3) c] Suc.prems(5) calls_keys [OF ok(1) c]
          by (simp add: map_find_def map_of_eq_None_iff)
      qed
      have ev: "\<exists>v m''. rule_value d ltr clk' n' m' = Some (v, m'') \<and> static m'' = static m \<and> rule_denotes m clk' n' (value_ok v)"
        if "n' \<in> {n1, n2}" "static m' = static m" for n' m' clk'
      proof -
        have "pointers_ok m'" "numbers_filled m'" "calls m' = calls m" "reach m' = reach m"
          using ok that(2) pointers_ok_static numbers_filled_static calls_static reach_static by metis+
        moreover have "map_find n' (rm_rules m') \<noteq> None"
          using sub [OF that(1)] static_eq_find [OF that(2)] by (metis option.discI option.exhaust)
        ultimately have "\<exists>v m''. rule_value d ltr clk' n' m' = Some (v, m'') \<and> static m'' = static m' \<and>
            rule_denotes m' clk' n' (value_ok v)"
          using ok sub [OF that(1)] by (intro Suc.IH) simp_all
        then show ?thesis using rule_denotes_static [OF that(2)] that(2) by metis
      qed
      show ?thesis using rule_value_comp [OF r _ valid ev] k kk by simp
    qed
  qed
qed simp

text \<open>A depth equal to the number of rules is enough for every rule.\<close>

lemma rule_value_result:
  assumes "pointers_ok m" "numbers_filled m" "acyclic (calls m)" "map_find n (rm_rules m) \<noteq> None"
    and "length (rm_rules m) \<le> d"
  shows "\<exists>v m'. rule_value d ltr clk n m = Some (v, m') \<and> static m' = static m \<and>
           (\<forall>w. rule_denotes m clk n w \<longleftrightarrow> w = value_ok v)"
proof -
  have "card (reach m n) < d" using reach_bound [OF assms(1,3,4)] assms(5) by simp
  then obtain v m' where "rule_value d ltr clk n m = Some (v, m')" "static m' = static m" "rule_denotes m clk n (value_ok v)"
    using rule_value_depth [OF assms(1-4)] by blast
  moreover from this(3) have "rule_denotes m clk n w \<longleftrightarrow> w = value_ok v" for w
    using rule_denotes_fun by blast
  ultimately show ?thesis by blast
qed


section \<open>Taking diagnostics\<close>

fun kind_pending :: "ruleKind \<Rightarrow> string list" where
  "kind_pending (multiSwitchComboRule c) = mc_pendingDiagnostics c"
| "kind_pending _ = []"

definition pending_count :: "indiRuleMaps \<Rightarrow> nat" where
  "pending_count m = sum_list (map (\<lambda>(n, r). length (kind_pending (r_kind r))) (rm_rules m))"

text \<open>The loop \<open>while( popRuntimeDiagnostic( diagnostic ) )\<close> with at most \<open>k\<close> calls.\<close>

fun drain_diagnostics :: "nat \<Rightarrow> nat \<Rightarrow> string \<Rightarrow> indiRuleMaps \<Rightarrow> (string list \<times> indiRuleMaps) option" where
  "drain_diagnostics 0 d name m = None"
| "drain_diagnostics (Suc k) d name m =
     do { (x, m) \<leftarrow> popRuntimeDiagnostic d name m;
          case x of
            None \<Rightarrow> Some ([], m)
          | Some diagnostic \<Rightarrow>
              do { (ds, m) \<leftarrow> drain_diagnostics k d name m; Some (diagnostic # ds, m) } }"

lemma pending_count_assign:
  assumes "map_wf (rm_rules m)" "map_find n (rm_rules m) = Some r"
  shows "pending_count (m\<lparr>rm_rules := map_assign n r' (rm_rules m)\<rparr>) + length (kind_pending (r_kind r)) =
         pending_count m + length (kind_pending (r_kind r'))"
proof -
  define g :: "string \<times> indiCompRule \<Rightarrow> nat" where "g = (\<lambda>(n, r). length (kind_pending (r_kind r)))"
  have "map_wf rs \<Longrightarrow> map_find n rs = Some r \<Longrightarrow>
      sum_list (map g (map_assign n r' rs)) + g (n, r) = sum_list (map g rs) + g (n, r')" for rs
    by (induction n r' rs rule: map_assign.induct) (fastforce simp: map_find_def map_wf_Cons dest: map_of_SomeD split: if_splits)+
  from this [OF assms] show ?thesis by (simp add: pending_count_def g_def)
qed

lemma pop_depth:
  assumes "pointers_ok m" "acyclic (calls m)"
  shows "map_find n (rm_rules m) \<noteq> None \<Longrightarrow> card (reach m n) < d \<Longrightarrow>
     \<exists>x m'. popRuntimeDiagnostic d n m = Some (x, m') \<and> static m' = static m \<and>
       (case x of None \<Rightarrow> m' = m | Some _ \<Rightarrow> pending_count m' < pending_count m)"
proof (induction d arbitrary: n)
  case (Suc d)
  have wf: "map_wf (rm_rules m)" using assms(1) by (simp add: pointers_ok_def)
  obtain r where r: "map_find n (rm_rules m) = Some r" using Suc.prems by auto
  have sub: "\<exists>x m'. popRuntimeDiagnostic d n' m = Some (x, m') \<and> static m' = static m \<and>
       (case x of None \<Rightarrow> m' = m | Some _ \<Rightarrow> pending_count m' < pending_count m)"
    if "Some n' \<in> set (kind_rules (r_kind r))" for n'
  proof (rule Suc.IH)
    have c: "(n, n') \<in> calls m" using that r by (auto simp: calls_def)
    show "card (reach m n') < d" using reach_less [OF assms c] Suc.prems by simp
    show "map_find n' (rm_rules m) \<noteq> None"
      using calls_keys [OF assms(1) c] by (simp add: map_find_def map_of_eq_None_iff)
  qed
  show ?case
  proof (cases "r_kind r")
    case (multiSwitchComboRule c)
    show ?thesis
    proof (cases "mc_pendingDiagnostics c")
      case (Cons x xs)
      let ?r = "r\<lparr>r_kind := multiSwitchComboRule (c\<lparr>mc_pendingDiagnostics := xs\<rparr>)\<rparr>"
      have "static_rule ?r = static_rule r" by (simp add: static_rule_def multiSwitchComboRule)
      then show ?thesis
        using static_assign [OF wf r, of ?r] pending_count_assign [OF wf r, of ?r] r multiSwitchComboRule Cons
        by (simp add: multiSwitchCombo_pop_def)
    next
      case Nil
      have "r\<lparr>r_kind := multiSwitchComboRule c\<rparr> = r" by (simp flip: multiSwitchComboRule)
      then have "m\<lparr>rm_rules := map_assign n (r\<lparr>r_kind := multiSwitchComboRule c\<rparr>) (rm_rules m)\<rparr> = m"
        by (simp only: smap.assign_same [OF wf r]) simp
      then show ?thesis
        using r multiSwitchComboRule Nil by (simp add: multiSwitchCombo_pop_def)
    qed
  next
    case (ruleCompRule r1 r2)
    show ?thesis
    proof (cases r1)
      case None
      with r ruleCompRule sub show ?thesis by (cases r2) auto
    next
      case (Some n1)
      obtain x m' where 1: "popRuntimeDiagnostic d n1 m = Some (x, m')" "static m' = static m"
        "case x of None \<Rightarrow> m' = m | Some _ \<Rightarrow> pending_count m' < pending_count m"
        using sub [of n1] Some ruleCompRule by auto
      show ?thesis
      proof (cases x)
        case None
        with 1 r ruleCompRule Some sub show ?thesis by (cases r2) auto
      next
        case Some2: (Some y)
        with 1 r ruleCompRule Some show ?thesis by auto
      qed
    qed
  qed (use r in auto)
qed simp

lemma drain_total:
  assumes "pointers_ok m" "acyclic (calls m)" "map_find n (rm_rules m) \<noteq> None" "card (reach m n) < d"
  shows "pending_count m < k \<Longrightarrow> \<exists>ds m'. drain_diagnostics k d n m = Some (ds, m') \<and> static m' = static m \<and>
           popRuntimeDiagnostic d n m' = Some (None, m')"
  using assms
proof (induction k arbitrary: m)
  case (Suc k)
  obtain x m' where 1: "popRuntimeDiagnostic d n m = Some (x, m')" "static m' = static m"
    "case x of None \<Rightarrow> m' = m | Some _ \<Rightarrow> pending_count m' < pending_count m"
    using pop_depth [OF Suc.prems(2-5)] by blast
  show ?case
  proof (cases x)
    case None
    with 1 show ?thesis by auto
  next
    case (Some y)
    have "pending_count m' < k" using 1(3) Some Suc.prems(1) by simp
    moreover have "pointers_ok m'" "calls m' = calls m" "reach m' = reach m"
      using Suc.prems(2) 1(2) pointers_ok_static calls_static reach_static by metis+
    moreover have "map_find n (rm_rules m') \<noteq> None"
      using Suc.prems(4) static_eq_find [OF 1(2)] by (metis option.discI option.exhaust)
    ultimately obtain ds m'' where "drain_diagnostics k d n m' = Some (ds, m'')" "static m'' = static m'"
      "popRuntimeDiagnostic d n m'' = Some (None, m'')"
      using Suc.IH [of m'] Suc.prems by auto
    then show ?thesis using 1 Some by auto
  qed
qed simp

section \<open>Cycles\<close>

text \<open>Rules that call each other in a cycle: no depth is enough.\<close>

lemma cyclic_never_returns:
  assumes "\<And>n. n \<in> S \<Longrightarrow> \<exists>r n1 r2. map_find n (rm_rules m) = Some r \<and>
    r_kind r = ruleCompRule (Some n1) (Some r2) \<and> n1 \<in> S"
  shows "n \<in> S \<Longrightarrow> rule_valid d m n = None \<and> rule_value d ltr clk n m = None"
proof (induction d arbitrary: n clk)
  case (Suc d)
  obtain r n1 n2 where "map_find n (rm_rules m) = Some r" "r_kind r = ruleCompRule (Some n1) (Some n2)" "n1 \<in> S"
    using assms Suc.prems by blast
  with Suc.IH [of n1] show ?case by simp
qed simp


section \<open>What evaluation leaves alone\<close>

text \<open>
  Whatever the properties hold, evaluation changes at most the latches and the diagnostics: not
  the properties, and nothing of the base class.
\<close>

definition eval_frame :: "indiRuleMaps \<Rightarrow> indiRuleMaps \<Rightarrow> bool" where
  "eval_frame m m' \<longleftrightarrow> map_wf (rm_rules m') \<and> rm_props m' = rm_props m \<and>
     (\<forall>n. rel_option (\<lambda>r r'. \<exists>k. r' = r\<lparr>r_kind := k\<rparr> \<and> static_kind k = static_kind (r_kind r))
        (map_find n (rm_rules m)) (map_find n (rm_rules m')))"

lemma eval_frame_refl: "map_wf (rm_rules m) \<Longrightarrow> eval_frame m m"
  by (auto simp: eval_frame_def option.rel_refl_strong intro!: option.rel_refl_strong exI [where x = "r_kind _"])

lemma eval_frame_trans: "eval_frame m m' \<Longrightarrow> eval_frame m' m'' \<Longrightarrow> eval_frame m m''"
  unfolding eval_frame_def
proof (intro conjI allI)
  fix n
  assume 1: "map_wf (rm_rules m') \<and> rm_props m' = rm_props m \<and>
     (\<forall>n. rel_option (\<lambda>r r'. \<exists>k. r' = r\<lparr>r_kind := k\<rparr> \<and> static_kind k = static_kind (r_kind r))
        (map_find n (rm_rules m)) (map_find n (rm_rules m')))"
    and 2: "map_wf (rm_rules m'') \<and> rm_props m'' = rm_props m' \<and>
     (\<forall>n. rel_option (\<lambda>r r'. \<exists>k. r' = r\<lparr>r_kind := k\<rparr> \<and> static_kind k = static_kind (r_kind r))
        (map_find n (rm_rules m')) (map_find n (rm_rules m'')))"
  show "rel_option (\<lambda>r r'. \<exists>k. r' = r\<lparr>r_kind := k\<rparr> \<and> static_kind k = static_kind (r_kind r))
        (map_find n (rm_rules m)) (map_find n (rm_rules m''))"
    using conjunct2 [OF conjunct2 [OF 1], THEN spec, of n] conjunct2 [OF conjunct2 [OF 2], THEN spec, of n]
    by (auto simp: option_rel_Some1 option_rel_Some2 rel_option_iff split: option.splits)
qed simp_all

lemma eval_frame_assign:
  "map_wf (rm_rules m) \<Longrightarrow> map_find n (rm_rules m) = Some r \<Longrightarrow> static_kind k = static_kind (r_kind r) \<Longrightarrow>
     eval_frame m (m\<lparr>rm_rules := map_assign n (r\<lparr>r_kind := k\<rparr>) (rm_rules m)\<rparr>)"
  using eval_frame_refl [of m] by (auto simp: eval_frame_def map_find_assign map_wf_assign)

lemma eval_frame_static:
  assumes "eval_frame m m'" "map_wf (rm_rules m)"
  shows "static m' = static m"
proof -
  have "map_option static_rule (map_find n (rm_rules m')) = map_option static_rule (map_find n (rm_rules m))" for n
  proof -
    have "rel_option (\<lambda>r r'. \<exists>k. r' = r\<lparr>r_kind := k\<rparr> \<and> static_kind k = static_kind (r_kind r))
        (map_find n (rm_rules m)) (map_find n (rm_rules m'))"
      using assms(1) by (simp add: eval_frame_def)
    then show ?thesis by (auto simp: rel_option_iff static_rule_def split: option.splits)
  qed
  then have "map (map_prod id static_rule) (rm_rules m') = map (map_prod id static_rule) (rm_rules m)"
    using assms by (intro smap.same_items) (simp_all add: map_find_map eval_frame_def)
  then show ?thesis using assms(1) by (simp add: static_def eval_frame_def)
qed

lemma bind_case_sum:
  "(x \<bind> (\<lambda>rv. case rv of Inl e \<Rightarrow> f e | Inr b \<Rightarrow> g b)) = Some y \<longleftrightarrow>
     (\<exists>e. x = Some (Inl e) \<and> f e = Some y) \<or> (\<exists>b. x = Some (Inr b) \<and> g b = Some y)"
proof (cases x)
  case (Some rv)
  then show ?thesis by (cases rv) auto
qed simp

lemma leaf_value_frame:
  "leaf_value now props cmp k = Some (v, k') \<Longrightarrow> static_kind k' = static_kind k"
proof (cases k)
  case (multiSwitchComboRule c)
  assume "leaf_value now props cmp k = Some (v, k')"
  then obtain c' where c': "multiSwitchCombo_value props cmp c = Some (v, c')" "k' = multiSwitchComboRule c'"
    using multiSwitchComboRule by (auto simp: bind_eq_Some_conv)
  then have "multiSwitchCombo_valid props cmp c \<noteq> None"
    by (cases "multiSwitchCombo_valid props cmp c") (auto simp: multiSwitchCombo_value_def)
  from multi_value_total [OF this] c' multiSwitchComboRule show ?thesis by auto
qed (auto simp: bind_eq_Some_conv)

lemma rule_value_frame:
  "map_wf (rm_rules m) \<Longrightarrow> rule_value d ltr clk n m = Some (v, m') \<Longrightarrow> eval_frame m m'"
proof (induction d arbitrary: n clk m m' v)
  case (Suc d)
  obtain r where r: "map_find n (rm_rules m) = Some r"
    using Suc.prems(2) by (cases "map_find n (rm_rules m)") auto
  show ?case
  proof (cases "is_ruleComp (r_kind r)")
    case False
    then obtain k' where "m' = m\<lparr>rm_rules := map_assign n (r\<lparr>r_kind := k'\<rparr>) (rm_rules m)\<rparr>"
      "leaf_value (clk []) (rm_props m) (r_comparison r) (r_kind r) = Some (v, k')"
      using Suc.prems(2) by (auto simp: rule_value_leaf [OF r] bind_eq_Some_conv simp del: rule_value.simps)
    then show ?thesis using eval_frame_assign [OF Suc.prems(1) r leaf_value_frame] by simp
  next
    case True
    then obtain r1 r2 where k: "r_kind r = ruleCompRule r1 r2" by (rule is_ruleComp_obtain)
    obtain rv where rv: "rule_valid (Suc d) m n = Some rv"
      using Suc.prems(2) r k by (cases "rule_valid (Suc d) m n") (auto simp del: rule_valid.simps)
    show ?thesis
    proof (cases rv)
      case (Inl e)
      then show ?thesis
        using Suc.prems(2) r k rv eval_frame_refl [OF Suc.prems(1)] by (simp del: rule_valid.simps)
    next
      case (Inr b)
      let ?c = "\<lambda>b p. clk (b # p)"
      define na nb where "na = (if ltr then r1 else r2)" and "nb = (if ltr then r2 else r1)"
      obtain n1 n2 where n12: "na = Some n1" "nb = Some n2"
        using Suc.prems(2) r k rv Inr by (cases ltr; cases r1; cases r2) (auto simp: na_def nb_def simp del: rule_valid.simps)
      obtain va ma where a: "rule_value d ltr (?c (\<not> ltr)) n1 m = Some (va, ma)"
        using Suc.prems(2) r k rv Inr n12
        by (cases ltr; cases "rule_value d ltr (?c (\<not> ltr)) n1 m") (auto simp: na_def nb_def simp del: rule_valid.simps)
      have ma: "eval_frame m ma" using Suc.IH [OF Suc.prems(1) a] .
      show ?thesis
      proof (cases va)
        case Inl2: (Inl x)
        then have "m' = ma"
          using Suc.prems(2) r k rv Inr n12 a by (cases ltr) (auto simp: na_def nb_def simp del: rule_valid.simps)
        then show ?thesis using ma by simp
      next
        case Inr2: (Inr x)
        obtain vb mb where b: "rule_value d ltr (?c ltr) n2 ma = Some (vb, mb)" "m' = mb"
          using Suc.prems(2) r k rv Inr n12 a Inr2
          by (cases ltr; cases "rule_value d ltr (?c ltr) n2 ma")
            (auto simp: na_def nb_def split: sum.splits simp del: rule_valid.simps)
        have "eval_frame ma mb" using ma by (intro Suc.IH [OF _ b(1)]) (simp add: eval_frame_def)
        then show ?thesis using ma b(2) eval_frame_trans by blast
      qed
    qed
  qed
qed simp

lemma pop_frame:
  "map_wf (rm_rules m) \<Longrightarrow> popRuntimeDiagnostic d n m = Some (x, m') \<Longrightarrow> eval_frame m m'"
proof (induction d arbitrary: n m m' x)
  case (Suc d)
  have refl: "eval_frame m m" using eval_frame_refl [OF Suc.prems(1)] .
  obtain r where r: "map_find n (rm_rules m) = Some r"
    using Suc.prems(2) by (cases "map_find n (rm_rules m)") auto
  show ?case
  proof (cases "r_kind r")
    case (multiSwitchComboRule c)
    with Suc.prems r refl show ?thesis
      by (auto simp: multiSwitchCombo_pop_def intro!: eval_frame_assign split: list.splits)
  next
    case (ruleCompRule r1 r2)
    obtain x1 m1 where 1: "(case r1 of None \<Rightarrow> Some (None, m) | Some n1 \<Rightarrow> popRuntimeDiagnostic d n1 m) = Some (x1, m1)"
      "if x1 \<noteq> None then x = x1 \<and> m' = m1
       else (case r2 of None \<Rightarrow> Some (None, m1) | Some n2 \<Rightarrow> popRuntimeDiagnostic d n2 m1) = Some (x, m')"
      using Suc.prems(2) r ruleCompRule by (auto simp: bind_eq_Some_conv split: if_splits)
    have b1: "eval_frame m m1"
      using 1(1) Suc.IH [OF Suc.prems(1)] refl by (cases r1) auto
    have wf1: "map_wf (rm_rules m1)" using b1 by (simp add: eval_frame_def)
    have "eval_frame m1 m'"
      using 1(2) Suc.IH [OF wf1] eval_frame_refl [OF wf1] by (cases r2) (auto split: if_splits)
    then show ?thesis using b1 eval_frame_trans by blast
  qed (use Suc.prems r refl in auto)
qed simp

lemma drain_frame:
  "map_wf (rm_rules m) \<Longrightarrow> drain_diagnostics k d n m = Some (ds, m') \<Longrightarrow> eval_frame m m'"
proof (induction k arbitrary: m ds)
  case (Suc k)
  obtain x m1 where 1: "popRuntimeDiagnostic d n m = Some (x, m1)"
    using Suc.prems(2) by (cases "popRuntimeDiagnostic d n m") auto
  have b1: "eval_frame m m1" using pop_frame [OF Suc.prems(1) 1] .
  show ?case
  proof (cases x)
    case None
    then show ?thesis using Suc.prems(2) 1 b1 by simp
  next
    case (Some y)
    then obtain ds' where "drain_diagnostics k d n m1 = Some (ds', m')"
      using Suc.prems(2) 1 by (auto simp: bind_eq_Some_conv)
    then have "eval_frame m1 m'" using b1 by (intro Suc.IH) (simp add: eval_frame_def)
    then show ?thesis using b1 eval_frame_trans by blast
  qed
qed simp


section \<open>Results\<close>

text \<open>Two leaves and their conjunction.\<close>

definition example_maps :: indiRuleMaps where
  "example_maps =
     \<lparr>rm_rules =
        [(''open'', rule_new (swValRule \<lparr>op_type = Switch, op_property = Some ''cam.shutter'', op_element = ''toggle''\<rparr> On)),
         (''ready'', rule_new (txtValRule \<lparr>op_type = Text, op_property = Some ''cam.fsm'', op_element = ''state''\<rparr> ''READY'')),
         (''usable'', rule_new (ruleCompRule (Some ''open'') (Some ''ready'')))],
      rm_props =
        [(''cam.fsm'', (IndiProperty_new Text ''cam'' ''fsm'')\<lparr>ip_elements := [(''state'', IndiElement_new ''state'' ''READY'')]\<rparr>),
         (''cam.shutter'', (IndiProperty_new Switch ''cam'' ''shutter'')
            \<lparr>ip_elements := [(''toggle'', IndiElement_switch ''toggle'' On)]\<rparr>)]\<rparr>"

lemma acyclic_by_rank:
  assumes "\<And>n ks n'. (n, ks) \<in> set (map (\<lambda>(n, r). (n, kind_rules (r_kind r))) (rm_rules m)) \<Longrightarrow> Some n' \<in> set ks \<Longrightarrow>
    rank n' < (rank n :: nat)"
  shows "acyclic (calls m)"
proof (rule acyclicI_order)
  fix n n' assume "(n, n') \<in> calls m"
  then obtain r where "(n, r) \<in> set (rm_rules m)" "Some n' \<in> set (kind_rules (r_kind r))"
    by (auto simp: calls_def map_find_def dest: map_of_SomeD)
  then show "rank n' < rank n" by (intro assms [of n "kind_rules (r_kind r)"]) force+
qed

lemma example_maps_ok:
  "pointers_ok example_maps" "numbers_filled example_maps" "acyclic (calls example_maps)" "length (rm_rules example_maps) = 3"
proof -
  show "pointers_ok example_maps" "numbers_filled example_maps" "length (rm_rules example_maps) = 3"
    by code_simp+
  show "acyclic (calls example_maps)"
    by (rule acyclic_by_rank [where rank = "\<lambda>n. if n = ''usable'' then 1 else 0"])
      (auto simp: example_maps_def rule_new_def)
qed

text \<open>C2: The value of a rule is that of a Boolean expression over its leaves, where a leaf compares numbers
  by an interval of their difference, texts and switches by equality, a combination by the text
  its format gives, and rules are joined by truth tables. When no pointer dangles, no
  number is blank and the rules are not cyclic, \<open>value()\<close> returns with a stack as deep as there
  are rules; the outcome (true, false, or an exception) is the one the expression has, so the
  checks of \<open>valid()\<close> made in advance at every level do not change it, and the two orders in
  which a compiler may evaluate the operands agree. The configured rules are not changed.
\<close>

theorem rule_value_meaning:
  assumes "pointers_ok m" "numbers_filled m" "acyclic (calls m)" "map_find n (rm_rules m) \<noteq> None"
    and "length (rm_rules m) \<le> d"
  shows "\<exists>v m1 v' m2. rule_value d True clk n m = Some (v, m1) \<and> rule_value d False clk n m = Some (v', m2) \<and>
           value_ok v = value_ok v' \<and> (\<forall>w. rule_denotes m clk n w \<longleftrightarrow> w = value_ok v) \<and>
           static m1 = static m \<and> static m2 = static m"
proof -
  obtain v m1 where 1: "rule_value d True clk n m = Some (v, m1)" "static m1 = static m"
    "\<forall>w. rule_denotes m clk n w \<longleftrightarrow> w = value_ok v"
    using rule_value_result [OF assms] by blast
  obtain v' m2 where 2: "rule_value d False clk n m = Some (v', m2)" "static m2 = static m"
    "\<forall>w. rule_denotes m clk n w \<longleftrightarrow> w = value_ok v'"
    using rule_value_result [OF assms] by blast
  have "value_ok v = value_ok v'" using 1(3) 2(3) by blast
  with 1 2 show ?thesis by blast
qed

theorem rule_value_meaning_witness:
  "rule_denotes example_maps (\<lambda>_. \<lparr>tv_sec = 0, tv_nsec = 0\<rparr>) ''usable'' (Some True)"
proof -
  let ?clk = "\<lambda>_. \<lparr>tv_sec = 0, tv_nsec = 0\<rparr>"
  have "map_find ''usable'' (rm_rules example_maps) \<noteq> None" by code_simp
  then obtain v m1 where v: "rule_value 3 True ?clk ''usable'' example_maps = Some (v, m1)"
    "\<forall>w. rule_denotes example_maps ?clk ''usable'' w \<longleftrightarrow> w = value_ok v"
    using rule_value_meaning [OF example_maps_ok(1-3), of "''usable''" 3 ?clk] example_maps_ok(4) by auto
  have "map_option fst (rule_value 3 True ?clk ''usable'' example_maps) = Some (Inr True)" by code_simp
  then have "value_ok v = Some True" using v(1) by (simp add: value_ok_def)
  with v(2) show ?thesis by simp
qed

text \<open>C13: Rules that do not call each other in a cycle are evaluated in a bounded stack: with a depth equal
  to the number of rules \<open>valid()\<close> returns, the loop that takes the pending diagnostics ends after at
  most as many calls as there are diagnostics, leaving none, and \<open>value()\<close> returns if the numbers
  the rules read are there. \<open>valid()\<close> and \<open>value()\<close> of a rule in a cycle through the first operands of
  its rules never return, at any depth. (A cycle through a second operand is left when the
  first operand is not valid.)
\<close>

theorem rule_calls_terminate:
  assumes "pointers_ok m"
  shows "(acyclic (calls m) \<and> map_find n (rm_rules m) \<noteq> None \<and> length (rm_rules m) \<le> d \<longrightarrow>
            rule_valid d m n \<noteq> None \<and> (numbers_filled m \<longrightarrow> rule_value d ltr clk n m \<noteq> None) \<and>
            (\<exists>ds m'. drain_diagnostics (Suc (pending_count m)) d n m = Some (ds, m') \<and> popRuntimeDiagnostic d n m' = Some (None, m'))) \<and>
         ((\<forall>j \<in> S. \<exists>r n1 n2. map_find j (rm_rules m) = Some r \<and> r_kind r = ruleCompRule (Some n1) (Some n2) \<and> n1 \<in> S) \<and> n \<in> S \<longrightarrow>
            rule_valid d m n = None \<and> rule_value d ltr clk n m = None)"
proof (intro conjI impI)
  assume a: "acyclic (calls m) \<and> map_find n (rm_rules m) \<noteq> None \<and> length (rm_rules m) \<le> d"
  then have depth: "card (reach m n) < d" using reach_bound [OF assms, of n] by simp
  show "rule_valid d m n \<noteq> None" using rule_valid_depth [OF assms _ _ depth] a by blast
  show "rule_value d ltr clk n m \<noteq> None" if "numbers_filled m"
    using rule_value_result [OF assms that, of n d ltr clk] a by auto
  show "\<exists>ds m'. drain_diagnostics (Suc (pending_count m)) d n m = Some (ds, m') \<and> popRuntimeDiagnostic d n m' = Some (None, m')"
    using drain_total [OF assms _ _ depth] a by blast
next
  assume c: "(\<forall>j \<in> S. \<exists>r n1 n2. map_find j (rm_rules m) = Some r \<and> r_kind r = ruleCompRule (Some n1) (Some n2) \<and> n1 \<in> S) \<and> n \<in> S"
  show "rule_valid d m n = None" "rule_value d ltr clk n m = None"
    using cyclic_never_returns [of S m n d ltr clk] c by blast+
qed

text \<open>The three rules above return; a rule that compares itself with itself does not.\<close>

definition loop_maps :: indiRuleMaps where
  "loop_maps = \<lparr>rm_rules = [(''loop'', rule_new (ruleCompRule (Some ''loop'') (Some ''loop'')))], rm_props = []\<rparr>"

theorem rule_calls_terminate_witness:
  "rule_valid 3 example_maps ''usable'' \<noteq> None \<and> rule_value 3 True (\<lambda>_. \<lparr>tv_sec = 0, tv_nsec = 0\<rparr>) ''usable'' example_maps \<noteq> None \<and>
   rule_value 1000 True (\<lambda>_. \<lparr>tv_sec = 0, tv_nsec = 0\<rparr>) ''loop'' loop_maps = None"
proof -
  let ?clk = "\<lambda>_. \<lparr>tv_sec = 0, tv_nsec = 0\<rparr>"
  have "map_find ''usable'' (rm_rules example_maps) \<noteq> None" "pointers_ok loop_maps" by code_simp+
  moreover have "map_find ''loop'' (rm_rules loop_maps) = Some (rule_new (ruleCompRule (Some ''loop'') (Some ''loop'')))"
    "r_kind (rule_new (ruleCompRule (Some ''loop'') (Some ''loop''))) = ruleCompRule (Some ''loop'') (Some ''loop'')"
    by (simp_all add: loop_maps_def map_find_def rule_new_def)
  ultimately show ?thesis
    using rule_calls_terminate [OF example_maps_ok(1), of "''usable''" 3 True ?clk "{}"] example_maps_ok(2-4)
      rule_calls_terminate [of loop_maps "''loop''" 1000 True ?clk "{''loop''}"] by simp
qed

end
