(* ===== verification/RuleConfig.thy ===== *)
theory RuleConfig
  imports RuleEval
begin

text \<open>
  Loading the rules of the state rule engine (\<open>apps/stateRuleEngine/indiCompRuleConfig.hpp\<close>).

  A section with a \<open>ruleType\<close> becomes a rule; the properties it names are added to the map of
  properties. The two rules a \<open>ruleComp\<close> rule combines may come later in the file, so their names
  are held aside and set after all rules exist. A thrown exception ends loading and leaves the
  maps as they are at that point, so the results have the exception beside the maps; an outer
  \<^const>\<open>None\<close> is undefined behaviour.
\<close>

text \<open>The configurator of mxlib, with its conversions to \<open>double\<close> and \<open>int\<close>.\<close>

record rule_configurator = configurator +
  cfg_double :: "string \<Rightarrow> string \<Rightarrow> real"
  cfg_int :: "string \<Rightarrow> string \<Rightarrow> int"

text \<open>\<open>configUnused\<close> leaves its variable alone when the key is not set.\<close>

definition config_word :: "'c configurator_scheme \<Rightarrow> string \<Rightarrow> string \<Rightarrow> string \<Rightarrow> string" where
  "config_word cfg sec key v = (if cfg_isSetUnused cfg sec key then cfg_word cfg sec key else v)"

definition config_double :: "rule_configurator \<Rightarrow> string \<Rightarrow> string \<Rightarrow> real \<Rightarrow> real" where
  "config_double cfg sec key v = (if cfg_isSetUnused cfg sec key then cfg_double cfg sec key else v)"

definition config_int :: "rule_configurator \<Rightarrow> string \<Rightarrow> string \<Rightarrow> int \<Rightarrow> int" where
  "config_int cfg sec key v = (if cfg_isSetUnused cfg sec key then cfg_int cfg sec key else v)"

record ruleRuleKeys =
  rrk_rule1 :: string
  rrk_rule2 :: string

definition extractRuleProperty ::
  "rule_configurator \<Rightarrow> string \<Rightarrow> string \<Rightarrow> PropertyType \<Rightarrow> prop_map \<Rightarrow> (mx_exception + string) \<times> prop_map" where
  "extractRuleProperty cfg sec propkey ty props =
     (let property = config_word cfg sec propkey []
      in if property = [] then (Inl (invalidconfig, propkey @ '' for rule '' @ sec @ '' not found''), props)
      else case map_find property props of
        Some ip \<Rightarrow>
          if ip_type ip \<noteq> ty
          then (Inl (invalidconfig, ''property '' @ property @ '' exists but is not correct type''), props)
          else (Inr property, props)
      | None \<Rightarrow> (Inr property, map_assign property (IndiProperty_new ty [] []) props))"

definition extractRuleProp ::
  "rule_configurator \<Rightarrow> string \<Rightarrow> string \<Rightarrow> string \<Rightarrow> PropertyType \<Rightarrow> prop_map \<Rightarrow>
   (mx_exception + string \<times> string) \<times> prop_map" where
  "extractRuleProp cfg sec propkey elkey ty props =
     (case extractRuleProperty cfg sec propkey ty props of
        (Inl x, props) \<Rightarrow> (Inl x, props)
      | (Inr property, props) \<Rightarrow> (Inr (property, config_word cfg sec elkey []), props))"

definition is_ws :: "char \<Rightarrow> bool" where
  "is_ws c \<longleftrightarrow> c = CHR '' '' \<or> c = CHR 0x09 \<or> c = CHR 0x0D \<or> c = CHR 0x0A"

definition stripQuotesWS :: "string \<Rightarrow> string" where
  "stripQuotesWS str =
     (if str = [] then []
      else if hd str \<noteq> CHR 0x22 \<and> hd str \<noteq> CHR '' '' \<and> last str \<noteq> CHR '' '' then str
      else
        let str = dropWhile is_ws str
        in if str = [] then []
        else
          let str = rev (dropWhile is_ws (rev str))
          in if hd str = CHR 0x22 \<and> last str = CHR 0x22
             then if length str = 1 \<or> length str = 2 then [] else tl (butlast str)
             else if hd str = CHR 0x22 then if length str = 1 then [] else tl str
             else if last str = CHR 0x22 then if length str = 1 \<or> length str = 2 then [] else butlast str
             else str)"

text \<open>The lambda \<open>configureRuleBase\<close>.\<close>

definition configureRuleBase ::
  "rule_configurator \<Rightarrow> string \<Rightarrow> rulePriority \<Rightarrow> string \<Rightarrow> indiCompRule \<Rightarrow> mx_exception option \<times> indiCompRule" where
  "configureRuleBase cfg sec p message r =
     (let compstr = config_word cfg sec ''comp'' (comp2string (defaultComparison (r_kind r)));
          r = (set_priority p (- 1) r)\<lparr>r_message := message\<rparr>
      in case string2comp compstr of Inl x \<Rightarrow> (Some x, r) | Inr c \<Rightarrow> (None, r\<lparr>r_comparison := c\<rparr>))"

definition load_onePropRule ::
  "rule_configurator \<Rightarrow> string \<Rightarrow> prop_map \<Rightarrow> onePropRule \<Rightarrow> (mx_exception option \<times> onePropRule \<times> prop_map) option" where
  "load_onePropRule cfg sec props r =
     (case extractRuleProp cfg sec ''property'' ''element'' (op_type r) props of
        (Inl x, props) \<Rightarrow> Some (Some x, r, props)
      | (Inr (prop, element), props) \<Rightarrow>
          do { rv \<leftarrow> onePropRule_property props (Some prop) r;
               Some (case rv of
                       Inl x \<Rightarrow> (Some x, r, props)
                     | Inr r \<Rightarrow> (None, r\<lparr>op_element := element\<rparr>, props)) })"

definition load_twoPropRule ::
  "rule_configurator \<Rightarrow> string \<Rightarrow> prop_map \<Rightarrow> twoPropRule \<Rightarrow> (mx_exception option \<times> twoPropRule \<times> prop_map) option" where
  "load_twoPropRule cfg sec props r =
     (case extractRuleProp cfg sec ''property1'' ''element1'' (tp_type r) props of
        (Inl x, props) \<Rightarrow> Some (Some x, r, props)
      | (Inr (prop1, element1), props) \<Rightarrow>
          do { rv \<leftarrow> twoPropRule_property1 props (Some prop1) r;
               case rv of
                 Inl x \<Rightarrow> Some (Some x, r, props)
               | Inr r \<Rightarrow>
                   let r = r\<lparr>tp_element1 := element1\<rparr>
                   in case extractRuleProp cfg sec ''property2'' ''element2'' (tp_type r) props of
                     (Inl x, props) \<Rightarrow> Some (Some x, r, props)
                   | (Inr (prop2, element2), props) \<Rightarrow>
                       do { rv \<leftarrow> twoPropRule_property2 props (Some prop2) r;
                            Some (case rv of
                                    Inl x \<Rightarrow> (Some x, r, props)
                                  | Inr r \<Rightarrow> (None, r\<lparr>tp_element2 := element2\<rparr>, props)) } })"

text \<open>The loop over the source switches; \<open>n\<close> counts from 0, \<open>k\<close> switches are left.\<close>

fun load_switches ::
  "rule_configurator \<Rightarrow> string \<Rightarrow> nat \<Rightarrow> nat \<Rightarrow> prop_map \<Rightarrow> multiSwitchCombo \<Rightarrow>
   (mx_exception option \<times> multiSwitchCombo \<times> prop_map) option" where
  "load_switches cfg sec n 0 props r = Some (None, r, props)"
| "load_switches cfg sec n (Suc k) props r =
     (case extractRuleProperty cfg sec (''property'' @ fmt0 1 (int n + 1)) Switch props of
        (Inl x, props) \<Rightarrow> Some (Some x, r, props)
      | (Inr prop, props) \<Rightarrow>
          do { rv \<leftarrow> multiSwitchCombo_property props (Some prop) prop r;
               case rv of
                 Inl x \<Rightarrow> Some (Some x, r, props)
               | Inr r \<Rightarrow> load_switches cfg sec (Suc n) k props r })"

definition load_multiSwitchCombo ::
  "rule_configurator \<Rightarrow> string \<Rightarrow> ruleComparison \<Rightarrow> prop_map \<Rightarrow> multiSwitchCombo \<Rightarrow>
   (mx_exception option \<times> multiSwitchCombo \<times> prop_map) option" where
  "load_multiSwitchCombo cfg sec cmp props r =
     (let r = r\<lparr>mc_ruleName := sec\<rparr>; numSwitches = config_int cfg sec ''numSwitches'' 0
      in if numSwitches < 1
         then Some (Some (invalidconfig, ''numSwitches for multiSwitchCombo rule '' @ sec @ '' must be greater than zero''),
                    r, props)
      else
        do { (x, r, props) \<leftarrow> load_switches cfg sec 0 (nat numSwitches) props r;
             case x of Some x \<Rightarrow> Some (Some x, r, props)
             | None \<Rightarrow>
                 let r = r\<lparr>mc_format := stripQuotesWS (config_word cfg sec ''format'' [])\<rparr>
                 in case extractRuleProperty cfg sec ''targetProperty'' Switch props of
                   (Inl x, props) \<Rightarrow> Some (Some x, r, props)
                 | (Inr target, props) \<Rightarrow>
                     do { rv \<leftarrow> multiSwitchCombo_targetProperty props (Some target) r;
                          case rv of
                            Inl x \<Rightarrow> Some (Some x, r, props)
                          | Inr r \<Rightarrow>
                              let r = r\<lparr>mc_targetPropertyKey := target\<rparr>
                              in do { rv \<leftarrow> multiSwitchCombo_valid props cmp r;
                                      Some (case rv of
                                              Inl e \<Rightarrow> (Some (invalidconfig, ''multiSwitchCombo rule '' @ sec @ '' is invalid: '' @ e),
                                                        r, props)
                                            | Inr _ \<Rightarrow> (None, r, props)) } } })"

definition load_target_tol :: "rule_configurator \<Rightarrow> string \<Rightarrow> real \<Rightarrow> real \<Rightarrow> mx_exception option \<times> real \<times> real" where
  "load_target_tol cfg sec target tol =
     (let target = config_double cfg sec ''target'' target
      in case check_tol (config_double cfg sec ''tol'' tol) of
        Inl x \<Rightarrow> (Some x, target, tol)
      | Inr tol \<Rightarrow> (None, target, tol))"

text \<open>The rules by their names in the configuration, as their constructors make them.\<close>

definition new_kind :: "string \<Rightarrow> ruleKind option" where
  "new_kind ruleType =
     (if ruleType = ''numVal'' then Some (numValRule (onePropRule_new Number) 0 (1 / 1000000))
      else if ruleType = ''txtVal'' then Some (txtValRule (onePropRule_new Text) [])
      else if ruleType = ''swVal'' then Some (swValRule (onePropRule_new Switch) UnknownSwitchState)
      else if ruleType = ''timeDiff'' then Some (timeDiffRule (onePropRule_new Number) 0 (1 / 1000000))
      else if ruleType = ''elCompNum'' then Some (elCompNumRule (twoPropRule_new Number) (1 / 1000000))
      else if ruleType = ''elCompTxt'' then Some (elCompTxtRule (twoPropRule_new Text))
      else if ruleType = ''elCompSw'' then Some (elCompSwRule (twoPropRule_new Switch))
      else if ruleType = ''ruleComp'' then Some (ruleCompRule None None)
      else if ruleType = ''multiSwitchCombo'' then Some (multiSwitchComboRule multiSwitchCombo_new)
      else None)"

text \<open>What the branch of each type does after the base is configured.\<close>

fun load_kind ::
  "rule_configurator \<Rightarrow> string \<Rightarrow> ruleComparison \<Rightarrow> prop_map \<Rightarrow> ruleKind \<Rightarrow>
   (mx_exception option \<times> ruleKind \<times> prop_map) option" where
  "load_kind cfg sec cmp props (numValRule r target tol) =
     do { (x, r, props) \<leftarrow> load_onePropRule cfg sec props r;
          Some (case x of
                  Some x \<Rightarrow> (Some x, numValRule r target tol, props)
                | None \<Rightarrow> let (x, target, tol) = load_target_tol cfg sec target tol in (x, numValRule r target tol, props)) }"
| "load_kind cfg sec cmp props (txtValRule r target) =
     do { (x, r, props) \<leftarrow> load_onePropRule cfg sec props r;
          Some (case x of
                  Some x \<Rightarrow> (Some x, txtValRule r target, props)
                | None \<Rightarrow> (None, txtValRule r (config_word cfg sec ''target'' target), props)) }"
| "load_kind cfg sec cmp props (swValRule r target) =
     do { (x, r, props) \<leftarrow> load_onePropRule cfg sec props r;
          Some (case x of
                  Some x \<Rightarrow> (Some x, swValRule r target, props)
                | None \<Rightarrow>
                    (case swVal_target (config_word cfg sec ''target'' ''On'') of
                       Inl x \<Rightarrow> (Some x, swValRule r target, props)
                     | Inr target \<Rightarrow> (None, swValRule r target, props))) }"
| "load_kind cfg sec cmp props (timeDiffRule r target tol) =
     do { (x, r, props) \<leftarrow> load_onePropRule cfg sec props r;
          Some (case x of
                  Some x \<Rightarrow> (Some x, timeDiffRule r target tol, props)
                | None \<Rightarrow> let (x, target, tol) = load_target_tol cfg sec target tol in (x, timeDiffRule r target tol, props)) }"
| "load_kind cfg sec cmp props (elCompNumRule r tol) =
     do { (x, r, props) \<leftarrow> load_twoPropRule cfg sec props r; Some (x, elCompNumRule r tol, props) }"
| "load_kind cfg sec cmp props (elCompTxtRule r) =
     do { (x, r, props) \<leftarrow> load_twoPropRule cfg sec props r; Some (x, elCompTxtRule r, props) }"
| "load_kind cfg sec cmp props (elCompSwRule r) =
     do { (x, r, props) \<leftarrow> load_twoPropRule cfg sec props r; Some (x, elCompSwRule r, props) }"
| "load_kind cfg sec cmp props (multiSwitchComboRule r) =
     do { (x, r, props) \<leftarrow> load_multiSwitchCombo cfg sec cmp props r; Some (x, multiSwitchComboRule r, props) }"
| "load_kind cfg sec cmp props (ruleCompRule r1 r2) = Some (None, ruleCompRule r1 r2, props)"

definition load_rule_keys :: "rule_configurator \<Rightarrow> string \<Rightarrow> mx_exception + ruleRuleKeys" where
  "load_rule_keys cfg sec =
     (let rule1 = config_word cfg sec ''rule1'' []; rule2 = config_word cfg sec ''rule2'' []
      in if rule1 = [] then Inl (invalidconfig, ''rule1 for ruleVal rule '' @ sec @ '' not found'')
      else if rule1 = sec then Inl (invalidconfig, ''rule1 for ruleVal rule '' @ sec @ '' can't equal rule name'')
      else if rule2 = [] then Inl (invalidconfig, ''rule2 for ruleVal rule '' @ sec @ '' not found'')
      else if rule2 = sec then Inl (invalidconfig, ''rule2 for ruleVal rule '' @ sec @ '' can't equal rule name'')
      else Inr \<lparr>rrk_rule1 = rule1, rrk_rule2 = rule2\<rparr>)"

type_synonym rrk_map = "(string, ruleRuleKeys) std_map"

text \<open>One section with a rule; the new rule is in the map also when its configuration throws.\<close>

definition load_rule ::
  "rule_configurator \<Rightarrow> string \<Rightarrow> indiRuleMaps \<Rightarrow> rrk_map \<Rightarrow> (mx_exception option \<times> indiRuleMaps \<times> rrk_map) option" where
  "load_rule cfg sec maps rrk =
     (if map_find sec (rm_rules maps) \<noteq> None
      then Some (Some (invalidconfig, ''duplicate rule: '' @ sec), maps, rrk)
      else
        let ruleType = config_word cfg sec ''ruleType'' []
        in case string2priority (config_word cfg sec ''priority'' ''none'') of
          Inl x \<Rightarrow> Some (Some x, maps, rrk)
        | Inr p \<Rightarrow>
            let message = stripQuotesWS (config_word cfg sec ''message'' [])
            in case new_kind ruleType of
              None \<Rightarrow> Some (Some (notimpl, ''unknown rule type '' @ ruleType @ '' in '' @ sec), maps, rrk)
            | Some k \<Rightarrow>
                if is_ruleComp k \<and> map_find sec rrk \<noteq> None
                then Some (Some (invalidconfig, ''duplicate ruleRule: '' @ sec), maps, rrk)
                else
                  let (x, r) = configureRuleBase cfg sec p message (rule_new k);
                      insert_rule = (\<lambda>r. maps\<lparr>rm_rules := map_assign sec r (rm_rules maps)\<rparr>)
                  in if x \<noteq> None then Some (x, insert_rule r, rrk)
                  else if is_ruleComp k
                  then case load_rule_keys cfg sec of
                         Inl x \<Rightarrow> Some (Some x, insert_rule r, rrk)
                       | Inr keys \<Rightarrow> Some (None, insert_rule r, map_assign sec keys rrk)
                  else
                    do { (x, k, props) \<leftarrow> load_kind cfg sec (r_comparison r) (rm_props maps) k;
                         Some (x, (insert_rule (r\<lparr>r_kind := k\<rparr>))\<lparr>rm_props := props\<rparr>, rrk) })"

fun load_sections ::
  "rule_configurator \<Rightarrow> string list \<Rightarrow> indiRuleMaps \<Rightarrow> rrk_map \<Rightarrow>
   (mx_exception option \<times> indiRuleMaps \<times> rrk_map) option" where
  "load_sections cfg [] maps rrk = Some (None, maps, rrk)"
| "load_sections cfg (sec # secs) maps rrk =
     (if \<not> cfg_isSetUnused cfg sec ''ruleType'' then load_sections cfg secs maps rrk
      else
        do { (x, maps, rrk) \<leftarrow> load_rule cfg sec maps rrk;
             if x \<noteq> None then Some (x, maps, rrk) else load_sections cfg secs maps rrk })"

definition loadRuleConfig ::
  "rule_configurator \<Rightarrow> indiRuleMaps \<Rightarrow> rrk_map \<Rightarrow> (mx_exception option \<times> indiRuleMaps \<times> rrk_map) option" where
  "loadRuleConfig cfg maps rrk =
     (if length (cfg_unusedSections cfg) = 0
      then Some (Some (invalidconfig, ''no rules found in config''), maps, rrk)
      else load_sections cfg (cfg_unusedSections cfg) maps rrk)"

fun finalizeRuleValRules :: "indiRuleMaps \<Rightarrow> rrk_map \<Rightarrow> mx_exception option \<times> indiRuleMaps" where
  "finalizeRuleValRules maps [] = (None, maps)"
| "finalizeRuleValRules maps ((name, keys) # rrk) =
     (case map_find name (rm_rules maps) of
        None \<Rightarrow> (Some (invalidconfig, ''rule parsing error for '' @ name), maps)
      | Some r \<Rightarrow>
          if map_find (rrk_rule1 keys) (rm_rules maps) = None
          then (Some (invalidconfig, ''rule1 '' @ rrk_rule1 keys @ '' not found for ruleVal rule '' @ name), maps)
          else if map_find (rrk_rule2 keys) (rm_rules maps) = None
          then (Some (invalidconfig, ''rule2 '' @ rrk_rule2 keys @ '' not found for ruleVal rule '' @ name), maps)
          else if \<not> is_ruleComp (r_kind r)
          then (Some (invalidconfig, name @ '' is not a ruleVal rule but has rules''), maps)
          else finalizeRuleValRules
                 (maps\<lparr>rm_rules := map_assign name
                    (r\<lparr>r_kind := ruleCompRule (Some (rrk_rule1 keys)) (Some (rrk_rule2 keys))\<rparr>) (rm_rules maps)\<rparr>) rrk)"



section \<open>Types of the properties\<close>

definition typed_ptr :: "prop_map \<Rightarrow> PropertyType \<Rightarrow> string option \<Rightarrow> bool" where
  "typed_ptr props ty p =
     (case p of None \<Rightarrow> False | Some q \<Rightarrow> (case map_find q props of None \<Rightarrow> False | Some ip \<Rightarrow> ip_type ip = ty))"

text \<open>A rule as its class requires it: pointers to properties of its type, sound parameters.\<close>

fun kind_typed :: "prop_map \<Rightarrow> ruleComparison \<Rightarrow> ruleKind \<Rightarrow> bool" where
  "kind_typed props cmp (numValRule r _ tol) \<longleftrightarrow> typed_ptr props Number (op_property r) \<and> 0 \<le> tol"
| "kind_typed props cmp (txtValRule r _) \<longleftrightarrow> typed_ptr props Text (op_property r)"
| "kind_typed props cmp (swValRule r target) \<longleftrightarrow> typed_ptr props Switch (op_property r) \<and> target \<in> {On, Off}"
| "kind_typed props cmp (timeDiffRule r _ tol) \<longleftrightarrow> typed_ptr props Number (op_property r) \<and> 0 \<le> tol"
| "kind_typed props cmp (elCompNumRule r tol) \<longleftrightarrow>
     typed_ptr props Number (tp_property1 r) \<and> typed_ptr props Number (tp_property2 r) \<and> 0 \<le> tol"
| "kind_typed props cmp (elCompTxtRule r) \<longleftrightarrow>
     typed_ptr props Text (tp_property1 r) \<and> typed_ptr props Text (tp_property2 r)"
| "kind_typed props cmp (elCompSwRule r) \<longleftrightarrow>
     typed_ptr props Switch (tp_property1 r) \<and> typed_ptr props Switch (tp_property2 r)"
| "kind_typed props cmp (multiSwitchComboRule c) \<longleftrightarrow> multiSwitchCombo_valid props cmp c = Some (Inr True)"
| "kind_typed props cmp (ruleCompRule r1 r2) \<longleftrightarrow> True"

definition extends :: "prop_map \<Rightarrow> prop_map \<Rightarrow> bool" where
  "extends props props' \<longleftrightarrow> map_wf props' \<and> (\<forall>q ip. map_find q props = Some ip \<longrightarrow> map_find q props' = Some ip)"

lemma extends_refl [simp]: "extends props props = map_wf props"
  by (simp add: extends_def)

lemma extends_trans [trans]: "extends a b \<Longrightarrow> extends b c \<Longrightarrow> extends a c"
  by (auto simp: extends_def)

lemma extends_find: "extends props props' \<Longrightarrow> map_find q props = Some ip \<Longrightarrow> map_find q props' = Some ip"
  by (auto simp: extends_def)

lemma typed_ptr_iff: "typed_ptr props ty p \<longleftrightarrow> (\<exists>q ip. p = Some q \<and> map_find q props = Some ip \<and> ip_type ip = ty)"
  by (auto simp: typed_ptr_def split: option.splits)

lemma typed_ptr_mono: "typed_ptr props ty p \<Longrightarrow> extends props props' \<Longrightarrow> typed_ptr props' ty p"
  by (auto simp: typed_ptr_iff extends_def)

lemma check_sources_mono:
  "check_sources props i srcs = Some rv \<Longrightarrow> extends props props' \<Longrightarrow> check_sources props' i srcs = Some rv"
proof (induction srcs arbitrary: i)
  case (Cons src srcs)
  obtain p key where src: "src = (p, key)" by (cases src)
  show ?case
  proof (cases p)
    case None
    with Cons.prems(1) src show ?thesis by simp
  next
    case (Some q)
    with Cons.prems(1) src obtain ip where ip: "map_find q props = Some ip" by (cases "map_find q props") auto
    have ip': "map_find q props' = Some ip" using extends_find [OF Cons.prems(2) ip] .
    show ?thesis
    proof (cases "ip_type ip = Switch \<and> key \<noteq> []")
      case True
      with Cons.prems(1) src Some ip have "check_sources props (Suc i) srcs = Some rv" by simp
      from Cons.IH [OF this Cons.prems(2)] True src Some ip' show ?thesis by simp
    next
      case False
      with Cons.prems(1) src Some ip ip' show ?thesis by (auto split: if_splits)
    qed
  qed
qed simp

lemma multi_valid_mono:
  assumes "multiSwitchCombo_valid props cmp c = Some (Inr b)" "extends props props'"
  shows "multiSwitchCombo_valid props' cmp c = Some (Inr b)"
proof -
  obtain q ip where t: "mc_targetProperty c = Some q" "map_find q props = Some ip"
    using multi_validD(4) [OF assms(1)] by blast
  obtain rv where s: "check_sources props 0 (zip (mc_properties c) (mc_propertyKeys c)) = Some rv"
    using assms(1) by (auto simp: multiSwitchCombo_valid_def bind_eq_Some_conv split: if_splits)
  from assms(1) show ?thesis
    unfolding multiSwitchCombo_valid_def
    by (simp only: s t check_sources_mono [OF s assms(2)] extends_find [OF assms(2) t(2)] Option.bind.bind_lunit option.case)
qed

lemma points_into_mono: "extends props props' \<Longrightarrow> points_into props p \<Longrightarrow> points_into props' p"
  by (auto simp: points_into_def extends_def split: option.splits)

lemma kind_typed_mono: "kind_typed props cmp k \<Longrightarrow> extends props props' \<Longrightarrow> kind_typed props' cmp k"
  by (cases k) (auto intro: typed_ptr_mono multi_valid_mono)

lemma kind_typed_pointers:
  assumes "kind_typed props cmp k" "\<not> is_ruleComp k"
  shows "list_all (points_into props) (kind_props k)"
proof (cases k)
  case (multiSwitchComboRule c)
  then have v: "multiSwitchCombo_valid props cmp c = Some (Inr True)" using assms by simp
  have "list_all (points_into props) (mc_properties c)"
    using multi_validD(3) [OF v] by (rule list.pred_mono_strong) (auto simp: points_into_def)
  moreover have "points_into props (mc_targetProperty c)"
    using multi_validD(4) [OF v] by (auto simp: points_into_def)
  ultimately show ?thesis using multiSwitchComboRule by simp
qed (use assms in \<open>auto simp: typed_ptr_iff points_into_def\<close>)

section \<open>Loading a rule\<close>

lemma extractRuleProperty_ok:
  assumes "map_wf props" "extractRuleProperty cfg sec key ty props = (rv, props')"
  shows "extends props props'" and "rv = Inr q \<Longrightarrow> typed_ptr props' ty (Some q) \<and> q \<noteq> []"
  using assms by (auto simp: extractRuleProperty_def Let_def extends_def typed_ptr_iff map_find_assign map_wf_assign
      IndiProperty_new_def split: if_splits option.splits)

lemma extractRuleProp_ok:
  assumes "map_wf props" "extractRuleProp cfg sec key el ty props = (rv, props')"
  shows "extends props props'" and "rv = Inr (q, e) \<Longrightarrow> typed_ptr props' ty (Some q)"
  using assms extractRuleProperty_ok
  by (fastforce simp: extractRuleProp_def split: prod.splits sum.splits)+

lemma check_property_typed:
  "typed_ptr props ty (Some q) \<Longrightarrow> check_property props ty what (Some q) = Some (Inr q)"
  by (auto simp: check_property_def typed_ptr_iff)

lemma load_onePropRule_ok:
  assumes "map_wf props"
  shows "\<exists>x r' props'. load_onePropRule cfg sec props r = Some (x, r', props') \<and> extends props props' \<and>
           (x = None \<longrightarrow> typed_ptr props' (op_type r) (op_property r'))"
proof -
  obtain rv props' where e: "extractRuleProp cfg sec ''property'' ''element'' (op_type r) props = (rv, props')"
    by fastforce
  note ok = extractRuleProp_ok [OF assms e]
  show ?thesis
  proof (cases rv)
    case (Inr qe)
    obtain q el where "qe = (q, el)" by (cases qe)
    with e ok Inr show ?thesis
      by (simp add: load_onePropRule_def onePropRule_property_def check_property_typed)
  qed (use e ok in \<open>simp add: load_onePropRule_def\<close>)
qed

lemma load_twoPropRule_ok:
  assumes "map_wf props"
  shows "\<exists>x r' props'. load_twoPropRule cfg sec props r = Some (x, r', props') \<and> extends props props' \<and>
           (x = None \<longrightarrow> typed_ptr props' (tp_type r) (tp_property1 r') \<and> typed_ptr props' (tp_type r) (tp_property2 r'))"
proof -
  obtain rv props1 where e: "extractRuleProp cfg sec ''property1'' ''element1'' (tp_type r) props = (rv, props1)"
    by fastforce
  note ok = extractRuleProp_ok [OF assms e]
  have wf1: "map_wf props1" using ok(1) by (simp add: extends_def)
  obtain rv2 props2 where e2: "extractRuleProp cfg sec ''property2'' ''element2'' (tp_type r) props1 = (rv2, props2)"
    by fastforce
  note ok2 = extractRuleProp_ok [OF wf1 e2]
  have ext: "extends props props2" using ok(1) ok2(1) by (rule extends_trans)
  show ?thesis
  proof (cases rv)
    case Inr1: (Inr qe)
    obtain q el where qe: "qe = (q, el)" by (cases qe)
    have t1: "typed_ptr props1 (tp_type r) (Some q)" using ok(2) Inr1 qe by blast
    show ?thesis
    proof (cases rv2)
      case (Inr qe2)
      obtain q2 el2 where qe2: "qe2 = (q2, el2)" by (cases qe2)
      have t2: "typed_ptr props2 (tp_type r) (Some q2)" using ok2(2) Inr qe2 by blast
      have t3: "typed_ptr props2 (tp_type r) (Some q)" using typed_ptr_mono [OF t1 ok2(1)] .
      show ?thesis
        using e e2 Inr1 Inr qe qe2 t1 t2 t3 ext
        by (simp add: load_twoPropRule_def twoPropRule_property1_def twoPropRule_property2_def check_property_typed)
    next
      case (Inl x)
      then show ?thesis
        using e e2 Inr1 qe t1 ext
        by (simp add: load_twoPropRule_def twoPropRule_property1_def check_property_typed)
    qed
  qed (use e ok in \<open>simp add: load_twoPropRule_def\<close>)
qed

lemma load_switches_ok:
  "map_wf props \<Longrightarrow> list_all (points_into props) (mc_properties r) \<Longrightarrow>
     \<exists>x r' props'. load_switches cfg sec n k props r = Some (x, r', props') \<and> extends props props' \<and>
       list_all (points_into props') (mc_properties r')"
proof (induction k arbitrary: n props r)
  case (Suc k)
  obtain rv props1 where e: "extractRuleProperty cfg sec (''property'' @ fmt0 1 (int n + 1)) Switch props = (rv, props1)"
    by fastforce
  note ok = extractRuleProperty_ok [OF Suc.prems(1) e]
  have pts: "list_all (points_into props1) (mc_properties r)"
    using Suc.prems(2) by (rule list.pred_mono_strong) (rule points_into_mono [OF ok(1)])
  show ?case
  proof (cases rv)
    case (Inr q)
    then have q: "typed_ptr props1 Switch (Some q)" using ok(2) by blast
    let ?r = "r\<lparr>mc_properties := mc_properties r @ [Some q], mc_propertyKeys := mc_propertyKeys r @ [q],
                mc_multiOn := mc_multiOn r @ [False]\<rparr>"
    obtain x r' props' where "load_switches cfg sec (Suc n) k props1 ?r = Some (x, r', props')"
      "extends props1 props'" "list_all (points_into props') (mc_properties r')"
    proof -
      have "map_wf props1" using ok(1) by (simp add: extends_def)
      moreover have "points_into props1 (Some q)" using q by (auto simp: points_into_def typed_ptr_iff)
      ultimately show thesis using Suc.IH [of props1 ?r "Suc n"] pts that by fastforce
    qed
    moreover have "extends props props'" using ok(1) \<open>extends props1 props'\<close> by (rule extends_trans)
    ultimately show ?thesis
      using e Inr q by (simp add: multiSwitchCombo_property_def check_property_typed)
  qed (use e ok pts in simp)
qed simp

lemma load_multi_ok:
  assumes "map_wf props" "mc_properties r = []"
  shows "\<exists>x r' props'. load_multiSwitchCombo cfg sec cmp props r = Some (x, r', props') \<and> extends props props' \<and>
           (x = None \<longrightarrow> multiSwitchCombo_valid props' cmp r' = Some (Inr True))"
proof (cases "config_int cfg sec ''numSwitches'' 0 < 1")
  case True
  with assms(1) show ?thesis by (simp add: load_multiSwitchCombo_def)
next
  case False
  obtain x r1 props1 where s:
    "load_switches cfg sec 0 (nat (config_int cfg sec ''numSwitches'' 0)) props (r\<lparr>mc_ruleName := sec\<rparr>) = Some (x, r1, props1)"
    "extends props props1" "list_all (points_into props1) (mc_properties r1)"
    using load_switches_ok [OF assms(1), of "r\<lparr>mc_ruleName := sec\<rparr>"] assms(2) that by fastforce
  let ?r = "r1\<lparr>mc_format := stripQuotesWS (config_word cfg sec ''format'' [])\<rparr>"
  obtain rv props2 where e: "extractRuleProperty cfg sec ''targetProperty'' Switch props1 = (rv, props2)"
    by fastforce
  have wf1: "map_wf props1" using s(2) by (simp add: extends_def)
  note ok = extractRuleProperty_ok [OF wf1 e]
  have ext: "extends props props2" using s(2) ok(1) by (rule extends_trans)
  show ?thesis
  proof (cases "x = None \<and> \<not> isl rv")
    case F: False
    then show ?thesis
      using False s e ext by (cases x; cases rv) (simp_all add: load_multiSwitchCombo_def)
  next
    case True
    then obtain q where q: "rv = Inr q" "x = None" by (cases rv) auto
    let ?c = "?r\<lparr>mc_targetProperty := Some q, mc_targetPropertyKey := q\<rparr>"
    have t: "check_property props2 Switch ''targetProperty'' (Some q) = Some (Inr q)"
      using ok(2) q by (simp add: check_property_typed)
    have "load_multiSwitchCombo cfg sec cmp props r =
        map_option (\<lambda>rv. case rv of
             Inl e \<Rightarrow> (Some (invalidconfig, ''multiSwitchCombo rule '' @ sec @ '' is invalid: '' @ e), ?c, props2)
           | Inr _ \<Rightarrow> (None, ?c, props2)) (multiSwitchCombo_valid props2 cmp ?c)"
      using False s e q t
      by (simp add: load_multiSwitchCombo_def multiSwitchCombo_targetProperty_def map_conv_bind_option Let_def comp_def)
    moreover have "multiSwitchCombo_valid props2 cmp ?c \<noteq> None"
    proof (rule multi_valid_total)
      have "list_all (points_into props2) (mc_properties r1)"
        using s(3) by (rule list.pred_mono_strong) (rule points_into_mono [OF ok(1)])
      moreover have "points_into props2 (Some q)" using ok(2) q by (auto simp: typed_ptr_iff points_into_def)
      ultimately show "list_all (points_into props2) (mc_targetProperty ?c # mc_properties ?c)" by simp
    qed
    ultimately show ?thesis
      using ext multi_validD(7) by (cases "the (multiSwitchCombo_valid props2 cmp ?c)") auto
  qed
qed


lemma load_target_tol_ok:
  "load_target_tol cfg sec target tol = (None, target', tol') \<Longrightarrow> 0 \<le> tol'"
  by (auto simp: load_target_tol_def check_tol_def split: if_splits)

lemma load_kind_ok:
  assumes "map_wf props" "new_kind ty = Some k"
  shows "\<exists>x k' props'. load_kind cfg sec cmp props k = Some (x, k', props') \<and> extends props props' \<and>
           is_ruleComp k' = is_ruleComp k \<and> (x = None \<longrightarrow> kind_typed props' cmp k')"
proof (cases k)
  case (numValRule r target tol)
  then have "op_type r = Number" using assms(2) by (auto simp: new_kind_def onePropRule_new_def split: if_splits)
  with load_onePropRule_ok [OF assms(1), of cfg sec r] numValRule load_target_tol_ok show ?thesis
    by (fastforce split: option.split prod.split)
next
  case (timeDiffRule r target tol)
  then have "op_type r = Number" using assms(2) by (auto simp: new_kind_def onePropRule_new_def split: if_splits)
  with load_onePropRule_ok [OF assms(1), of cfg sec r] timeDiffRule load_target_tol_ok show ?thesis
    by (fastforce split: option.split prod.split)
next
  case (txtValRule r target)
  then have "op_type r = Text" using assms(2) by (auto simp: new_kind_def onePropRule_new_def split: if_splits)
  with load_onePropRule_ok [OF assms(1), of cfg sec r] txtValRule show ?thesis
    by (fastforce split: option.split)
next
  case (swValRule r target)
  then have "op_type r = Switch" using assms(2) by (auto simp: new_kind_def onePropRule_new_def split: if_splits)
  with load_onePropRule_ok [OF assms(1), of cfg sec r] swValRule show ?thesis
    by (fastforce simp: swVal_target_def split: option.split)
next
  case (elCompNumRule r tol)
  then have "tp_type r = Number \<and> 0 \<le> tol" using assms(2) by (auto simp: new_kind_def twoPropRule_new_def split: if_splits)
  with load_twoPropRule_ok [OF assms(1), of cfg sec r] elCompNumRule show ?thesis by fastforce
next
  case (elCompTxtRule r)
  then have "tp_type r = Text" using assms(2) by (auto simp: new_kind_def twoPropRule_new_def split: if_splits)
  with load_twoPropRule_ok [OF assms(1), of cfg sec r] elCompTxtRule show ?thesis by fastforce
next
  case (elCompSwRule r)
  then have "tp_type r = Switch" using assms(2) by (auto simp: new_kind_def twoPropRule_new_def split: if_splits)
  with load_twoPropRule_ok [OF assms(1), of cfg sec r] elCompSwRule show ?thesis by fastforce
next
  case (multiSwitchComboRule c)
  then have "mc_properties c = []" using assms(2) by (auto simp: new_kind_def multiSwitchCombo_new_def split: if_splits)
  with load_multi_ok [OF assms(1), of c cfg sec cmp] multiSwitchComboRule show ?thesis by fastforce
qed (use assms(1) in simp)

section \<open>Loading all rules\<close>

text \<open>The maps while rules are loaded: the partners of \<open>ruleComp\<close> rules are still held aside.\<close>

definition load_inv :: "indiRuleMaps \<Rightarrow> rrk_map \<Rightarrow> bool" where
  "load_inv maps rrk \<longleftrightarrow>
     map_wf (rm_rules maps) \<and> map_wf (rm_props maps) \<and> map_wf rrk \<and>
     (\<forall>n r. map_find n (rm_rules maps) = Some r \<longrightarrow>
        kind_typed (rm_props maps) (r_comparison r) (r_kind r) \<and>
        (is_ruleComp (r_kind r) \<longrightarrow> map_find n rrk \<noteq> None)) \<and>
     (\<forall>n keys. map_find n rrk = Some keys \<longrightarrow> rrk_rule1 keys \<noteq> n \<and> rrk_rule2 keys \<noteq> n)"

lemma configureRuleBase_kind: "configureRuleBase cfg sec p message r = (x, r') \<Longrightarrow> r_kind r' = r_kind r"
  by (auto simp: configureRuleBase_def Let_def set_priority_def split: sum.splits)

lemma load_rule_ok:
  assumes "load_inv maps rrk"
  shows "\<exists>x maps' rrk'. load_rule cfg sec maps rrk = Some (x, maps', rrk') \<and> (x = None \<longrightarrow> load_inv maps' rrk')"
proof (cases "map_find sec (rm_rules maps) = None \<and> \<not> isl (string2priority (config_word cfg sec ''priority'' ''none'')) \<and>
    (\<exists>k. new_kind (config_word cfg sec ''ruleType'' []) = Some k \<and> \<not> (is_ruleComp k \<and> map_find sec rrk \<noteq> None))")
  case False
  then show ?thesis
    by (auto simp: load_rule_def Let_def split: sum.split option.split)
next
  case True
  then obtain p k where 1: "map_find sec (rm_rules maps) = None"
    "string2priority (config_word cfg sec ''priority'' ''none'') = Inr p"
    "new_kind (config_word cfg sec ''ruleType'' []) = Some k" "\<not> (is_ruleComp k \<and> map_find sec rrk \<noteq> None)"
    by (cases "string2priority (config_word cfg sec ''priority'' ''none'')") auto
  obtain x r where b: "configureRuleBase cfg sec p (stripQuotesWS (config_word cfg sec ''message'' [])) (rule_new k) = (x, r)"
    by fastforce
  have wf: "map_wf (rm_props maps)" "map_wf (rm_rules maps)" "map_wf rrk" using assms by (simp_all add: load_inv_def)
  have kind: "r_kind r = k" using configureRuleBase_kind [OF b] by (simp add: rule_new_def)
  show ?thesis
  proof (cases x)
    case (Some y)
    with 1 b show ?thesis by (simp add: load_rule_def)
  next
    case None
    show ?thesis
    proof (cases "is_ruleComp k")
      case True
      then obtain r1 r2 where k: "k = ruleCompRule r1 r2" by (rule is_ruleComp_obtain)
      show ?thesis
      proof (cases "load_rule_keys cfg sec")
        case (Inl y)
        with 1 b None True show ?thesis by (simp add: load_rule_def)
      next
        case (Inr keys)
        have "load_inv (maps\<lparr>rm_rules := map_assign sec r (rm_rules maps)\<rparr>) (map_assign sec keys rrk)"
          using assms kind k Inr
          by (auto simp: load_inv_def map_find_assign map_wf_assign load_rule_keys_def Let_def split: if_splits)
        with 1 b None True Inr show ?thesis by (simp add: load_rule_def)
      qed
    next
      case False
      obtain y k' props' where l: "load_kind cfg sec (r_comparison r) (rm_props maps) k = Some (y, k', props')"
        "extends (rm_props maps) props'" "is_ruleComp k' = is_ruleComp k"
        "y = None \<longrightarrow> kind_typed props' (r_comparison r) k'"
        using load_kind_ok [OF wf(1) 1(3)] by blast
      let ?m = "maps\<lparr>rm_rules := map_assign sec (r\<lparr>r_kind := k'\<rparr>) (rm_rules maps), rm_props := props'\<rparr>"
      have "load_inv ?m rrk" if "y = None"
        using assms that l False kind_typed_mono [OF _ l(2)]
        by (auto simp: load_inv_def map_find_assign map_wf_assign extends_def)
      with 1 b None False l show ?thesis by (simp add: load_rule_def)
    qed
  qed
qed

lemma load_sections_ok:
  "load_inv maps rrk \<Longrightarrow>
     \<exists>x maps' rrk'. load_sections cfg secs maps rrk = Some (x, maps', rrk') \<and> (x = None \<longrightarrow> load_inv maps' rrk')"
proof (induction secs arbitrary: maps rrk)
  case (Cons sec secs)
  obtain x maps' rrk' where 1: "load_rule cfg sec maps rrk = Some (x, maps', rrk')" "x = None \<longrightarrow> load_inv maps' rrk'"
    using load_rule_ok [OF Cons.prems] by blast
  show ?case
  proof (cases "cfg_isSetUnused cfg sec ''ruleType'' \<and> x = None")
    case True
    with Cons.IH [of maps' rrk'] 1 show ?thesis by simp
  next
    case False
    with Cons 1 show ?thesis by auto
  qed
qed simp

lemma loadRuleConfig_inv:
  "load_inv maps rrk \<Longrightarrow>
     \<exists>x maps' rrk'. loadRuleConfig cfg maps rrk = Some (x, maps', rrk') \<and> (x = None \<longrightarrow> load_inv maps' rrk')"
  using load_sections_ok by (simp add: loadRuleConfig_def)


definition with_partners :: "ruleRuleKeys \<Rightarrow> indiCompRule \<Rightarrow> indiCompRule" where
  "with_partners keys r = r\<lparr>r_kind := ruleCompRule (Some (rrk_rule1 keys)) (Some (rrk_rule2 keys))\<rparr>"

lemma finalize_all:
  "map_wf (rm_rules maps) \<Longrightarrow> distinct (map fst rrk) \<Longrightarrow> finalizeRuleValRules maps rrk = (None, maps') \<Longrightarrow>
     rm_props maps' = rm_props maps \<and> map_wf (rm_rules maps') \<and>
     (\<forall>n. map_find n (rm_rules maps') =
        (case map_find n rrk of None \<Rightarrow> map_find n (rm_rules maps)
         | Some keys \<Rightarrow> map_option (with_partners keys) (map_find n (rm_rules maps)))) \<and>
     (\<forall>n keys. map_find n rrk = Some keys \<longrightarrow>
        map_find (rrk_rule1 keys) (rm_rules maps) \<noteq> None \<and> map_find (rrk_rule2 keys) (rm_rules maps) \<noteq> None)"
proof (induction maps rrk rule: finalizeRuleValRules.induct)
  case (1 maps)
  then show ?case by (simp add: map_find_def)
next
  case (2 maps name ks rrk)
  obtain r where r: "map_find name (rm_rules maps) = Some r"
    using "2.prems"(3) by (cases "map_find name (rm_rules maps)") auto
  have k: "map_find (rrk_rule1 ks) (rm_rules maps) \<noteq> None" "map_find (rrk_rule2 ks) (rm_rules maps) \<noteq> None"
    "is_ruleComp (r_kind r)"
    using "2.prems"(3) r by (auto split: if_splits)
  let ?m = "maps\<lparr>rm_rules := map_assign name (with_partners ks r) (rm_rules maps)\<rparr>"
  have rest: "finalizeRuleValRules ?m rrk = (None, maps')"
    using "2.prems"(3) r k by (simp add: with_partners_def)
  have wf: "map_wf (rm_rules ?m)" "distinct (map fst rrk)"
    using "2.prems"(1,2) by (simp_all add: map_wf_assign)
  note IH = "2.IH" [OF r, folded with_partners_def, OF _ _ _ wf rest]
  have IH: "rm_props maps' = rm_props ?m" "map_wf (rm_rules maps')"
    "map_find j (rm_rules maps') = (case map_find j rrk of None \<Rightarrow> map_find j (rm_rules ?m)
        | Some keys \<Rightarrow> map_option (with_partners keys) (map_find j (rm_rules ?m)))"
    "map_find j rrk = Some keys \<longrightarrow>
       map_find (rrk_rule1 keys) (rm_rules ?m) \<noteq> None \<and> map_find (rrk_rule2 keys) (rm_rules ?m) \<noteq> None" for j keys
    using IH k by blast+
  have find: "map_find j (rm_rules ?m) = (if j = name then Some (with_partners ks r) else map_find j (rm_rules maps))" for j
    using "2.prems"(1) by (simp add: map_find_assign)
  have none: "map_find j (rm_rules ?m) = None \<longleftrightarrow> map_find j (rm_rules maps) = None" for j
    using find [of j] r by simp
  have name: "map_find name rrk = None"
    using "2.prems"(2) by (simp add: map_find_def map_of_eq_None_iff)
  have cons: "map_find j ((name, ks) # rrk) = (if j = name then Some ks else map_find j rrk)" for j
    by (simp add: map_find_def)
  have "map_find j (rm_rules maps') =
       (case map_find j ((name, ks) # rrk) of None \<Rightarrow> map_find j (rm_rules maps)
        | Some keys \<Rightarrow> map_option (with_partners keys) (map_find j (rm_rules maps)))" for j
    using IH(3) [of j] name find [of j] r cons [of j] by (cases "j = name"; cases "map_find j rrk") simp_all
  moreover have "map_find j ((name, ks) # rrk) = Some keys \<longrightarrow>
      map_find (rrk_rule1 keys) (rm_rules maps) \<noteq> None \<and> map_find (rrk_rule2 keys) (rm_rules maps) \<noteq> None" for j keys
    using IH(4) [of j keys] cons [of j] none [of "rrk_rule1 keys"] none [of "rrk_rule2 keys"] k
    by (cases "j = name"; cases "ks = keys") (simp_all del: not_None_eq)
  ultimately show ?case using IH(1,2) by simp
qed

text \<open>The maps of a configuration that was accepted.\<close>

definition rules_ok :: "indiRuleMaps \<Rightarrow> bool" where
  "rules_ok maps \<longleftrightarrow>
     map_wf (rm_rules maps) \<and> map_wf (rm_props maps) \<and>
     list_all (\<lambda>(n, r).
       kind_typed (rm_props maps) (r_comparison r) (r_kind r) \<and>
       list_all (\<lambda>p. case p of None \<Rightarrow> False | Some n' \<Rightarrow> n' \<noteq> n \<and> map_find n' (rm_rules maps) \<noteq> None)
         (kind_rules (r_kind r))) (rm_rules maps)"

lemma rules_ok_iff:
  "rules_ok maps \<longleftrightarrow> map_wf (rm_rules maps) \<and> map_wf (rm_props maps) \<and>
     (\<forall>n r. map_find n (rm_rules maps) = Some r \<longrightarrow>
        kind_typed (rm_props maps) (r_comparison r) (r_kind r) \<and>
        list_all (\<lambda>p. case p of None \<Rightarrow> False | Some n' \<Rightarrow> n' \<noteq> n \<and> map_find n' (rm_rules maps) \<noteq> None)
          (kind_rules (r_kind r)))"
  by (cases "map_wf (rm_rules maps)") (simp_all add: rules_ok_def list_all_find del: not_None_eq)

lemma rules_ok_pointers:
  assumes "rules_ok m"
  shows "pointers_ok m"
proof -
  have "list_all (points_into (rm_props m)) (kind_props (r_kind r)) \<and>
      list_all (points_into (rm_rules m)) (kind_rules (r_kind r))"
    if r: "map_find n (rm_rules m) = Some r" for n r
  proof
    have t: "kind_typed (rm_props m) (r_comparison r) (r_kind r)"
      and k: "list_all (\<lambda>p. case p of None \<Rightarrow> False | Some n' \<Rightarrow> n' \<noteq> n \<and> map_find n' (rm_rules m) \<noteq> None)
          (kind_rules (r_kind r))"
      using assms r unfolding rules_ok_iff by blast+
    show "list_all (points_into (rm_props m)) (kind_props (r_kind r))"
      using kind_typed_pointers [OF t] by (cases "is_ruleComp (r_kind r)") (auto elim: is_ruleComp_obtain)
    show "list_all (points_into (rm_rules m)) (kind_rules (r_kind r))"
      using k by (rule list.pred_mono_strong) (auto simp: points_into_def split: option.splits)
  qed
  moreover have "map_wf (rm_rules m)" using assms by (simp add: rules_ok_def)
  ultimately show ?thesis by (simp add: pointers_ok_def list_all_find)
qed

lemma finalize_ok:
  assumes inv: "load_inv maps rrk" and fin: "finalizeRuleValRules maps rrk = (None, maps')"
  shows "rules_ok maps'"
proof -
  have wf: "map_wf (rm_rules maps)" "map_wf (rm_props maps)" "distinct (map fst rrk)"
    using inv map_wf_distinct by (auto simp: load_inv_def)
  have F: "rm_props maps' = rm_props maps" "map_wf (rm_rules maps')"
    "map_find n (rm_rules maps') =
       (case map_find n rrk of None \<Rightarrow> map_find n (rm_rules maps)
        | Some keys \<Rightarrow> map_option (with_partners keys) (map_find n (rm_rules maps)))"
    "map_find n rrk = Some keys \<longrightarrow>
       map_find (rrk_rule1 keys) (rm_rules maps) \<noteq> None \<and> map_find (rrk_rule2 keys) (rm_rules maps) \<noteq> None" for n keys
    using finalize_all [OF wf(1,3) fin] by blast+
  have keys: "map_find j (rm_rules maps') = None \<longleftrightarrow> map_find j (rm_rules maps) = None" for j
    using F(3) [of j] by (auto split: option.splits)
  have "kind_typed (rm_props maps') (r_comparison r') (r_kind r') \<and>
      list_all (\<lambda>p. case p of None \<Rightarrow> False | Some n' \<Rightarrow> n' \<noteq> n \<and> map_find n' (rm_rules maps') \<noteq> None) (kind_rules (r_kind r'))"
    if r': "map_find n (rm_rules maps') = Some r'" for n r'
  proof (cases "map_find n rrk")
    case None
    then have r: "map_find n (rm_rules maps) = Some r'" using F(3) [of n] r' by simp
    with inv None have "\<not> is_ruleComp (r_kind r')" "kind_typed (rm_props maps) (r_comparison r') (r_kind r')"
      unfolding load_inv_def by blast+
    then show ?thesis using F(1) by (cases "r_kind r'") simp_all
  next
    case (Some keys')
    then have "r_kind r' = ruleCompRule (Some (rrk_rule1 keys')) (Some (rrk_rule2 keys'))"
      using F(3) [of n] r' by (cases "map_find n (rm_rules maps)") (auto simp: with_partners_def)
    moreover have "rrk_rule1 keys' \<noteq> n \<and> rrk_rule2 keys' \<noteq> n"
      using inv Some unfolding load_inv_def by blast
    ultimately show ?thesis using F(4) [of n keys'] Some keys by simp
  qed
  moreover have "map_wf (rm_props maps')" using F(1) wf(2) by simp
  ultimately show ?thesis using F(2) unfolding rules_ok_iff by blast
qed


section \<open>Results\<close>

lemma load_rule_names:
  assumes "load_rule cfg sec maps rrk = Some (None, maps', rrk')" "map_wf (rm_rules maps)"
  shows "map_wf (rm_rules maps') \<and>
    (\<forall>n. map_find n (rm_rules maps') \<noteq> None \<longleftrightarrow> n = sec \<or> map_find n (rm_rules maps) \<noteq> None)"
proof -
  have "\<exists>r. rm_rules maps' = map_assign sec r (rm_rules maps)"
    using assms(1)
    by (auto simp: load_rule_def Let_def bind_eq_Some_conv split: if_splits sum.splits option.splits prod.splits)
  then show ?thesis using assms(2) by (auto simp: map_find_assign map_wf_assign)
qed

lemma load_sections_names:
  "load_sections cfg secs maps rrk = Some (None, maps', rrk') \<Longrightarrow> map_wf (rm_rules maps) \<Longrightarrow>
     map_find n (rm_rules maps') \<noteq> None \<longleftrightarrow>
       map_find n (rm_rules maps) \<noteq> None \<or> n \<in> set secs \<and> cfg_isSetUnused cfg n ''ruleType''"
proof (induction secs arbitrary: maps rrk)
  case (Cons sec secs)
  show ?case
  proof (cases "cfg_isSetUnused cfg sec ''ruleType''")
    case False
    then show ?thesis using Cons.IH [of maps rrk] Cons.prems by auto
  next
    case True
    obtain x maps1 rrk1 where 1: "load_rule cfg sec maps rrk = Some (x, maps1, rrk1)"
      using Cons.prems(1) True by (cases "load_rule cfg sec maps rrk") auto
    have x: "x = None" "load_sections cfg secs maps1 rrk1 = Some (None, maps', rrk')"
      using Cons.prems(1) True 1 by (cases x; simp)+
    note names = load_rule_names [OF 1 [unfolded x(1)] Cons.prems(2)]
    have "map_find n (rm_rules maps') \<noteq> None \<longleftrightarrow>
        map_find n (rm_rules maps1) \<noteq> None \<or> n \<in> set secs \<and> cfg_isSetUnused cfg n ''ruleType''"
      using names by (intro Cons.IH [OF x(2)]) simp
    then show ?thesis using names True by auto
  qed
qed simp

lemma config_result:
  assumes "loadRuleConfig cfg \<lparr>rm_rules = [], rm_props = []\<rparr> [] = Some (None, maps, rrk)"
    and "finalizeRuleValRules maps rrk = (None, maps')"
  shows "rules_ok maps' \<and> pointers_ok maps' \<and>
    (\<forall>n. map_find n (rm_rules maps') \<noteq> None \<longleftrightarrow> n \<in> set (cfg_unusedSections cfg) \<and> cfg_isSetUnused cfg n ''ruleType'')"
proof -
  have inv: "load_inv maps rrk"
    using loadRuleConfig_inv [of "\<lparr>rm_rules = [], rm_props = []\<rparr>" "[]" cfg] assms(1) by (simp add: load_inv_def map_find_def)
  have ok: "rules_ok maps'" using finalize_ok [OF inv assms(2)] .
  have s: "load_sections cfg (cfg_unusedSections cfg) \<lparr>rm_rules = [], rm_props = []\<rparr> [] = Some (None, maps, rrk)"
    using assms(1) by (simp add: loadRuleConfig_def split: if_splits)
  have wf: "map_wf (rm_rules maps)" "distinct (map fst rrk)"
    using inv map_wf_distinct by (auto simp: load_inv_def)
  have "map_find n (rm_rules maps') = None \<longleftrightarrow> map_find n (rm_rules maps) = None" for n
    using finalize_all [OF wf assms(2)] by (auto split: option.splits)
  then show ?thesis
    using ok rules_ok_pointers [OF ok] load_sections_names [OF s] by (simp add: map_find_def)
qed

text \<open>C12: Loading rules gives well-typed maps. When a configuration is accepted, its rules are exactly the sections
  with a \<open>ruleType\<close>; every rule points to existing properties of the type its class demands,
  with a tolerance that is not negative, a switch target that is On or Off, and, for a
  combination, sources that match its format; a rule that compares rules has two partners that
  exist and are not itself. So no pointer dangles.
\<close>

theorem rule_config_typed:
  assumes "loadRuleConfig cfg \<lparr>rm_rules = [], rm_props = []\<rparr> [] = Some (None, maps, rrk)"
    and "finalizeRuleValRules maps rrk = (None, maps')"
  shows "rules_ok maps' \<and> pointers_ok maps' \<and>
    (\<forall>n. map_find n (rm_rules maps') \<noteq> None \<longleftrightarrow> n \<in> set (cfg_unusedSections cfg) \<and> cfg_isSetUnused cfg n ''ruleType'')"
  using config_result [OF assms] .

text \<open>A configuration with three rules.\<close>

definition sample_values :: "((string \<times> string) \<times> string) list" where
  "sample_values =
     [((''dark'', ''ruleType''), ''swVal''), ((''dark'', ''property''), ''cam.shutter''), ((''dark'', ''element''), ''toggle''),
      ((''dark'', ''target''), ''Off''),
      ((''hot'', ''ruleType''), ''numVal''), ((''hot'', ''property''), ''cam.temp''), ((''hot'', ''element''), ''current''),
      ((''hot'', ''comp''), ''Gt''), ((''hot'', ''priority''), ''info''),
      ((''warm'', ''ruleType''), ''ruleComp''), ((''warm'', ''rule1''), ''hot''), ((''warm'', ''rule2''), ''dark''),
      ((''warm'', ''priority''), ''warning''), ((''warm'', ''message''), ''\"camera is warm \"'')]"

definition sample_config :: rule_configurator where
  "sample_config =
     \<lparr>cfg_unusedSections = [''dark'', ''warm'', ''hot''],
      cfg_isSetUnused = (\<lambda>s k. map_of sample_values (s, k) \<noteq> None),
      cfg_numbers = (\<lambda>_ _. []), cfg_words = (\<lambda>_ _. []),
      cfg_word = (\<lambda>s k. case map_of sample_values (s, k) of None \<Rightarrow> [] | Some v \<Rightarrow> v),
      cfg_double = (\<lambda>_ _. 0), cfg_int = (\<lambda>_ _. 0)\<rparr>"

definition sample_loaded :: "mx_exception option \<times> indiRuleMaps \<times> rrk_map" where
  "sample_loaded = the (loadRuleConfig sample_config \<lparr>rm_rules = [], rm_props = []\<rparr> [])"

definition sample_maps :: indiRuleMaps where
  "sample_maps = snd (finalizeRuleValRules (fst (snd sample_loaded)) (snd (snd sample_loaded)))"

lemma sample_load:
  "loadRuleConfig sample_config \<lparr>rm_rules = [], rm_props = []\<rparr> [] = Some (None, fst (snd sample_loaded), snd (snd sample_loaded))"
proof -
  have "loadRuleConfig sample_config \<lparr>rm_rules = [], rm_props = []\<rparr> [] \<noteq> None" "fst sample_loaded = None"
    by code_simp+
  then show ?thesis by (cases sample_loaded) (auto simp: sample_loaded_def)
qed

lemma sample_final:
  "finalizeRuleValRules (fst (snd sample_loaded)) (snd (snd sample_loaded)) = (None, sample_maps)"
proof -
  have "fst (finalizeRuleValRules (fst (snd sample_loaded)) (snd (snd sample_loaded))) = None" by code_simp
  then show ?thesis by (metis prod.collapse sample_maps_def)
qed

lemma sample_maps_rules: "map fst (rm_rules sample_maps) = [''dark'', ''hot'', ''warm'']"
  by code_simp

lemma sample_maps_kinds:
  "map (\<lambda>(n, r). (n, kind_rules (r_kind r))) (rm_rules sample_maps) =
     [(''dark'', []), (''hot'', []), (''warm'', [Some ''hot'', Some ''dark''])]"
  by code_simp


theorem rule_config_typed_witness:
  "rules_ok sample_maps \<and> pointers_ok sample_maps \<and> map_find ''warm'' (rm_rules sample_maps) \<noteq> None"
  using rule_config_typed [OF sample_load sample_final] by (simp add: sample_config_def sample_values_def)

lemma sample_maps_ok:
  "acyclic (calls sample_maps)" "numbers_filled sample_maps" "length (rm_rules sample_maps) = 3"
proof -
  show "acyclic (calls sample_maps)"
    by (rule acyclic_by_rank [where rank = "\<lambda>n. if n = ''warm'' then 1 else 0"]) (auto simp: sample_maps_kinds)
  show "numbers_filled sample_maps" by code_simp
  show "length (rm_rules sample_maps) = 3" by code_simp
qed

text \<open>
  Two rules that name each other: the configuration is accepted, and neither rule can ever be
  evaluated.
\<close>

definition cyclic_values :: "((string \<times> string) \<times> string) list" where
  "cyclic_values =
     [((''a'', ''ruleType''), ''ruleComp''), ((''a'', ''rule1''), ''b''), ((''a'', ''rule2''), ''b''), ((''a'', ''priority''), ''info''),
      ((''b'', ''ruleType''), ''ruleComp''), ((''b'', ''rule1''), ''a''), ((''b'', ''rule2''), ''a'')]"

definition cyclic_config :: rule_configurator where
  "cyclic_config =
     \<lparr>cfg_unusedSections = [''a'', ''b''],
      cfg_isSetUnused = (\<lambda>s k. map_of cyclic_values (s, k) \<noteq> None),
      cfg_numbers = (\<lambda>_ _. []), cfg_words = (\<lambda>_ _. []),
      cfg_word = (\<lambda>s k. case map_of cyclic_values (s, k) of None \<Rightarrow> [] | Some v \<Rightarrow> v),
      cfg_double = (\<lambda>_ _. 0), cfg_int = (\<lambda>_ _. 0)\<rparr>"

lemma cyclic_config_accepted:
  "case loadRuleConfig cyclic_config \<lparr>rm_rules = [], rm_props = []\<rparr> [] of
     Some (None, maps, rrk) \<Rightarrow>
       (case finalizeRuleValRules maps rrk of
          (None, maps') \<Rightarrow> (\<forall>d. rule_value d ltr clk ''a'' maps' = None)
        | _ \<Rightarrow> False)
   | _ \<Rightarrow> False"
proof -
  let ?L = "the (loadRuleConfig cyclic_config \<lparr>rm_rules = [], rm_props = []\<rparr> [])"
  let ?F = "finalizeRuleValRules (fst (snd ?L)) (snd (snd ?L))"
  have 1: "loadRuleConfig cyclic_config \<lparr>rm_rules = [], rm_props = []\<rparr> [] \<noteq> None" "fst ?L = None" "fst ?F = None"
    by code_simp+
  have "map_option r_kind (map_find ''a'' (rm_rules (snd ?F))) = Some (ruleCompRule (Some ''b'') (Some ''b''))"
    "map_option r_kind (map_find ''b'' (rm_rules (snd ?F))) = Some (ruleCompRule (Some ''a'') (Some ''a''))"
    by code_simp+
  then have "\<exists>r n1 n2. map_find n (rm_rules (snd ?F)) = Some r \<and> r_kind r = ruleCompRule (Some n1) (Some n2) \<and> n1 \<in> {''a'', ''b''}"
    if "n \<in> {''a'', ''b''}" for n
    using that by auto
  then have "rule_value d ltr clk ''a'' (snd ?F) = None" for d
    using cyclic_never_returns [of "{''a'', ''b''}" "snd ?F" "''a''" d ltr clk] by blast
  then show ?thesis
    using 1 by (cases ?L; cases ?F) (auto split: option.split)
qed

end
