(* ===== verification/AppIndi.thy ===== *)
theory AppIndi
  imports Indi
begin

text \<open>
  The INDI interface of an application (\<open>libMagAOX/app/MagAOXApp.hpp\<close>,
  \<open>libMagAOX/app/indiDriver.hpp\<close>): creation and registration of properties, the dispatch of
  received messages to call-backs, and the requests for the properties of other devices, which
  are repeated with a growing delay until they are answered.

  A pointer to a property object is a name of that object; what the objects hold is an argument
  \<open>heap\<close> of the operations that read through pointers. A call-back is named as well, and the
  dispatch takes a function that runs it. The two call-back maps are unordered maps: lists of
  entries whose order has no meaning. The locks make each operation on the maps atomic. Time is
  in nanoseconds of the steady clock.
\<close>

section \<open>State\<close>

record indiCallBack =
  cb_property :: "string option"
  cb_callBack :: "string option"
  cb_defReceived :: bool
  cb_retryCount :: u32
  cb_retryDelay :: int
  cb_nextRetry :: "int option" \<comment> \<open>\<^const>\<open>None\<close> is \<open>time_point::min()\<close>\<close>
  cb_missingLogged :: bool

datatype app_event =
    AppLogError string \<comment> \<open>\<open>software_error\<close>\<close>
  | AppLogDebug string \<comment> \<open>\<open>software_debug\<close>\<close>
  | AppLogText string
  | AppLogCritical string \<comment> \<open>\<open>software_critical\<close>\<close>
  | AppLogState int int \<comment> \<open>\<open>state_change\<close>, from and to\<close>
  | AppSendSet IndiProperty
  | AppSendGet IndiProperty
  | AppSendDef IndiProperty
  | AppSendNew IndiProperty

record indiApp =
  app_configName :: string
  app_useINDI :: bool
  app_driver :: bool \<comment> \<open>\<open>m_indiDriver\<close> is not null\<close>
  app_outGoing :: bool \<comment> \<open>\<open>m_outGoing\<close> of the driver is not null\<close>
  app_newCallBacks :: "(string \<times> indiCallBack) list"
  app_setCallBacks :: "(string \<times> indiCallBack) list"
  app_allDefsReceived :: bool
  app_events :: "app_event list"

definition app_emit :: "app_event list \<Rightarrow> 'a indiApp_scheme \<Rightarrow> 'a indiApp_scheme" where
  "app_emit evs st = st\<lparr>app_events := app_events st @ evs\<rparr>"

definition callBack_new :: "string option \<Rightarrow> string option \<Rightarrow> indiCallBack" where
  "callBack_new p f =
     \<lparr>cb_property = p, cb_callBack = f, cb_defReceived = False, cb_retryCount = 0, cb_retryDelay = 0,
      cb_nextRetry = None, cb_missingLogged = False\<rparr>"

text \<open>\<open>insert\<close> of an unordered map: it fails when the key is there.\<close>

definition um_insert :: "string \<Rightarrow> 'v \<Rightarrow> (string \<times> 'v) list \<Rightarrow> bool \<times> (string \<times> 'v) list" where
  "um_insert k v m = (if map_of m k = None then (True, (k, v) # m) else (False, m))"

text \<open>Change of the entry of a key.\<close>

definition um_update :: "string \<Rightarrow> ('v \<Rightarrow> 'v) \<Rightarrow> (string \<times> 'v) list \<Rightarrow> (string \<times> 'v) list" where
  "um_update k f m = map (\<lambda>(k', v). (k', if k' = k then f v else v)) m"

section \<open>Creation of properties\<close>

text \<open>
  The standard properties. Adding an element that is there already throws; these functions add
  different elements to an empty property, but for the selection, whose names are given.
\<close>

definition set_label_group :: "string \<Rightarrow> string \<Rightarrow> IndiProperty \<Rightarrow> IndiProperty" where
  "set_label_group label grp p =
     p\<lparr>ip_label := (if label \<noteq> [] then label else ip_label p), ip_group := (if grp \<noteq> [] then grp else ip_group p)\<rparr>"

definition add_elements :: "IndiElement list \<Rightarrow> IndiProperty \<Rightarrow> indi_exn + IndiProperty" where
  "add_elements es p =
     fold (\<lambda>e r. case r of Inl x \<Rightarrow> Inl x | Inr p \<Rightarrow> property_add e p) es (Inr p)"

definition createStandardIndiText ::
  "string \<Rightarrow> string \<Rightarrow> string \<Rightarrow> 'a indiApp_scheme \<Rightarrow> indi_exn + IndiProperty" where
  "createStandardIndiText propName label grp st =
     map_sum id (set_label_group label grp)
       (add_elements [IndiElement_new ''current'' [], IndiElement_new ''target'' []]
          ((IndiProperty_new Text (app_configName st) propName)\<lparr>ip_perm := ReadWrite, ip_state := Idle\<rparr>))"

definition createROIndiText ::
  "string \<Rightarrow> string \<Rightarrow> string \<Rightarrow> string \<Rightarrow> string \<Rightarrow> 'a indiApp_scheme \<Rightarrow> indi_exn + IndiProperty" where
  "createROIndiText propName elName propLabel propGroup elLabel st =
     add_elements [(IndiElement_new elName [])\<lparr>ie_label := elLabel\<rparr>]
       (set_label_group propLabel propGroup
          ((IndiProperty_new Text (app_configName st) propName)\<lparr>ip_perm := ReadOnly, ip_state := Idle\<rparr>))"

text \<open>The limits and the step are given as the text their stream output has.\<close>

definition number_element :: "string \<Rightarrow> string \<Rightarrow> string \<Rightarrow> string \<Rightarrow> string \<Rightarrow> IndiElement" where
  "number_element name lo hi step format =
     (let e = (IndiElement_new name [])\<lparr>ie_min := lo, ie_max := hi, ie_step := step\<rparr>
      in if format \<noteq> [] then e\<lparr>ie_format := format\<rparr> else e)"

definition createStandardIndiNumber ::
  "string \<Rightarrow> string \<Rightarrow> string \<Rightarrow> string \<Rightarrow> string \<Rightarrow> string \<Rightarrow> string \<Rightarrow> 'a indiApp_scheme \<Rightarrow> indi_exn + IndiProperty" where
  "createStandardIndiNumber name lo hi step format label grp st =
     map_sum id (set_label_group label grp)
       (add_elements [number_element ''current'' lo hi step format, number_element ''target'' lo hi step format]
          ((IndiProperty_new Number (app_configName st) name)\<lparr>ip_perm := ReadWrite, ip_state := Idle\<rparr>))"

definition createROIndiNumber :: "string \<Rightarrow> string \<Rightarrow> string \<Rightarrow> 'a indiApp_scheme \<Rightarrow> IndiProperty" where
  "createROIndiNumber propName propLabel propGroup st =
     set_label_group propLabel propGroup
       ((IndiProperty_new Number (app_configName st) propName)\<lparr>ip_perm := ReadOnly, ip_state := Idle\<rparr>)"

definition createSwitch ::
  "SwitchRuleType \<Rightarrow> IndiElement list \<Rightarrow> string \<Rightarrow> string \<Rightarrow> string \<Rightarrow> 'a indiApp_scheme \<Rightarrow> indi_exn + IndiProperty" where
  "createSwitch rule es name label grp st =
     map_sum id (set_label_group label grp)
       (add_elements es
          ((IndiProperty_new Switch (app_configName st) name)
             \<lparr>ip_perm := ReadWrite, ip_state := Idle, ip_rule := rule\<rparr>))"

definition createStandardIndiToggleSw ::
  "string \<Rightarrow> string \<Rightarrow> string \<Rightarrow> 'a indiApp_scheme \<Rightarrow> indi_exn + IndiProperty" where
  "createStandardIndiToggleSw name label grp st =
     createSwitch AtMostOne [IndiElement_switch ''toggle'' Off] name label grp st"

definition createStandardIndiRequestSw ::
  "string \<Rightarrow> string \<Rightarrow> string \<Rightarrow> 'a indiApp_scheme \<Rightarrow> indi_exn + IndiProperty" where
  "createStandardIndiRequestSw name label grp st =
     createSwitch AtMostOne [IndiElement_switch ''request'' Off] name label grp st"

text \<open>
  \<open>elementLabels\<close> is indexed with the positions of \<open>elements\<close>; \<^const>\<open>None\<close> when it is shorter. The
  return value is -1, and the property as it was, when there are no elements.
\<close>

definition createStandardIndiSelectionSw ::
  "string \<Rightarrow> string list \<Rightarrow> string list \<Rightarrow> string \<Rightarrow> string \<Rightarrow> IndiProperty \<Rightarrow> 'a indiApp_scheme \<Rightarrow>
   (int \<times> (indi_exn + IndiProperty) \<times> 'a indiApp_scheme) option" where
  "createStandardIndiSelectionSw name elements elementLabels label grp prop st =
     (if elements = [] then Some (- 1, Inr prop, app_emit [AppLogError ''elements vector has zero size''] st)
      else if length elementLabels < length elements then None
      else
        let es = map (\<lambda>(n, l). (IndiElement_switch n Off)\<lparr>ie_label := l\<rparr>) (zip elements elementLabels)
        in Some (0, createSwitch OneOfMany es name label grp st, st))"

section \<open>Registration\<close>

definition insert_newCallBack ::
  "string \<Rightarrow> string option \<Rightarrow> IndiProperty \<Rightarrow> 'a indiApp_scheme \<Rightarrow> int \<times> 'a indiApp_scheme" where
  "insert_newCallBack ptr callBack p st =
     (if \<not> app_useINDI st then (0, st)
      else
        let (ok, m) = um_insert (createUniqueKey p) (callBack_new (Some ptr) callBack) (app_newCallBacks st)
        in if \<not> ok then (- 1, app_emit [AppLogError (''failed to insert INDI property: '' @ createUniqueKey p)] st)
        else (0, st\<lparr>app_newCallBacks := m\<rparr>))"

definition registerIndiPropertyReadOnly :: "string \<Rightarrow> IndiProperty \<Rightarrow> 'a indiApp_scheme \<Rightarrow> int \<times> 'a indiApp_scheme" where
  "registerIndiPropertyReadOnly ptr p st = insert_newCallBack ptr None p st"

text \<open>The overload that makes the property inserts it under the bare name.\<close>

definition registerIndiPropertyReadOnly_named ::
  "string \<Rightarrow> string \<Rightarrow> PropertyType \<Rightarrow> PropertyPermType \<Rightarrow> PropertyStateType \<Rightarrow> IndiProperty \<Rightarrow>
   'a indiApp_scheme \<Rightarrow> int \<times> IndiProperty \<times> 'a indiApp_scheme" where
  "registerIndiPropertyReadOnly_named ptr propName propType propPerm propState prop st =
     (if \<not> app_useINDI st then (0, prop, st)
      else
        let prop = (IndiProperty_new propType (app_configName st) propName)\<lparr>ip_perm := propPerm, ip_state := propState\<rparr>;
            (ok, m) = um_insert propName (callBack_new (Some ptr) None) (app_newCallBacks st)
        in if \<not> ok then (- 1, prop, app_emit [AppLogError (''failed to insert INDI property: '' @ createUniqueKey prop)] st)
        else (0, prop, st\<lparr>app_newCallBacks := m\<rparr>))"

definition registerIndiPropertyNew_plain ::
  "string \<Rightarrow> string option \<Rightarrow> string \<Rightarrow> PropertyType \<Rightarrow> PropertyPermType \<Rightarrow> PropertyStateType \<Rightarrow> IndiProperty \<Rightarrow>
   'a indiApp_scheme \<Rightarrow> int \<times> IndiProperty \<times> 'a indiApp_scheme" where
  "registerIndiPropertyNew_plain ptr callBack propName propType propPerm propState prop st =
     (if \<not> app_useINDI st then (0, prop, st)
      else
        let prop = (IndiProperty_new propType (app_configName st) propName)\<lparr>ip_perm := propPerm, ip_state := propState\<rparr>;
            (rv, st) = insert_newCallBack ptr callBack prop st
        in (rv, prop, st))"

definition registerIndiPropertyNew ::
  "string \<Rightarrow> string option \<Rightarrow> string \<Rightarrow> PropertyType \<Rightarrow> PropertyPermType \<Rightarrow> PropertyStateType \<Rightarrow> SwitchRuleType \<Rightarrow>
   IndiProperty \<Rightarrow> 'a indiApp_scheme \<Rightarrow> int \<times> IndiProperty \<times> 'a indiApp_scheme" where
  "registerIndiPropertyNew ptr callBack propName propType propPerm propState propRule prop st =
     (if \<not> app_useINDI st then (0, prop, st)
      else
        let prop = (IndiProperty_new propType (app_configName st) propName)
                     \<lparr>ip_perm := propPerm, ip_state := propState, ip_rule := propRule\<rparr>;
            (rv, st) = insert_newCallBack ptr callBack prop st
        in (rv, prop, st))"

definition registerIndiPropertySet ::
  "string \<Rightarrow> string option \<Rightarrow> string \<Rightarrow> string \<Rightarrow> IndiProperty \<Rightarrow> 'a indiApp_scheme \<Rightarrow>
   int \<times> IndiProperty \<times> 'a indiApp_scheme" where
  "registerIndiPropertySet ptr callBack devName propName prop st =
     (if \<not> app_useINDI st then (0, prop, st)
      else
        let prop = IndiProperty_new Unknown devName propName;
            (ok, m) = um_insert (createUniqueKey prop) (callBack_new (Some ptr) callBack) (app_setCallBacks st)
        in if \<not> ok
           then (- 1, prop, app_emit [AppLogError (''failed to insert INDI property: '' @ createUniqueKey prop @
                                                    ''. Possible duplicate.'')] st)
           else (0, prop, st\<lparr>app_setCallBacks := m\<rparr>))"

section \<open>Requests for the properties of others\<close>

definition resetIndiSetPropertyRetry :: "indiCallBack \<Rightarrow> indiCallBack" where
  "resetIndiSetPropertyRetry cb =
     cb\<lparr>cb_retryCount := 0, cb_retryDelay := 0, cb_nextRetry := None, cb_missingLogged := False\<rparr>"

definition indiSetPropertyShouldRequest :: "indiCallBack \<Rightarrow> bool \<Rightarrow> int \<Rightarrow> bool" where
  "indiSetPropertyShouldRequest cb everything now \<longleftrightarrow>
     (if everything then True
      else if cb_defReceived cb then False
      else case cb_nextRetry cb of None \<Rightarrow> True | Some t \<Rightarrow> now \<ge> t)"

definition retryInitialDelay :: int where "retryInitialDelay = 1000000000"

definition retryMaxDelay :: int where "retryMaxDelay = 60000000000"

definition noteIndiSetPropertyRequested ::
  "(string \<Rightarrow> IndiProperty) \<Rightarrow> int \<Rightarrow> indiCallBack \<Rightarrow> indiCallBack \<times> app_event list" where
  "noteIndiSetPropertyRequested heap now cb =
     (let cb = cb\<lparr>cb_retryDelay := if cb_retryDelay cb \<le> 0 then retryInitialDelay
                                    else min (cb_retryDelay cb * 2) retryMaxDelay\<rparr>;
          cb = cb\<lparr>cb_retryCount := cb_retryCount cb + 1, cb_nextRetry := Some (now + cb_retryDelay cb)\<rparr>
      in case cb_property cb of
           Some p \<Rightarrow>
             if cb_retryDelay cb \<ge> retryMaxDelay \<and> \<not> cb_missingLogged cb
             then (cb\<lparr>cb_missingLogged := True\<rparr>,
                   [AppLogText (''INDI property still unresolved after retry backoff: '' @ createUniqueKey (heap p))])
             else (cb, [])
         | None \<Rightarrow> (cb, []))"

text \<open>
  One turn of the loop of \<open>sendGetPropertySetList\<close>: the changed entry, the property to get,
  whether the entry is unresolved, and what is logged.
\<close>

definition get_visit ::
  "(string \<Rightarrow> IndiProperty) \<Rightarrow> bool \<Rightarrow> int \<Rightarrow> string \<Rightarrow> indiCallBack \<Rightarrow>
   indiCallBack \<times> string option \<times> bool \<times> app_event list" where
  "get_visit heap everything now key cb =
     (if everything
      then case cb_property cb of
             None \<Rightarrow> (resetIndiSetPropertyRetry (cb\<lparr>cb_defReceived := False\<rparr>), None, True, [])
           | Some p \<Rightarrow>
               if key \<noteq> createUniqueKey (heap p)
               then (resetIndiSetPropertyRetry (cb\<lparr>cb_defReceived := True\<rparr>), None, False, [])
               else (resetIndiSetPropertyRetry (cb\<lparr>cb_defReceived := False\<rparr>), Some p, True, [])
      else if \<not> cb_defReceived cb
      then case cb_property cb of
             None \<Rightarrow> (cb, None, True, [])
           | Some p \<Rightarrow>
               if key \<noteq> createUniqueKey (heap p)
               then (resetIndiSetPropertyRetry (cb\<lparr>cb_defReceived := True\<rparr>), None, False, [])
               else if indiSetPropertyShouldRequest cb False now
               then let (cb, evs) = noteIndiSetPropertyRequested heap now cb in (cb, Some p, True, evs)
               else (cb, None, True, [])
      else (cb, None, False, []))"

fun get_visits ::
  "(string \<Rightarrow> IndiProperty) \<Rightarrow> bool \<Rightarrow> int \<Rightarrow> (string \<times> indiCallBack) list \<Rightarrow>
   (string \<times> indiCallBack) list \<times> string list \<times> nat \<times> app_event list" where
  "get_visits heap everything now [] = ([], [], 0, [])"
| "get_visits heap everything now ((key, cb) # m) =
     (let (cb, get, unresolved, evs) = get_visit heap everything now key cb;
          (m, gets, n, evs') = get_visits heap everything now m
      in ((key, cb) # m, (case get of None \<Rightarrow> gets | Some p \<Rightarrow> p # gets), (if unresolved then Suc n else n), evs @ evs'))"

text \<open>
  \<open>ok p\<close> tells that sending does not throw; \<^const>\<open>None\<close> is the use of a driver that is null.
\<close>

definition send_each ::
  "(IndiProperty \<Rightarrow> app_event) \<Rightarrow> string \<Rightarrow> (string \<Rightarrow> IndiProperty) \<Rightarrow> (string \<Rightarrow> bool) \<Rightarrow> string list \<Rightarrow> app_event list" where
  "send_each snd_ev what heap ok ps =
     map (\<lambda>p. if ok p then snd_ev (heap p)
              else AppLogError (''exception caught from '' @ what @ '' for '' @ ip_name (heap p))) ps"

definition sendGetPropertySetList ::
  "(string \<Rightarrow> IndiProperty) \<Rightarrow> (string \<Rightarrow> bool) \<Rightarrow> bool \<Rightarrow> int \<Rightarrow> 'a indiApp_scheme \<Rightarrow> 'a indiApp_scheme option" where
  "sendGetPropertySetList heap ok everything now st =
     (if \<not> everything \<and> app_allDefsReceived st then Some st
      else
        let (m, gets, n, evs) = get_visits heap everything now (app_setCallBacks st);
            st = app_emit evs (st\<lparr>app_setCallBacks := m, app_allDefsReceived := (n = 0)\<rparr>)
        in if gets \<noteq> [] \<and> \<not> app_driver st then None
        else Some (app_emit (send_each AppSendGet ''sendGetProperties'' heap ok gets) st))"

section \<open>Received messages\<close>

definition all_properties :: "(string \<times> indiCallBack) list \<Rightarrow> string list" where
  "all_properties m = List.map_filter (\<lambda>(k, cb). cb_property cb) m"

definition handleGetProperties ::
  "(string \<Rightarrow> IndiProperty) \<Rightarrow> (string \<Rightarrow> bool) \<Rightarrow> int \<Rightarrow> IndiProperty \<Rightarrow> 'a indiApp_scheme \<Rightarrow> 'a indiApp_scheme option" where
  "handleGetProperties heap ok now ipRecv st =
     (if \<not> app_useINDI st then Some st
      else if \<not> app_driver st then Some st
      else if ip_device ipRecv \<noteq> [] \<and> ip_device ipRecv \<noteq> app_configName st then Some st
      else if ip_name ipRecv = []
      then sendGetPropertySetList heap ok True now
             (app_emit (send_each AppSendDef ''sendDefProperty'' heap ok (all_properties (app_newCallBacks st))) st)
      else case map_of (app_newCallBacks st) (createUniqueKey ipRecv) of
        None \<Rightarrow> Some st
      | Some cb \<Rightarrow>
          (case cb_property cb of
             None \<Rightarrow> Some st
           | Some p \<Rightarrow> Some (app_emit (send_each AppSendDef ''sendDefProperty'' heap ok [p]) st)))"

text \<open>\<open>dispatch\<close> runs a call-back.\<close>

definition handleNewProperty ::
  "(string \<Rightarrow> IndiProperty \<Rightarrow> 'a indiApp_scheme \<Rightarrow> 'a indiApp_scheme) \<Rightarrow> IndiProperty \<Rightarrow> 'a indiApp_scheme \<Rightarrow>
   'a indiApp_scheme" where
  "handleNewProperty dispatch ipRecv st =
     (if \<not> app_useINDI st then st
      else if \<not> app_driver st then st
      else case map_of (app_newCallBacks st) (createUniqueKey ipRecv) of
        None \<Rightarrow> app_emit [AppLogDebug (''invalid NewProperty request for '' @ createUniqueKey ipRecv)] st
      | Some cb \<Rightarrow>
          (case cb_callBack cb of
             Some f \<Rightarrow> dispatch f ipRecv st
           | None \<Rightarrow> app_emit [AppLogDebug (''NewProperty callback null for '' @ createUniqueKey ipRecv)] st))"

definition handleSetProperty ::
  "(string \<Rightarrow> IndiProperty \<Rightarrow> 'a indiApp_scheme \<Rightarrow> 'a indiApp_scheme) \<Rightarrow> IndiProperty \<Rightarrow> 'a indiApp_scheme \<Rightarrow>
   'a indiApp_scheme" where
  "handleSetProperty dispatch ipRecv st =
     (if \<not> app_useINDI st then st
      else if \<not> app_driver st then st
      else
        let key = createUniqueKey ipRecv
        in case map_of (app_setCallBacks st) key of
             None \<Rightarrow> st
           | Some cb \<Rightarrow>
               let st = st\<lparr>app_setCallBacks :=
                     um_update key (\<lambda>cb. resetIndiSetPropertyRetry (cb\<lparr>cb_defReceived := True\<rparr>)) (app_setCallBacks st)\<rparr>
               in (case cb_callBack cb of None \<Rightarrow> st | Some f \<Rightarrow> dispatch f ipRecv st))"

definition handleDefProperty ::
  "(string \<Rightarrow> IndiProperty \<Rightarrow> 'a indiApp_scheme \<Rightarrow> 'a indiApp_scheme) \<Rightarrow> IndiProperty \<Rightarrow> 'a indiApp_scheme \<Rightarrow>
   'a indiApp_scheme" where
  "handleDefProperty dispatch ipRecv st = handleSetProperty dispatch ipRecv st"

section \<open>Commands to other devices\<close>

text \<open>What the connection to the server does during a call.\<close>

record client_env =
  ce_exited :: bool \<comment> \<open>the client that is there has exited\<close>
  ce_construct :: bool \<comment> \<open>the constructor of a new client does not throw\<close>
  ce_activate :: bool \<comment> \<open>its activation does not throw\<close>
  ce_send :: bool \<comment> \<open>sending does not throw\<close>
  ce_lost :: bool \<comment> \<open>the client has exited after sending\<close>

definition driver_sendNewProperty ::
  "client_env \<Rightarrow> IndiProperty \<Rightarrow> 'a indiApp_scheme \<Rightarrow> int \<times> 'a indiApp_scheme" where
  "driver_sendNewProperty ce ipRecv st =
     (let st = (if app_outGoing st \<and> ce_exited ce
                then app_emit [AppLogText ''INDI client disconnected.''] (st\<lparr>app_outGoing := False\<rparr>) else st);
          (connected, st) =
            (if app_outGoing st then (True, st)
             else if \<not> ce_construct ce \<or> \<not> ce_activate ce
             then (False, app_emit [AppLogError ''Exception thrown while creating IndiClient connection'']
                            (st\<lparr>app_outGoing := ce_construct ce\<rparr>))
             else (True, app_emit [AppLogText ''INDI client connected and activated''] (st\<lparr>app_outGoing := True\<rparr>)))
      in if \<not> connected then (- 1, st)
      else if \<not> ce_send ce then (- 1, app_emit [AppLogError ''Exception from IndiClient''] st)
      else if ce_lost ce
      then (- 1, app_emit [AppSendNew ipRecv, AppLogError ''INDI client appears to be disconnected -- NEW not sent.''] st)
      else (0, app_emit [AppSendNew ipRecv] st))"

definition sendNewProperty :: "client_env \<Rightarrow> IndiProperty \<Rightarrow> 'a indiApp_scheme \<Rightarrow> int \<times> 'a indiApp_scheme" where
  "sendNewProperty ce ipSend st =
     (if \<not> app_useINDI st then (0, st)
      else if \<not> app_driver st then (- 1, app_emit [AppLogError ''INDI communications not initialized.''] st)
      else
        let (rv, st) = driver_sendNewProperty ce ipSend st
        in if rv < 0 then (- 1, app_emit [AppLogError []] st) else (0, st))"

text \<open>The new value is given as the text its stream output has.\<close>

definition sendNewProperty_value ::
  "client_env \<Rightarrow> IndiProperty \<Rightarrow> string \<Rightarrow> string \<Rightarrow> 'a indiApp_scheme \<Rightarrow> int \<times> 'a indiApp_scheme" where
  "sendNewProperty_value ce ipSend el newVal st =
     (if \<not> app_useINDI st then (0, st)
      else if \<not> app_driver st then (- 1, app_emit [AppLogError ''INDI communications not initialized.''] st)
      else case property_at el ipSend of
        Inl _ \<Rightarrow> (- 1, app_emit [AppLogError (''Exception caught setting '' @ createUniqueKey ipSend @ ''.'' @ el)] st)
      | Inr _ \<Rightarrow>
          let (rv, st) = driver_sendNewProperty ce (set_value el newVal ipSend) st
          in if rv < 0 then (- 1, app_emit [AppLogError []] st) else (0, st))"

definition sendNewStandardIndiToggle ::
  "client_env \<Rightarrow> string \<Rightarrow> string \<Rightarrow> bool \<Rightarrow> 'a indiApp_scheme \<Rightarrow> int \<times> 'a indiApp_scheme" where
  "sendNewStandardIndiToggle ce device property onoff st =
     (if \<not> app_useINDI st then (0, st)
      else case property_add (IndiElement_new ''toggle'' []) (IndiProperty_new Switch device property) of
        Inl _ \<Rightarrow> (- 1, app_emit [AppLogError ''exception: ''] st)
      | Inr ipSend \<Rightarrow>
          let (rv, st) = sendNewProperty ce (set_switch ''toggle'' (if onoff then On else Off) ipSend) st
          in if rv < 0
             then (- 1, app_emit [AppLogError (''sendNewProperty failed for '' @ device @ ''.'' @ property)] st)
             else (0, st))"

text \<open>
  \<open>conv\<close> is \<open>get<T>\<close>, \<open>out\<close> the stream output of a value. The result is the return value, the
  target, the local property and what it sends.
\<close>

definition indiTargetUpdate ::
  "(IndiElement \<Rightarrow> 't) \<Rightarrow> ('t \<Rightarrow> string) \<Rightarrow> IndiProperty \<Rightarrow> 't \<Rightarrow> IndiProperty \<Rightarrow> bool \<Rightarrow> 'a indiApp_scheme \<Rightarrow>
   int \<times> 't \<times> IndiProperty \<times> IndiProperty list \<times> 'a indiApp_scheme" where
  "indiTargetUpdate conv out localProperty localTarget remoteProperty setBusy st =
     (if createUniqueKey remoteProperty \<noteq> createUniqueKey localProperty
      then (- 1, localTarget, localProperty, [], app_emit [AppLogText ''INDI property names do not match''] st)
      else
        let found = (case map_find ''target'' (ip_elements remoteProperty) of
                       Some e \<Rightarrow> Some e | None \<Rightarrow> map_find ''current'' (ip_elements remoteProperty))
        in case found of
             None \<Rightarrow> (- 1, localTarget, localProperty, [],
                       app_emit [AppLogText ''no target or current element in INDI property''] st)
           | Some e \<Rightarrow>
               let localTarget = conv e;
                   (p, sent) = updateIfChanged (app_useINDI st \<and> app_driver st) ''target'' (out localTarget)
                                 (if setBusy then Busy else Ok) localProperty
               in (0, localTarget, p, sent, st))"

section \<open>Dispatch\<close>

lemma map_of_um_update: "map_of (um_update k f m) k' = (if k' = k then map_option f (map_of m k) else map_of m k')"
  by (induction m) (auto simp: um_update_def)

lemma map_of_um_insert:
  "map_of (snd (um_insert k v m)) k' = (if k' = k \<and> map_of m k = None then Some v else map_of m k')"
  by (auto simp: um_insert_def)

lemma um_insert_distinct: "distinct (map fst m) \<Longrightarrow> distinct (map fst (snd (um_insert k v m)))"
  by (auto simp: um_insert_def map_of_eq_None_iff image_iff)

text \<open>Registration of a sequence of properties, with their objects and call-backs.\<close>

fun register_all :: "(string \<times> string option \<times> IndiProperty) list \<Rightarrow> 'a indiApp_scheme \<Rightarrow> 'a indiApp_scheme" where
  "register_all [] st = st"
| "register_all ((ptr, f, p) # regs) st = register_all regs (snd (insert_newCallBack ptr f p st))"

definition first_registered ::
  "string \<Rightarrow> (string \<times> string option \<times> IndiProperty) list \<Rightarrow> (string \<times> string option) option" where
  "first_registered key regs =
     map_option (\<lambda>(ptr, f, p). (ptr, f)) (List.find (\<lambda>(ptr, f, p). createUniqueKey p = key) regs)"

lemma insert_newCallBack_simps:
  assumes "app_useINDI st"
  shows "app_newCallBacks (snd (insert_newCallBack ptr f p st)) =
      snd (um_insert (createUniqueKey p) (callBack_new (Some ptr) f) (app_newCallBacks st))"
    and "app_useINDI (snd (insert_newCallBack ptr f p st)) = app_useINDI st"
    and "app_driver (snd (insert_newCallBack ptr f p st)) = app_driver st"
    and "app_configName (snd (insert_newCallBack ptr f p st)) = app_configName st"
  using assms by (auto simp: insert_newCallBack_def um_insert_def app_emit_def)

lemma register_all_frame:
  "app_useINDI st \<Longrightarrow> app_useINDI (register_all regs st) \<and> app_driver (register_all regs st) = app_driver st \<and>
     app_configName (register_all regs st) = app_configName st"
  by (induction regs st rule: register_all.induct) (simp_all add: insert_newCallBack_simps)

lemma register_all_find:
  "app_useINDI st \<Longrightarrow>
     map_of (app_newCallBacks (register_all regs st)) key =
       (case map_of (app_newCallBacks st) key of
          Some cb \<Rightarrow> Some cb
        | None \<Rightarrow> map_option (\<lambda>(ptr, f). callBack_new (Some ptr) f) (first_registered key regs))"
  by (induction regs st rule: register_all.induct)
    (auto simp: insert_newCallBack_simps map_of_um_insert first_registered_def split: option.split)


text \<open>C38: What is registered is what is dispatched. After any sequence of registrations on empty maps, also
  with duplicates, a received command runs the call-back of the first registration of its key
  and no other; a command for an unknown key, or for a property without call-back, changes
  nothing but the log. A request for the properties of the application, by name, sends the
  definition of the property object registered under that name, with what it holds at that
  time; a request for another device is ignored.
\<close>

theorem registered_dispatch:
  assumes "app_useINDI st" "app_driver st" "app_newCallBacks st = []"
    and "st' = register_all regs st"
  shows "handleNewProperty dispatch ip st' =
      (case first_registered (createUniqueKey ip) regs of
         Some (ptr, Some f) \<Rightarrow> dispatch f ip st'
       | Some (ptr, None) \<Rightarrow> app_emit [AppLogDebug (''NewProperty callback null for '' @ createUniqueKey ip)] st'
       | None \<Rightarrow> app_emit [AppLogDebug (''invalid NewProperty request for '' @ createUniqueKey ip)] st') \<and>
    (ip_name ip \<noteq> [] \<longrightarrow> handleGetProperties heap (\<lambda>_. True) now ip st' = Some
      (if ip_device ip \<noteq> [] \<and> ip_device ip \<noteq> app_configName st then st'
       else case first_registered (createUniqueKey ip) regs of
         Some (ptr, f) \<Rightarrow> app_emit [AppSendDef (heap ptr)] st'
       | None \<Rightarrow> st'))"
proof -
  have f: "map_of (app_newCallBacks st') key =
      map_option (\<lambda>(ptr, f). callBack_new (Some ptr) f) (first_registered key regs)" for key
    using register_all_find [OF assms(1)] assms(3) by (simp add: assms(4))
  have "app_useINDI st'" "app_driver st'" "app_configName st' = app_configName st"
    using register_all_frame [OF assms(1)] assms(2) by (simp_all add: assms(4))
  then show ?thesis
    by (auto simp: handleNewProperty_def handleGetProperties_def f callBack_new_def send_each_def
        split: option.split)
qed

theorem registered_dispatch_witness:
  "handleGetProperties (\<lambda>ptr. IndiProperty_new Switch ''cam'' ptr) (\<lambda>_. True) 0 (IndiProperty_new Unknown ''cam'' ''shutter'')
     (register_all [(''a'', Some ''f'', IndiProperty_new Switch ''cam'' ''shutter''),
                    (''b'', None, IndiProperty_new Switch ''cam'' ''shutter'')]
        \<lparr>app_configName = ''cam'', app_useINDI = True, app_driver = True, app_outGoing = False, app_newCallBacks = [],
         app_setCallBacks = [], app_allDefsReceived = False, app_events = []\<rparr>) =
   Some (app_emit [AppSendDef (IndiProperty_new Switch ''cam'' ''a'')]
     (register_all [(''a'', Some ''f'', IndiProperty_new Switch ''cam'' ''shutter''),
                    (''b'', None, IndiProperty_new Switch ''cam'' ''shutter'')]
        \<lparr>app_configName = ''cam'', app_useINDI = True, app_driver = True, app_outGoing = False, app_newCallBacks = [],
         app_setCallBacks = [], app_allDefsReceived = False, app_events = []\<rparr>))"
proof -
  let ?st = "\<lparr>app_configName = ''cam'', app_useINDI = True, app_driver = True, app_outGoing = False, app_newCallBacks = [],
         app_setCallBacks = [], app_allDefsReceived = False, app_events = []\<rparr>"
  let ?regs = "[(''a'', Some ''f'', IndiProperty_new Switch ''cam'' ''shutter''),
                    (''b'', None, IndiProperty_new Switch ''cam'' ''shutter'')]"
  have "first_registered (createUniqueKey (IndiProperty_new Unknown ''cam'' ''shutter'')) ?regs = Some (''a'', Some ''f'')"
    "ip_name (IndiProperty_new Unknown ''cam'' ''shutter'') = ''shutter''"
    "ip_device (IndiProperty_new Unknown ''cam'' ''shutter'') = ''cam''"
    by code_simp+
  with registered_dispatch [of ?st "register_all ?regs ?st" ?regs "\<lambda>_ _ st. st" "IndiProperty_new Unknown ''cam'' ''shutter''"
      "\<lambda>ptr. IndiProperty_new Switch ''cam'' ptr" 0]
  show ?thesis by simp
qed

section \<open>Repetition of requests\<close>

text \<open>The delay after the \<open>n\<close>-th request: 1, 2, 4, ... seconds, at most a minute.\<close>

definition backoff :: "nat \<Rightarrow> int" where
  "backoff n = min (2 ^ (n - 1)) 60 * 1000000000"

text \<open>
  The requests of a subscription that is not answered, for polls at the times given; \<open>n\<close> requests
  were sent, the last one at \<open>t0\<close>.
\<close>

fun backoff_requests :: "nat \<Rightarrow> int \<Rightarrow> int list \<Rightarrow> int list" where
  "backoff_requests n t0 [] = []"
| "backoff_requests n t0 (t # ts) =
     (if n = 0 \<or> t0 + backoff n \<le> t then t # backoff_requests (Suc n) t ts else backoff_requests n t0 ts)"

text \<open>What a sequence of polls sends and logs, with the times.\<close>

fun poll_run ::
  "(string \<Rightarrow> IndiProperty) \<Rightarrow> (string \<Rightarrow> bool) \<Rightarrow> int list \<Rightarrow> 'a indiApp_scheme \<Rightarrow>
   ((int \<times> app_event list) list \<times> 'a indiApp_scheme) option" where
  "poll_run heap ok [] st = Some ([], st)"
| "poll_run heap ok (t # ts) st =
     do { st1 \<leftarrow> sendGetPropertySetList heap ok False t st;
          (l, st2) \<leftarrow> poll_run heap ok ts st1;
          Some ((t, drop (length (app_events st)) (app_events st1)) # l, st2) }"

definition request_times :: "IndiProperty \<Rightarrow> (int \<times> app_event list) list \<Rightarrow> int list" where
  "request_times p l = map fst (filter (\<lambda>(t, evs). AppSendGet p \<in> set evs) l)"

definition waiting :: "string \<Rightarrow> nat \<Rightarrow> int \<Rightarrow> indiCallBack \<Rightarrow> bool" where
  "waiting p n t0 cb \<longleftrightarrow>
     cb_property cb = Some p \<and> \<not> cb_defReceived cb \<and>
     (if n = 0 then cb_nextRetry cb = None \<and> cb_retryDelay cb = 0
      else cb_nextRetry cb = Some (t0 + backoff n) \<and> cb_retryDelay cb = backoff n)"

lemma backoff_1 [simp]: "backoff (Suc 0) = 1000000000"
  by (simp add: backoff_def)

lemma backoff_Suc: "n > 0 \<Longrightarrow> backoff (Suc n) = min (backoff n * 2) retryMaxDelay"
  by (cases n) (auto simp: backoff_def retryMaxDelay_def)

lemma backoff_pos: "backoff n > 0"
  by (simp add: backoff_def)

lemma note_waiting:
  assumes "waiting p n t0 cb"
  shows "waiting p (Suc n) t (fst (noteIndiSetPropertyRequested heap t cb))"
  using assms backoff_pos [of n] backoff_Suc [of n]
  by (auto simp: noteIndiSetPropertyRequested_def waiting_def retryInitialDelay_def Let_def not_le split: if_splits)

lemma visit_waiting:
  assumes "waiting p n t0 cb" "key = createUniqueKey (heap p)"
  shows "get_visit heap False t key cb =
    (if n = 0 \<or> t0 + backoff n \<le> t
     then (fst (noteIndiSetPropertyRequested heap t cb), Some p, True, snd (noteIndiSetPropertyRequested heap t cb))
     else (cb, None, True, []))"
  using assms
  by (auto simp: get_visit_def waiting_def indiSetPropertyShouldRequest_def case_prod_unfold Let_def split: if_splits)

lemma get_visits_eq:
  "get_visits heap all t m =
     (map (\<lambda>(k, cb). (k, fst (get_visit heap all t k cb))) m,
      List.map_filter (\<lambda>(k, cb). fst (snd (get_visit heap all t k cb))) m,
      length (filter (\<lambda>(k, cb). fst (snd (snd (get_visit heap all t k cb)))) m),
      concat (map (\<lambda>(k, cb). snd (snd (snd (get_visit heap all t k cb)))) m))"
proof (induction m)
  case (Cons a m)
  obtain k cb where a: "a = (k, cb)" by (cases a)
  obtain cb1 g u evs where "get_visit heap all t k cb = (cb1, g, u, evs)" by (metis prod_cases4)
  with Cons show ?case by (auto simp: a map_filter_simps split: option.split)
qed (simp add: map_filter_simps)

lemma visit_get_key:
  "fst (snd (get_visit heap all t k cb)) = Some q \<Longrightarrow> createUniqueKey (heap q) = k"
  by (auto simp: get_visit_def case_prod_unfold Let_def split: if_splits option.splits)

lemma visit_events_text: "e \<in> set (snd (snd (snd (get_visit heap all t k cb)))) \<Longrightarrow> e \<noteq> AppSendGet ip"
  by (auto simp: get_visit_def noteIndiSetPropertyRequested_def case_prod_unfold Let_def split: if_splits option.splits)

lemma visit_property: "cb_property (fst (get_visit heap all t k cb)) = cb_property cb"
  by (auto simp: get_visit_def noteIndiSetPropertyRequested_def resetIndiSetPropertyRetry_def case_prod_unfold Let_def
      split: option.splits)


lemma map_of_map_key: "map_of (map (\<lambda>(k, v). (k, f k v)) m) k = map_option (f k) (map_of m k)"
  by (induction m) auto

lemma in_map_filter: "x \<in> set (List.map_filter f xs) \<longleftrightarrow> (\<exists>y \<in> set xs. f y = Some x)"
  by (induction xs) (auto simp: map_filter_simps split: option.splits)

lemma poll_waiting:
  assumes m: "distinct (map fst (app_setCallBacks st))" "map_of (app_setCallBacks st) key = Some cb"
    and w: "waiting p n t0 cb" "key = createUniqueKey (heap p)"
    and st: "app_driver st" "\<not> app_allDefsReceived st" "\<And>q. ok q"
  shows "\<exists>st' cb' evs. sendGetPropertySetList heap ok False t st = Some st' \<and> app_driver st' \<and> \<not> app_allDefsReceived st' \<and>
    map fst (app_setCallBacks st') = map fst (app_setCallBacks st) \<and>
    map_of (app_setCallBacks st') key = Some cb' \<and> app_events st' = app_events st @ evs \<and>
    (AppSendGet (heap p) \<in> set evs \<longleftrightarrow> n = 0 \<or> t0 + backoff n \<le> t) \<and>
    (if n = 0 \<or> t0 + backoff n \<le> t then waiting p (Suc n) t cb' else cb' = cb)"
proof -
  let ?v = "get_visit heap False t"
  let ?m = "app_setCallBacks st"
  define gets where "gets = List.map_filter (\<lambda>(k, cb). fst (snd (?v k cb))) ?m"
  have mem: "(key, cb) \<in> set ?m" using m(2) by (rule map_of_SomeD)
  have v: "?v key cb = (if n = 0 \<or> t0 + backoff n \<le> t
      then (fst (noteIndiSetPropertyRequested heap t cb), Some p, True, snd (noteIndiSetPropertyRequested heap t cb))
      else (cb, None, True, []))"
    using visit_waiting [of p n t0 cb key heap t] w by blast
  have unresolved: "filter (\<lambda>(k, cb). fst (snd (snd (?v k cb)))) ?m \<noteq> []"
    using mem v by (force simp: filter_empty_conv)
  have key: "k = key \<and> c = cb" if "(k, c) \<in> set ?m" "fst (snd (?v k c)) = Some q" "heap q = heap p" for k c q
  proof -
    have "k = key" using visit_get_key [OF that(2)] that(3) w(2) by simp
    with that(1) m show ?thesis by (metis map_of_eq_Some_iff option.inject)
  qed
  have due: "(\<exists>q \<in> set gets. heap q = heap p) \<longleftrightarrow> n = 0 \<or> t0 + backoff n \<le> t"
  proof
    assume "\<exists>q \<in> set gets. heap q = heap p"
    then obtain k c q where "(k, c) \<in> set ?m" "fst (snd (?v k c)) = Some q" "heap q = heap p"
      by (auto simp: gets_def in_map_filter)
    with key have "fst (snd (?v key cb)) = Some q" by metis
    then show "n = 0 \<or> t0 + backoff n \<le> t" using v by (auto split: if_splits)
  next
    assume "n = 0 \<or> t0 + backoff n \<le> t"
    then have "fst (snd (?v key cb)) = Some p" using v by simp
    then show "\<exists>q \<in> set gets. heap q = heap p" using mem by (force simp: gets_def in_map_filter intro!: bexI [of _ p])
  qed
  define texts where "texts = concat (map (\<lambda>(k, cb). snd (snd (snd (?v k cb)))) ?m)"
  define m' where "m' = map (\<lambda>(k, cb). (k, fst (?v k cb))) ?m"
  define evs where "evs = texts @ map (\<lambda>q. AppSendGet (heap q)) gets"
  have "AppSendGet (heap p) \<notin> set texts" using visit_events_text by (fastforce simp: texts_def)
  then have sent: "AppSendGet (heap p) \<in> set evs \<longleftrightarrow> n = 0 \<or> t0 + backoff n \<le> t"
    unfolding due [symmetric] by (auto simp: evs_def image_iff) metis
  have m': "map fst m' = map fst ?m" by (simp add: m'_def case_prod_unfold)
  have m'k: "map_of m' key = Some (fst (?v key cb))" using m(2) by (simp add: m'_def map_of_map_key)
  let ?st = "st\<lparr>app_setCallBacks := m', app_allDefsReceived := False, app_events := app_events st @ evs\<rparr>"
  have "sendGetPropertySetList heap ok False t st = Some ?st"
    using st unresolved
    by (simp add: sendGetPropertySetList_def get_visits_eq app_emit_def send_each_def gets_def [symmetric] texts_def [symmetric]
        m'_def [symmetric] evs_def)
  moreover have "if n = 0 \<or> t0 + backoff n \<le> t then waiting p (Suc n) t (fst (?v key cb)) else fst (?v key cb) = cb"
    using v note_waiting [OF w(1), of t heap] by simp
  ultimately show ?thesis
    using m' m'k sent st(1) by (intro exI [of _ ?st] exI [of _ "fst (?v key cb)"] exI [of _ evs]) simp
qed


lemma poll_run_waiting:
  "distinct (map fst (app_setCallBacks st)) \<Longrightarrow> map_of (app_setCallBacks st) key = Some cb \<Longrightarrow>
   waiting p n t0 cb \<Longrightarrow> key = createUniqueKey (heap p) \<Longrightarrow> app_driver st \<Longrightarrow> \<not> app_allDefsReceived st \<Longrightarrow> (\<And>q. ok q) \<Longrightarrow>
     \<exists>l st'. poll_run heap ok ts st = Some (l, st') \<and> request_times (heap p) l = backoff_requests n t0 ts"
proof (induction ts arbitrary: st cb n t0)
  case (Cons t ts)
  let ?due = "n = 0 \<or> t0 + backoff n \<le> t"
  obtain st1 cb1 evs where 1: "sendGetPropertySetList heap ok False t st = Some st1" "app_driver st1" "\<not> app_allDefsReceived st1"
    "map fst (app_setCallBacks st1) = map fst (app_setCallBacks st)" "map_of (app_setCallBacks st1) key = Some cb1"
    "app_events st1 = app_events st @ evs" "AppSendGet (heap p) \<in> set evs \<longleftrightarrow> ?due"
    "if ?due then waiting p (Suc n) t cb1 else cb1 = cb"
    using poll_waiting [where heap = heap and ok = ok and t = t, OF Cons.prems] by blast
  let ?n = "if ?due then Suc n else n" and ?t0 = "if ?due then t else t0"
  have "waiting p ?n ?t0 cb1" using 1(8) Cons.prems(3) by (simp split: if_splits)
  moreover have "distinct (map fst (app_setCallBacks st1))" using 1(4) Cons.prems(1) by simp
  ultimately obtain l st' where 2: "poll_run heap ok ts st1 = Some (l, st')"
    "request_times (heap p) l = backoff_requests ?n ?t0 ts"
    using Cons.IH [OF _ 1(5) _ Cons.prems(4) 1(2,3) Cons.prems(7)] by blast
  then show ?case using 1(1,6,7) by (auto simp: request_times_def)
qed (simp add: request_times_def)

definition example_app :: "indiApp" where
  "example_app =
     \<lparr>app_configName = ''rules'', app_useINDI = True, app_driver = True, app_outGoing = False, app_newCallBacks = [],
      app_setCallBacks = [(''cam.shutter'', callBack_new (Some ''shutter'') (Some ''cb''))],
      app_allDefsReceived = False, app_events = []\<rparr>"

text \<open>C16: The property of another device that the application subscribed to is requested with exponential backoff as
  long as it is not answered, whatever other subscriptions there are: when the main loop polls
  at the times \<open>ts\<close>, the requests for it are sent at the first poll, and then at the first poll
  that comes at least 1, 2, 4, 8, 16, 32 seconds, and from then on a minute, after the request
  before. No request is lost and none is sent early.
\<close>

theorem subscription_backoff:
  assumes "distinct (map fst (app_setCallBacks st))"
    and "map_of (app_setCallBacks st) (createUniqueKey (heap p)) = Some (callBack_new (Some p) f)"
    and "app_driver st" "\<not> app_allDefsReceived st" "\<And>q. ok q"
  shows "\<exists>l st'. poll_run heap ok ts st = Some (l, st') \<and> request_times (heap p) l = backoff_requests 0 0 ts"
  by (rule poll_run_waiting [where heap = heap and ok = ok, OF assms(1,2) _ refl assms(3-5)]) (simp add: waiting_def callBack_new_def)

theorem subscription_backoff_witness:
  "\<exists>l st'. poll_run (\<lambda>_. IndiProperty_new Switch ''cam'' ''shutter'') (\<lambda>_. True)
       (map (\<lambda>i. i * 500000000) [0, 1, 2, 3, 4, 5, 6, 7, 8]) example_app = Some (l, st') \<and>
     request_times (IndiProperty_new Switch ''cam'' ''shutter'') l = [0, 1000000000, 3000000000]"
proof -
  have "map_of (app_setCallBacks example_app) (createUniqueKey (IndiProperty_new Switch ''cam'' ''shutter'')) =
      Some (callBack_new (Some ''shutter'') (Some ''cb''))"
    by code_simp
  moreover have "backoff_requests 0 0 (map (\<lambda>i. i * 500000000) [0, 1, 2, 3, 4, 5, 6, 7, 8]) = [0, 1000000000, 3000000000]"
    by code_simp
  ultimately show ?thesis
    using subscription_backoff [of example_app "\<lambda>_. IndiProperty_new Switch ''cam'' ''shutter''" "''shutter''" "Some ''cb''"
        "\<lambda>_. True" "map (\<lambda>i. i * 500000000) [0, 1, 2, 3, 4, 5, 6, 7, 8]"]
    by (simp add: example_app_def)
qed

section \<open>Findings\<close>

text \<open>
  A property registered with the overload that makes it is stored under its bare name, so a
  request for it by name finds nothing (the key of a message always has a dot after the device).
\<close>

lemma readOnly_named_not_found:
  assumes "app_useINDI st" "app_newCallBacks st = []" "CHR ''.'' \<notin> set propName"
    and "registerIndiPropertyReadOnly_named ptr propName ty pm ps p st = (rv, p', st')"
  shows "rv = 0 \<and> map_of (app_newCallBacks st') (createUniqueKey p') = None"
proof -
  have "propName \<noteq> app_configName st @ CHR ''.'' # propName" by (metis append_Cons_eq_iff assms(3) in_set_conv_decomp)
  then show ?thesis
    using assms by (auto simp: registerIndiPropertyReadOnly_named_def um_insert_def createUniqueKey_def IndiProperty_new_def Let_def)
qed

text \<open>
  A property subscribed to after all others were answered is not requested until the next
  complete list is sent.
\<close>

lemma late_subscription_not_requested:
  assumes "app_allDefsReceived st" "registerIndiPropertySet ptr f dev nm p st = (rv, p', st')"
  shows "sendGetPropertySetList heap ok False now st' = Some st'"
  using assms by (auto simp: registerIndiPropertySet_def um_insert_def app_emit_def sendGetPropertySetList_def Let_def
      split: if_splits)

end
