(* ===== verification/App.thy ===== *)
theory App
  imports AppIndi
begin

text \<open>
  The application framework (\<open>libMagAOX/app/MagAOXApp.hpp\<close>, \<open>stateCodes.cpp\<close>): the state of
  an application and its alert, power management, the PID lock, and \<open>execute\<close>, the life of
  an application from start to exit.

  \<open>execute\<close> runs concurrently with the threads that receive INDI messages, with the log thread
  and with signals, which change \<open>m_powerState\<close>, \<open>m_stateAlert\<close>, \<open>m_shutdown\<close> and what the
  call-backs of the application change. It is a machine with a program counter, whose steps end
  where it reads one of these members again, and a schedule interleaves its steps with the
  others. A call of a virtual function is one step of this machine; where the function reads what
  the call-backs change, the derived class puts the other threads into it (\<open>other_threads\<close>). The virtual functions of the derived class (\<open>appStartup\<close>, \<open>appLogic\<close> and so on) are
  arguments; the locale \<open>hosted_app\<close> states what the framework relies on.
\<close>

section \<open>State codes\<close>

type_synonym stateCodeT = int

abbreviation (input) FAILURE :: stateCodeT where "FAILURE \<equiv> - 20"
abbreviation (input) ERROR :: stateCodeT where "ERROR \<equiv> - 10"
abbreviation (input) UNINITIALIZED :: stateCodeT where "UNINITIALIZED \<equiv> 0"
abbreviation (input) INITIALIZED :: stateCodeT where "INITIALIZED \<equiv> 1"
abbreviation (input) NODEVICE :: stateCodeT where "NODEVICE \<equiv> 2"
abbreviation (input) POWEROFF :: stateCodeT where "POWEROFF \<equiv> 4"
abbreviation (input) POWERON :: stateCodeT where "POWERON \<equiv> 6"
abbreviation (input) NOTCONNECTED :: stateCodeT where "NOTCONNECTED \<equiv> 8"
abbreviation (input) CONNECTED :: stateCodeT where "CONNECTED \<equiv> 10"
abbreviation (input) LOGGEDIN :: stateCodeT where "LOGGEDIN \<equiv> 15"
abbreviation (input) CONFIGURING :: stateCodeT where "CONFIGURING \<equiv> 20"
abbreviation (input) NOTHOMED :: stateCodeT where "NOTHOMED \<equiv> 24"
abbreviation (input) HOMING :: stateCodeT where "HOMING \<equiv> 25"
abbreviation (input) OPERATING :: stateCodeT where "OPERATING \<equiv> 30"
abbreviation (input) READY :: stateCodeT where "READY \<equiv> 35"
abbreviation (input) SHUTDOWN :: stateCodeT where "SHUTDOWN \<equiv> 10000"

definition codeText :: "stateCodeT \<Rightarrow> string" where
  "codeText c =
     (if c = FAILURE then ''FAILURE'' else if c = ERROR then ''ERROR''
      else if c = UNINITIALIZED then ''UNINITIALIZED'' else if c = INITIALIZED then ''INITIALIZED''
      else if c = NODEVICE then ''NODEVICE'' else if c = POWEROFF then ''POWEROFF''
      else if c = POWERON then ''POWERON'' else if c = NOTCONNECTED then ''NOTCONNECTED''
      else if c = CONNECTED then ''CONNECTED'' else if c = LOGGEDIN then ''LOGGEDIN''
      else if c = CONFIGURING then ''CONFIGURING'' else if c = NOTHOMED then ''NOTHOMED''
      else if c = HOMING then ''HOMING'' else if c = OPERATING then ''OPERATING''
      else if c = READY then ''READY'' else if c = SHUTDOWN then ''SHUTDOWN'' else ''UNKNOWN'')"

definition str2Code :: "string \<Rightarrow> stateCodeT" where
  "str2Code s =
     (if s = ''FAILURE'' then FAILURE else if s = ''ERROR'' then ERROR
      else if s = ''UNINITIALIZED'' then UNINITIALIZED else if s = ''INITIALIZED'' then INITIALIZED
      else if s = ''NODEVICE'' then NODEVICE else if s = ''POWEROFF'' then POWEROFF
      else if s = ''POWERON'' then POWERON else if s = ''NOTCONNECTED'' then NOTCONNECTED
      else if s = ''CONNECTED'' then CONNECTED else if s = ''LOGGEDIN'' then LOGGEDIN
      else if s = ''CONFIGURING'' then CONFIGURING else if s = ''NOTHOMED'' then NOTHOMED
      else if s = ''HOMING'' then HOMING else if s = ''OPERATING'' then OPERATING
      else if s = ''READY'' then READY else if s = ''SHUTDOWN'' then SHUTDOWN else - 999)"

text \<open>The first character of an empty \<open>std::string\<close> is the null character.\<close>

definition str2CodeFast :: "string \<Rightarrow> stateCodeT" where
  "str2CodeFast s =
     (if s = [] then - 999
      else
        let c = s ! 0
        in if c = CHR ''C''
           then (if length s < 4 then - 999
                 else if s ! 3 = CHR ''F'' then CONFIGURING else if s ! 3 = CHR ''N'' then CONNECTED else - 999)
           else if c = CHR ''E'' then ERROR else if c = CHR ''F'' then FAILURE else if c = CHR ''H'' then HOMING
           else if c = CHR ''I'' then INITIALIZED else if c = CHR ''L'' then LOGGEDIN
           else if c = CHR ''N''
           then (if length s < 4 then - 999
                 else if s ! 2 = CHR ''D'' then NODEVICE else if s ! 3 = CHR ''C'' then NOTCONNECTED
                 else if s ! 3 = CHR ''H'' then NOTHOMED else - 999)
           else if c = CHR ''O'' then OPERATING
           else if c = CHR ''P''
           then (if length s < 7 then - 999
                 else if s ! 6 = CHR ''F'' then POWEROFF else if s ! 6 = CHR ''N'' then POWERON else - 999)
           else if c = CHR ''R'' then READY else if c = CHR ''S'' then SHUTDOWN
           else if c = CHR ''U'' then UNINITIALIZED else - 999)"

section \<open>The application\<close>

text \<open>
  Calls of \<open>execute\<close> that matter to the outside, in order: a record of the model, not of the
  code.
\<close>

datatype app_action =
    ActLockPID | ActUnlockPID | ActLogThread | ActAppStartup bool | ActStartINDI bool
  | ActOnPowerOff | ActAppLogic | ActWhilePowerOff | ActAppShutdown | ActStopINDI

record magAOXApp = indiApp +
  ma_state :: stateCodeT
  ma_stateAlert :: bool
  ma_stateLogged :: int
  ma_indiP_state :: IndiProperty
  ma_indiP_clearFSMAlert :: IndiProperty
  ma_powerMgtEnabled :: bool
  ma_powerElement :: string
  ma_powerTargetElement :: string
  ma_powerOnWait :: u64
  ma_powerOnCounter :: int
  ma_powerState :: int
  ma_powerTargetState :: int
  ma_loopPause :: u64
  ma_shutdown :: int
  ma_actions :: "app_action list"

definition act :: "app_action \<Rightarrow> 'a magAOXApp_scheme \<Rightarrow> 'a magAOXApp_scheme" where
  "act a st = st\<lparr>ma_actions := ma_actions st @ [a]\<rparr>"

subsection \<open>The state and the alert\<close>

text \<open>The INDI state that \<open>state\<close> and \<open>clearFSMAlert\<close> derive from a state code.\<close>

definition state_indi :: "stateCodeT \<Rightarrow> PropertyStateType" where
  "state_indi s =
     (if s = READY then Ok
      else if s = OPERATING \<or> s = HOMING \<or> s = CONFIGURING then Busy
      else if s < NODEVICE then Alert
      else if s \<le> LOGGEDIN then Idle
      else if s = NOTHOMED \<or> s = SHUTDOWN then Idle
      else Idle)"

definition publish_state :: "PropertyStateType \<Rightarrow> 'a magAOXApp_scheme \<Rightarrow> 'a magAOXApp_scheme" where
  "publish_state stst st =
     (let (p, sent) = updateIfChanged (app_useINDI st \<and> app_driver st) ''state'' (codeText (ma_state st)) stst
                        (ma_indiP_state st)
      in app_emit (map AppSendSet sent) (st\<lparr>ma_indiP_state := p\<rparr>))"

text \<open>\<open>state( s, stateAlert )\<close>; \<open>owns_lock\<close> tells that \<open>m_indiMutex\<close> was free.\<close>

definition set_state :: "bool \<Rightarrow> stateCodeT \<Rightarrow> bool \<Rightarrow> 'a magAOXApp_scheme \<Rightarrow> 'a magAOXApp_scheme" where
  "set_state owns_lock s stateAlert st =
     (let st = (if ma_state st \<noteq> s
                then app_emit [AppLogState (ma_state st) s] (st\<lparr>ma_state := s, ma_stateLogged := 0\<rparr>) else st);
          st = (if ma_stateAlert st \<noteq> stateAlert \<and> stateAlert
                then app_emit [AppLogText ''FSM alert set''] (st\<lparr>ma_stateAlert := stateAlert\<rparr>) else st)
      in if owns_lock then publish_state (if ma_stateAlert st then Alert else state_indi (ma_state st)) st else st)"

definition stateLogged :: "'a magAOXApp_scheme \<Rightarrow> int \<times> 'a magAOXApp_scheme" where
  "stateLogged st =
     (if ma_stateLogged st > 0
      then (let st = st\<lparr>ma_stateLogged := ma_stateLogged st + 1\<rparr> in (ma_stateLogged st - 1, st))
      else (0, st\<lparr>ma_stateLogged := 1\<rparr>))"

definition clearFSMAlert :: "'a magAOXApp_scheme \<Rightarrow> int \<times> 'a magAOXApp_scheme" where
  "clearFSMAlert st =
     (if \<not> ma_stateAlert st then (0, st)
      else
        let st = app_emit [AppLogText ''FSM alert cleared''] (st\<lparr>ma_stateAlert := False\<rparr>)
        in (0, publish_state (state_indi (ma_state st)) st))"

definition newCallBack_clearFSMAlert :: "IndiProperty \<Rightarrow> 'a magAOXApp_scheme \<Rightarrow> int \<times> 'a magAOXApp_scheme" where
  "newCallBack_clearFSMAlert ipRecv st =
     (if createUniqueKey ipRecv \<noteq> createUniqueKey (ma_indiP_clearFSMAlert st)
      then (- 1, app_emit [AppLogError ''wrong indi property received''] st)
      else case map_find ''request'' (ip_elements ipRecv) of
        None \<Rightarrow> (0, st)
      | Some e \<Rightarrow>
          if ie_switch e = On
          then let (_, st) = clearFSMAlert st;
                   (p, sent) = updateSwitchIfChanged (app_useINDI st \<and> app_driver st) ''request'' Off Idle
                                 (ma_indiP_clearFSMAlert st)
               in (0, app_emit (map AppSendSet sent) (st\<lparr>ma_indiP_clearFSMAlert := p\<rparr>))
          else (0, st))"

text \<open>
  What the log thread does for an entry of level \<open>lvl\<close> beside printing it and passing it on as
  an INDI message. Smaller levels are worse; \<open>LOG_ERROR\<close> is 3.
\<close>

definition logMessage :: "bool \<Rightarrow> int \<Rightarrow> 'a magAOXApp_scheme \<Rightarrow> 'a magAOXApp_scheme" where
  "logMessage owns_lock lvl st = (if lvl < 3 then set_state owns_lock (ma_state st) True st else st)"

definition handlerSigTerm :: "string \<Rightarrow> 'a magAOXApp_scheme \<Rightarrow> 'a magAOXApp_scheme" where
  "handlerSigTerm signame st =
     app_emit [AppLogText (''Caught signal '' @ signame @ ''. Shutting down.'')] (st\<lparr>ma_shutdown := 1\<rparr>)"

subsection \<open>Power\<close>

definition power_of :: "string \<Rightarrow> int" where
  "power_of ps = (if ps = ''On'' then 1 else if ps = ''Off'' then 0 else - 1)"

definition setCallBack_powerChannel :: "IndiProperty \<Rightarrow> 'a magAOXApp_scheme \<Rightarrow> int \<times> 'a magAOXApp_scheme" where
  "setCallBack_powerChannel ipRecv st =
     (let st = (case map_find (ma_powerElement st) (ip_elements ipRecv) of
                  None \<Rightarrow> st | Some e \<Rightarrow> st\<lparr>ma_powerState := power_of (get_word e)\<rparr>);
          st = (case map_find (ma_powerTargetElement st) (ip_elements ipRecv) of
                  None \<Rightarrow> st | Some e \<Rightarrow> st\<lparr>ma_powerTargetState := power_of (get_word e)\<rparr>)
      in (0, st))"

text \<open>
  The product is one of \<open>unsigned long\<close>, the comparison one of \<open>double\<close>.
\<close>

definition powerOnWaitElapsed :: "'a magAOXApp_scheme \<Rightarrow> bool \<times> 'a magAOXApp_scheme" where
  "powerOnWaitElapsed st =
     (if \<not> ma_powerMgtEnabled st \<or> ma_powerOnWait st = 0 \<or> ma_powerOnCounter st < 0 then (True, st)
      else if uint (word_of_int (ma_powerOnCounter st) * ma_loopPause st) > uint (ma_powerOnWait st) * 1000000000
      then (True, st)
      else (False, st\<lparr>ma_powerOnCounter := ma_powerOnCounter st + 1\<rparr>))"

definition powerState :: "'a magAOXApp_scheme \<Rightarrow> int" where
  "powerState st = (if \<not> ma_powerMgtEnabled st then 1 else ma_powerState st)"

definition powerStateTarget :: "'a magAOXApp_scheme \<Rightarrow> int" where
  "powerStateTarget st = (if \<not> ma_powerMgtEnabled st then 1 else ma_powerTargetState st)"


section \<open>The PID lock\<close>

text \<open>
  What \<open>lockPID\<close> finds: the outcomes of the two calls of \<open>mkdir\<close>, the number in the PID file, if
  there is one, the command line of a process (empty when there is no such process), and
  whether the file can be written.
\<close>

datatype mkdir_result = MkCreated | MkExists | MkError

record pid_env =
  pe_root :: mkdir_result
  pe_dir :: mkdir_result
  pe_file :: "int option"
  pe_cmdline :: "int \<Rightarrow> string"
  pe_write :: bool

text \<open>\<open>std::string::find\<close> other than \<open>npos\<close>.\<close>

definition contains :: "string \<Rightarrow> string \<Rightarrow> bool" where
  "contains s sub = list_ex (\<lambda>i. take (length sub) (drop i s) = sub) [0 ..< Suc (length s)]"

definition first_word :: "string \<Rightarrow> string" where
  "first_word s = takeWhile (\<lambda>c. \<not> char_isspace c) (dropWhile char_isspace s)"

definition lockPID :: "pid_env \<Rightarrow> string \<Rightarrow> 'a magAOXApp_scheme \<Rightarrow> int \<times> 'a magAOXApp_scheme" where
  "lockPID pe invokedName st =
     (if pe_root pe = MkError then (- 1, app_emit [AppLogCritical ''Failed to create root of statusDir''] st)
      else if pe_dir pe = MkError then (- 1, app_emit [AppLogCritical ''Failed to create statusDir''] st)
      else if pe_dir pe = MkExists \<and>
              (case pe_file pe of
                 None \<Rightarrow> False
               | Some testPid \<Rightarrow>
                   let pidCmdLine = first_word (pe_cmdline pe testPid)
                   in contains pidCmdLine invokedName \<and> contains pidCmdLine (app_configName st))
      then (- 1, app_emit [AppLogText ''PID already locked.  Time to die.''] st)
      else if \<not> pe_write pe then (- 1, app_emit [AppLogCritical ''failed to write to pid file.''] st)
      else (0, app_emit [AppLogText ''PID locked.''] st))"

text \<open>\<open>removed\<close> tells that the PID file could be removed.\<close>

definition unlockPID :: "bool \<Rightarrow> 'a magAOXApp_scheme \<Rightarrow> int \<times> 'a magAOXApp_scheme" where
  "unlockPID removed st =
     (let st = act ActUnlockPID st
      in if \<not> removed then (- 1, app_emit [AppLogError ''Failed to remove PID file''] st)
      else (0, app_emit [AppLogText ''PID unlocked.''] st))"

text \<open>The calls of \<open>unlockPID\<close> in \<open>execute\<close>.\<close>

definition release_pid :: "bool \<Rightarrow> 'a magAOXApp_scheme \<Rightarrow> 'a magAOXApp_scheme" where
  "release_pid removed st =
     (let (rv, st) = unlockPID removed st
      in if rv < 0 then app_emit [AppLogError ''error from unlockPID()''] st else st)"

section \<open>The life of an application\<close>

text \<open>
  The functions a derived class provides, with their return values; \<^const>\<open>None\<close> is a call that
  does not return. \<open>hk_dispatch\<close> runs its call-backs, \<open>hk_heap\<close> gives its properties.
\<close>

record 'st app_hooks =
  hk_appStartup :: "'st \<Rightarrow> (int \<times> 'st) option"
  hk_appLogic :: "'st \<Rightarrow> (int \<times> 'st) option"
  hk_appShutdown :: "'st \<Rightarrow> (int \<times> 'st) option"
  hk_onPowerOff :: "'st \<Rightarrow> (int \<times> 'st) option"
  hk_whilePowerOff :: "'st \<Rightarrow> (int \<times> 'st) option"
  hk_dispatch :: "string \<Rightarrow> IndiProperty \<Rightarrow> 'st \<Rightarrow> 'st"
  hk_heap :: "'st \<Rightarrow> string \<Rightarrow> IndiProperty"

text \<open>What the system does during a step.\<close>

record exec_env =
  ee_userOk :: bool \<comment> \<open>the log path can be read and belongs to the user\<close>
  ee_pid :: pid_env
  ee_invokedName :: string
  ee_logRunning :: bool
  ee_sigHandler :: bool
  ee_startINDI :: bool \<comment> \<open>FIFOs and driver could be made\<close>
  ee_removed :: bool
  ee_ownsLock :: bool
  ee_now :: int
  ee_sendOk :: "string \<Rightarrow> bool"

datatype app_pc =
    PcCheckUser | PcLock | PcLogWait nat | PcSignals | PcAppStartup | PcStartINDI | PcPower | PcPowerWait nat | PcPowerWoke nat
  | PcPowerInit | PcWhile | PcLogCheck | PcPowerCheck | PcLogic | PcOff | PcGetList | PcState
  | PcAppShutdown | PcStopINDI | PcUnlock | PcDone int

type_synonym 'a exec = "app_pc \<times> 'a magAOXApp_scheme"

text \<open>An error exit: the state, \<open>m_shutdown\<close>, the PID lock, and the value -1.\<close>

definition fail_exit :: "exec_env \<Rightarrow> app_event list \<Rightarrow> 'a magAOXApp_scheme \<Rightarrow> 'a exec" where
  "fail_exit env evs st =
     (PcDone (- 1), release_pid (ee_removed env) (app_emit evs ((set_state (ee_ownsLock env) FAILURE False st)\<lparr>ma_shutdown := 1\<rparr>)))"

definition startINDI ::
  "'a magAOXApp_scheme app_hooks \<Rightarrow> exec_env \<Rightarrow> 'a magAOXApp_scheme \<Rightarrow> (int \<times> 'a magAOXApp_scheme) option" where
  "startINDI hk env st =
     (if \<not> app_useINDI st then Some (0, st)
      else if \<not> ee_startINDI env then Some (- 1, act (ActStartINDI False) (st\<lparr>app_driver := False\<rparr>))
      else
        let st = act (ActStartINDI True) (st\<lparr>app_driver := True\<rparr>)
        in do { st \<leftarrow> sendGetPropertySetList (hk_heap hk st) (ee_sendOk env) True (ee_now env) st; Some (0, st) })"

text \<open>A call of a hook in the main loop that ends the application when it fails.\<close>

definition loop_call ::
  "app_action \<Rightarrow> string \<Rightarrow> ('a magAOXApp_scheme \<Rightarrow> (int \<times> 'a magAOXApp_scheme) option) \<Rightarrow> app_pc \<Rightarrow> 'a magAOXApp_scheme \<Rightarrow>
   'a exec option" where
  "loop_call a what f pc st =
     do { (rv, st) \<leftarrow> f (act a st);
          Some (if rv < 0 then (PcWhile, app_emit [AppLogError (''error from '' @ what @ ''()'')] (st\<lparr>ma_shutdown := 1\<rparr>))
                else (pc, st)) }"

definition exec_next ::
  "'a magAOXApp_scheme app_hooks \<Rightarrow> exec_env \<Rightarrow> 'a exec \<Rightarrow> 'a exec option" where
  "exec_next hk env x =
     (let (pc, st) = x; to_state = (\<lambda>s. set_state (ee_ownsLock env) s False)
      in case pc of
        PcCheckUser \<Rightarrow>
          Some (if ee_userOk env then (PcLock, st) else (PcDone (- 1), to_state FAILURE st))
      | PcLock \<Rightarrow>
          let (rv, st) = lockPID (ee_pid env) (ee_invokedName env) st
          in Some (if rv < 0 then (PcDone (- 1), to_state FAILURE st)
                   else (PcLogWait 0, act ActLogThread (act ActLockPID st)))
      | PcLogWait w \<Rightarrow>
          Some (if ee_logRunning env then (PcSignals, st)
                else if w < 20 then (PcLogWait (Suc w), st)
                else fail_exit env [] st)
      | PcSignals \<Rightarrow>
          Some (if ma_shutdown st = 0 \<and> \<not> ee_sigHandler env
                then fail_exit env [AppLogCritical ''error from setSigTermHandler()''] st
                else (PcAppStartup, st))
      | PcAppStartup \<Rightarrow>
          if ma_shutdown st \<noteq> 0 then Some (PcStartINDI, st)
          else do { (rv, st) \<leftarrow> hk_appStartup hk (to_state INITIALIZED st);
                    Some (if rv < 0
                          then fail_exit env [AppLogCritical ''error from appStartup()''] (act (ActAppStartup False) st)
                          else (PcStartINDI, act (ActAppStartup True) st)) }
      | PcStartINDI \<Rightarrow>
          if \<not> app_useINDI st \<or> ma_shutdown st \<noteq> 0 then Some (PcPower, st)
          else do { (rv, st) \<leftarrow> startINDI hk env st;
                    if rv < 0
                    then do { let st = (app_emit [AppLogCritical ''INDI failed to start.''] (to_state FAILURE st))\<lparr>ma_shutdown := 1\<rparr>;
                              (rv, st) \<leftarrow> hk_appShutdown hk (act ActAppShutdown st);
                              let st = (if rv < 0 then app_emit [AppLogError ''error from appShutdown()''] st else st);
                              Some (PcDone (- 1), release_pid (ee_removed env) st) }
                    else Some (PcPower, st) }
      | PcPower \<Rightarrow>
          Some (if ma_powerMgtEnabled st \<and> ma_shutdown st = 0 then (PcPowerWait 0, st) else (PcWhile, st))
      | PcPowerWait n \<Rightarrow>
          Some (if ma_powerState st < 0 \<and> ma_shutdown st = 0 then (PcPowerWoke n, st) else (PcPowerInit, st))
      | PcPowerWoke n \<Rightarrow>
          let st = (if ma_powerState st < 0
                    then let (logged, st) = stateLogged st
                         in if logged = 0 then app_emit [AppLogText ''waiting for power state''] st else st
                    else st);
              st = (if Suc n = 30
                    then (to_state ERROR (app_emit [AppLogText ''stalled waiting for power state''] st))\<lparr>ma_shutdown := 1\<rparr>
                    else st)
          in Some (PcPowerWait (Suc n), st)
      | PcPowerInit \<Rightarrow>
          if ma_powerState st > 0 then Some (PcWhile, to_state POWERON st)
          else loop_call ActOnPowerOff ''onPowerOff'' (hk_onPowerOff hk) PcWhile
                 (to_state POWEROFF (st\<lparr>ma_powerOnCounter := 0\<rparr>))
      | PcWhile \<Rightarrow> Some (if ma_shutdown st = 0 then PcLogCheck else PcAppShutdown, st)
      | PcLogCheck \<Rightarrow>
          Some (if ee_logRunning env then (PcPowerCheck, st) else (PcAppShutdown, (to_state FAILURE st)\<lparr>ma_shutdown := 1\<rparr>))
      | PcPowerCheck \<Rightarrow>
          if \<not> ma_powerMgtEnabled st then Some (PcLogic, st)
          else if ma_state st = POWEROFF
          then Some (PcLogic, if ma_powerState st = 1 then to_state POWERON (st\<lparr>ma_powerOnCounter := 0\<rparr>) else st)
          else if ma_powerState st = 0
          then loop_call ActOnPowerOff ''onPowerOff'' (hk_onPowerOff hk) PcLogic (to_state POWEROFF st)
          else Some (PcLogic, st)
      | PcLogic \<Rightarrow>
          if \<not> ma_powerMgtEnabled st \<or> ma_powerState st > 0
          then loop_call ActAppLogic ''appLogic'' (hk_appLogic hk) PcGetList st
          else Some (PcOff, st)
      | PcOff \<Rightarrow>
          if ma_powerState st = 0 then loop_call ActWhilePowerOff ''whilePowerOff'' (hk_whilePowerOff hk) PcGetList st
          else Some (PcGetList, st)
      | PcGetList \<Rightarrow>
          if app_useINDI st
          then do { st \<leftarrow> sendGetPropertySetList (hk_heap hk st) (ee_sendOk env) False (ee_now env) st; Some (PcState, st) }
          else Some (PcState, st)
      | PcState \<Rightarrow> Some (PcWhile, to_state (ma_state st) st)
      | PcAppShutdown \<Rightarrow>
          do { (rv, st) \<leftarrow> hk_appShutdown hk (act ActAppShutdown st);
               Some (PcStopINDI, to_state SHUTDOWN (if rv < 0 then app_emit [AppLogError ''error from appShutdown()''] st else st)) }
      | PcStopINDI \<Rightarrow> Some (PcUnlock, if app_driver st then act ActStopINDI st else st)
      | PcUnlock \<Rightarrow> Some (PcDone 0, release_pid (ee_removed env) st)
      | PcDone rv \<Rightarrow> Some (PcDone rv, st))"

subsection \<open>The other threads\<close>

text \<open>The framework's own call-backs; the others are those of the derived class.\<close>

definition app_dispatch ::
  "'a magAOXApp_scheme app_hooks \<Rightarrow> string \<Rightarrow> IndiProperty \<Rightarrow> 'a magAOXApp_scheme \<Rightarrow> 'a magAOXApp_scheme" where
  "app_dispatch hk f ipRecv st =
     (if f = ''st_setCallBack_m_indiP_powerChannel'' then snd (setCallBack_powerChannel ipRecv st)
      else if f = ''st_newCallBack_clearFSMAlert'' then snd (newCallBack_clearFSMAlert ipRecv st)
      else hk_dispatch hk f ipRecv st)"

datatype app_sched =
    Main exec_env
  | MsgGet IndiProperty int "string \<Rightarrow> bool"
  | MsgNew IndiProperty
  | MsgSet IndiProperty
  | Logged bool int
  | Signal string

fun sched_step :: "'a magAOXApp_scheme app_hooks \<Rightarrow> app_sched \<Rightarrow> 'a exec \<Rightarrow> 'a exec option" where
  "sched_step hk (Main env) x = exec_next hk env x"
| "sched_step hk (MsgGet ip now ok) (pc, st) =
     do { st \<leftarrow> handleGetProperties (hk_heap hk st) ok now ip st; Some (pc, st) }"
| "sched_step hk (MsgNew ip) (pc, st) = Some (pc, handleNewProperty (app_dispatch hk) ip st)"
| "sched_step hk (MsgSet ip) (pc, st) = Some (pc, handleSetProperty (app_dispatch hk) ip st)"
| "sched_step hk (Logged owns_lock lvl) (pc, st) = Some (pc, logMessage owns_lock lvl st)"
| "sched_step hk (Signal signame) (pc, st) = Some (pc, handlerSigTerm signame st)"

fun sched_run :: "'a magAOXApp_scheme app_hooks \<Rightarrow> app_sched list \<Rightarrow> 'a exec \<Rightarrow> 'a exec option" where
  "sched_run hk [] x = Some x"
| "sched_run hk (s # ss) x = do { x \<leftarrow> sched_step hk s x; sched_run hk ss x }"


text \<open>The steps of the other threads only, while \<open>execute\<close> is inside a virtual function.\<close>

definition is_main :: "app_sched \<Rightarrow> bool" where
  "is_main s \<longleftrightarrow> (case s of Main env \<Rightarrow> True | _ \<Rightarrow> False)"

definition other_threads ::
  "'a magAOXApp_scheme app_hooks \<Rightarrow> app_sched list \<Rightarrow> 'a magAOXApp_scheme \<Rightarrow> 'a magAOXApp_scheme option" where
  "other_threads hk ss st = map_option snd (sched_run hk (filter (\<lambda>s. \<not> is_main s) ss) (PcLogic, st))"

section \<open>What the framework changes\<close>

text \<open>A change of the framework's own members only, other than those that control its life.\<close>

definition own_change :: "'a magAOXApp_scheme \<Rightarrow> 'a magAOXApp_scheme \<Rightarrow> bool" where
  "own_change st st' \<longleftrightarrow>
     magAOXApp.more st' = magAOXApp.more st \<and> app_useINDI st' = app_useINDI st \<and> app_configName st' = app_configName st \<and>
     app_driver st' = app_driver st \<and> ma_powerMgtEnabled st' = ma_powerMgtEnabled st \<and> ma_actions st' = ma_actions st \<and>
     ma_shutdown st' = ma_shutdown st"

named_theorems own_changes

lemma own_change_refl [own_changes]: "own_change st st"
  by (simp add: own_change_def)

lemma own_change_trans: "own_change st st1 \<Longrightarrow> own_change st1 st2 \<Longrightarrow> own_change st st2"
  by (simp add: own_change_def)

lemma own_app_emit [own_changes]: "own_change st (app_emit evs st)"
  by (simp add: own_change_def app_emit_def)

lemma own_publish_state [own_changes]: "own_change st (publish_state s st)"
  by (simp add: own_change_def publish_state_def app_emit_def case_prod_unfold Let_def)

lemma own_set_state [own_changes]: "own_change st (set_state l s a st)"
  by (simp add: own_change_def set_state_def publish_state_def app_emit_def case_prod_unfold Let_def)

lemma own_stateLogged [own_changes]: "own_change st (snd (stateLogged st))"
  by (simp add: own_change_def stateLogged_def Let_def)

lemma own_logMessage [own_changes]: "own_change st (logMessage l lvl st)"
  by (simp add: logMessage_def own_set_state own_change_refl)

lemma own_clearFSMAlert [own_changes]: "own_change st (snd (newCallBack_clearFSMAlert ip st))"
  by (auto simp: own_change_def newCallBack_clearFSMAlert_def clearFSMAlert_def publish_state_def app_emit_def
      case_prod_unfold Let_def split: option.split)

lemma own_powerChannel [own_changes]: "own_change st (snd (setCallBack_powerChannel ip st))"
  by (simp add: own_change_def setCallBack_powerChannel_def Let_def split: option.split)

lemma own_lockPID [own_changes]: "own_change st (snd (lockPID pe nm st))"
  by (simp add: lockPID_def own_app_emit)

lemma own_sendGet:
  "sendGetPropertySetList heap ok everything now st = Some st' \<Longrightarrow> own_change st st'"
  by (auto simp: own_change_def sendGetPropertySetList_def app_emit_def case_prod_unfold Let_def split: if_splits)

lemma sendGet_total: "app_driver st \<Longrightarrow> \<exists>st'. sendGetPropertySetList heap ok everything now st = Some st'"
  by (simp add: sendGetPropertySetList_def app_emit_def case_prod_unfold Let_def)

lemma handleGet_own:
  "\<exists>st'. handleGetProperties heap ok now ip st = Some st' \<and> own_change st st'"
proof -
  let ?st = "app_emit (send_each AppSendDef ''sendDefProperty'' heap ok (all_properties (app_newCallBacks st))) st"
  have "\<exists>st'. sendGetPropertySetList heap ok True now ?st = Some st' \<and> own_change st st'" if "app_driver st"
  proof -
    have "app_driver ?st" using that by (simp add: app_emit_def)
    then obtain st' where st': "sendGetPropertySetList heap ok True now ?st = Some st'" using sendGet_total by blast
    then show ?thesis using own_change_trans [OF own_app_emit own_sendGet [OF st']] by blast
  qed
  then show ?thesis
    by (auto simp: handleGetProperties_def own_changes split: option.split)
qed

section \<open>The life cycle\<close>

text \<open>
  What an application may do in which phase of its life. \<open>useINDI\<close> tells whether it has to talk
  before it works.
\<close>

datatype life =
  LFresh | LLocked | LLogging | LStarted | LTalking | LNoIndi | LFailed | LStopped | LClosed | LReleased

definition works :: "app_action \<Rightarrow> bool" where
  "works a \<longleftrightarrow> a = ActOnPowerOff \<or> a = ActAppLogic \<or> a = ActWhilePowerOff"

fun life_next :: "bool \<Rightarrow> life \<Rightarrow> app_action \<Rightarrow> life option" where
  "life_next useINDI LFresh a = (if a = ActLockPID then Some LLocked else None)"
| "life_next useINDI LLocked a = (if a = ActLogThread then Some LLogging else None)"
| "life_next useINDI LLogging a =
     (if a = ActAppStartup True then Some LStarted
      else if a = ActAppStartup False then Some LFailed
      else if a = ActAppShutdown then Some LStopped
      else if a = ActUnlockPID then Some LReleased else None)"
| "life_next useINDI LStarted a =
     (if useINDI \<and> a = ActStartINDI True then Some LTalking
      else if useINDI \<and> a = ActStartINDI False then Some LNoIndi
      else if \<not> useINDI \<and> works a then Some LStarted
      else if a = ActAppShutdown then Some LStopped else None)"
| "life_next useINDI LTalking a =
     (if works a then Some LTalking else if a = ActAppShutdown then Some LStopped else None)"
| "life_next useINDI LNoIndi a = (if a = ActAppShutdown then Some LStopped else None)"
| "life_next useINDI LFailed a = (if a = ActUnlockPID then Some LReleased else None)"
| "life_next useINDI LStopped a =
     (if a = ActStopINDI then Some LClosed else if a = ActUnlockPID then Some LReleased else None)"
| "life_next useINDI LClosed a = (if a = ActUnlockPID then Some LReleased else None)"
| "life_next useINDI LReleased a = None"

lemma works_simps [simp]:
  "works ActOnPowerOff" "works ActAppLogic" "works ActWhilePowerOff" "\<not> works ActAppShutdown" "\<not> works (ActStartINDI b)"
  "\<not> works (ActAppStartup b)" "\<not> works ActUnlockPID" "\<not> works ActStopINDI"
  by (simp_all add: works_def)

definition life_run :: "bool \<Rightarrow> app_action list \<Rightarrow> life option" where
  "life_run useINDI as = fold (\<lambda>a l. Option.bind l (\<lambda>l. life_next useINDI l a)) as (Some LFresh)"

lemma life_run_Nil [simp]: "life_run u [] = Some LFresh"
  by (simp add: life_run_def)

lemma life_run_snoc [simp]: "life_run u (as @ [a]) = Option.bind (life_run u as) (\<lambda>l. life_next u l a)"
  by (simp add: life_run_def)

text \<open>What holds of an application at a point of \<open>execute\<close>.\<close>

definition phase :: "'a magAOXApp_scheme \<Rightarrow> life option" where
  "phase st = life_run (app_useINDI st) (ma_actions st)"

definition running :: "'a magAOXApp_scheme \<Rightarrow> bool" where
  "running st \<longleftrightarrow> (if app_useINDI st then phase st = Some LTalking \<and> app_driver st else phase st = Some LStarted \<and> \<not> app_driver st)"

definition aborted :: "'a magAOXApp_scheme \<Rightarrow> bool" where
  "aborted st \<longleftrightarrow> ma_shutdown st \<noteq> 0 \<and> \<not> app_driver st \<and> (phase st = Some LLogging \<or> phase st = Some LStarted)"

fun pc_phase :: "app_pc \<Rightarrow> 'a magAOXApp_scheme \<Rightarrow> bool" where
  "pc_phase PcCheckUser st \<longleftrightarrow> phase st = Some LFresh \<and> \<not> app_driver st"
| "pc_phase PcLock st \<longleftrightarrow> phase st = Some LFresh \<and> \<not> app_driver st"
| "pc_phase (PcLogWait w) st \<longleftrightarrow> phase st = Some LLogging \<and> \<not> app_driver st"
| "pc_phase PcSignals st \<longleftrightarrow> phase st = Some LLogging \<and> \<not> app_driver st"
| "pc_phase PcAppStartup st \<longleftrightarrow> phase st = Some LLogging \<and> \<not> app_driver st"
| "pc_phase PcStartINDI st \<longleftrightarrow> phase st = Some LStarted \<and> \<not> app_driver st \<or> aborted st"
| "pc_phase PcPower st \<longleftrightarrow> running st \<or> aborted st"
| "pc_phase PcWhile st \<longleftrightarrow> running st \<or> aborted st"
| "pc_phase PcAppShutdown st \<longleftrightarrow> running st \<or> aborted st"
| "pc_phase PcStopINDI st \<longleftrightarrow> phase st = Some LStopped"
| "pc_phase PcUnlock st \<longleftrightarrow> phase st = Some LStopped \<or> phase st = Some LClosed"
| "pc_phase (PcDone rv) st \<longleftrightarrow> rv = - 1 \<and> phase st = Some LFresh \<or> phase st = Some LReleased"
| "pc_phase _ st \<longleftrightarrow> running st"

section \<open>What the framework relies on\<close>

text \<open>A derived class keeps its hands off the members that control the life of the application, but
  for asking for shutdown.\<close>

definition hook_change :: "'a magAOXApp_scheme \<Rightarrow> 'a magAOXApp_scheme \<Rightarrow> bool" where
  "hook_change st st' \<longleftrightarrow>
     app_useINDI st' = app_useINDI st \<and> app_configName st' = app_configName st \<and> app_driver st' = app_driver st \<and>
     ma_powerMgtEnabled st' = ma_powerMgtEnabled st \<and> ma_actions st' = ma_actions st \<and>
     (ma_shutdown st \<noteq> 0 \<longrightarrow> ma_shutdown st' \<noteq> 0)"

text \<open>
  The interface of a derived class. \<open>ready\<close> holds of a configured application, \<open>inv\<close> after its
  startup; its functions return and keep them, its call-backs for every property it \<open>accepts\<close>, and
  they depend on the members of the derived class only.
\<close>

locale hosted_app =
  fixes hk :: "'a magAOXApp_scheme app_hooks"
    and ready inv :: "'a magAOXApp_scheme \<Rightarrow> bool"
    and accepts :: "IndiProperty \<Rightarrow> bool"
  assumes startup: "ready st \<Longrightarrow>
      \<exists>rv st'. hk_appStartup hk st = Some (rv, st') \<and> hook_change st st' \<and> (rv \<ge> 0 \<longrightarrow> inv st')"
    and logic: "inv st \<Longrightarrow> \<exists>rv st'. hk_appLogic hk st = Some (rv, st') \<and> hook_change st st' \<and> inv st'"
    and onPowerOff: "inv st \<Longrightarrow> \<exists>rv st'. hk_onPowerOff hk st = Some (rv, st') \<and> hook_change st st' \<and> inv st'"
    and whilePowerOff: "inv st \<Longrightarrow> \<exists>rv st'. hk_whilePowerOff hk st = Some (rv, st') \<and> hook_change st st' \<and> inv st'"
    and shutdown: "ready st \<or> inv st \<Longrightarrow>
      \<exists>rv st'. hk_appShutdown hk st = Some (rv, st') \<and> hook_change st st' \<and> (inv st \<longrightarrow> inv st')"
    and dispatch: "inv st \<Longrightarrow> accepts ip \<Longrightarrow> hook_change st (hk_dispatch hk f ip st) \<and> inv (hk_dispatch hk f ip st)"
    and members: "magAOXApp.more st' = magAOXApp.more st \<Longrightarrow> app_useINDI st' = app_useINDI st \<Longrightarrow>
      app_configName st' = app_configName st \<Longrightarrow> (ready st \<longrightarrow> ready st') \<and> (inv st \<longrightarrow> inv st')"
begin

text \<open>The application is well: configured before its startup, its invariant after it.\<close>

definition well :: "app_pc \<Rightarrow> 'a magAOXApp_scheme \<Rightarrow> bool" where
  "well pc st \<longleftrightarrow> pc_phase pc st \<and> (app_driver st \<longrightarrow> inv st) \<and>
     (case phase st of
        Some LFresh \<Rightarrow> ready st \<and> \<not> app_driver st | Some LLogging \<Rightarrow> ready st \<and> \<not> app_driver st
      | Some LStarted \<Rightarrow> inv st | Some LTalking \<Rightarrow> inv st | _ \<Rightarrow> True)"

lemma own_well: "own_change st st' \<Longrightarrow> well pc st \<Longrightarrow> well pc st'"
proof -
  assume own: "own_change st st'" and "well pc st"
  moreover from own have "phase st' = phase st" "app_driver st' = app_driver st" by (simp_all add: phase_def own_change_def)
  moreover from own this have "pc_phase pc st' = pc_phase pc st"
    by (cases pc) (simp_all add: running_def aborted_def own_change_def)
  moreover have "ready st \<longrightarrow> ready st'" "inv st \<longrightarrow> inv st'"
    using own members [of st' st] by (simp_all add: own_change_def)
  ultimately show ?thesis by (auto simp: well_def split: option.splits life.splits)
qed


lemma own_keeps:
  assumes "own_change st st'"
  shows "inv st \<Longrightarrow> inv st'" "ready st \<Longrightarrow> ready st'" "phase st' = phase st" "running st' = running st" "aborted st' = aborted st"
    "app_useINDI st' = app_useINDI st" "app_driver st' = app_driver st" "ma_shutdown st' = ma_shutdown st"
  using assms members [of st' st] by (simp_all add: own_change_def phase_def running_def aborted_def)

lemma act_keeps [simp]:
  "inv (act a st) = inv st" "ready (act a st) = ready st" "app_useINDI (act a st) = app_useINDI st"
  "app_driver (act a st) = app_driver st" "ma_shutdown (act a st) = ma_shutdown st"
  "phase (act a st) = Option.bind (phase st) (\<lambda>l. life_next (app_useINDI st) l a)"
  using members [of "act a st" st] members [of st "act a st"] by (auto simp: act_def phase_def)

lemma emit_keeps [simp]:
  "inv (app_emit evs st) = inv st" "ready (app_emit evs st) = ready st" "app_useINDI (app_emit evs st) = app_useINDI st"
  "app_driver (app_emit evs st) = app_driver st" "ma_shutdown (app_emit evs st) = ma_shutdown st"
  "phase (app_emit evs st) = phase st"
  using members [of "app_emit evs st" st] members [of st "app_emit evs st"] by (auto simp: app_emit_def phase_def)

lemma state_keeps [simp]:
  "inv (set_state l s a st) = inv st" "ready (set_state l s a st) = ready st"
  "app_useINDI (set_state l s a st) = app_useINDI st" "app_driver (set_state l s a st) = app_driver st"
  "ma_shutdown (set_state l s a st) = ma_shutdown st" "phase (set_state l s a st) = phase st"
  using own_set_state [of st l s a] members [of "set_state l s a st" st] members [of st "set_state l s a st"]
  by (auto simp: own_change_def phase_def)

lemma shutdown_keeps [simp]:
  "inv (st\<lparr>ma_shutdown := n\<rparr>) = inv st" "ready (st\<lparr>ma_shutdown := n\<rparr>) = ready st" "phase (st\<lparr>ma_shutdown := n\<rparr>) = phase st"
  using members [of "st\<lparr>ma_shutdown := n\<rparr>" st] members [of st "st\<lparr>ma_shutdown := n\<rparr>"] by (auto simp: phase_def)

lemma counter_keeps [simp]:
  "inv (st\<lparr>ma_powerOnCounter := n\<rparr>) = inv st" "phase (st\<lparr>ma_powerOnCounter := n\<rparr>) = phase st"
  using members [of "st\<lparr>ma_powerOnCounter := n\<rparr>" st] members [of st "st\<lparr>ma_powerOnCounter := n\<rparr>"] by (auto simp: phase_def)

lemma driver_keeps [simp]:
  "inv (st\<lparr>app_driver := b\<rparr>) = inv st" "phase (st\<lparr>app_driver := b\<rparr>) = phase st"
  using members [of "st\<lparr>app_driver := b\<rparr>" st] members [of st "st\<lparr>app_driver := b\<rparr>"] by (auto simp: phase_def)

lemma release_keeps [simp]:
  "inv (release_pid r st) = inv st" "app_useINDI (release_pid r st) = app_useINDI st"
  "app_driver (release_pid r st) = app_driver st" "ma_shutdown (release_pid r st) = ma_shutdown st"
  "phase (release_pid r st) = Option.bind (phase st) (\<lambda>l. life_next (app_useINDI st) l ActUnlockPID)"
  by (simp_all add: release_pid_def unlockPID_def Let_def)

lemma hook_keeps:
  assumes "hook_change st st'"
  shows "phase st' = phase st" "app_useINDI st' = app_useINDI st" "app_driver st' = app_driver st"
    "ma_shutdown st \<noteq> 0 \<Longrightarrow> ma_shutdown st' \<noteq> 0" "ma_powerMgtEnabled st' = ma_powerMgtEnabled st"
  using assms by (simp_all add: hook_change_def phase_def)

lemma running_inv: "running st \<Longrightarrow> well pc st \<Longrightarrow> inv st"
  by (auto simp: running_def well_def split: if_splits)

lemma aborted_cases: "aborted st \<Longrightarrow> well pc st \<Longrightarrow> ready st \<or> inv st"
  by (auto simp: aborted_def well_def)

lemma well_running:
  "running st \<Longrightarrow> inv st \<Longrightarrow> pc \<in> {PcPower, PcPowerInit, PcWhile, PcLogCheck, PcPowerCheck, PcLogic, PcOff, PcGetList, PcState, PcAppShutdown} \<Longrightarrow> well pc st"
  by (auto simp: well_def running_def split: if_splits)

lemma loop_call_ok:
  assumes st: "running st" "inv st" "works a"
    and f: "\<And>st. inv st \<Longrightarrow> \<exists>rv st'. f st = Some (rv, st') \<and> hook_change st st' \<and> inv st'"
  shows "\<exists>pc' st'. loop_call a what f pc st = Some (pc', st') \<and> (pc' = PcWhile \<or> pc' = pc) \<and> running st' \<and> inv st' \<and>
    app_useINDI st' = app_useINDI st \<and> (ma_shutdown st \<noteq> 0 \<longrightarrow> ma_shutdown st' \<noteq> 0)"
proof -
  obtain rv st' where 1: "f (act a st) = Some (rv, st')" "hook_change (act a st) st'" "inv st'" using f [of "act a st"] st(2) by auto
  note k = hook_keeps [OF 1(2)]
  have "running st'" using st(1,3) k(1-3) by (auto simp: running_def)
  moreover have "running (app_emit evs (st'\<lparr>ma_shutdown := 1\<rparr>))" for evs using \<open>running st'\<close> by (simp add: running_def)
  ultimately show ?thesis using 1 k by (auto simp: loop_call_def)
qed

end

text \<open>How far \<open>execute\<close> is from its end when it is asked to shut down.\<close>

fun pc_rank :: "app_pc \<Rightarrow> nat" where
  "pc_rank (PcDone rv) = 0"
| "pc_rank PcUnlock = 1"
| "pc_rank PcStopINDI = 2"
| "pc_rank PcAppShutdown = 3"
| "pc_rank PcWhile = 4"
| "pc_rank PcState = 5"
| "pc_rank PcGetList = 6"
| "pc_rank PcOff = 7"
| "pc_rank PcLogic = 8"
| "pc_rank PcPowerCheck = 9"
| "pc_rank PcLogCheck = 10"
| "pc_rank PcPowerInit = 11"
| "pc_rank (PcPowerWait n) = 12"
| "pc_rank (PcPowerWoke n) = 13"
| "pc_rank PcPower = 14"
| "pc_rank PcStartINDI = 15"
| "pc_rank PcAppStartup = 16"
| "pc_rank PcSignals = 17"
| "pc_rank (PcLogWait w) = 18 + (20 - w)"
| "pc_rank PcLock = 39"
| "pc_rank PcCheckUser = 40"

text \<open>The steps of \<open>execute\<close> in a schedule, and what is asked of the received properties.\<close>

fun received :: "(IndiProperty \<Rightarrow> bool) \<Rightarrow> app_sched \<Rightarrow> bool" where
  "received P (MsgNew ip) = P ip"
| "received P (MsgSet ip) = P ip"
| "received P _ = True"

definition main_steps :: "app_sched list \<Rightarrow> nat" where
  "main_steps ss = length (filter is_main ss)"

context hosted_app
begin

text \<open>What a step of \<open>execute\<close> achieves.\<close>

definition step_ok :: "app_pc \<Rightarrow> 'a magAOXApp_scheme \<Rightarrow> 'a exec option \<Rightarrow> bool" where
  "step_ok pc st r \<longleftrightarrow>
     (\<exists>pc' st'. r = Some (pc', st') \<and> well pc' st' \<and> app_useINDI st' = app_useINDI st \<and>
        (ma_shutdown st \<noteq> 0 \<longrightarrow> ma_shutdown st' \<noteq> 0 \<and> (pc_rank pc' < pc_rank pc \<or> pc_rank pc = 0 \<and> pc' = pc)))"

lemma step_ok_Some [simp]:
  "step_ok pc st (Some (pc', st')) \<longleftrightarrow>
     well pc' st' \<and> app_useINDI st' = app_useINDI st \<and>
     (ma_shutdown st \<noteq> 0 \<longrightarrow> ma_shutdown st' \<noteq> 0 \<and> (pc_rank pc' < pc_rank pc \<or> pc_rank pc = 0 \<and> pc' = pc))"
  by (simp add: step_ok_def)

lemma loop_call_step:
  assumes "running st" "inv st" "works a"
    and "\<And>st. inv st \<Longrightarrow> \<exists>rv st'. f st = Some (rv, st') \<and> hook_change st st' \<and> inv st'"
    and "app_useINDI st = app_useINDI st0" "ma_shutdown st = ma_shutdown st0"
    and "pc' \<in> {PcWhile, PcLogic, PcGetList}" "pc_rank pc' < pc_rank pc" "4 < pc_rank pc"
  shows "step_ok pc st0 (loop_call a what f pc' st)"
proof -
  obtain pc1 st1 where 1: "loop_call a what f pc' st = Some (pc1, st1)" "pc1 = PcWhile \<or> pc1 = pc'" "running st1" "inv st1"
    "app_useINDI st1 = app_useINDI st" "ma_shutdown st \<noteq> 0 \<longrightarrow> ma_shutdown st1 \<noteq> 0"
    using loop_call_ok [OF assms(1-4)] by blast
  moreover have "well pc1 st1" using 1 assms(7) by (intro well_running) auto
  ultimately show ?thesis using assms(5-9) by (auto simp: step_ok_def)
qed

lemma step_running:
  assumes "running st" "inv st" "pc \<in> {PcPowerInit, PcLogCheck, PcPowerCheck, PcLogic, PcOff, PcGetList, PcState}"
  shows "step_ok pc st (exec_next hk env (pc, st))"
proof -
  note r = well_running
  have s: "running (set_state l s a st)" "running (st\<lparr>ma_powerOnCounter := n\<rparr>)" "running (set_state l s a (st\<lparr>ma_powerOnCounter := n\<rparr>))"
    "running ((set_state l s a st)\<lparr>ma_shutdown := n'\<rparr>)" for l s a n n'
    using assms(1) by (simp_all add: running_def)
  have get: "\<exists>st'. sendGetPropertySetList (hk_heap hk st) (ee_sendOk env) False (ee_now env) st = Some st' \<and> own_change st st'"
    if "app_useINDI st"
    using that assms(1) sendGet_total own_sendGet by (metis running_def)
  show ?thesis
    using assms(3)
  proof (elim insertE emptyE)
    assume pc: "pc = PcPowerInit"
    show ?thesis
      by (cases "ma_powerState st > 0")
        (auto simp: pc exec_next_def assms(2) s intro!: r loop_call_step onPowerOff)
  next
    assume pc: "pc = PcLogCheck"
    show ?thesis using assms(1,2) by (auto simp: pc exec_next_def s intro!: r)
  next
    assume pc: "pc = PcPowerCheck"
    show ?thesis using assms(1,2)
      by (auto simp: pc exec_next_def s intro!: r loop_call_step onPowerOff)
  next
    assume pc: "pc = PcLogic"
    show ?thesis using assms(1,2)
      by (auto simp: pc exec_next_def intro!: r loop_call_step logic)
  next
    assume pc: "pc = PcOff"
    show ?thesis using assms(1,2)
      by (auto simp: pc exec_next_def intro!: r loop_call_step whilePowerOff)
  next
    assume pc: "pc = PcGetList"
    show ?thesis using assms(1,2) get
      by (auto simp: pc exec_next_def own_keeps intro!: r)
  next
    assume pc: "pc = PcState"
    show ?thesis using assms(1,2) by (auto simp: pc exec_next_def s intro!: r)
  qed
qed


lemma step_lock:
  assumes "well PcLock st"
  shows "step_ok PcLock st (exec_next hk env (PcLock, st))"
proof -
  obtain rv st1 where l: "lockPID (ee_pid env) (ee_invokedName env) st = (rv, st1)" by fastforce
  have "own_change st st1" using own_lockPID [of st "ee_pid env" "ee_invokedName env"] l by simp
  note k = own_keeps [OF this]
  have p: "phase st = Some LFresh" "\<not> app_driver st" "ready st" using assms by (auto simp: well_def)
  show ?thesis using k p by (simp add: exec_next_def l well_def)
qed

lemma step_woke:
  assumes "well (PcPowerWoke n) st"
  shows "step_ok (PcPowerWoke n) st (exec_next hk env (PcPowerWoke n, st))"
proof -
  have r: "running st" using assms by (simp add: well_def)
  note i = running_inv [OF r assms]
  obtain v st1 where l: "stateLogged st = (v, st1)" by fastforce
  define st2 where "st2 = (if ma_powerState st < 0
      then (if v = 0 then app_emit [AppLogText ''waiting for power state''] st1 else st1) else st)"
  define st3 where "st3 = (if Suc n = 30
      then (set_state (ee_ownsLock env) ERROR False (app_emit [AppLogText ''stalled waiting for power state''] st2))\<lparr>ma_shutdown := 1\<rparr>
      else st2)"
  have "own_change st st2"
    using own_stateLogged [of st] l own_change_trans [OF _ own_app_emit] by (auto simp: st2_def own_change_refl)
  note k = own_keeps [OF this]
  have st3: "running st3" "inv st3" "app_useINDI st3 = app_useINDI st" "ma_shutdown st \<noteq> 0 \<longrightarrow> ma_shutdown st3 \<noteq> 0"
    using k r i by (simp_all add: st3_def running_def)
  then have "well (PcPowerWait (Suc n)) st3" by (auto simp: well_def running_def split: if_splits)
  moreover have "exec_next hk env (PcPowerWoke n, st) = Some (PcPowerWait (Suc n), st3)"
    by (simp add: exec_next_def l st2_def st3_def)
  ultimately show ?thesis using st3 by simp
qed

lemma step_wait:
  assumes "well pc st" "pc = PcPowerWait n \<or> pc = PcLogWait n"
  shows "step_ok pc st (exec_next hk env (pc, st))"
  using assms(2)
proof
  assume pc: "pc = PcPowerWait n"
  then have r: "running st" using assms(1) by (simp add: well_def)
  show ?thesis using r running_inv [OF r assms(1)] by (auto simp: pc exec_next_def well_def running_def split: if_splits)
next
  assume pc: "pc = PcLogWait n"
  then have "phase st = Some LLogging" "\<not> app_driver st" "ready st" using assms(1) by (auto simp: well_def)
  then show ?thesis by (auto simp: pc exec_next_def well_def fail_exit_def)
qed

lemma step_simple:
  assumes "well pc st" "pc = PcCheckUser \<or> pc = PcSignals \<or> pc = PcDone rv"
  shows "step_ok pc st (exec_next hk env (pc, st))"
  using assms(2)
proof (elim disjE)
  assume "pc = PcCheckUser"
  with assms(1) show ?thesis by (auto simp: exec_next_def well_def)
next
  assume "pc = PcSignals"
  with assms(1) show ?thesis by (auto simp: exec_next_def well_def fail_exit_def)
next
  assume "pc = PcDone rv"
  with assms(1) show ?thesis by (simp add: exec_next_def)
qed

lemma step_stop:
  assumes "well pc st" "pc = PcStopINDI \<or> pc = PcUnlock"
  shows "step_ok pc st (exec_next hk env (pc, st))"
  using assms(2)
proof
  assume "pc = PcStopINDI"
  with assms(1) show ?thesis by (simp add: exec_next_def well_def)
next
  assume "pc = PcUnlock"
  with assms(1) show ?thesis by (auto simp: exec_next_def well_def)
qed

lemma step_branch:
  assumes "well pc st" "pc = PcPower \<or> pc = PcWhile"
  shows "step_ok pc st (exec_next hk env (pc, st))"
proof -
  have "pc_phase pc st" using assms(1) by (simp add: well_def)
  then have r: "running st \<or> aborted st" using assms(2) by auto
  have "well pc' st" if "pc' \<in> {PcWhile, PcAppShutdown}" for pc'
    using r assms(1) that by (auto simp: well_def)
  moreover have "well pc' st" if "pc' \<in> {PcPowerWait 0, PcLogCheck}" "ma_shutdown st = 0" for pc'
    using r assms(1) that by (auto simp: well_def aborted_def)
  ultimately show ?thesis using assms(2) by (elim disjE) (simp_all add: exec_next_def)
qed

lemma step_startup:
  assumes "well PcAppStartup st"
  shows "step_ok PcAppStartup st (exec_next hk env (PcAppStartup, st))"
proof (cases "ma_shutdown st = 0")
  case False
  then show ?thesis using assms by (auto simp: exec_next_def well_def aborted_def)
next
  case True
  let ?st = "set_state (ee_ownsLock env) INITIALIZED False st"
  have p: "phase st = Some LLogging" "\<not> app_driver st" "ready st" using assms by (auto simp: well_def)
  obtain rv st' where 1: "hk_appStartup hk ?st = Some (rv, st')" "hook_change ?st st'" "rv \<ge> 0 \<longrightarrow> inv st'"
    using startup [of ?st] p(3) by auto
  note k = hook_keeps [OF 1(2)]
  show ?thesis
    using True 1 k p by (auto simp: exec_next_def well_def fail_exit_def)
qed

lemma step_shutdown:
  assumes "well PcAppShutdown st"
  shows "step_ok PcAppShutdown st (exec_next hk env (PcAppShutdown, st))"
proof -
  have p1: "running st \<or> aborted st" "app_driver st \<longrightarrow> inv st" using assms by (auto simp: well_def)
  then have "ready st \<or> inv st" using running_inv [OF _ assms] aborted_cases [OF _ assms] by blast
  with p1 have p: "running st \<or> aborted st" "ready st \<or> inv st" "app_driver st \<longrightarrow> inv st" by blast+
  then obtain rv st' where 1: "hk_appShutdown hk (act ActAppShutdown st) = Some (rv, st')" "hook_change (act ActAppShutdown st) st'"
    "inv st \<longrightarrow> inv st'"
    using shutdown [of "act ActAppShutdown st"] by auto
  have "phase (act ActAppShutdown st) = Some LStopped" using p(1) by (auto simp: running_def aborted_def split: if_splits)
  then show ?thesis
    using 1 p(3) hook_keeps [OF 1(2)] by (auto simp: exec_next_def well_def)
qed

lemma step_startINDI:
  assumes "well PcStartINDI st"
  shows "step_ok PcStartINDI st (exec_next hk env (PcStartINDI, st))"
proof (cases "app_useINDI st \<and> ma_shutdown st = 0")
  case False
  then show ?thesis using assms by (auto simp: exec_next_def well_def aborted_def running_def)
next
  case True
  then have p: "phase st = Some LStarted" "\<not> app_driver st" "inv st" using assms by (auto simp: well_def aborted_def)
  show ?thesis
  proof (cases "ee_startINDI env")
    case ok: True
    let ?st = "act (ActStartINDI True) (st\<lparr>app_driver := True\<rparr>)"
    have r: "running ?st" "inv ?st" using True p by (simp_all add: running_def)
    then obtain st' where 1: "sendGetPropertySetList (hk_heap hk ?st) (ee_sendOk env) True (ee_now env) ?st = Some st'"
      using sendGet_total [of ?st] by fastforce
    note k = own_keeps [OF own_sendGet [OF 1]]
    have "well PcPower st'" using r k by (intro well_running) auto
    then show ?thesis using True ok 1 k by (simp add: exec_next_def startINDI_def)
  next
    case False
    let ?st = "act ActAppShutdown ((app_emit [AppLogCritical ''INDI failed to start.'']
        (set_state (ee_ownsLock env) FAILURE False (act (ActStartINDI False) (st\<lparr>app_driver := False\<rparr>))))\<lparr>ma_shutdown := 1\<rparr>)"
    obtain rv st' where 1: "hk_appShutdown hk ?st = Some (rv, st')" "hook_change ?st st'"
      using shutdown [of ?st] p(3) by auto
    note k = hook_keeps [OF 1(2)]
    have "phase st' = Some LStopped" "\<not> app_driver st'" "app_useINDI st'" "ma_shutdown st' \<noteq> 0" using k True p by simp_all
    then show ?thesis using True False 1(1) by (auto simp: exec_next_def startINDI_def well_def)
  qed
qed

lemma exec_next_ok: "well pc st \<Longrightarrow> step_ok pc st (exec_next hk env (pc, st))"
proof -
  assume w: "well pc st"
  consider "pc \<in> {PcPowerInit, PcLogCheck, PcPowerCheck, PcLogic, PcOff, PcGetList, PcState}" | "pc = PcAppStartup" | "pc = PcAppShutdown"
    | "pc = PcStartINDI" | "pc = PcLock" | n where "pc = PcPowerWoke n" | n where "pc = PcPowerWait n \<or> pc = PcLogWait n"
    | rv where "pc = PcCheckUser \<or> pc = PcSignals \<or> pc = PcDone rv" | "pc = PcStopINDI \<or> pc = PcUnlock" | "pc = PcPower \<or> pc = PcWhile"
    by (cases pc) auto
  then show ?thesis
  proof cases
    case 1
    then have "running st" using w by (auto simp: well_def)
    then show ?thesis using 1 step_running running_inv [OF _ w] by blast
  next
    case 2 with w step_startup show ?thesis by simp
  next
    case 3 with w step_shutdown show ?thesis by simp
  next
    case 4 with w step_startINDI show ?thesis by simp
  next
    case 5 with w step_lock show ?thesis by simp
  next
    case 6 with w step_woke show ?thesis by simp
  next
    case 7 with w show ?thesis by (rule step_wait)
  next
    case 8 with w show ?thesis by (rule step_simple)
  next
    case 9 with w show ?thesis by (rule step_stop)
  next
    case 10 with w show ?thesis by (rule step_branch)
  qed
qed


lemma app_dispatch_ok:
  assumes "inv st" "app_driver st" "accepts ip"
  shows "hook_change st (app_dispatch hk f ip st) \<and> inv (app_dispatch hk f ip st)"
proof -
  have "hook_change st st' \<and> inv st'" if "own_change st st'" for st'
    using that own_keeps(1) [OF that] assms(1) by (simp add: hook_change_def own_change_def)
  then show ?thesis
    using own_powerChannel [of st ip] own_clearFSMAlert [of st ip] dispatch [OF assms(1,3)]
    by (simp add: app_dispatch_def)
qed

lemma own_hook: "own_change st st' \<Longrightarrow> inv st \<Longrightarrow> hook_change st st' \<and> inv st'"
  using own_keeps(1) by (simp add: hook_change_def own_change_def)

lemma other_step:
  assumes "inv st" "received accepts s" "\<not> is_main s"
  shows "\<exists>st'. sched_step hk s (pc, st) = Some (pc, st') \<and> hook_change st st' \<and> inv st'"
proof -
  have step: "hook_change st (app_dispatch hk f ip st1) \<and> inv (app_dispatch hk f ip st1)"
    if a: "own_change st st1" "app_driver st" "accepts ip" for st1 f ip
    using app_dispatch_ok [of st1 ip f] own_hook [OF a(1) assms(1)] a by (auto simp: own_change_def hook_change_def)
  have own: "own_change st (st\<lparr>app_setCallBacks := m\<rparr>)" "own_change st (app_emit evs st)" "own_change st (logMessage l lvl st)" "own_change st st" for m evs l lvl
    by (simp add: own_change_def, rule own_app_emit, rule own_logMessage, rule own_change_refl)
  have "magAOXApp.more (handlerSigTerm nm st) = magAOXApp.more st" "hook_change st (handlerSigTerm nm st)"
    "app_useINDI (handlerSigTerm nm st) = app_useINDI st" "app_configName (handlerSigTerm nm st) = app_configName st" for nm
    by (simp_all add: handlerSigTerm_def app_emit_def hook_change_def)
  then have sig: "hook_change st (handlerSigTerm nm st) \<and> inv (handlerSigTerm nm st)" for nm
    using members assms(1) by blast
  show ?thesis
  proof (cases s)
    case (MsgGet ip now ok)
    then show ?thesis using handleGet_own [of "hk_heap hk st" ok now ip st] own_hook [OF _ assms(1)] by fastforce
  next
    case (MsgNew ip)
    then show ?thesis
      using assms(2) step [OF own(4)] own_hook [OF own(2) assms(1)] own_hook [OF own(4) assms(1)]
      by (auto simp: handleNewProperty_def split: option.split)
  next
    case (MsgSet ip)
    then show ?thesis
      using assms(2) step [OF own(1)] own_hook [OF own(1) assms(1)] own_hook [OF own(4) assms(1)]
      by (auto simp: handleSetProperty_def Let_def split: option.split)
  qed (use assms(3) own_hook [OF own(3) assms(1)] sig in \<open>auto simp: is_main_def\<close>)
qed

lemma other_steps:
  assumes "inv st" "list_all (received accepts) ss" "list_all (\<lambda>s. \<not> is_main s) ss"
  shows "\<exists>st'. sched_run hk ss (pc, st) = Some (pc, st') \<and> hook_change st st' \<and> inv st'"
  using assms
proof (induction ss arbitrary: st)
  case (Cons s ss)
  obtain st1 where 1: "sched_step hk s (pc, st) = Some (pc, st1)" "hook_change st st1" "inv st1"
    using other_step [OF Cons.prems(1)] Cons.prems(2,3) by fastforce
  with Cons.IH [OF 1(3)] Cons.prems(2,3) show ?case by (fastforce simp: hook_change_def)
qed (simp add: hook_change_def)

text \<open>Whatever the other threads do inside a virtual function, they return and keep the invariant.\<close>

lemma other_threads_keep:
  assumes "inv st" "list_all (received accepts) ss"
  shows "\<exists>st'. other_threads hk ss st = Some st' \<and> hook_change st st' \<and> inv st'"
  using other_steps [OF assms(1), of "filter (\<lambda>s. \<not> is_main s) ss" PcLogic] assms(2) by (auto simp: other_threads_def list_all_iff)

lemma hook_well:
  assumes "well pc st" "hook_change st st'" "inv st'" "app_driver st"
  shows "well pc st'"
proof -
  note k = hook_keeps [OF assms(2)]
  have r: "running st \<Longrightarrow> running st'" using k(1-3) by (simp add: running_def)
  have a: "\<not> aborted st" using assms(4) by (simp add: aborted_def)
  have "pc_phase pc st" using assms(1) by (simp add: well_def)
  then have "pc_phase pc st'" using r a k(1) assms(4) by (cases pc) auto
  then show ?thesis
    using assms k by (auto simp: well_def split: option.splits life.splits)
qed


lemma handler_well:
  assumes "well pc st" "own_change st st1" "app_driver st" "accepts ip"
  shows "well pc (app_dispatch hk f ip st1) \<and> app_useINDI (app_dispatch hk f ip st1) = app_useINDI st \<and>
     (ma_shutdown st \<noteq> 0 \<longrightarrow> ma_shutdown (app_dispatch hk f ip st1) \<noteq> 0)"
proof -
  have w: "well pc st1" "app_driver st1" using own_well [OF assms(2,1)] own_keeps(7) [OF assms(2)] assms(3) by simp_all
  then have "inv st1" by (simp add: well_def)
  from app_dispatch_ok [OF this w(2) assms(4)] have d: "hook_change st1 (app_dispatch hk f ip st1)" "inv (app_dispatch hk f ip st1)" by blast+
  show ?thesis using hook_well [OF w(1) d w(2)] hook_keeps [OF d(1)] own_keeps [OF assms(2)] by simp
qed

lemma sched_step_ok:
  assumes "well pc st" "received accepts s"
  shows "\<exists>pc' st'. sched_step hk s (pc, st) = Some (pc', st') \<and> well pc' st' \<and> app_useINDI st' = app_useINDI st \<and>
    (\<not> (\<exists>env. s = Main env) \<longrightarrow> pc' = pc) \<and>
    (ma_shutdown st \<noteq> 0 \<longrightarrow> ma_shutdown st' \<noteq> 0 \<and>
       (\<forall>env. s = Main env \<longrightarrow> pc_rank pc' < pc_rank pc \<or> pc_rank pc = 0 \<and> pc' = pc))"
proof (cases s)
  case (Main env)
  then show ?thesis using exec_next_ok [OF assms(1), of env] by (auto simp: step_ok_def)
next
  case (MsgGet ip now ok)
  obtain st' where "handleGetProperties (hk_heap hk st) ok now ip st = Some st'" "own_change st st'"
    using handleGet_own by blast
  then show ?thesis using MsgGet own_well [OF _ assms(1)] own_keeps by auto
next
  case (MsgNew ip)
  have "own_change st st" by (rule own_change_refl)
  then show ?thesis
    using MsgNew handler_well [OF assms(1) _] assms own_well [OF own_app_emit assms(1)]
    by (auto simp: handleNewProperty_def split: option.split)
next
  case (MsgSet ip)
  have "own_change st (st\<lparr>app_setCallBacks := m\<rparr>)" for m by (simp add: own_change_def)
  note h = handler_well [OF assms(1) this] own_well [OF this assms(1)]
  show ?thesis
    using MsgSet h assms by (auto simp: handleSetProperty_def Let_def split: option.split)
next
  case (Logged l lvl)
  then show ?thesis using own_well [OF own_logMessage assms(1)] own_keeps [OF own_logMessage] by simp
next
  case (Signal nm)
  have "running (st\<lparr>ma_shutdown := 1\<rparr>) = running st" "aborted st \<Longrightarrow> aborted (st\<lparr>ma_shutdown := 1\<rparr>)"
    by (simp_all add: running_def aborted_def)
  then have "pc_phase pc st \<Longrightarrow> pc_phase pc (st\<lparr>ma_shutdown := 1\<rparr>)" by (cases pc) auto
  then have "well pc (st\<lparr>ma_shutdown := 1\<rparr>)"
    using assms by (simp add: well_def cong: option.case_cong life.case_cong)
  then show ?thesis using Signal own_well [OF own_app_emit] by (simp add: handlerSigTerm_def)
qed

lemma sched_run_ok:
  "well pc st \<Longrightarrow> list_all (received accepts) ss \<Longrightarrow>
     \<exists>pc' st'. sched_run hk ss (pc, st) = Some (pc', st') \<and> well pc' st' \<and> app_useINDI st' = app_useINDI st"
proof (induction ss arbitrary: pc st)
  case (Cons s ss)
  obtain pc1 st1 where 1: "sched_step hk s (pc, st) = Some (pc1, st1)" "well pc1 st1" "app_useINDI st1 = app_useINDI st"
    using sched_step_ok [OF Cons.prems(1), of s] Cons.prems(2) by auto
  from Cons.IH [OF 1(2)] 1 Cons.prems(2) show ?case by auto
qed simp

lemma sched_run_rank:
  "well pc st \<Longrightarrow> list_all (received accepts) ss \<Longrightarrow> ma_shutdown st \<noteq> 0 \<Longrightarrow>
     \<exists>pc' st'. sched_run hk ss (pc, st) = Some (pc', st') \<and> pc_rank pc' \<le> pc_rank pc - main_steps ss"
proof (induction ss arbitrary: pc st)
  case (Cons s ss)
  obtain pc1 st1 where 1: "sched_step hk s (pc, st) = Some (pc1, st1)" "well pc1 st1" "ma_shutdown st1 \<noteq> 0"
    "\<not> (\<exists>env. s = Main env) \<longrightarrow> pc1 = pc" "\<forall>env. s = Main env \<longrightarrow> pc_rank pc1 < pc_rank pc \<or> pc_rank pc = 0 \<and> pc1 = pc"
    using sched_step_ok [OF Cons.prems(1), of s] Cons.prems(2,3) by (metis list.pred_inject(2))
  obtain pc2 st2 where 2: "sched_run hk ss (pc1, st1) = Some (pc2, st2)" "pc_rank pc2 \<le> pc_rank pc1 - main_steps ss"
    using Cons.IH [OF 1(2) _ 1(3)] Cons.prems(2) by auto
  have "pc_rank pc1 - main_steps ss \<le> pc_rank pc - main_steps (s # ss)"
    using 1(4,5) by (cases s) (auto simp: main_steps_def is_main_def)
  then show ?case using 1(1) 2 by (auto intro: le_trans)
qed (simp add: main_steps_def)


lemma pc_rank_le: "pc_rank pc \<le> 40"
  by (cases pc) auto

lemma life_fresh: "life_run u as = Some LFresh \<longleftrightarrow> as = []"
proof (induction as rule: rev_induct)
  case (snoc a as)
  have "life_next u l a \<noteq> Some LFresh" for l by (cases l) auto
  then show ?case by (cases "life_run u as") auto
qed simp

text \<open>The results for a hosted application.\<close>

definition starts :: "'a magAOXApp_scheme \<Rightarrow> bool" where
  "starts st \<longleftrightarrow> ready st \<and> ma_actions st = [] \<and> \<not> app_driver st"

lemma starts_well: "starts st \<Longrightarrow> well PcCheckUser st"
  by (simp add: starts_def well_def phase_def)

lemma hosted_lifecycle:
  assumes "starts st" "list_all (received accepts) ss"
  shows "\<exists>pc st' l. sched_run hk ss (PcCheckUser, st) = Some (pc, st') \<and> life_run (app_useINDI st) (ma_actions st') = Some l \<and>
    (\<forall>rv. pc = PcDone rv \<longrightarrow> l = LReleased \<or> rv = - 1 \<and> ma_actions st' = []) \<and>
    (l = LStarted \<or> l = LTalking \<longrightarrow> inv st')"
proof -
  obtain pc st' where 1: "sched_run hk ss (PcCheckUser, st) = Some (pc, st')" "well pc st'" "app_useINDI st' = app_useINDI st"
    using sched_run_ok [OF starts_well [OF assms(1)] assms(2)] by blast
  have p: "pc_phase pc st'" using 1(2) by (simp add: well_def)
  then have "phase st' \<noteq> None" by (cases pc) (auto simp: running_def aborted_def split: if_splits)
  moreover have "phase st' = Some LReleased \<or> rv = - 1 \<and> ma_actions st' = []" if "pc = PcDone rv" for rv
    using p that 1(3) life_fresh by (auto simp: phase_def)
  moreover have "inv st'" if "phase st' = Some LStarted \<or> phase st' = Some LTalking" using 1(2) that by (auto simp: well_def)
  ultimately show ?thesis using 1 by (auto simp: phase_def)
qed

lemma hosted_shutdown:
  assumes "starts st" "list_all (received accepts) (ss @ ss')"
    and "sched_run hk ss (PcCheckUser, st) = Some (pc, st1)" "ma_shutdown st1 \<noteq> 0" "main_steps ss' \<ge> 40"
  shows "\<exists>rv st2. sched_run hk ss' (pc, st1) = Some (PcDone rv, st2)"
proof -
  have "well pc st1" using sched_run_ok [OF starts_well [OF assms(1)], of ss] assms(2,3) by auto
  then obtain pc2 st2 where 2: "sched_run hk ss' (pc, st1) = Some (pc2, st2)" "pc_rank pc2 \<le> pc_rank pc - main_steps ss'"
    using sched_run_rank [of pc st1 ss'] assms(2,4) by auto
  then have "pc_rank pc2 = 0" using pc_rank_le [of pc] assms(5) by linarith
  then obtain rv where "pc2 = PcDone rv" by (cases pc2) auto
  with 2 show ?thesis by blast
qed

end


section \<open>Results\<close>

definition stateCodes :: "stateCodeT list" where
  "stateCodes =
     [FAILURE, ERROR, UNINITIALIZED, INITIALIZED, NODEVICE, POWEROFF, POWERON, NOTCONNECTED, CONNECTED, LOGGEDIN, CONFIGURING,
      NOTHOMED, HOMING, OPERATING, READY, SHUTDOWN]"

lemma stateCodes_decoded: "list_all (\<lambda>s. str2Code (codeText s) = s \<and> str2CodeFast (codeText s) = s) stateCodes"
  by code_simp

text \<open>What the published property shows: the name of the state and the INDI state.\<close>

definition shown_state :: "'a magAOXApp_scheme \<Rightarrow> (string \<times> PropertyStateType) option" where
  "shown_state st = map_option (\<lambda>e. (ie_value e, ip_state (ma_indiP_state st))) (map_find ''state'' (ip_elements (ma_indiP_state st)))"

lemma publish_state_shows:
  assumes "map_find ''state'' (ip_elements (ma_indiP_state st)) \<noteq> None" "app_useINDI st" "app_driver st"
  shows "map_option ie_value (map_find ''state'' (ip_elements (ma_indiP_state (publish_state stst st)))) = Some (codeText (ma_state st))"
    and "ip_state (ma_indiP_state (publish_state stst st)) = stst"
    and "publish_state stst (publish_state stst st) = publish_state stst st"
    and "app_events (publish_state stst st) = app_events st @
      (if shown_state st = Some (codeText (ma_state st), stst) then [] else [AppSendSet (ma_indiP_state (publish_state stst st))])"
  using assms
  by (auto simp: publish_state_def updateIfChanged_def property_at_def set_value_def map_find_def map_of_map_key app_emit_def
      shown_state_def Let_def split: option.splits)

text \<open>C39: Setting the state publishes it. When the lock of the INDI communication is free, \<open>state()\<close> leaves the
  application in the given state, with the alert raised if it was raised before or is asked for
  (it never clears an alert), and the published property shows the name of the state, from
  which both decoders read back its code, with the INDI state Alert when the alert is raised
  and the one of the state code otherwise. It logs a change of the state and a new alert, and
  sends the property once, exactly when it did not show this already. Repeating the call, as the
  main loop does, neither logs nor sends anything.
\<close>

theorem fsm_published:
  assumes "map_find ''state'' (ip_elements (ma_indiP_state st)) \<noteq> None" "app_useINDI st" "app_driver st"
    and "st' = set_state True s alert st"
    and "shown = (codeText s, if ma_stateAlert st \<or> alert then Alert else state_indi s)"
  shows "ma_state st' = s \<and> ma_stateAlert st' = (ma_stateAlert st \<or> alert) \<and> shown_state st' = Some shown \<and>
    app_events st' = app_events st @
      (if ma_state st = s then [] else [AppLogState (ma_state st) s]) @
      (if alert \<and> \<not> ma_stateAlert st then [AppLogText ''FSM alert set''] else []) @
      (if shown_state st = Some shown then [] else [AppSendSet (ma_indiP_state st')]) \<and>
    set_state True s False st' = st' \<and>
    (s \<in> set stateCodes \<longrightarrow> str2Code (codeText s) = s \<and> str2CodeFast (codeText s) = s)"
proof -
  let ?stst = "if ma_stateAlert st \<or> alert then Alert else state_indi s"
  define st0 where "st0 = (if ma_state st \<noteq> s
      then app_emit [AppLogState (ma_state st) s] (st\<lparr>ma_state := s, ma_stateLogged := 0\<rparr>) else st)"
  define st1 where "st1 = (if ma_stateAlert st0 \<noteq> alert \<and> alert
      then app_emit [AppLogText ''FSM alert set''] (st0\<lparr>ma_stateAlert := alert\<rparr>) else st0)"
  have 0: "ma_state st0 = s" "ma_stateAlert st0 = ma_stateAlert st" "ma_indiP_state st0 = ma_indiP_state st"
    "app_useINDI st0" "app_driver st0" "app_events st0 = app_events st @ (if ma_state st = s then [] else [AppLogState (ma_state st) s])"
    using assms(2,3) by (auto simp: st0_def app_emit_def)
  then have 1: "ma_state st1 = s" "ma_stateAlert st1 = (ma_stateAlert st \<or> alert)" "ma_indiP_state st1 = ma_indiP_state st"
    "app_useINDI st1" "app_driver st1"
    "app_events st1 = app_events st0 @ (if alert \<and> \<not> ma_stateAlert st then [AppLogText ''FSM alert set''] else [])"
    by (auto simp: st1_def app_emit_def)
  have st'1: "st' = publish_state ?stst st1"
    unfolding assms(4) set_state_def Let_def st0_def [symmetric] st1_def [symmetric] using 1(1,2) by simp
  have p: "map_find ''state'' (ip_elements (ma_indiP_state st1)) \<noteq> None" using assms(1) 1(3) by simp
  note s = publish_state_shows [OF p 1(4,5), of ?stst]
  have st': "ma_state st' = s" "ma_stateAlert st' = (ma_stateAlert st \<or> alert)"
    using 1(1,2) by (simp_all add: st'1 publish_state_def case_prod_unfold Let_def app_emit_def)
  then have "set_state True s False st' = publish_state ?stst st'" by (simp add: set_state_def)
  then have again: "set_state True s False st' = st'" using s(3) st'1 by simp
  have "shown_state st' = Some shown" using s(1,2) st'1 1(1) assms(5) by (auto simp: shown_state_def)
  moreover have "shown_state st1 = shown_state st" using 1(3) by (simp add: shown_state_def)
  then have "app_events st' = app_events st1 @ (if shown_state st = Some shown then [] else [AppSendSet (ma_indiP_state st')])"
    using s(4) 1(1) assms(5) unfolding st'1 by simp
  ultimately show ?thesis using st' again 0(6) 1(6) stateCodes_decoded by (simp add: list_all_iff)
qed

theorem fsm_published_witness:
  "\<exists>st st' :: magAOXApp. st' = set_state True READY False st \<and> ma_state st' = READY \<and> shown_state st' = Some (codeText READY, Ok) \<and>
     app_events st' = [AppLogState UNINITIALIZED READY, AppSendSet (ma_indiP_state st')]"
proof -
  define st :: magAOXApp where "st =
     \<lparr>app_configName = ''cam'', app_useINDI = True, app_driver = True, app_outGoing = False, app_newCallBacks = [],
      app_setCallBacks = [], app_allDefsReceived = False, app_events = [],
      ma_state = UNINITIALIZED, ma_stateAlert = False, ma_stateLogged = 0,
      ma_indiP_state = (IndiProperty_new Text ''cam'' ''fsm'')\<lparr>ip_elements := [(''state'', IndiElement_new ''state'' [])]\<rparr>,
      ma_indiP_clearFSMAlert = IndiProperty_new Switch ''cam'' ''fsm_clear_alert'', ma_powerMgtEnabled = False,
      ma_powerElement = ''state'', ma_powerTargetElement = ''target'', ma_powerOnWait = 55, ma_powerOnCounter = - 1,
      ma_powerState = - 1, ma_powerTargetState = - 1, ma_loopPause = 1000000000, ma_shutdown = 0, ma_actions = []\<rparr>"
  have "map_find ''state'' (ip_elements (ma_indiP_state st)) \<noteq> None" "app_useINDI st" "app_driver st" "\<not> ma_stateAlert st"
    "app_events st = []" "ma_state st = UNINITIALIZED"
    by (simp_all add: st_def map_find_def)
  moreover have "shown_state st \<noteq> Some (codeText READY, Ok)"
    by (simp add: st_def shown_state_def map_find_def IndiProperty_new_def)
  moreover have "UNINITIALIZED \<noteq> READY" by code_simp
  ultimately show ?thesis using fsm_published [of st "set_state True READY False st" READY False "(codeText READY, Ok)"]
    by (intro exI [of _ st] exI [of _ "set_state True READY False st"]) (simp add: state_indi_def)
qed

text \<open>The wait after power on lasts at least as long as configured, counted in loop pauses.\<close>

lemma powerOnWait_lasts:
  assumes "ma_powerMgtEnabled st" "ma_powerOnWait st \<noteq> 0" "0 \<le> ma_powerOnCounter st" "fst (powerOnWaitElapsed st)"
  shows "ma_powerOnCounter st * uint (ma_loopPause st) > uint (ma_powerOnWait st) * 1000000000"
proof -
  have "uint (word_of_int (ma_powerOnCounter st) * ma_loopPause st) \<le> ma_powerOnCounter st * uint (ma_loopPause st)"
  proof -
    have "uint (word_of_int (ma_powerOnCounter st) * ma_loopPause st) \<le> uint (word_of_int (ma_powerOnCounter st) :: u64) * uint (ma_loopPause st)"
      by (simp add: uint_word_arith_bintrs(3) take_bit_int_less_eq_self_iff)
    also have "\<dots> \<le> ma_powerOnCounter st * uint (ma_loopPause st)"
      using assms(3) by (intro mult_right_mono) (simp_all add: uint_word_of_int_eq take_bit_int_less_eq_self_iff)
    finally show ?thesis .
  qed
  then show ?thesis using assms by (auto simp: powerOnWaitElapsed_def split: if_splits)
qed

text \<open>
  A race of the main loop: power is seen off, the state becomes \<open>POWEROFF\<close>, and when the power is
  reported on before the next check, \<open>appLogic\<close> runs in that state.
\<close>

lemma power_race:
  fixes st :: "'a magAOXApp_scheme"
  assumes "ma_powerMgtEnabled st" "ma_state st \<noteq> POWEROFF" "ma_powerState st = 0"
    and "app_useINDI st" "app_driver st" "map_of (app_setCallBacks st) (createUniqueKey ip) = Some cb"
    and "cb_callBack cb = Some ''st_setCallBack_m_indiP_powerChannel''"
    and "map_find (ma_powerElement st) (ip_elements ip) = Some e" "get_word e = ''On''"
    and "\<And>st. hk_onPowerOff hk st = Some (0, st)" "\<And>st. hk_appLogic hk st = Some (0, st)"
  shows "\<exists>st'. sched_run hk [Main env, MsgSet ip, Main env] (PcPowerCheck, st) = Some (PcGetList, st') \<and>
    ma_state st' = POWEROFF \<and> ma_actions st' = ma_actions st @ [ActOnPowerOff, ActAppLogic]"
  using assms
  by (auto simp: exec_next_def loop_call_def handleSetProperty_def app_dispatch_def setCallBack_powerChannel_def power_of_def
      set_state_def publish_state_def app_emit_def act_def case_prod_unfold Let_def split: option.split)

end
