(* ===== verification/RuleEngine.thy ===== *)
theory RuleEngine
  imports RuleConfig App
begin

text \<open>
  The state rule engine (\<open>apps/stateRuleEngine/stateRuleEngine.hpp\<close>).

  The engine evaluates its rules in the order of their names, publishes the value of each in
  the property of its priority, and sends notifications. Clock readings and the outcome of
  sending are an environment with an entry for each rule. The state is a record that extends
  the INDI part of the application; the log entries and the INDI traffic of the engine itself
  are events in order.
\<close>

section \<open>State\<close>

datatype sre_event =
    SreLogError string \<comment> \<open>\<open>software_error\<close>\<close>
  | SreLogCritical
  | SendRuleProperty IndiProperty
  | SendMessage string

record stateRuleEngine = magAOXApp +
  sre_ruleDir :: string
  sre_ruleMaps :: indiRuleMaps
  sre_info :: IndiProperty
  sre_caution :: IndiProperty
  sre_warning :: IndiProperty
  sre_alert :: IndiProperty
  sre_events :: "sre_event list"

definition sre_emit :: "sre_event list \<Rightarrow> stateRuleEngine \<Rightarrow> stateRuleEngine" where
  "sre_emit evs st = st\<lparr>sre_events := sre_events st @ evs\<rparr>"

fun ruleStateProperty :: "rulePriority \<Rightarrow> stateRuleEngine \<Rightarrow> IndiProperty option" where
  "ruleStateProperty prio_info st = Some (sre_info st)"
| "ruleStateProperty prio_caution st = Some (sre_caution st)"
| "ruleStateProperty prio_warning st = Some (sre_warning st)"
| "ruleStateProperty prio_alert st = Some (sre_alert st)"
| "ruleStateProperty prio_none st = None"

text \<open>Assignment through the pointer that \<open>ruleStateProperty\<close> returns.\<close>

fun set_ruleStateProperty :: "rulePriority \<Rightarrow> IndiProperty \<Rightarrow> stateRuleEngine \<Rightarrow> stateRuleEngine" where
  "set_ruleStateProperty prio_info p st = st\<lparr>sre_info := p\<rparr>"
| "set_ruleStateProperty prio_caution p st = st\<lparr>sre_caution := p\<rparr>"
| "set_ruleStateProperty prio_warning p st = st\<lparr>sre_warning := p\<rparr>"
| "set_ruleStateProperty prio_alert p st = st\<lparr>sre_alert := p\<rparr>"
| "set_ruleStateProperty prio_none p st = st"

fun notificationLabel :: "rulePriority \<Rightarrow> string" where
  "notificationLabel prio_info = ''INFO''"
| "notificationLabel prio_caution = ''CAUTION''"
| "notificationLabel prio_warning = ''WARNING''"
| "notificationLabel prio_alert = ''ALERT''"
| "notificationLabel prio_none = ''INFO''"

definition ruleIsOn :: "IndiProperty \<Rightarrow> string \<Rightarrow> bool" where
  "ruleIsOn p ruleName \<longleftrightarrow> (case map_find ruleName (ip_elements p) of None \<Rightarrow> False | Some e \<Rightarrow> ie_switch e = On)"

definition notificationMessage ::
  "string \<Rightarrow> string \<Rightarrow> bool \<Rightarrow> bool \<Rightarrow> timespec option \<Rightarrow> indiCompRule \<Rightarrow> (mx_exception + string) \<times> indiCompRule" where
  "notificationMessage ruleName label cleared settime now r =
     (case rule_message settime now r of
        (Inl x, r) \<Rightarrow> (Inl x, r)
      | (Inr detail, r) \<Rightarrow>
          let detail = (if detail = [] then ruleName else detail);
              detail = (if cleared then ''Cleared: '' @ detail else detail)
          in (Inr (label @ '': '' @ detail), r))"

text \<open>\<open>ok\<close> tells whether \<open>sendMessage\<close> of the driver returns without an exception.\<close>

definition sendNotification :: "bool \<Rightarrow> string \<Rightarrow> stateRuleEngine \<Rightarrow> int \<times> stateRuleEngine" where
  "sendNotification ok message st =
     (if \<not> app_driver st then (0, st)
      else if ok then (0, sre_emit [SendMessage message] st)
      else (- 1, sre_emit [SreLogError ''exception caught from sendMessage''] st))"

section \<open>Configuration\<close>

text \<open>
  The files of the rule directory in order, \<^const>\<open>None\<close> when the directory cannot be read; a file
  is \<^const>\<open>None\<close> when it cannot be read.
\<close>

fun load_rule_files ::
  "rule_configurator option list \<Rightarrow> indiRuleMaps \<Rightarrow> rrk_map \<Rightarrow> (bool \<times> indiRuleMaps \<times> rrk_map) option" where
  "load_rule_files [] maps rrk = Some (True, maps, rrk)"
| "load_rule_files (cnf # cnfs) maps rrk =
     (case cnf of
        None \<Rightarrow> Some (False, maps, rrk)
      | Some fcfg \<Rightarrow>
          do { (x, maps, rrk) \<leftarrow> loadRuleConfig fcfg maps rrk;
               if x \<noteq> None then Some (False, maps, rrk) else load_rule_files cnfs maps rrk })"

definition sre_loadConfigImpl ::
  "rule_configurator \<Rightarrow> string option \<Rightarrow> rule_configurator option list option \<Rightarrow> stateRuleEngine \<Rightarrow>
   (int \<times> stateRuleEngine) option" where
  "sre_loadConfigImpl cfg dir files st =
     (let st = st\<lparr>sre_ruleDir := (case dir of None \<Rightarrow> sre_ruleDir st | Some d \<Rightarrow> d)\<rparr>;
          fail = (\<lambda>maps. (- 1, sre_emit [SreLogCritical] (st\<lparr>sre_ruleMaps := maps\<rparr>)))
      in if sre_ruleDir st = []
         then do { (x, maps, rrk) \<leftarrow> loadRuleConfig cfg (sre_ruleMaps st) [];
                   if x \<noteq> None then Some (fail maps)
                   else let (x, maps) = finalizeRuleValRules maps rrk
                        in Some (if x \<noteq> None then fail maps else (0, st\<lparr>sre_ruleMaps := maps\<rparr>)) }
         else case files of
           None \<Rightarrow> Some (fail (sre_ruleMaps st))
         | Some cnfs \<Rightarrow>
             do { (ok, maps, rrk) \<leftarrow> load_rule_files cnfs (sre_ruleMaps st) [];
                  if \<not> ok then Some (fail maps)
                  else let (x, maps) = finalizeRuleValRules maps rrk
                       in Some (if x \<noteq> None then fail maps else (0, st\<lparr>sre_ruleMaps := maps\<rparr>)) })"

definition sre_loadConfig ::
  "rule_configurator \<Rightarrow> string option \<Rightarrow> rule_configurator option list option \<Rightarrow> stateRuleEngine \<Rightarrow>
   stateRuleEngine option" where
  "sre_loadConfig cfg dir files st =
     do { (rv, st) \<leftarrow> sre_loadConfigImpl cfg dir files st;
          Some (if rv < 0 then (sre_emit [SreLogCritical] st)\<lparr>ma_shutdown := 1\<rparr> else st) }"

section \<open>Startup\<close>

fun priority_name :: "rulePriority \<Rightarrow> string" where
  "priority_name prio_info = ''info''"
| "priority_name prio_caution = ''caution''"
| "priority_name prio_warning = ''warning''"
| "priority_name prio_alert = ''alert''"
| "priority_name prio_none = ''none''"

text \<open>
  The block of one priority for one rule. \<^const>\<open>None\<close> as the code is the exception of \<open>add\<close> for an
  element that exists; the code does not catch it.
\<close>

definition startup_rule :: "string \<Rightarrow> indiCompRule \<Rightarrow> stateRuleEngine \<Rightarrow> int option \<times> stateRuleEngine" where
  "startup_rule name r st =
     (let prio = r_priority r
      in case ruleStateProperty prio st of
        None \<Rightarrow> (Some 0, st)
      | Some p \<Rightarrow>
          let (rv, p, st) =
            (if ip_device p \<noteq> app_configName st
             then registerIndiPropertyNew (''m_indiP_'' @ priority_name prio) None (priority_name prio) Switch ReadOnly Idle AnyOfMany p st
             else (0, p, st))
          in if rv < 0 then (Some (- 1), sre_emit [SreLogCritical] (set_ruleStateProperty prio p st))
          else case property_add (IndiElement_switch name Off) p of
            Inl x \<Rightarrow> (None, set_ruleStateProperty prio p st)
          | Inr p \<Rightarrow>
              let p = p\<lparr>ip_elements := map (\<lambda>(k, e). (k, if k = name then e\<lparr>ie_label := r_message r\<rparr> else e)) (ip_elements p)\<rparr>
              in (Some 0, set_ruleStateProperty prio p st))"

fun startup_rules :: "(string \<times> indiCompRule) list \<Rightarrow> stateRuleEngine \<Rightarrow> int option \<times> stateRuleEngine" where
  "startup_rules [] st = (Some 0, st)"
| "startup_rules ((name, r) # rs) st =
     (let (rv, st) = startup_rule name r st in if rv \<noteq> Some 0 then (rv, st) else startup_rules rs st)"

fun startup_props :: "string list \<Rightarrow> stateRuleEngine \<Rightarrow> int \<times> stateRuleEngine" where
  "startup_props [] st = (0, st)"
| "startup_props (key # keys) st =
     (let (rv, devName, propName) = parseIndiKey key ([], [])
      in if rv \<noteq> 0 then (- 1, sre_emit [SreLogError (''error parsing INDI key: '' @ key)] st)
      else case map_find key (rm_props (sre_ruleMaps st)) of
        None \<Rightarrow> startup_props keys st
      | Some prop \<Rightarrow>
          let (_, prop, st) = registerIndiPropertySet key (Some ''st_newCallBack_ruleProp'') devName propName prop st;
              maps = sre_ruleMaps st
          in startup_props keys (st\<lparr>sre_ruleMaps := maps\<lparr>rm_props := map_assign key prop (rm_props maps)\<rparr>\<rparr>))"

definition sre_appStartup :: "bool \<Rightarrow> stateRuleEngine \<Rightarrow> int option \<times> stateRuleEngine" where
  "sre_appStartup owns_lock st =
     (let (rv, st) = startup_rules (rm_rules (sre_ruleMaps st)) st
      in if rv \<noteq> Some 0 then (rv, st)
      else
        let (rv, st) = startup_props (map fst (rm_props (sre_ruleMaps st))) st
        in if rv < 0 then (Some rv, st) else (Some 0, set_state owns_lock READY False st))"

section \<open>The periodic evaluation\<close>

record sre_env =
  en_clk :: "string \<Rightarrow> bool list \<Rightarrow> timespec" \<comment> \<open>readings of \<open>timeDiff\<close> rules\<close>
  en_since :: "string \<Rightarrow> timespec option" \<comment> \<open>reading of \<open>sinceLastMsg\<close>\<close>
  en_now :: "string \<Rightarrow> timespec option" \<comment> \<open>reading of \<open>message(true)\<close>\<close>
  en_send :: "string \<Rightarrow> bool" \<comment> \<open>\<open>sendMessage\<close> does not throw\<close>

definition set_rule :: "string \<Rightarrow> indiCompRule \<Rightarrow> stateRuleEngine \<Rightarrow> stateRuleEngine" where
  "set_rule name r st =
     (let maps = sre_ruleMaps st in st\<lparr>sre_ruleMaps := maps\<lparr>rm_rules := map_assign name r (rm_rules maps)\<rparr>\<rparr>)"

text \<open>\<open>while( popRuntimeDiagnostic( diagnostic ) ) log<software_error>( diagnostic );\<close>\<close>

definition log_diagnostics :: "nat \<Rightarrow> string \<Rightarrow> stateRuleEngine \<Rightarrow> stateRuleEngine option" where
  "log_diagnostics d name st =
     do { (ds, m) \<leftarrow> drain_diagnostics (Suc (pending_count (sre_ruleMaps st))) d name (sre_ruleMaps st);
          Some (sre_emit (map SreLogError ds) (st\<lparr>sre_ruleMaps := m\<rparr>)) }"

text \<open>
  What follows the evaluation: publish, and notify. The first result is \<open>Some rv\<close> when the
  function returns \<open>rv\<close>, \<^const>\<open>None\<close> when the loop goes on; the flag tells that an exception was
  caught.
\<close>

definition notify_rule ::
  "sre_env \<Rightarrow> string \<Rightarrow> bool \<Rightarrow> bool \<Rightarrow> indiCompRule \<Rightarrow> stateRuleEngine \<Rightarrow> int option \<times> bool \<times> stateRuleEngine" where
  "notify_rule env name val wasOn r st =
     (if val
      then case timeToSend (en_since env name) r of
             Inl x \<Rightarrow> (None, True, st)
           | Inr False \<Rightarrow> (None, False, st)
           | Inr True \<Rightarrow>
               (case notificationMessage name (notificationLabel (r_priority r)) False True (en_now env name) r of
                  (Inl x, r) \<Rightarrow> (None, True, set_rule name r st)
                | (Inr msg, r) \<Rightarrow>
                    let st = set_rule name (snd (incMessageCount r)) st;
                        (rv, st) = sendNotification (en_send env name) msg st
                    in if rv < 0 then (Some (- 1), False, st) else (None, False, st))
      else
        let (rv, st) =
          (if wasOn
           then case notificationMessage name (notificationLabel prio_info) True False None r of
                  (Inl x, r) \<Rightarrow> (0, st)
                | (Inr msg, r) \<Rightarrow> sendNotification (en_send env name) msg st
           else (0, st))
        in if rv < 0 then (Some (- 1), False, st) else (None, False, set_rule name (messageCount 0 r) st))"

definition publish_rule ::
  "sre_env \<Rightarrow> string \<Rightarrow> bool \<Rightarrow> indiCompRule \<Rightarrow> stateRuleEngine \<Rightarrow> int option \<times> bool \<times> stateRuleEngine" where
  "publish_rule env name val r st =
     (case ruleStateProperty (r_priority r) st of
        None \<Rightarrow> (None, False, st)
      | Some ruleState \<Rightarrow>
          let wasOn = ruleIsOn ruleState name;
              onoff = (if val then On else Off);
              (ruleState, sent) = updateSwitchIfChanged (app_driver st) name onoff Ok ruleState;
              st = sre_emit (map SendRuleProperty sent) (set_ruleStateProperty (r_priority r) ruleState st)
          in notify_rule env name val wasOn r st)"

definition logic_rule ::
  "nat \<Rightarrow> bool \<Rightarrow> sre_env \<Rightarrow> string \<Rightarrow> stateRuleEngine \<Rightarrow> (int option \<times> stateRuleEngine) option" where
  "logic_rule d ltr env name st =
     do { r \<leftarrow> map_find name (rm_rules (sre_ruleMaps st));
          if r_priority r = prio_none then Some (None, st)
          else
            do { (v, m) \<leftarrow> rule_value d ltr (en_clk env name) name (sre_ruleMaps st);
                 st \<leftarrow> log_diagnostics d name (st\<lparr>sre_ruleMaps := m\<rparr>);
                 case v of
                   Inl x \<Rightarrow> Some (None, st)
                 | Inr val \<Rightarrow>
                     do { r \<leftarrow> map_find name (rm_rules (sre_ruleMaps st));
                          let (rv, caught, st) = publish_rule env name val r st;
                          st \<leftarrow> (if caught then log_diagnostics d name st else Some st);
                          Some (rv, st) } } }"

fun logic_rules ::
  "nat \<Rightarrow> bool \<Rightarrow> sre_env \<Rightarrow> string list \<Rightarrow> stateRuleEngine \<Rightarrow> (int \<times> stateRuleEngine) option" where
  "logic_rules d ltr env [] st = Some (0, st)"
| "logic_rules d ltr env (name # names) st =
     do { (rv, st) \<leftarrow> logic_rule d ltr env name st;
          case rv of Some rv \<Rightarrow> Some (rv, st) | None \<Rightarrow> logic_rules d ltr env names st }"

definition sre_appLogic :: "nat \<Rightarrow> bool \<Rightarrow> sre_env \<Rightarrow> stateRuleEngine \<Rightarrow> (int \<times> stateRuleEngine) option" where
  "sre_appLogic d ltr env st = logic_rules d ltr env (map fst (rm_rules (sre_ruleMaps st))) st"

definition newCallBack_ruleProp :: "IndiProperty \<Rightarrow> stateRuleEngine \<Rightarrow> int \<times> stateRuleEngine" where
  "newCallBack_ruleProp ipRecv st =
     (let key = createUniqueKey ipRecv; maps = sre_ruleMaps st
      in if map_find key (rm_props maps) = None then (0, st)
      else (0, st\<lparr>sre_ruleMaps := maps\<lparr>rm_props := map_assign key ipRecv (rm_props maps)\<rparr>\<rparr>))"


section \<open>What a pass changes\<close>

definition elems :: "rulePriority \<Rightarrow> stateRuleEngine \<Rightarrow> (string, IndiElement) std_map" where
  "elems prio st = (case ruleStateProperty prio st of None \<Rightarrow> [] | Some p \<Rightarrow> ip_elements p)"

definition published :: "rulePriority \<Rightarrow> string \<Rightarrow> stateRuleEngine \<Rightarrow> bool" where
  "published prio name st \<longleftrightarrow> (case map_find name (elems prio st) of None \<Rightarrow> False | Some e \<Rightarrow> ie_switch e = On)"

lemma ruleStateProperty_simps [simp]:
  "ruleStateProperty p (sre_emit evs st) = ruleStateProperty p st"
  "ruleStateProperty p (set_rule n r st) = ruleStateProperty p st"
  "ruleStateProperty p (st\<lparr>sre_ruleMaps := m\<rparr>) = ruleStateProperty p st"
  "ruleStateProperty p (set_ruleStateProperty q x st) =
     (if p = q \<and> q \<noteq> prio_none then Some x else ruleStateProperty p st)"
  "ruleStateProperty p st = None \<longleftrightarrow> p = prio_none"
  by (cases p; cases q; simp add: sre_emit_def set_rule_def Let_def)+

lemma elems_simps [simp]:
  "elems p (sre_emit evs st) = elems p st"
  "elems p (set_rule n r st) = elems p st"
  "elems p (st\<lparr>sre_ruleMaps := m\<rparr>) = elems p st"
  "elems p (set_ruleStateProperty q x st) = (if p = q \<and> q \<noteq> prio_none then ip_elements x else elems p st)"
  by (simp_all add: elems_def)

lemma set_state_engine [simp]:
  "sre_ruleMaps (set_state l s a st) = sre_ruleMaps st" "sre_events (set_state l s a st) = sre_events st"
  "ruleStateProperty p (set_state l s a st) = ruleStateProperty p st" "elems p (set_state l s a st) = elems p st"
  by (cases p; simp add: set_state_def publish_state_def app_emit_def case_prod_unfold Let_def elems_def)+

lemma engine_simps [simp]:
  "sre_ruleMaps (sre_emit evs st) = sre_ruleMaps st"
  "app_driver (sre_emit evs st) = app_driver st"
  "app_driver (set_rule n r st) = app_driver st"
  "sre_ruleMaps (set_rule n r st) = (sre_ruleMaps st)\<lparr>rm_rules := map_assign n r (rm_rules (sre_ruleMaps st))\<rparr>"
  "sre_ruleMaps (set_ruleStateProperty q x st) = sre_ruleMaps st"
  "app_driver (set_ruleStateProperty q x st) = app_driver st"
  "sre_events (set_ruleStateProperty q x st) = sre_events st"
  "sre_events (set_rule n r st) = sre_events st"
  "sre_events (sre_emit evs st) = sre_events st @ evs"
  by (cases q; simp add: sre_emit_def set_rule_def Let_def)+

lemma updateSwitch_elements:
  assumes "updateSwitchIfChanged drv el v s p = (p', sent)"
  shows "map_find k (ip_elements p') =
      (if drv \<and> k = el then map_option (ie_switch_update (\<lambda>_. v)) (map_find k (ip_elements p))
       else map_find k (ip_elements p))"
    and "map_wf (ip_elements p') = map_wf (ip_elements p)"
  using assms
  by (auto simp: updateSwitchIfChanged_def property_at_def set_switch_def Let_def map_find_update_one
      split: if_splits option.splits sum.splits)

lemma sendNotification_simps [simp]:
  "sre_ruleMaps (snd (sendNotification ok msg st)) = sre_ruleMaps st"
  "app_driver (snd (sendNotification ok msg st)) = app_driver st"
  "elems p (snd (sendNotification ok msg st)) = elems p st"
  by (simp_all add: sendNotification_def)

lemma rule_message_static: "rule_message settime now r = (x, r') \<Longrightarrow> static_rule r' = static_rule r"
  by (auto simp: rule_message_def static_rule_def split: if_splits option.splits)

lemma notificationMessage_static:
  "notificationMessage n l c s now r = (x, r') \<Longrightarrow> static_rule r' = static_rule r"
  by (auto simp: notificationMessage_def Let_def split: prod.splits sum.splits dest: rule_message_static)

text \<open>
  The state after a rule was handled, as seen by the rules and by the observers of the published
  properties; \<open>w\<close> is the value of the rule, \<^const>\<open>None\<close> when nothing is published.
\<close>

definition publish_value :: "bool option \<Rightarrow> IndiElement \<Rightarrow> IndiElement" where
  "publish_value w e = (case w of None \<Rightarrow> e | Some b \<Rightarrow> e\<lparr>ie_switch := if b then On else Off\<rparr>)"

definition publish_frame :: "string \<Rightarrow> bool option \<Rightarrow> rulePriority \<Rightarrow> stateRuleEngine \<Rightarrow> stateRuleEngine \<Rightarrow> bool" where
  "publish_frame name w prio st st' \<longleftrightarrow>
     static (sre_ruleMaps st') = static (sre_ruleMaps st) \<and> map_wf (rm_rules (sre_ruleMaps st')) \<and>
     app_driver st' = app_driver st \<and>
     (\<forall>p k. map_find k (elems p st') =
        (if app_driver st \<and> p = prio \<and> k = name then map_option (publish_value w) (map_find k (elems p st))
         else map_find k (elems p st)))"

lemma publish_value_None [simp]: "publish_value None = (\<lambda>e. e)"
  by (simp add: publish_value_def fun_eq_iff)

lemma publish_frame_quiet:
  "publish_frame name None prio st st' \<longleftrightarrow>
     static (sre_ruleMaps st') = static (sre_ruleMaps st) \<and> map_wf (rm_rules (sre_ruleMaps st')) \<and>
     app_driver st' = app_driver st \<and> (\<forall>p k. map_find k (elems p st') = map_find k (elems p st))"
  by (auto simp: publish_frame_def option.map_ident)

lemma publish_frame_before:
  "publish_frame name None prio st st' \<Longrightarrow> publish_frame name w prio st' st'' \<Longrightarrow> publish_frame name w prio st st''"
  unfolding publish_frame_quiet by (simp add: publish_frame_def)

lemma publish_frame_after:
  "publish_frame name w prio st st' \<Longrightarrow> publish_frame name None prio st' st'' \<Longrightarrow> publish_frame name w prio st st''"
  unfolding publish_frame_quiet by (simp add: publish_frame_def)

lemma publish_frame_set_rule:
  assumes "publish_frame name w prio st st'" "map_find n (rm_rules (sre_ruleMaps st')) = Some r0" "static_rule r1 = static_rule r0"
  shows "publish_frame name w prio st (set_rule n r1 st')"
  using assms static_assign [OF _ assms(2,3)] by (auto simp: publish_frame_def map_wf_assign)

lemma publish_frame_send:
  "publish_frame name w prio st st' \<Longrightarrow> publish_frame name w prio st (snd (sendNotification ok msg st'))"
  by (simp add: publish_frame_def)

lemma notify_rule_frame:
  assumes f: "publish_frame name w prio st st1" and r: "map_find name (rm_rules (sre_ruleMaps st1)) = Some r"
    and n: "notify_rule env name val wasOn r st1 = (rv, caught, st')"
  shows "publish_frame name w prio st st' \<and> (rv = None \<or> rv = Some (- 1))"
proof (cases val)
  case True
  obtain x r' where m: "notificationMessage name (notificationLabel (r_priority r)) False True (en_now env name) r = (x, r')"
    by fastforce
  have "static_rule r' = static_rule r" by (rule notificationMessage_static [OF m])
  then have f1: "publish_frame name w prio st (set_rule name r' st1)"
    "publish_frame name w prio st (set_rule name (snd (incMessageCount r')) st1)"
    by (auto intro!: publish_frame_set_rule [OF f r] simp: static_rule_def incMessageCount_def Let_def)
  have f2: "publish_frame name w prio st (snd (sendNotification ok msg (set_rule name (snd (incMessageCount r')) st1)))" for ok msg
    using f1(2) by (rule publish_frame_send)
  show ?thesis
    using n True f f1 f2 m
    by (auto simp: notify_rule_def Let_def case_prod_unfold split: sum.splits bool.splits if_splits)
next
  case False
  have s: "static_rule (messageCount 0 r) = static_rule r" by (simp add: static_rule_def messageCount_def)
  have send: "publish_frame name w prio st (snd (sendNotification ok msg st1))" for ok msg
    using f by (rule publish_frame_send)
  have "publish_frame name w prio st (set_rule name (messageCount 0 r) (snd (sendNotification ok msg st1)))" for ok msg
    using s r by (intro publish_frame_set_rule [OF send, where n = name and ?r0.0 = r]) simp_all
  moreover have "publish_frame name w prio st (set_rule name (messageCount 0 r) st1)"
    using s by (intro publish_frame_set_rule [OF f r])
  ultimately show ?thesis
    using n False send
    by (auto simp: notify_rule_def Let_def case_prod_unfold split: sum.splits if_splits)
qed

lemma publish_rule_frame:
  assumes wf: "map_wf (rm_rules (sre_ruleMaps st))" and r: "map_find name (rm_rules (sre_ruleMaps st)) = Some r"
    and pub: "publish_rule env name val r st = (rv, caught, st')"
  shows "publish_frame name (Some val) (r_priority r) st st' \<and> (rv = None \<or> rv = Some (- 1))"
proof (cases "ruleStateProperty (r_priority r) st")
  case None
  then show ?thesis using pub wf by (auto simp: publish_rule_def publish_frame_def elems_def map_find_def)
next
  case (Some p)
  obtain p' sent where u: "updateSwitchIfChanged (app_driver st) name (if val then On else Off) Ok p = (p', sent)"
    by fastforce
  define st1 where "st1 = sre_emit (map SendRuleProperty sent) (set_ruleStateProperty (r_priority r) p' st)"
  have prio: "r_priority r \<noteq> prio_none" using Some by (metis option.distinct(1) ruleStateProperty_simps(5))
  have e: "elems (r_priority r) st = ip_elements p" using Some by (simp add: elems_def)
  have f1: "publish_frame name (Some val) (r_priority r) st st1"
    unfolding publish_frame_def
    using wf prio e updateSwitch_elements [OF u] by (auto simp: st1_def publish_value_def [abs_def])
  have r1: "map_find name (rm_rules (sre_ruleMaps st1)) = Some r" using r by (simp add: st1_def)
  have "notify_rule env name val (ruleIsOn p name) r st1 = (rv, caught, st')"
    using pub Some u by (simp add: publish_rule_def Let_def st1_def)
  then show ?thesis by (rule notify_rule_frame [OF f1 r1])
qed

section \<open>A whole pass\<close>

text \<open>What the evaluation of the rules needs.\<close>

definition evaluable :: "nat \<Rightarrow> indiRuleMaps \<Rightarrow> bool" where
  "evaluable d m \<longleftrightarrow> pointers_ok m \<and> numbers_filled m \<and> acyclic (calls m) \<and> length (rm_rules m) \<le> d"

lemma evaluable_static: "static m' = static m \<Longrightarrow> evaluable d m' \<longleftrightarrow> evaluable d m"
  unfolding evaluable_def using pointers_ok_static numbers_filled_static calls_static static_length by metis

lemma log_diagnostics_total:
  assumes "evaluable d (sre_ruleMaps st)" "map_find name (rm_rules (sre_ruleMaps st)) \<noteq> None"
  shows "\<exists>st'. log_diagnostics d name st = Some st' \<and> publish_frame name None prio st st'"
proof -
  let ?m = "sre_ruleMaps st"
  have ok: "pointers_ok ?m" "acyclic (calls ?m)" "card (reach ?m name) < d"
    using assms reach_bound [of ?m name] by (auto simp: evaluable_def)
  obtain ds m' where m': "drain_diagnostics (Suc (pending_count ?m)) d name ?m = Some (ds, m')" "static m' = static ?m"
    using drain_total [OF ok(1,2) assms(2) ok(3), of "Suc (pending_count ?m)"] by blast
  have "map_wf (rm_rules m')"
    using ok(1) m'(2) pointers_ok_static pointers_ok_def by metis
  then show ?thesis using m' by (simp add: log_diagnostics_def publish_frame_quiet)
qed

lemma logic_rule_frame:
  assumes ev: "evaluable d (sre_ruleMaps st)" and r: "map_find name (rm_rules (sre_ruleMaps st)) = Some r"
  shows "\<exists>rv st' w. logic_rule d ltr env name st = Some (rv, st') \<and> (rv = None \<or> rv = Some (- 1)) \<and>
     rule_denotes (sre_ruleMaps st) (en_clk env name) name w \<and> publish_frame name w (r_priority r) st st'"
proof -
  have ok: "pointers_ok (sre_ruleMaps st)" "numbers_filled (sre_ruleMaps st)" "acyclic (calls (sre_ruleMaps st))"
    "length (rm_rules (sre_ruleMaps st)) \<le> d"
    using ev by (auto simp: evaluable_def)
  have some: "map_find name (rm_rules (sre_ruleMaps st)) \<noteq> None" using r by simp
  obtain v m where v: "rule_value d ltr (en_clk env name) name (sre_ruleMaps st) = Some (v, m)"
    "static m = static (sre_ruleMaps st)" "rule_denotes (sre_ruleMaps st) (en_clk env name) name (value_ok v)"
    using rule_value_result [OF ok(1-3) some ok(4)] by blast
  show ?thesis
  proof (cases "r_priority r = prio_none")
    case True
    have "publish_frame name (value_ok v) prio_none st st"
      using ok(1) by (auto simp: publish_frame_def pointers_ok_def elems_def map_find_def)
    with True r v(3) show ?thesis by (auto simp: logic_rule_def)
  next
    case False
    let ?st0 = "st\<lparr>sre_ruleMaps := m\<rparr>"
    have ev0: "evaluable d (sre_ruleMaps ?st0)" using ev evaluable_static [OF v(2)] by simp
    obtain r0 where r0: "map_find name (rm_rules m) = Some r0" by (rule static_eq_find [OF v(2) r])
    obtain st1 where st1: "log_diagnostics d name ?st0 = Some st1" "publish_frame name None (r_priority r) ?st0 st1"
      using log_diagnostics_total [OF ev0] r0 by auto
    have f0: "publish_frame name None (r_priority r) st ?st0"
      using v(2) ev0 by (auto simp: publish_frame_quiet evaluable_def pointers_ok_def)
    have f1: "publish_frame name None (r_priority r) st st1" using publish_frame_before [OF f0 st1(2)] .
    then have s1: "static (sre_ruleMaps st1) = static (sre_ruleMaps st)" "map_wf (rm_rules (sre_ruleMaps st1))"
      by (simp_all add: publish_frame_quiet)
    show ?thesis
    proof (cases v)
      case (Inl x)
      then have "value_ok v = None" by (simp add: value_ok_def)
      with f1 v False r st1 Inl show ?thesis by (auto simp: logic_rule_def)
    next
      case (Inr val)
      then have w: "value_ok v = Some val" by (simp add: value_ok_def)
      obtain r1 where r1: "map_find name (rm_rules (sre_ruleMaps st1)) = Some r1" "static_rule r1 = static_rule r"
        by (rule static_eq_find [OF s1(1) r])
      have prio: "r_priority r1 = r_priority r" using r1(2) by (metis static_rule_simps(3))
      obtain rv caught st2 where p: "publish_rule env name val r1 st1 = (rv, caught, st2)" using prod_cases3 by blast
      have f2: "publish_frame name (Some val) (r_priority r) st st2" "rv = None \<or> rv = Some (- 1)"
        using publish_rule_frame [OF s1(2) r1(1) p] publish_frame_before [OF f1] prio by auto
      have s2: "static (sre_ruleMaps st2) = static (sre_ruleMaps st)" using f2(1) by (simp add: publish_frame_def)
      obtain r2 where r2: "map_find name (rm_rules (sre_ruleMaps st2)) = Some r2" by (rule static_eq_find [OF s2 r])
      obtain st3 where st3: "log_diagnostics d name st2 = Some st3" "publish_frame name None (r_priority r) st2 st3"
        using log_diagnostics_total [of d st2 name] ev evaluable_static [OF s2] r2 by auto
      have f3: "publish_frame name (Some val) (r_priority r) st st3" using publish_frame_after [OF f2(1) st3(2)] .
      show ?thesis
        using False r v st1 Inr r1(1) p st3 f2 f3 w by (cases caught) (auto simp: logic_rule_def)
    qed
  qed
qed


text \<open>What the observers find after the rules of a list were handled.\<close>

definition published_after ::
  "sre_env \<Rightarrow> string list \<Rightarrow> stateRuleEngine \<Rightarrow> stateRuleEngine \<Rightarrow> bool" where
  "published_after env names st st' \<longleftrightarrow>
     (\<forall>p k. k \<notin> set names \<longrightarrow> map_find k (elems p st') = map_find k (elems p st)) \<and>
     (\<forall>n r w. n \<in> set names \<longrightarrow> map_find n (rm_rules (sre_ruleMaps st)) = Some r \<longrightarrow>
        rule_denotes (sre_ruleMaps st) (en_clk env n) n w \<longrightarrow> app_driver st \<longrightarrow>
        map_find n (elems (r_priority r) st') = map_option (publish_value w) (map_find n (elems (r_priority r) st)))"

lemma published_after_Cons:
  assumes f: "publish_frame name w (r_priority r) st st1" and n: "name \<notin> set names"
    and r: "map_find name (rm_rules (sre_ruleMaps st)) = Some r"
    and w: "rule_denotes (sre_ruleMaps st) (en_clk env name) name w"
    and rest: "published_after env names st1 st'"
  shows "published_after env (name # names) st st'"
proof -
  have s: "static (sre_ruleMaps st1) = static (sre_ruleMaps st)" "app_driver st1 = app_driver st"
    and e: "map_find k (elems p st1) = (if app_driver st \<and> p = r_priority r \<and> k = name
         then map_option (publish_value w) (map_find k (elems p st)) else map_find k (elems p st))" for p k
    using f by (auto simp: publish_frame_def)
  have out: "map_find k (elems p st') = map_find k (elems p st1)" if "k \<notin> set names" for p k
    using rest that by (simp add: published_after_def)
  have "map_find j (elems (r_priority r') st') = map_option (publish_value w') (map_find j (elems (r_priority r') st))"
    if j: "j \<in> set (name # names)" "map_find j (rm_rules (sre_ruleMaps st)) = Some r'"
      "rule_denotes (sre_ruleMaps st) (en_clk env j) j w'" "app_driver st" for j r' w'
  proof (cases "j = name")
    case True
    with j r have "r' = r" by simp
    moreover have "w' = w" using rule_denotes_fun w j(3) True by blast
    ultimately show ?thesis using out [of j "r_priority r"] e n True j(4) by simp
  next
    case False
    then have jn: "j \<in> set names" using j(1) by simp
    obtain r1 where r1: "map_find j (rm_rules (sre_ruleMaps st1)) = Some r1" "static_rule r1 = static_rule r'"
      by (rule static_eq_find [OF s(1) j(2)])
    have "r_priority r1 = r_priority r'" using r1(2) by (metis static_rule_simps(3))
    moreover have "rule_denotes (sre_ruleMaps st1) (en_clk env j) j w'" using j(3) rule_denotes_static [OF s(1)] by blast
    ultimately have "map_find j (elems (r_priority r') st') = map_option (publish_value w') (map_find j (elems (r_priority r') st1))"
      using rest jn r1(1) j(4) s(2) unfolding published_after_def by metis
    then show ?thesis using e [of j "r_priority r'"] False by simp
  qed
  moreover have "map_find k (elems p st') = map_find k (elems p st)" if "k \<notin> set (name # names)" for p k
    using out [of k p] e [of k p] that by simp
  ultimately show ?thesis unfolding published_after_def by blast
qed

lemma logic_rules_spec:
  "evaluable d (sre_ruleMaps st) \<Longrightarrow> distinct names \<Longrightarrow>
   (\<And>n. n \<in> set names \<Longrightarrow> map_find n (rm_rules (sre_ruleMaps st)) \<noteq> None) \<Longrightarrow>
     \<exists>rv st'. logic_rules d ltr env names st = Some (rv, st') \<and> (rv = 0 \<or> rv = - 1) \<and>
       static (sre_ruleMaps st') = static (sre_ruleMaps st) \<and> app_driver st' = app_driver st \<and>
       (rv = 0 \<longrightarrow> published_after env names st st')"
proof (induction names arbitrary: st)
  case Nil
  show ?case by (simp add: published_after_def)
next
  case (Cons n names)
  have "map_find n (rm_rules (sre_ruleMaps st)) \<noteq> None" using Cons.prems(3) by simp
  then obtain r where r: "map_find n (rm_rules (sre_ruleMaps st)) = Some r" by blast
  obtain rv st1 w where 1: "logic_rule d ltr env n st = Some (rv, st1)" "rv = None \<or> rv = Some (- 1)"
    "rule_denotes (sre_ruleMaps st) (en_clk env n) n w" "publish_frame n w (r_priority r) st st1"
    using logic_rule_frame [OF Cons.prems(1) r] by blast
  have s: "static (sre_ruleMaps st1) = static (sre_ruleMaps st)" "app_driver st1 = app_driver st"
    using 1(4) by (auto simp: publish_frame_def)
  show ?case
  proof (cases rv)
    case (Some x)
    with 1 s show ?thesis by auto
  next
    case None
    have "map_find j (rm_rules (sre_ruleMaps st1)) \<noteq> None" if "j \<in> set names" for j
    proof -
      have "map_find j (rm_rules (sre_ruleMaps st)) \<noteq> None" using Cons.prems(3) that by simp
      then obtain r' where "map_find j (rm_rules (sre_ruleMaps st)) = Some r'" by blast
      then show ?thesis by (rule static_eq_find [OF s(1)]) simp
    qed
    then obtain rv' st' where 2: "logic_rules d ltr env names st1 = Some (rv', st')" "rv' = 0 \<or> rv' = - 1"
      "static (sre_ruleMaps st') = static (sre_ruleMaps st1)" "app_driver st' = app_driver st1"
      "rv' = 0 \<longrightarrow> published_after env names st1 st'"
      using Cons.IH [of st1] Cons.prems(1,2) evaluable_static [OF s(1)] by auto
    have "published_after env (n # names) st st'" if "rv' = 0"
      using published_after_Cons [OF 1(4) _ r 1(3)] Cons.prems(2) 2(5) that by auto
    then show ?thesis using 1(1) None 2 s by auto
  qed
qed

lemma appLogic_result:
  assumes "evaluable d (sre_ruleMaps st)"
  shows "\<exists>rv st'. sre_appLogic d ltr env st = Some (rv, st') \<and> (rv = 0 \<or> rv = - 1) \<and>
       static (sre_ruleMaps st') = static (sre_ruleMaps st) \<and> app_driver st' = app_driver st \<and>
       (rv = 0 \<longrightarrow> published_after env (map fst (rm_rules (sre_ruleMaps st))) st st')"
  unfolding sre_appLogic_def
proof (rule logic_rules_spec [OF assms])
  have wf: "map_wf (rm_rules (sre_ruleMaps st))" using assms by (simp add: evaluable_def pointers_ok_def)
  show "distinct (map fst (rm_rules (sre_ruleMaps st)))" using map_wf_distinct [OF wf] .
  show "map_find n (rm_rules (sre_ruleMaps st)) \<noteq> None" if "n \<in> set (map fst (rm_rules (sre_ruleMaps st)))" for n
    using that by (simp add: map_find_def map_of_eq_None_iff)
qed

section \<open>Notifications\<close>

text \<open>
  The notifications of one rule over a sequence of evaluations: the value, and the readings of
  the clock. The specification knows whether the condition was on and when it was reported
  last. A report is made when the condition comes up, again after every delay while it stays
  (never when the delay is not positive), and one when it clears.
\<close>

fun alarm_messages :: "real \<Rightarrow> string \<Rightarrow> string \<Rightarrow> bool \<Rightarrow> timespec \<Rightarrow> (bool \<times> timespec \<times> timespec) list \<Rightarrow> string list" where
  "alarm_messages delay raise clear on prev [] = []"
| "alarm_messages delay raise clear on prev ((val, since, now) # xs) =
     (if val
      then if \<not> on \<or> delay > 0 \<and> time_of since - time_of prev \<ge> delay
           then raise # alarm_messages delay raise clear True now xs
           else alarm_messages delay raise clear True prev xs
      else (if on then [clear] else []) @ alarm_messages delay raise clear False prev xs)"

text \<open>The handling of the rule in successive passes, with the clock and the driver working.\<close>

fun notify_run :: "string \<Rightarrow> (bool \<times> timespec \<times> timespec) list \<Rightarrow> stateRuleEngine \<Rightarrow> stateRuleEngine option" where
  "notify_run name [] st = Some st"
| "notify_run name ((val, since, now) # xs) st =
     do { r \<leftarrow> map_find name (rm_rules (sre_ruleMaps st));
          let (rv, caught, st) =
            publish_rule \<lparr>en_clk = (\<lambda>_ _. now), en_since = (\<lambda>_. Some since), en_now = (\<lambda>_. Some now), en_send = (\<lambda>_. True)\<rparr>
              name val r st;
          if rv = None then notify_run name xs st else None }"

definition message_texts :: "sre_event list \<Rightarrow> string list" where
  "message_texts evs = concat (map (\<lambda>ev. case ev of SendMessage s \<Rightarrow> [s] | _ \<Rightarrow> []) evs)"

definition rule_detail :: "string \<Rightarrow> indiCompRule \<Rightarrow> string" where
  "rule_detail name r = (if r_message r = [] then name else r_message r)"

lemma message_texts_simps [simp]:
  "message_texts [] = []" "message_texts (xs @ ys) = message_texts xs @ message_texts ys"
  "message_texts (map SendRuleProperty ps) = []" "message_texts [SendMessage s] = [s]"
  by (simp_all add: message_texts_def comp_def)

text \<open>One evaluation.\<close>

lemma publish_rule_ok:
  assumes wf: "map_wf (rm_rules (sre_ruleMaps st))" and r: "map_find name (rm_rules (sre_ruleMaps st)) = Some r"
    and drv: "app_driver st" and prio: "r_priority r \<noteq> prio_none"
    and el: "map_find name (elems (r_priority r) st) \<noteq> None"
    and env: "en_since env name = Some since" "en_now env name = Some now" "en_send env name"
    and cnt: "r_messageCount r \<ge> 0" "r_messageCount r = 0 \<longleftrightarrow> \<not> published (r_priority r) name st"
  shows "\<exists>st' r'. publish_rule env name val r st = (None, False, st') \<and> app_driver st' \<and>
     map_wf (rm_rules (sre_ruleMaps st')) \<and> map_find name (rm_rules (sre_ruleMaps st')) = Some r' \<and>
     r_priority r' = r_priority r \<and> r_message r' = r_message r \<and> r_messageDelay r' = r_messageDelay r \<and>
     map_find name (elems (r_priority r) st') \<noteq> None \<and>
     published (r_priority r) name st' = val \<and> r_messageCount r' \<ge> 0 \<and> (r_messageCount r' = 0 \<longleftrightarrow> \<not> val) \<and>
     (let raised = val \<and> (\<not> published (r_priority r) name st \<or>
                          r_messageDelay r > 0 \<and> time_of since - time_of (r_lastMsg r) \<ge> r_messageDelay r)
      in r_lastMsg r' = (if raised then now else r_lastMsg r) \<and>
         message_texts (sre_events st') = message_texts (sre_events st) @
           (if raised then [notificationLabel (r_priority r) @ '': '' @ rule_detail name r]
            else if \<not> val \<and> published (r_priority r) name st then [''INFO: Cleared: '' @ rule_detail name r] else []))"
proof -
  obtain p where p: "ruleStateProperty (r_priority r) st = Some p" using prio by (metis option.exhaust ruleStateProperty_simps(5))
  obtain p' sent where u: "updateSwitchIfChanged (app_driver st) name (if val then On else Off) Ok p = (p', sent)"
    by fastforce
  define st1 where "st1 = sre_emit (map SendRuleProperty sent) (set_ruleStateProperty (r_priority r) p' st)"
  have e: "elems (r_priority r) st = ip_elements p" using p by (simp add: elems_def)
  have wasOn: "ruleIsOn p name = published (r_priority r) name st" by (simp add: ruleIsOn_def published_def e)
  have e1: "map_find name (elems (r_priority r) st1) \<noteq> None" "published (r_priority r) name st1 = val"
    using updateSwitch_elements(1) [OF u, of name] drv el e prio by (auto simp: st1_def published_def)
  have s1: "app_driver st1" "sre_ruleMaps st1 = sre_ruleMaps st" "message_texts (sre_events st1) = message_texts (sre_events st)"
    using drv by (simp_all add: st1_def)
  have pub: "publish_rule env name val r st = notify_rule env name val (published (r_priority r) name st) r st1"
    using p u wasOn by (simp add: publish_rule_def Let_def st1_def)
  have tts: "timeToSend (en_since env name) r = Inr (\<not> published (r_priority r) name st \<or>
      r_messageDelay r > 0 \<and> time_of since - time_of (r_lastMsg r) \<ge> r_messageDelay r)"
    using env(1) cnt(2) by (auto simp: timeToSend_def sinceLastMsg_def)
  show ?thesis
    unfolding pub
    using tts env s1 e1 wf r cnt
    by (auto simp: notify_rule_def notificationMessage_def rule_message_def incMessageCount_def messageCount_def
        sendNotification_def map_find_assign map_wf_assign rule_detail_def published_def Let_def split: if_splits)
qed

lemma notify_run_messages:
  assumes "map_wf (rm_rules (sre_ruleMaps st))" "map_find name (rm_rules (sre_ruleMaps st)) = Some r"
    "app_driver st" "r_priority r \<noteq> prio_none" "map_find name (elems (r_priority r) st) \<noteq> None"
    "r_messageCount r \<ge> 0" "r_messageCount r = 0 \<longleftrightarrow> \<not> published (r_priority r) name st"
  shows "\<exists>st'. notify_run name xs st = Some st' \<and>
     message_texts (sre_events st') = message_texts (sre_events st) @
       alarm_messages (r_messageDelay r) (notificationLabel (r_priority r) @ '': '' @ rule_detail name r)
         (''INFO: Cleared: '' @ rule_detail name r) (published (r_priority r) name st) (r_lastMsg r) xs"
  using assms
proof (induction xs arbitrary: st r)
  case (Cons x xs)
  obtain val since now where x: "x = (val, since, now)" by (cases x)
  let ?env = "\<lparr>en_clk = (\<lambda>_ _. now), en_since = (\<lambda>_. Some since), en_now = (\<lambda>_. Some now), en_send = (\<lambda>_. True)\<rparr>"
  obtain st1 r1 where 1: "publish_rule ?env name val r st = (None, False, st1)" "app_driver st1"
     "map_wf (rm_rules (sre_ruleMaps st1))" "map_find name (rm_rules (sre_ruleMaps st1)) = Some r1"
     "r_priority r1 = r_priority r" "r_message r1 = r_message r" "r_messageDelay r1 = r_messageDelay r"
     "map_find name (elems (r_priority r) st1) \<noteq> None"
     "published (r_priority r) name st1 = val" "r_messageCount r1 \<ge> 0" "r_messageCount r1 = 0 \<longleftrightarrow> \<not> val"
     "let raised = val \<and> (\<not> published (r_priority r) name st \<or>
                          r_messageDelay r > 0 \<and> time_of since - time_of (r_lastMsg r) \<ge> r_messageDelay r)
      in r_lastMsg r1 = (if raised then now else r_lastMsg r) \<and>
         message_texts (sre_events st1) = message_texts (sre_events st) @
           (if raised then [notificationLabel (r_priority r) @ '': '' @ rule_detail name r]
            else if \<not> val \<and> published (r_priority r) name st then [''INFO: Cleared: '' @ rule_detail name r] else [])"
    using publish_rule_ok [OF Cons.prems(1-5) _ _ _ Cons.prems(6,7), of ?env since now val] by auto
  have "rule_detail name r1 = rule_detail name r" using 1(6) by (simp add: rule_detail_def)
  then obtain st' where "notify_run name xs st1 = Some st'"
     "message_texts (sre_events st') = message_texts (sre_events st1) @
       alarm_messages (r_messageDelay r) (notificationLabel (r_priority r) @ '': '' @ rule_detail name r)
         (''INFO: Cleared: '' @ rule_detail name r) val (r_lastMsg r1) xs"
    using Cons.IH [OF 1(3,4,2)] 1 Cons.prems(4) by auto
  then show ?case using x 1(1,12) Cons.prems(2) by (auto simp: Let_def split: if_splits)
qed simp


section \<open>The life of the engine\<close>

text \<open>
  What holds between operations: no pointer dangles, every rule that is published has its
  element, and every property is stored under its own key.
\<close>

definition sre_inv :: "stateRuleEngine \<Rightarrow> bool" where
  "sre_inv st \<longleftrightarrow>
     pointers_ok (sre_ruleMaps st) \<and> map_wf (rm_props (sre_ruleMaps st)) \<and>
     (\<forall>n r. map_find n (rm_rules (sre_ruleMaps st)) = Some r \<longrightarrow> r_priority r \<noteq> prio_none \<longrightarrow>
        map_find n (elems (r_priority r) st) \<noteq> None) \<and>
     (\<forall>key ip. map_find key (rm_props (sre_ruleMaps st)) = Some ip \<longrightarrow> createUniqueKey ip = key)"

subsection \<open>Configuration\<close>

lemma load_rule_files_inv:
  "load_inv maps rrk \<Longrightarrow> load_rule_files cnfs maps rrk = Some (ok, maps', rrk') \<Longrightarrow> ok \<Longrightarrow> load_inv maps' rrk'"
proof (induction cnfs maps rrk rule: load_rule_files.induct)
  case (2 cnf cnfs maps rrk)
  obtain fcfg where cnf: "cnf = Some fcfg" using "2.prems"(2,3) by (cases cnf) auto
  obtain x maps1 rrk1 where 1: "loadRuleConfig fcfg maps rrk = Some (x, maps1, rrk1)" "x = None \<longrightarrow> load_inv maps1 rrk1"
    using loadRuleConfig_inv [OF "2.prems"(1)] by blast
  have "x = None" "load_rule_files cnfs maps1 rrk1 = Some (ok, maps', rrk')"
    using "2.prems"(2,3) cnf 1(1) by (cases x; auto)+
  with 1 "2.IH" [OF cnf] "2.prems"(3) show ?case by simp
qed auto

lemma load_inv_empty: "rm_rules maps = [] \<Longrightarrow> rm_props maps = [] \<Longrightarrow> load_inv maps []"
  by (simp add: load_inv_def map_find_def)

lemma sre_loadConfigImpl_ok:
  assumes "rm_rules (sre_ruleMaps st) = []" "rm_props (sre_ruleMaps st) = []"
    and "sre_loadConfigImpl cfg dir files st = Some (0, st')"
  shows "rules_ok (sre_ruleMaps st') \<and> (\<exists>d m. st' = st\<lparr>sre_ruleDir := d, sre_ruleMaps := m\<rparr>)"
proof -
  note inv0 = load_inv_empty [OF assms(1,2)]
  define d where "d = (case dir of None \<Rightarrow> sre_ruleDir st | Some d \<Rightarrow> d)"
  have "\<exists>maps rrk maps'. load_inv maps rrk \<and> finalizeRuleValRules maps rrk = (None, maps') \<and>
      st' = st\<lparr>sre_ruleDir := d, sre_ruleMaps := maps'\<rparr>"
  proof (cases "d = []")
    case True
    obtain x maps rrk where 1: "loadRuleConfig cfg (sre_ruleMaps st) [] = Some (x, maps, rrk)" "x = None \<longrightarrow> load_inv maps rrk"
      using loadRuleConfig_inv [OF inv0] by blast
    obtain y maps' where 2: "finalizeRuleValRules maps rrk = (y, maps')" by fastforce
    show ?thesis
      using assms(3) True 1 2 by (cases x; cases y) (auto simp: sre_loadConfigImpl_def Let_def d_def [symmetric])
  next
    case False
    then obtain cnfs where f: "files = Some cnfs"
      using assms(3) by (cases files) (auto simp: sre_loadConfigImpl_def Let_def d_def [symmetric])
    obtain ok maps rrk where 1: "load_rule_files cnfs (sre_ruleMaps st) [] = Some (ok, maps, rrk)"
      using assms(3) False f
      by (cases "load_rule_files cnfs (sre_ruleMaps st) []") (auto simp: sre_loadConfigImpl_def Let_def d_def [symmetric])
    obtain y maps' where 2: "finalizeRuleValRules maps rrk = (y, maps')" by fastforce
    show ?thesis
      using assms(3) False f 1 2 load_rule_files_inv [OF inv0 1]
      by (cases ok; cases y) (auto simp: sre_loadConfigImpl_def Let_def d_def [symmetric])
  qed
  then obtain maps rrk maps' where "load_inv maps rrk" "finalizeRuleValRules maps rrk = (None, maps')"
    "st' = st\<lparr>sre_ruleDir := d, sre_ruleMaps := maps'\<rparr>" by blast
  then show ?thesis using finalize_ok by auto
qed

subsection \<open>Startup\<close>

definition prio_registered :: "stateRuleEngine \<Rightarrow> bool" where
  "prio_registered st \<longleftrightarrow>
     (\<forall>p q. ruleStateProperty p st = Some q \<longrightarrow> map_wf (ip_elements q) \<and> (ip_elements q = [] \<or> ip_device q = app_configName st))"

lemma set_label_elements:
  "property_add (IndiElement_switch name Off) p = Inr p' \<Longrightarrow> map_wf (ip_elements p) \<Longrightarrow>
     map_find k (ip_elements p') = (if k = name then Some (IndiElement_switch name Off) else map_find k (ip_elements p)) \<and>
     map_wf (ip_elements p') \<and> ip_device p' = ip_device p"
  by (auto simp: property_add_def property_set_def map_find_assign map_wf_assign IndiElement_switch_def
      IndiElement_new_def split: if_splits)

lemma app_simps [simp]:
  "app_configName (set_ruleStateProperty q x st) = app_configName st"
  "app_useINDI (set_ruleStateProperty q x st) = app_useINDI st"
  by (cases q; simp)+

lemma register_new:
  assumes "registerIndiPropertyNew ptr f nm ty pm ps pr p st = (rv, p', st')" "app_useINDI st"
  shows "ip_elements p' = [] \<and> ip_device p' = app_configName st \<and> sre_ruleMaps st' = sre_ruleMaps st \<and>
     app_useINDI st' = app_useINDI st \<and> app_configName st' = app_configName st \<and>
     (\<forall>q. ruleStateProperty q st' = ruleStateProperty q (st :: stateRuleEngine))"
proof -
  have "ruleStateProperty q (st\<lparr>app_newCallBacks := x\<rparr>) = ruleStateProperty q st"
    "ruleStateProperty q (st\<lparr>app_events := y\<rparr>) = ruleStateProperty q st" for q x y
    by (cases q; simp)+
  then show ?thesis
    using assms
    by (auto simp: registerIndiPropertyNew_def insert_newCallBack_def um_insert_def app_emit_def IndiProperty_new_def Let_def
        split: if_splits)
qed

lemma startup_rule_ok:
  assumes reg: "prio_registered st" and indi: "app_useINDI st"
    and new: "map_find name (elems (r_priority r) st) = None"
    and s: "startup_rule name r st = (rv, st')"
  shows "rv \<noteq> None \<and>
    (rv = Some 0 \<longrightarrow> prio_registered st' \<and> app_useINDI st' \<and> sre_ruleMaps st' = sre_ruleMaps st \<and>
       (\<forall>q k. map_find k (elems q st') =
          (if q = r_priority r \<and> q \<noteq> prio_none \<and> k = name
           then Some ((IndiElement_switch name Off)\<lparr>ie_label := r_message r\<rparr>) else map_find k (elems q st))))"
proof (cases "r_priority r = prio_none")
  case True
  then show ?thesis using s reg indi by (auto simp: startup_rule_def)
next
  case False
  then obtain p where p: "ruleStateProperty (r_priority r) st = Some p"
    by (metis option.exhaust ruleStateProperty_simps(5))
  obtain rv1 p1 st1 where 1: "(if ip_device p \<noteq> app_configName st
             then registerIndiPropertyNew (''m_indiP_'' @ priority_name (r_priority r)) None (priority_name (r_priority r)) Switch ReadOnly Idle AnyOfMany p st
             else (0, p, st)) = (rv1, p1, st1)"
    by (metis prod_cases3)
  have e: "elems (r_priority r) st = ip_elements p" using p by (simp add: elems_def)
  have fresh: "ip_elements p = [] \<or> ip_device p = app_configName st" using reg p by (simp add: prio_registered_def)
  have s1: "ip_elements p1 = ip_elements p \<and> ip_device p1 = app_configName st \<and> sre_ruleMaps st1 = sre_ruleMaps st \<and>
     app_useINDI st1 \<and> app_configName st1 = app_configName st \<and> (\<forall>q. ruleStateProperty q st1 = ruleStateProperty q st)"
    using 1 fresh indi by (auto split: if_splits dest!: register_new)
  then have e1: "map_find name (ip_elements p1) = None" "map_wf (ip_elements p1)"
    using new e reg p by (auto simp: prio_registered_def)
  show ?thesis
  proof (cases "rv1 < 0")
    case True
    then show ?thesis using s p 1 False by (auto simp: startup_rule_def Let_def)
  next
    case ok: False
    obtain p2 where 2: "property_add (IndiElement_switch name Off) p1 = Inr p2"
      using e1 by (auto simp: property_add_def IndiElement_switch_def IndiElement_new_def)
    define p3 where "p3 = p2\<lparr>ip_elements := map (\<lambda>(k, e). (k, if k = name then e\<lparr>ie_label := r_message r\<rparr> else e)) (ip_elements p2)\<rparr>"
    have "rv = Some 0" and st': "st' = set_ruleStateProperty (r_priority r) p3 st1"
      using s p 1 ok 2 by (auto simp: startup_rule_def Let_def p3_def)
    have p3: "map_wf (ip_elements p3)" "ip_device p3 = app_configName st"
      "map_find k (ip_elements p3) = (if k = name then Some ((IndiElement_switch name Off)\<lparr>ie_label := r_message r\<rparr>)
         else map_find k (ip_elements p))" for k
      using set_label_elements [OF 2 e1(2)] s1 by (auto simp: p3_def map_find_update_one)
    have "elems q st1 = elems q st" for q using s1 by (simp add: elems_def)
    then show ?thesis
      using \<open>rv = Some 0\<close> st' s1 p3 False reg e by (auto simp: prio_registered_def)
  qed
qed

lemma startup_rules_ok:
  "prio_registered st \<Longrightarrow> app_useINDI st \<Longrightarrow> distinct (map fst rs) \<Longrightarrow>
   (\<And>q n. n \<in> fst ` set rs \<Longrightarrow> map_find n (elems q st) = None) \<Longrightarrow> startup_rules rs st = (rv, st') \<Longrightarrow>
     rv \<noteq> None \<and> (rv = Some 0 \<longrightarrow> app_useINDI st' \<and> sre_ruleMaps st' = sre_ruleMaps st \<and>
       (\<forall>q k. map_find k (elems q st) \<noteq> None \<longrightarrow> map_find k (elems q st') \<noteq> None) \<and>
       (\<forall>(n, r) \<in> set rs. r_priority r \<noteq> prio_none \<longrightarrow> map_find n (elems (r_priority r) st') \<noteq> None))"
proof (induction rs st rule: startup_rules.induct)
  case (2 name r rs st)
  obtain rv1 st1 where 1: "startup_rule name r st = (rv1, st1)" by fastforce
  have new: "map_find name (elems (r_priority r) st) = None" using "2.prems"(4) by simp
  note step = startup_rule_ok [OF "2.prems"(1,2) new 1]
  show ?case
  proof (cases "rv1 = Some 0")
    case False
    then show ?thesis using "2.prems"(5) 1 step by auto
  next
    case True
    have el: "map_find k (elems q st1) =
          (if q = r_priority r \<and> q \<noteq> prio_none \<and> k = name
           then Some ((IndiElement_switch name Off)\<lparr>ie_label := r_message r\<rparr>) else map_find k (elems q st))" for q k
      using step True by blast
    have none: "map_find n (elems q st1) = None" if "n \<in> fst ` set rs" for q n
      using el [of n q] that "2.prems"(3,4) by auto
    have rest: "startup_rules rs st1 = (rv, st')" using "2.prems"(5) 1 True by simp
    have "rv \<noteq> None \<and> (rv = Some 0 \<longrightarrow> app_useINDI st' \<and> sre_ruleMaps st' = sre_ruleMaps st1 \<and>
       (\<forall>q k. map_find k (elems q st1) \<noteq> None \<longrightarrow> map_find k (elems q st') \<noteq> None) \<and>
       (\<forall>(n, r) \<in> set rs. r_priority r \<noteq> prio_none \<longrightarrow> map_find n (elems (r_priority r) st') \<noteq> None))"
      using "2.prems"(3) none rest step True by (intro "2.IH" [OF 1 [symmetric] refl]) auto
    moreover have "map_find k (elems q st1) \<noteq> None" if "map_find k (elems q st) \<noteq> None" for q k
      using el [of k q] that by simp
    moreover have "map_find name (elems (r_priority r) st1) \<noteq> None" if "r_priority r \<noteq> prio_none"
      using el [of name "r_priority r"] that by simp
    ultimately show ?thesis using step True by auto
  qed
qed auto


lemma register_set:
  assumes "registerIndiPropertySet ptr f dev nm p st = (rv, p', st')" "app_useINDI st"
  shows "p' = IndiProperty_new Unknown dev nm \<and> sre_ruleMaps st' = sre_ruleMaps st \<and> app_useINDI st' \<and>
     (\<forall>q. elems q st' = elems q (st :: stateRuleEngine))"
proof -
  have "elems q (st\<lparr>app_setCallBacks := x\<rparr>) = elems q st" "elems q (st\<lparr>app_events := y\<rparr>) = elems q st" for q x y
    by (cases q; simp add: elems_def)+
  then show ?thesis
    using assms by (auto simp: registerIndiPropertySet_def um_insert_def app_emit_def Let_def split: if_splits)
qed

lemma startup_props_ok:
  "app_useINDI st \<Longrightarrow> map_wf (rm_props (sre_ruleMaps st)) \<Longrightarrow> startup_props keys st = (0, st') \<Longrightarrow>
     map_wf (rm_props (sre_ruleMaps st')) \<and> rm_rules (sre_ruleMaps st') = rm_rules (sre_ruleMaps st) \<and>
     (\<forall>q. elems q st' = elems q st) \<and>
     (\<forall>k. map_find k (rm_props (sre_ruleMaps st')) = None \<longleftrightarrow> map_find k (rm_props (sre_ruleMaps st)) = None) \<and>
     (\<forall>k ip. map_find k (rm_props (sre_ruleMaps st')) = Some ip \<longrightarrow>
        (if k \<in> set keys then createUniqueKey ip = k \<and> ip_elements ip = [] else map_find k (rm_props (sre_ruleMaps st)) = Some ip))"
proof (induction keys arbitrary: st)
  case (Cons key keys)
  obtain dev nm where pk: "parseIndiKey key ([], []) = (0, dev, nm)"
    using Cons.prems(3) by (cases "parseIndiKey key ([], [])") (auto split: if_splits)
  have key: "key = dev @ ''.'' @ nm" using parseIndiKey_inv [OF pk] by blast
  show ?case
  proof (cases "map_find key (rm_props (sre_ruleMaps st))")
    case None
    then have "startup_props keys st = (0, st')" using Cons.prems(3) pk by simp
    note IH = Cons.IH [OF Cons.prems(1,2) this]
    then have none: "map_find key (rm_props (sre_ruleMaps st')) = None" using None by simp
    have "if k \<in> set (key # keys) then createUniqueKey ip = k \<and> ip_elements ip = [] else map_find k (rm_props (sre_ruleMaps st)) = Some ip"
      if "map_find k (rm_props (sre_ruleMaps st')) = Some ip" for k ip
    proof -
      have "k \<noteq> key" using none that by auto
      moreover have "if k \<in> set keys then createUniqueKey ip = k \<and> ip_elements ip = [] else map_find k (rm_props (sre_ruleMaps st)) = Some ip"
        using IH that by blast
      ultimately show ?thesis by simp
    qed
    then show ?thesis using IH by blast
  next
    case (Some ip0)
    obtain rv p1 st1 where 1: "registerIndiPropertySet key (Some ''st_newCallBack_ruleProp'') dev nm ip0 st = (rv, p1, st1)" by (metis prod_cases3)
    note s1 = register_set [OF 1 Cons.prems(1)]
    define st2 where "st2 = st1\<lparr>sre_ruleMaps := (sre_ruleMaps st1)\<lparr>rm_props := map_assign key p1 (rm_props (sre_ruleMaps st1))\<rparr>\<rparr>"
    have rest: "startup_props keys st2 = (0, st')" using Cons.prems(3) pk Some 1 by (simp add: st2_def Let_def)
    have p2: "map_find k (rm_props (sre_ruleMaps st2)) = (if k = key then Some p1 else map_find k (rm_props (sre_ruleMaps st)))" for k
      using Cons.prems(2) s1 by (simp add: st2_def map_find_assign)
    have k1: "createUniqueKey p1 = key" "ip_elements p1 = []" using s1 key by (simp_all add: createUniqueKey_def IndiProperty_new_def)
    have s2: "app_useINDI st2" "map_wf (rm_props (sre_ruleMaps st2))" "rm_rules (sre_ruleMaps st2) = rm_rules (sre_ruleMaps st)"
      "elems q st2 = elems q st" for q
      using s1 Cons.prems(2) by (simp_all add: st2_def map_wf_assign)
    note IH = Cons.IH [OF s2(1,2) rest]
    have "map_find k (rm_props (sre_ruleMaps st')) = None \<longleftrightarrow> map_find k (rm_props (sre_ruleMaps st)) = None" for k
      using IH p2 [of k] Some by auto
    moreover have "if k \<in> set (key # keys) then createUniqueKey ip = k \<and> ip_elements ip = [] else map_find k (rm_props (sre_ruleMaps st)) = Some ip"
      if "map_find k (rm_props (sre_ruleMaps st')) = Some ip" for k ip
    proof -
      have "if k \<in> set keys then createUniqueKey ip = k \<and> ip_elements ip = [] else map_find k (rm_props (sre_ruleMaps st2)) = Some ip"
        using IH that by blast
      then show ?thesis using p2 [of k] k1 by (auto split: if_splits)
    qed
    ultimately show ?thesis using IH s2(3,4) by simp
  qed
qed simp

lemma startup_rules_rv: "startup_rules rs st = (rv, st') \<Longrightarrow> rv = None \<or> rv = Some 0 \<or> rv = Some (- 1)"
proof (induction rs st rule: startup_rules.induct)
  case (2 name r rs st)
  obtain rv1 st1 where 1: "startup_rule name r st = (rv1, st1)" by fastforce
  then have "rv1 = None \<or> rv1 = Some 0 \<or> rv1 = Some (- 1)"
    by (auto simp: startup_rule_def Let_def split: option.splits prod.splits if_splits sum.splits)
  then show ?case using 2 1 by auto
qed simp

lemma startup_props_rv: "startup_props keys st = (rv, st') \<Longrightarrow> rv = 0 \<or> rv = - 1"
  by (induction keys arbitrary: st) (auto simp: Let_def split: prod.splits if_splits option.splits)

lemma appStartup_inv:
  assumes ok: "rules_ok (sre_ruleMaps st)" and indi: "app_useINDI st"
    and fresh: "\<And>p q. ruleStateProperty p st = Some q \<Longrightarrow> ip_elements q = []"
    and s: "sre_appStartup l st = (Some 0, st')"
  shows "sre_inv st' \<and> rm_rules (sre_ruleMaps st') = rm_rules (sre_ruleMaps st) \<and>
    (\<forall>key ip. map_find key (rm_props (sre_ruleMaps st')) = Some ip \<longrightarrow> ip_elements ip = [])"
proof -
  let ?m = "sre_ruleMaps st"
  have wf: "map_wf (rm_rules ?m)" "map_wf (rm_props ?m)" using ok by (simp_all add: rules_ok_def)
  have el0: "elems q st = []" for q using fresh [of q] by (simp add: elems_def split: option.split)
  obtain rv1 st1 where 1: "startup_rules (rm_rules ?m) st = (rv1, st1)" by fastforce
  have rv1: "rv1 = Some 0" using s 1 by (auto simp: sre_appStartup_def split: if_splits)
  have reg: "prio_registered st" using fresh by (simp add: prio_registered_def)
  have "rv1 = Some 0 \<longrightarrow> app_useINDI st1 \<and> sre_ruleMaps st1 = ?m \<and>
       (\<forall>(n, r) \<in> set (rm_rules ?m). r_priority r \<noteq> prio_none \<longrightarrow> map_find n (elems (r_priority r) st1) \<noteq> None)"
    using startup_rules_ok [OF reg indi map_wf_distinct [OF wf(1)] _ 1] el0 by (simp add: map_find_def)
  then have s1: "app_useINDI st1" "sre_ruleMaps st1 = ?m"
    "\<forall>(n, r) \<in> set (rm_rules ?m). r_priority r \<noteq> prio_none \<longrightarrow> map_find n (elems (r_priority r) st1) \<noteq> None"
    using rv1 by blast+
  obtain rv2 st2 where 2: "startup_props (map fst (rm_props ?m)) st1 = (rv2, st2)" by fastforce
  have rv_le: "rv2 = 0 \<or> rv2 = - 1"
    using startup_props_rv [OF 2] .
  have st': "rv2 = 0" "st' = set_state l READY False st2"
    using s 1 2 rv1 s1(2) rv_le by (auto simp: sre_appStartup_def split: if_splits)
  have wf1: "map_wf (rm_props (sre_ruleMaps st1))" using wf s1 by simp
  note P = startup_props_ok [OF s1(1) wf1 2 [unfolded st'(1)]]
  have "elems q st' = elems q st2" for q
    using st'(2) by simp
  then have el: "elems q st' = elems q st1" for q
    using P by simp
  have maps: "sre_ruleMaps st' = sre_ruleMaps st2" using st' by simp
  have "points_into (rm_props (sre_ruleMaps st2)) = points_into (rm_props ?m)"
    using P s1(2) by (auto simp: points_into_def fun_eq_iff split: option.splits)
  then have "pointers_ok (sre_ruleMaps st2)"
    using rules_ok_pointers [OF ok] P s1(2) by (simp add: pointers_ok_def)
  moreover have "createUniqueKey ip = key \<and> ip_elements ip = []" if "map_find key (rm_props (sre_ruleMaps st2)) = Some ip" for key ip
  proof -
    have "map_find key (rm_props ?m) \<noteq> None" using P that s1(2) by (metis option.distinct(1))
    then have "key \<in> set (map fst (rm_props ?m))" by (simp add: map_find_def map_of_eq_None_iff)
    with P that show ?thesis by metis
  qed
  moreover have "map_find n (elems (r_priority r) st1) \<noteq> None"
    if "map_find n (rm_rules ?m) = Some r" "r_priority r \<noteq> prio_none" for n r
    using s1(3) that smap.items_find [OF wf(1), of n r] by auto
  ultimately show ?thesis
    using P s1(2) maps el by (simp add: sre_inv_def)
qed


subsection \<open>Operation\<close>

text \<open>A pass that returns, whatever the properties hold.\<close>

lemma log_diagnostics_frame:
  assumes "map_wf (rm_rules (sre_ruleMaps st))" "log_diagnostics d name st = Some st'"
  shows "publish_frame name None p st st'"
proof -
  obtain ds m where m: "drain_diagnostics (Suc (pending_count (sre_ruleMaps st))) d name (sre_ruleMaps st) = Some (ds, m)"
    "st' = sre_emit (map SreLogError ds) (st\<lparr>sre_ruleMaps := m\<rparr>)"
    using assms(2) by (auto simp: log_diagnostics_def bind_eq_Some_conv)
  have "eval_frame (sre_ruleMaps st) m" using drain_frame [OF assms(1) m(1)] .
  then show ?thesis
    using m(2) eval_frame_static [OF _ assms(1)] by (auto simp: publish_frame_quiet eval_frame_def)
qed

lemma logic_rule_returned:
  assumes wf: "map_wf (rm_rules (sre_ruleMaps st))" and s: "logic_rule d ltr env name st = Some (rv, st')"
  shows "\<exists>w p. publish_frame name w p st st'"
proof -
  obtain r where r: "map_find name (rm_rules (sre_ruleMaps st)) = Some r"
    using s by (cases "map_find name (rm_rules (sre_ruleMaps st))") (auto simp: logic_rule_def)
  have quiet: "publish_frame name None p st st" for p using wf by (simp add: publish_frame_quiet)
  show ?thesis
  proof (cases "r_priority r = prio_none")
    case True
    then show ?thesis using s r quiet by (auto simp: logic_rule_def)
  next
    case False
    obtain v m st1 where 1: "rule_value d ltr (en_clk env name) name (sre_ruleMaps st) = Some (v, m)"
      "log_diagnostics d name (st\<lparr>sre_ruleMaps := m\<rparr>) = Some st1"
      using s r False by (auto simp: logic_rule_def bind_eq_Some_conv)
    have m: "eval_frame (sre_ruleMaps st) m" using rule_value_frame [OF wf 1(1)] .
    have f0: "publish_frame name None p st (st\<lparr>sre_ruleMaps := m\<rparr>)" for p
      using m eval_frame_static [OF m wf] by (simp add: publish_frame_quiet eval_frame_def)
    have "publish_frame name None p (st\<lparr>sre_ruleMaps := m\<rparr>) st1" for p
      using m 1(2) by (intro log_diagnostics_frame) (simp_all add: eval_frame_def)
    then have f1: "publish_frame name None p st st1" for p using publish_frame_before [OF f0] by blast
    show ?thesis
    proof (cases v)
      case (Inl x)
      then show ?thesis using s r False 1 f1 by (auto simp: logic_rule_def)
    next
      case (Inr val)
      have wf1: "map_wf (rm_rules (sre_ruleMaps st1))" using f1 by (simp add: publish_frame_quiet)
      obtain r1 where r1: "map_find name (rm_rules (sre_ruleMaps st1)) = Some r1"
        using s r False 1 Inr by (cases "map_find name (rm_rules (sre_ruleMaps st1))") (auto simp: logic_rule_def)
      obtain rv2 caught st2 where p: "publish_rule env name val r1 st1 = (rv2, caught, st2)" using prod_cases3 by blast
      have f2: "publish_frame name (Some val) (r_priority r1) st st2"
        using publish_rule_frame [OF wf1 r1 p] publish_frame_before [OF f1] by blast
      have "(if caught then log_diagnostics d name st2 else Some st2) = Some st'"
        using s r False 1 Inr r1 p by (auto simp: logic_rule_def bind_eq_Some_conv split: if_splits)
      then have "publish_frame name None (r_priority r1) st2 st'"
      proof (cases caught)
        case True
        then show ?thesis
          using \<open>(if caught then _ else _) = _\<close> f2 by (intro log_diagnostics_frame) (simp_all add: publish_frame_def)
      next
        case False
        then show ?thesis
          using \<open>(if caught then _ else _) = _\<close> f2 by (simp add: publish_frame_quiet) (simp add: publish_frame_def)
      qed
      then show ?thesis using publish_frame_after [OF f2] by blast
    qed
  qed
qed

lemma frame_inv:
  assumes "sre_inv st" "publish_frame name w p st st'"
  shows "sre_inv st'"
proof -
  have s: "static (sre_ruleMaps st') = static (sre_ruleMaps st)" using assms(2) by (simp add: publish_frame_def)
  have keys: "map_find k (elems q st') = None \<longleftrightarrow> map_find k (elems q st) = None" for q k
    using assms(2) by (simp add: publish_frame_def)
  have "rm_props (sre_ruleMaps st') = rm_props (sre_ruleMaps st)" using s static_props by metis
  moreover have "pointers_ok (sre_ruleMaps st')" using assms(1) s pointers_ok_static sre_inv_def by metis
  moreover have "map_find n (elems (r_priority r) st') \<noteq> None"
    if r: "map_find n (rm_rules (sre_ruleMaps st')) = Some r" "r_priority r \<noteq> prio_none" for n r
  proof -
    obtain r0 where r0: "map_find n (rm_rules (sre_ruleMaps st)) = Some r0" "static_rule r0 = static_rule r"
      by (rule static_eq_find [OF s [symmetric] r(1)])
    have "r_priority r0 = r_priority r" using r0(2) by (metis static_rule_simps(3))
    then show ?thesis using assms(1) r0(1) r(2) keys unfolding sre_inv_def by metis
  qed
  ultimately show ?thesis using assms(1) by (simp add: sre_inv_def)
qed

lemma logic_rule_inv:
  assumes "sre_inv st" "logic_rule d ltr env n st = Some (rv, st')"
  shows "sre_inv st'"
proof -
  have "map_wf (rm_rules (sre_ruleMaps st))" using assms(1) by (simp add: sre_inv_def pointers_ok_def)
  then show ?thesis using logic_rule_returned [OF _ assms(2)] frame_inv [OF assms(1)] by blast
qed

lemma newCallBack_inv:
  assumes "sre_inv st"
  shows "sre_inv (snd (newCallBack_ruleProp ip st))"
proof (cases "map_find (createUniqueKey ip) (rm_props (sre_ruleMaps st))")
  case None
  then show ?thesis using assms by (simp add: newCallBack_ruleProp_def)
next
  case (Some ip0)
  let ?m = "(sre_ruleMaps st)\<lparr>rm_props := map_assign (createUniqueKey ip) ip (rm_props (sre_ruleMaps st))\<rparr>"
  have wf: "map_wf (rm_props (sre_ruleMaps st))" using assms by (simp add: sre_inv_def)
  have find: "map_find k (rm_props ?m) = (if k = createUniqueKey ip then Some ip else map_find k (rm_props (sre_ruleMaps st)))" for k
    using wf by (simp add: map_find_assign)
  have "points_into (rm_props ?m) = points_into (rm_props (sre_ruleMaps st))"
    using Some find by (auto simp: points_into_def fun_eq_iff split: option.splits)
  then have "pointers_ok ?m" using assms by (simp add: sre_inv_def pointers_ok_def)
  then show ?thesis
    using assms Some find wf by (auto simp: newCallBack_ruleProp_def sre_inv_def map_wf_assign Let_def map_find_assign)
qed

text \<open>
  The states of the engine: configured, started up, and then receiving properties and evaluating
  rules in any order, with any environment. A pass evaluates the rules one after the other, and
  a property can be received between two of them.
\<close>

definition sre_fresh :: "stateRuleEngine \<Rightarrow> bool" where
  "sre_fresh st \<longleftrightarrow> rm_rules (sre_ruleMaps st) = [] \<and> rm_props (sre_ruleMaps st) = [] \<and> app_useINDI st \<and>
     ip_elements (sre_info st) = [] \<and> ip_elements (sre_caution st) = [] \<and>
     ip_elements (sre_warning st) = [] \<and> ip_elements (sre_alert st) = []"

inductive sre_reach :: "stateRuleEngine \<Rightarrow> bool" where
  start: "sre_fresh st \<Longrightarrow> sre_loadConfigImpl cfg dir files st = Some (0, st1) \<Longrightarrow>
          sre_appStartup l st1 = (Some 0, st2) \<Longrightarrow> sre_reach st2"
| receive: "sre_reach st \<Longrightarrow> sre_reach (snd (newCallBack_ruleProp ip st))"
| logic: "sre_reach st \<Longrightarrow> logic_rule d ltr env n st = Some (rv, st') \<Longrightarrow> sre_reach st'"

lemma sre_reach_inv: "sre_reach st \<Longrightarrow> sre_inv st"
proof (induction rule: sre_reach.induct)
  case (start st cfg dir files st1 l st2)
  have l: "rules_ok (sre_ruleMaps st1)" "\<exists>d m. st1 = st\<lparr>sre_ruleDir := d, sre_ruleMaps := m\<rparr>"
    using sre_loadConfigImpl_ok [OF _ _ start(2)] start(1) by (auto simp: sre_fresh_def)
  have "ip_elements q = []" if "ruleStateProperty p st1 = Some q" for p q
    using l(2) start(1) that by (cases p) (auto simp: sre_fresh_def)
  moreover have "app_useINDI st1" using l(2) start(1) by (auto simp: sre_fresh_def)
  ultimately show ?case using appStartup_inv [OF l(1) _ _ start(3)] by blast
next
  case (receive st ip)
  then show ?case by (simp add: newCallBack_inv)
next
  case (logic st d ltr env n rv st')
  then show ?case by (blast intro: logic_rule_inv)
qed


section \<open>Results\<close>

lemma inv_evaluable:
  "sre_inv st \<Longrightarrow> numbers_filled (sre_ruleMaps st) \<Longrightarrow> acyclic (calls (sre_ruleMaps st)) \<Longrightarrow>
     length (rm_rules (sre_ruleMaps st)) \<le> d \<Longrightarrow> evaluable d (sre_ruleMaps st)"
  by (simp add: sre_inv_def evaluable_def)

lemma published_publish_value:
  assumes "map_find n (elems p st') = map_option (publish_value w) (map_find n (elems p st))" "map_find n (elems p st) \<noteq> None"
  shows "published p n st' = (case w of None \<Rightarrow> published p n st | Some b \<Rightarrow> b)"
  using assms by (auto simp: published_def publish_value_def split: option.splits)

text \<open>
  What the observers of the priority properties see: the properties, and those that were sent. One rule
  with a value sets its element in the property of its priority, and the property is sent
  exactly when the element or the state of the property changes; nothing else changes.
\<close>

type_synonym rule_view = "(rulePriority \<Rightarrow> IndiProperty option) \<times> IndiProperty list"

definition rule_sends :: "sre_event list \<Rightarrow> IndiProperty list" where
  "rule_sends evs = concat (map (\<lambda>e. case e of SendRuleProperty p \<Rightarrow> [p] | _ \<Rightarrow> []) evs)"

definition rule_view_of :: "stateRuleEngine \<Rightarrow> rule_view" where
  "rule_view_of st = ((\<lambda>p. ruleStateProperty p st), rule_sends (sre_events st))"

fun show_value :: "string \<times> rulePriority \<times> bool option \<Rightarrow> rule_view \<Rightarrow> rule_view" where
  "show_value (n, p, w) (props, sent) =
     (case (w, props p) of
        (Some b, Some ip) \<Rightarrow>
          (case map_find n (ip_elements ip) of
             None \<Rightarrow> (props, sent)
           | Some e \<Rightarrow>
               let s = (if b then On else Off); ip' = (set_switch n s ip)\<lparr>ip_state := Ok\<rparr>
               in if ie_switch e = s \<and> ip_state ip = Ok then (props, sent) else (props(p := Some ip'), sent @ [ip']))
      | _ \<Rightarrow> (props, sent))"

lemma rule_sends_simps [simp]: "rule_sends [] = []" "rule_sends (map SendRuleProperty ps) = ps" "rule_sends (map SreLogError ds) = []"
  "rule_sends (evs @ evs') = rule_sends evs @ rule_sends evs'"
  "rule_sends (e # evs) = (case e of SendRuleProperty p \<Rightarrow> p # rule_sends evs | _ \<Rightarrow> rule_sends evs)"
  by (auto simp: rule_sends_def comp_def split: sre_event.split)

lemma ruleStateProperty_emit [simp]: "ruleStateProperty p (sre_emit evs st) = ruleStateProperty p st"
  by (cases p) (simp_all add: sre_emit_def)

lemma ruleStateProperty_maps [simp]: "ruleStateProperty p (st\<lparr>sre_ruleMaps := m\<rparr>) = ruleStateProperty p st"
  by (cases p) simp_all

lemma view_set_rule [simp]: "rule_view_of (set_rule n r st) = rule_view_of st"
  by (simp add: rule_view_of_def set_rule_def Let_def)

lemma view_maps [simp]: "rule_view_of (st\<lparr>sre_ruleMaps := m\<rparr>) = rule_view_of st"
  by (simp add: rule_view_of_def)

lemma view_emit: "rule_view_of (sre_emit evs st) = (fst (rule_view_of st), snd (rule_view_of st) @ rule_sends evs)"
  by (simp add: rule_view_of_def)

lemma view_send [simp]: "rule_view_of (snd (sendNotification ok msg st)) = rule_view_of st"
  by (auto simp: sendNotification_def view_emit prod_eq_iff)

lemma view_diagnostics: "log_diagnostics d n st = Some st' \<Longrightarrow> rule_view_of st' = rule_view_of st"
  by (auto simp: log_diagnostics_def bind_eq_Some_conv view_emit)

lemma view_notify: "notify_rule env n val wasOn r st = (rv, caught, st') \<Longrightarrow> rule_view_of st' = rule_view_of st"
  by (cases val) (auto simp: notify_rule_def Let_def case_prod_unfold split: sum.splits bool.splits if_splits)

lemma view_publish:
  assumes "publish_rule env n val r st = (rv, caught, st')" "app_driver st"
  shows "rule_view_of st' = show_value (n, r_priority r, Some val) (rule_view_of st)"
proof (cases "ruleStateProperty (r_priority r) st")
  case None
  then show ?thesis using assms by (simp add: publish_rule_def rule_view_of_def)
next
  case (Some p)
  obtain p' sent where u: "updateSwitchIfChanged True n (if val then On else Off) Ok p = (p', sent)" by fastforce
  define st1 where "st1 = sre_emit (map SendRuleProperty sent) (set_ruleStateProperty (r_priority r) p' st)"
  have "notify_rule env n val (ruleIsOn p n) r st1 = (rv, caught, st')"
    using assms Some u by (simp add: publish_rule_def Let_def st1_def)
  then have "rule_view_of st' = rule_view_of st1" by (rule view_notify)
  moreover have "r_priority r \<noteq> prio_none" using Some by (metis option.distinct(1) ruleStateProperty_simps(5))
  then have "fst (rule_view_of st1) = (fst (rule_view_of st))(r_priority r := Some p')" "snd (rule_view_of st1) = snd (rule_view_of st) @ sent"
    by (cases "r_priority r"; auto simp: st1_def view_emit rule_view_of_def fun_eq_iff; case_tac x; simp)+
  moreover have "show_value (n, r_priority r, Some val) (rule_view_of st) =
      ((fst (rule_view_of st))(r_priority r := Some p'), snd (rule_view_of st) @ sent)"
    using u Some by (auto simp: rule_view_of_def updateSwitchIfChanged_def property_at_def Let_def fun_upd_idem split: option.splits if_splits)
  ultimately show ?thesis by (simp add: prod_eq_iff)
qed


lemma view_logic_rule:
  assumes ev: "evaluable d (sre_ruleMaps st)" and r: "map_find n (rm_rules (sre_ruleMaps st)) = Some r" and drv: "app_driver st"
    and l: "logic_rule d ltr env n st = Some (rv, st')" and w: "rule_denotes (sre_ruleMaps st) (en_clk env n) n w"
  shows "rule_view_of st' = show_value (n, r_priority r, w) (rule_view_of st)"
proof (cases "r_priority r = prio_none")
  case True
  then show ?thesis using l r by (auto simp: logic_rule_def rule_view_of_def split: option.splits)
next
  case False
  have ok: "pointers_ok (sre_ruleMaps st)" "numbers_filled (sre_ruleMaps st)" "acyclic (calls (sre_ruleMaps st))"
    "length (rm_rules (sre_ruleMaps st)) \<le> d" "map_find n (rm_rules (sre_ruleMaps st)) \<noteq> None"
    using ev r by (auto simp: evaluable_def)
  obtain v m where v: "rule_value d ltr (en_clk env n) n (sre_ruleMaps st) = Some (v, m)"
    "static m = static (sre_ruleMaps st)" "w = value_ok v"
    using rule_value_result [OF ok(1-3) ok(5) ok(4)] w by blast
  obtain st1 where st1: "log_diagnostics d n (st\<lparr>sre_ruleMaps := m\<rparr>) = Some st1"
    using l r False v(1) by (auto simp: logic_rule_def bind_eq_Some_conv)
  have v1: "rule_view_of st1 = rule_view_of st" using view_diagnostics [OF st1] by simp
  have d1: "app_driver st1" using st1 drv by (auto simp: log_diagnostics_def bind_eq_Some_conv)
  show ?thesis
  proof (cases v)
    case (Inl x)
    then have "rule_view_of st' = rule_view_of st1" using l r False v(1) st1 by (auto simp: logic_rule_def)
    then show ?thesis using v1 v(3) Inl by (cases "rule_view_of st") (simp add: value_ok_def)
  next
    case (Inr val)
    have "evaluable d (sre_ruleMaps (st\<lparr>sre_ruleMaps := m\<rparr>))" using ev evaluable_static [OF v(2)] by simp
    moreover obtain r0 where "map_find n (rm_rules m) = Some r0" by (rule static_eq_find [OF v(2) r])
    ultimately obtain st1' where "log_diagnostics d n (st\<lparr>sre_ruleMaps := m\<rparr>) = Some st1'" "publish_frame n None prio_none (st\<lparr>sre_ruleMaps := m\<rparr>) st1'"
      using log_diagnostics_total by fastforce
    then have s1: "static (sre_ruleMaps st1) = static (sre_ruleMaps st)" using st1 v(2) by (simp add: publish_frame_quiet)
    obtain r1 where r1: "map_find n (rm_rules (sre_ruleMaps st1)) = Some r1" "static_rule r1 = static_rule r"
      by (rule static_eq_find [OF s1 r])
    have prio: "r_priority r1 = r_priority r" using r1(2) by (metis static_rule_simps(3))
    obtain rv' caught st2 where p: "publish_rule env n val r1 st1 = (rv', caught, st2)" using prod_cases3 by blast
    have "rule_view_of st' = rule_view_of st2"
      using l r False v(1) st1 Inr r1(1) p by (cases caught) (auto simp: logic_rule_def bind_eq_Some_conv dest: view_diagnostics)
    then show ?thesis using view_publish [OF p d1] prio v1 v(3) Inr by (simp add: value_ok_def)
  qed
qed

lemma view_logic_rules:
  assumes "evaluable d (sre_ruleMaps st)" "app_driver st" "logic_rules d ltr env names st = Some (0, st')"
    and "\<And>n. n \<in> set names \<Longrightarrow> \<exists>r. map_find n (rm_rules (sre_ruleMaps st)) = Some r \<and> r_priority r = prio n \<and>
      rule_denotes (sre_ruleMaps st) (en_clk env n) n (val n)"
  shows "rule_view_of st' = fold show_value (map (\<lambda>n. (n, prio n, val n)) names) (rule_view_of st)"
  using assms
proof (induction names arbitrary: st)
  case (Cons n names)
  obtain r where r: "map_find n (rm_rules (sre_ruleMaps st)) = Some r" "r_priority r = prio n"
    "rule_denotes (sre_ruleMaps st) (en_clk env n) n (val n)" using Cons.prems(4) [OF list.set_intros(1)] by blast
  obtain rv st1 w where 1: "logic_rule d ltr env n st = Some (rv, st1)" "rv = None \<or> rv = Some (- 1)" "publish_frame n w (r_priority r) st st1"
    using logic_rule_frame [OF Cons.prems(1) r(1)] by blast
  have s: "static (sre_ruleMaps st1) = static (sre_ruleMaps st)" "app_driver st1 = app_driver st"
    using 1(3) by (auto simp: publish_frame_def)
  have rest: "logic_rules d ltr env names st1 = Some (0, st')" using Cons.prems(3) 1(1,2) by auto
  have "\<exists>r'. map_find j (rm_rules (sre_ruleMaps st1)) = Some r' \<and> r_priority r' = prio j \<and>
      rule_denotes (sre_ruleMaps st1) (en_clk env j) j (val j)" if j: "j \<in> set names" for j
  proof -
    obtain rj where rj: "map_find j (rm_rules (sre_ruleMaps st)) = Some rj" "r_priority rj = prio j"
      "rule_denotes (sre_ruleMaps st) (en_clk env j) j (val j)" using Cons.prems(4) [OF list.set_intros(2) [OF j]] by blast
    obtain r1 where "map_find j (rm_rules (sre_ruleMaps st1)) = Some r1" "static_rule r1 = static_rule rj"
      by (rule static_eq_find [OF s(1) rj(1)])
    moreover from this(2) have "r_priority r1 = r_priority rj" by (metis static_rule_simps(3))
    ultimately show ?thesis using rj rule_denotes_static [OF s(1)] by auto
  qed
  from Cons.IH [OF _ _ rest this] have "rule_view_of st' = fold show_value (map (\<lambda>n. (n, prio n, val n)) names) (rule_view_of st1)"
    using Cons.prems(1,2) evaluable_static [OF s(1)] s(2) by blast
  then show ?case using view_logic_rule [OF Cons.prems(1) r(1) Cons.prems(2) 1(1) r(3)] r(2) by simp
qed simp

lemma view_pass:
  assumes ev: "evaluable d (sre_ruleMaps st)" and drv: "app_driver st" and l: "sre_appLogic d ltr env st = Some (0, st')"
  shows "\<exists>val. (\<forall>(n, r) \<in> set (rm_rules (sre_ruleMaps st)). rule_denotes (sre_ruleMaps st) (en_clk env n) n (val n)) \<and>
    rule_view_of st' = fold show_value (map (\<lambda>(n, r). (n, r_priority r, val n)) (rm_rules (sre_ruleMaps st))) (rule_view_of st)"
proof -
  let ?m = "sre_ruleMaps st"
  define prio where "prio n = r_priority (the (map_find n (rm_rules ?m)))" for n
  have ok: "pointers_ok ?m" "numbers_filled ?m" "acyclic (calls ?m)" "length (rm_rules ?m) \<le> d" "map_wf (rm_rules ?m)"
    using ev by (auto simp: evaluable_def pointers_ok_def)
  have find: "map_find n (rm_rules ?m) = Some r" if "(n, r) \<in> set (rm_rules ?m)" for n r
    using map_wf_distinct [OF ok(5)] that by (simp add: map_find_def)
  have "\<exists>w. map_find n (rm_rules ?m) \<noteq> None \<longrightarrow> rule_denotes ?m (en_clk env n) n w" for n
  proof (cases "map_find n (rm_rules ?m) \<noteq> None")
    case True
    then show ?thesis using rule_value_result [OF ok(1-3) True ok(4), of ltr "en_clk env n"] by blast
  qed blast
  then obtain val where val: "\<forall>n. map_find n (rm_rules ?m) \<noteq> None \<longrightarrow> rule_denotes ?m (en_clk env n) n (val n)" by metis
  have "rule_view_of st' = fold show_value (map (\<lambda>n. (n, prio n, val n)) (map fst (rm_rules ?m))) (rule_view_of st)"
  proof (rule view_logic_rules [OF ev drv l [unfolded sre_appLogic_def]])
    fix n assume "n \<in> set (map fst (rm_rules ?m))"
    then obtain r where "(n, r) \<in> set (rm_rules ?m)" by auto
    then have "map_find n (rm_rules ?m) = Some r" by (rule find)
    then show "\<exists>r. map_find n (rm_rules ?m) = Some r \<and> r_priority r = prio n \<and> rule_denotes ?m (en_clk env n) n (val n)"
      using val by (simp add: prio_def)
  qed
  moreover have "map (\<lambda>n. (n, prio n, val n)) (map fst (rm_rules ?m)) = map (\<lambda>(n, r). (n, r_priority r, val n)) (rm_rules ?m)"
    using find by (auto simp: prio_def)
  moreover have "\<forall>(n, r) \<in> set (rm_rules ?m). rule_denotes ?m (en_clk env n) n (val n)" using val find by auto
  ultimately show ?thesis by (intro exI [of _ val]) (simp only:)
qed

text \<open>C10: A pass, during which no property is received, publishes the values of the rules. From every state that satisfies the invariant, \<open>appLogic\<close>
  returns 0, or -1 when a notification cannot be sent, and stays in bounds; when it returns 0,
  every rule with a priority is shown in the property of its priority with the value of its
  expression, and a rule whose evaluation throws is shown as before. The priority properties and
  the messages with them are exactly those of showing the rules one after the other in the order of their
  names: an element changes only by its own rule, and a property is sent exactly when it changes.
  The configuration is not changed.
\<close>

theorem appLogic_publishes:
  assumes "sre_inv st" "numbers_filled (sre_ruleMaps st)" "acyclic (calls (sre_ruleMaps st))"
    and "length (rm_rules (sre_ruleMaps st)) \<le> d" "app_driver st"
  shows "\<exists>rv st'. sre_appLogic d ltr env st = Some (rv, st') \<and> (rv = 0 \<or> rv = - 1) \<and>
     static (sre_ruleMaps st') = static (sre_ruleMaps st) \<and>
     (rv = 0 \<longrightarrow>
        (\<forall>n r w. map_find n (rm_rules (sre_ruleMaps st)) = Some r \<longrightarrow> r_priority r \<noteq> prio_none \<longrightarrow>
           rule_denotes (sre_ruleMaps st) (en_clk env n) n w \<longrightarrow>
           published (r_priority r) n st' = (case w of None \<Rightarrow> published (r_priority r) n st | Some b \<Rightarrow> b)) \<and>
        (\<exists>val. (\<forall>(n, r) \<in> set (rm_rules (sre_ruleMaps st)). rule_denotes (sre_ruleMaps st) (en_clk env n) n (val n)) \<and>
           rule_view_of st' = fold show_value (map (\<lambda>(n, r). (n, r_priority r, val n)) (rm_rules (sre_ruleMaps st))) (rule_view_of st)))"
proof -
  let ?m = "sre_ruleMaps st"
  have ev: "evaluable d ?m" by (rule inv_evaluable [OF assms(1-4)])
  have wf: "map_wf (rm_rules ?m)" using ev by (simp add: evaluable_def pointers_ok_def)
  obtain rv st' where 1: "sre_appLogic d ltr env st = Some (rv, st')" "rv = 0 \<or> rv = - 1" "static (sre_ruleMaps st') = static ?m"
    "rv = 0 \<longrightarrow> published_after env (map fst (rm_rules ?m)) st st'"
    using appLogic_result [OF ev] by blast
  have "published (r_priority r) n st' = (case w of None \<Rightarrow> published (r_priority r) n st | Some b \<Rightarrow> b)"
    if n: "rv = 0" "map_find n (rm_rules ?m) = Some r" "r_priority r \<noteq> prio_none" "rule_denotes ?m (en_clk env n) n w" for n r w
  proof (rule published_publish_value)
    have "n \<in> set (map fst (rm_rules ?m))" using n(2) by (force simp: map_find_def dest: map_of_SomeD)
    then show "map_find n (elems (r_priority r) st') = map_option (publish_value w) (map_find n (elems (r_priority r) st))"
      using 1(4) n assms(5) unfolding published_after_def by blast
    show "map_find n (elems (r_priority r) st) \<noteq> None" using assms(1) n(2,3) unfolding sre_inv_def by blast
  qed
  moreover have "\<exists>val. (\<forall>(n, r) \<in> set (rm_rules ?m). rule_denotes ?m (en_clk env n) n (val n)) \<and>
      rule_view_of st' = fold show_value (map (\<lambda>(n, r). (n, r_priority r, val n)) (rm_rules ?m)) (rule_view_of st)" if "rv = 0"
    using view_pass [OF ev assms(5)] 1(1) that by blast
  ultimately show ?thesis using 1(1-3) by blast
qed

text \<open>An engine with the sample configuration, and its states after startup and a received property.\<close>

definition sample_engine :: stateRuleEngine where
  "sample_engine =
     \<lparr>app_configName = ''rules'', app_useINDI = True, app_driver = True, app_outGoing = False, app_newCallBacks = [],
      app_setCallBacks = [], app_allDefsReceived = False, app_events = [],
      ma_state = UNINITIALIZED, ma_stateAlert = False, ma_stateLogged = 0,
      ma_indiP_state = (IndiProperty_new Text ''rules'' ''fsm'')\<lparr>ip_elements := [(''state'', IndiElement_new ''state'' [])]\<rparr>,
      ma_indiP_clearFSMAlert = IndiProperty_new Switch ''rules'' ''fsm_clear_alert'', ma_powerMgtEnabled = False,
      ma_powerElement = ''state'', ma_powerTargetElement = ''target'', ma_powerOnWait = 55, ma_powerOnCounter = - 1,
      ma_powerState = - 1, ma_powerTargetState = - 1, ma_loopPause = 1000000000, ma_shutdown = 0, ma_actions = [],
      sre_ruleDir = [], sre_ruleMaps = \<lparr>rm_rules = [], rm_props = []\<rparr>,
      sre_info = IndiProperty_new Unknown [] [], sre_caution = IndiProperty_new Unknown [] [],
      sre_warning = IndiProperty_new Unknown [] [], sre_alert = IndiProperty_new Unknown [] [],
      sre_events = []\<rparr>"

definition sample_configured :: stateRuleEngine where
  "sample_configured = snd (the (sre_loadConfigImpl sample_config None None sample_engine))"

definition sample_started :: stateRuleEngine where
  "sample_started = snd (sre_appStartup True sample_configured)"

definition sample_temp :: IndiProperty where
  "sample_temp = (IndiProperty_new Number ''cam'' ''temp'')\<lparr>ip_elements := [(''current'', IndiElement_new ''current'' ''21.5'')]\<rparr>"

definition sample_running :: stateRuleEngine where
  "sample_running = snd (newCallBack_ruleProp sample_temp sample_started)"

lemma sample_reach: "sre_reach sample_running"
proof -
  have 1: "fst (the (sre_loadConfigImpl sample_config None None sample_engine)) = 0"
    "sre_loadConfigImpl sample_config None None sample_engine \<noteq> None"
    "fst (sre_appStartup True sample_configured) = Some 0"
    by code_simp+
  have "sre_loadConfigImpl sample_config None None sample_engine = Some (0, sample_configured)"
    using 1(1,2) by (cases "the (sre_loadConfigImpl sample_config None None sample_engine)") (auto simp: sample_configured_def)
  moreover have "sre_appStartup True sample_configured = (Some 0, sample_started)"
    using 1(3) by (metis prod.collapse sample_started_def)
  moreover have "sre_fresh sample_engine" by (simp add: sre_fresh_def sample_engine_def IndiProperty_new_def)
  ultimately have "sre_reach sample_started" by (rule sre_reach.start [rotated])
  then show ?thesis unfolding sample_running_def by (rule sre_reach.receive)
qed

lemma sample_running_ok:
  "numbers_filled (sre_ruleMaps sample_running)" "length (rm_rules (sre_ruleMaps sample_running)) = 3" "app_driver sample_running"
  "acyclic (calls (sre_ruleMaps sample_running))"
proof -
  show "numbers_filled (sre_ruleMaps sample_running)" "length (rm_rules (sre_ruleMaps sample_running)) = 3" "app_driver sample_running"
    by code_simp+
  have "map (\<lambda>(n, r). (n, kind_rules (r_kind r))) (rm_rules (sre_ruleMaps sample_running)) =
     [(''dark'', []), (''hot'', []), (''warm'', [Some ''hot'', Some ''dark''])]"
    by code_simp
  then show "acyclic (calls (sre_ruleMaps sample_running))"
    by (intro acyclic_by_rank [where rank = "\<lambda>n. if n = ''warm'' then 1 else 0"]) auto
qed

definition sample_env :: sre_env where
  "sample_env =
     \<lparr>en_clk = (\<lambda>_ _. \<lparr>tv_sec = 100, tv_nsec = 0\<rparr>), en_since = (\<lambda>_. Some \<lparr>tv_sec = 100, tv_nsec = 0\<rparr>),
      en_now = (\<lambda>_. Some \<lparr>tv_sec = 100, tv_nsec = 0\<rparr>), en_send = (\<lambda>_. True)\<rparr>"

theorem appLogic_publishes_witness:
  "\<exists>st'. sre_appLogic 3 True sample_env sample_running = Some (0, st') \<and> published prio_info ''hot'' st'"
proof -
  let ?m = "sre_ruleMaps sample_running"
  have len: "length (rm_rules ?m) \<le> 3" using sample_running_ok(2) by simp
  obtain rv st' where 1: "sre_appLogic 3 True sample_env sample_running = Some (rv, st')"
    "rv = 0 \<longrightarrow> (\<forall>n r w. map_find n (rm_rules ?m) = Some r \<longrightarrow> r_priority r \<noteq> prio_none \<longrightarrow>
        rule_denotes ?m (en_clk sample_env n) n w \<longrightarrow>
        published (r_priority r) n st' = (case w of None \<Rightarrow> published (r_priority r) n sample_running | Some b \<Rightarrow> b))"
    using appLogic_publishes [OF sre_reach_inv [OF sample_reach] sample_running_ok(1,4) len sample_running_ok(3), of True sample_env]
    by blast
  have rv: "map_option fst (sre_appLogic 3 True sample_env sample_running) = Some 0" by code_simp
  have "map_option r_priority (map_find ''hot'' (rm_rules ?m)) = Some prio_info"
    "map_option (\<lambda>r. is_ruleComp (r_kind r)) (map_find ''hot'' (rm_rules ?m)) = Some False"
    "map_option (\<lambda>r. map_option fst (leaf_value (en_clk sample_env ''hot'' []) (rm_props ?m) (r_comparison r) (r_kind r)))
       (map_find ''hot'' (rm_rules ?m)) = Some (Some (Inr True))"
    by code_simp+
  then obtain r where r: "map_find ''hot'' (rm_rules ?m) = Some r" "r_priority r = prio_info" "\<not> is_ruleComp (r_kind r)"
    "map_option fst (leaf_value (en_clk sample_env ''hot'' []) (rm_props ?m) (r_comparison r) (r_kind r)) = Some (Inr True)"
    by auto
  obtain k' where "leaf_value (en_clk sample_env ''hot'' []) (rm_props ?m) (r_comparison r) (r_kind r) = Some (Inr True, k')"
    using r(4) by auto
  from rule_denotes_leaf [where clk = "en_clk sample_env ''hot''", OF r(1,3) this]
  have "rule_denotes ?m (en_clk sample_env ''hot'') ''hot'' (Some True)" by simp
  then show ?thesis using 1 rv r(1,2) by fastforce
qed

text \<open>C8: The notifications of a rule over any sequence of evaluations are those of an alarm: one when its
  condition comes up, with the label of its priority, repeated when the delay of the rule has
  passed since the last one (never when the delay is not positive), and one that says it is
  cleared when the condition goes away. The count of messages and the published switch agree
  throughout, so nothing is sent twice and no change is missed.
\<close>

theorem notifications_alarm:
  assumes "map_wf (rm_rules (sre_ruleMaps st))" "map_find name (rm_rules (sre_ruleMaps st)) = Some r"
    and "app_driver st" "r_priority r \<noteq> prio_none" "map_find name (elems (r_priority r) st) \<noteq> None"
    and "r_messageCount r \<ge> 0" "r_messageCount r = 0 \<longleftrightarrow> \<not> published (r_priority r) name st"
  shows "\<exists>st'. notify_run name xs st = Some st' \<and>
     message_texts (sre_events st') = message_texts (sre_events st) @
       alarm_messages (r_messageDelay r) (notificationLabel (r_priority r) @ '': '' @ rule_detail name r)
         (''INFO: Cleared: '' @ rule_detail name r) (published (r_priority r) name st) (r_lastMsg r) xs"
  using notify_run_messages [OF assms] .

theorem notifications_alarm_witness:
  "\<exists>st'. notify_run ''warm'' (map (\<lambda>t. (t < 50, \<lparr>tv_sec = t, tv_nsec = 0\<rparr>, \<lparr>tv_sec = t, tv_nsec = 0\<rparr>)) [0, 10, 40, 60]) sample_running =
     Some st' \<and> message_texts (sre_events st') =
       [''WARNING: camera is warm '', ''WARNING: camera is warm '', ''INFO: Cleared: camera is warm '']"
proof -
  let ?rs = "rm_rules (sre_ruleMaps sample_running)"
  let ?xs = "map (\<lambda>t. (t < 50, \<lparr>tv_sec = t, tv_nsec = 0\<rparr>, \<lparr>tv_sec = t, tv_nsec = 0\<rparr>)) [0, 10, 40, 60 :: int]"
  have "map_option r_priority (map_find ''warm'' ?rs) = Some prio_warning" "map_option r_message (map_find ''warm'' ?rs) = Some ''camera is warm ''"
    "map_option r_messageCount (map_find ''warm'' ?rs) = Some 0" "map_option r_messageDelay (map_find ''warm'' ?rs) = Some 30"
    "map_option r_lastMsg (map_find ''warm'' ?rs) = Some \<lparr>tv_sec = 0, tv_nsec = 0\<rparr>"
    by code_simp+
  then obtain r where r: "map_find ''warm'' ?rs = Some r" "r_priority r = prio_warning" "r_message r = ''camera is warm ''"
    "r_messageCount r = 0" "r_messageDelay r = 30" "r_lastMsg r = \<lparr>tv_sec = 0, tv_nsec = 0\<rparr>"
    by auto
  have e: "map_wf ?rs" "\<not> published prio_warning ''warm'' sample_running" "message_texts (sre_events sample_running) = []"
    "map_find ''warm'' (elems prio_warning sample_running) \<noteq> None"
    by code_simp+
  have "alarm_messages 30 (''WARNING: '' @ ''camera is warm '') (''INFO: Cleared: '' @ ''camera is warm '') False
      \<lparr>tv_sec = 0, tv_nsec = 0\<rparr> ?xs = [''WARNING: camera is warm '', ''WARNING: camera is warm '', ''INFO: Cleared: camera is warm '']"
    by (simp add: time_of_def)
  then show ?thesis
    using notifications_alarm [OF e(1) r(1) sample_running_ok(3), of ?xs] r e by (simp add: rule_detail_def)
qed

text \<open>C14: In every state the engine can reach (a configuration that was accepted, a successful startup, then
  received properties, of any type and content, and evaluations of rules in any order)
  no pointer of a rule dangles, every rule with a priority has its element in the published
  property, and every property is stored under its own key, so that what is received always
  replaces the right one. If the rules are not cyclic and no number is blank, a pass returns.
\<close>

theorem engine_invariant:
  assumes "sre_reach st"
  shows "sre_inv st \<and>
    (numbers_filled (sre_ruleMaps st) \<and> acyclic (calls (sre_ruleMaps st)) \<longrightarrow>
       sre_appLogic (length (rm_rules (sre_ruleMaps st))) ltr env st \<noteq> None)"
  using sre_reach_inv [OF assms] appLogic_result [OF inv_evaluable [OF sre_reach_inv [OF assms]]] by fastforce

theorem engine_invariant_witness:
  "sre_inv sample_running \<and> sre_appLogic 3 False sample_env sample_running \<noteq> None"
  using engine_invariant [OF sample_reach, of False sample_env] sample_running_ok by simp

end
