(* ===== verification/EngineApp.thy ===== *)
theory EngineApp
  imports RuleEngine
begin

text \<open>
  The state rule engine as an application (\<open>stateRuleEngine\<close> derives from \<open>MagAOXApp\<close>): its virtual
  functions and its call-back as the hooks of \<open>execute\<close>, the proof that they satisfy the
  interface \<open>hosted_app\<close>, and what follows for the life of the engine under every schedule. Within a
  pass of \<open>appLogic\<close> the other threads run between the rules; the evaluation of a single rule is one
  step. (The code has no lock that makes it one: a property that is replaced while a rule reads it
  is a data race, which has no meaning in C++ and is outside the model.)
\<close>

section \<open>The hooks\<close>

text \<open>What the pointers in the call-back maps of the engine point to.\<close>

definition sre_heap :: "stateRuleEngine \<Rightarrow> string \<Rightarrow> IndiProperty" where
  "sre_heap st ptr =
     (if ptr = ''m_indiP_state'' then ma_indiP_state st
      else if ptr = ''m_indiP_clearFSMAlert'' then ma_indiP_clearFSMAlert st
      else if ptr = ''m_indiP_info'' then sre_info st
      else if ptr = ''m_indiP_caution'' then sre_caution st
      else if ptr = ''m_indiP_warning'' then sre_warning st
      else if ptr = ''m_indiP_alert'' then sre_alert st
      else case map_find ptr (rm_props (sre_ruleMaps st)) of Some ip \<Rightarrow> ip | None \<Rightarrow> IndiProperty_new Unknown [] [])"

definition sre_dispatch :: "string \<Rightarrow> IndiProperty \<Rightarrow> stateRuleEngine \<Rightarrow> stateRuleEngine" where
  "sre_dispatch f ip st = (if f = ''st_newCallBack_ruleProp'' then snd (newCallBack_ruleProp ip st) else st)"

text \<open>The call-backs, as the threads that receive messages run them.\<close>

definition sre_callbacks :: "stateRuleEngine app_hooks" where
  "sre_callbacks =
     \<lparr>hk_appStartup = (\<lambda>st. Some (0, st)), hk_appLogic = (\<lambda>st. Some (0, st)), hk_appShutdown = (\<lambda>st. Some (0, st)),
      hk_onPowerOff = (\<lambda>st. Some (0, st)), hk_whilePowerOff = (\<lambda>st. Some (0, st)), hk_dispatch = sre_dispatch, hk_heap = sre_heap\<rparr>"

text \<open>
  \<open>appLogic\<close> beside the other threads: nothing keeps \<open>newCallBack_ruleProp\<close> from replacing a property
  while a pass runs. Before each rule the other threads make any number of steps, \<open>others name\<close>;
  the evaluation of one rule is a step.
\<close>

fun pass_rules ::
  "nat \<Rightarrow> bool \<Rightarrow> sre_env \<Rightarrow> (string \<Rightarrow> app_sched list) \<Rightarrow> string list \<Rightarrow> stateRuleEngine \<Rightarrow> (int \<times> stateRuleEngine) option" where
  "pass_rules d ltr env others [] st = Some (0, st)"
| "pass_rules d ltr env others (name # names) st =
     do { st \<leftarrow> other_threads sre_callbacks (others name) st;
          (rv, st) \<leftarrow> logic_rule d ltr env name st;
          case rv of Some rv \<Rightarrow> Some (rv, st) | None \<Rightarrow> pass_rules d ltr env others names st }"

definition pass ::
  "nat \<Rightarrow> bool \<Rightarrow> sre_env \<Rightarrow> (string \<Rightarrow> app_sched list) \<Rightarrow> stateRuleEngine \<Rightarrow> (int \<times> stateRuleEngine) option" where
  "pass d ltr env others st = pass_rules d ltr env others (map fst (rm_rules (sre_ruleMaps st))) st"

text \<open>When the other threads do nothing, it is the \<open>appLogic\<close> of the engine.\<close>

lemma pass_alone: "pass d ltr env (\<lambda>_. []) st = sre_appLogic d ltr env st"
proof -
  have "pass_rules d ltr env (\<lambda>_. []) names st = logic_rules d ltr env names st" for names st
  proof (induction names arbitrary: st)
    case (Cons n names)
    then show ?case
      by (cases "logic_rule d ltr env n st") (auto simp: other_threads_def split: option.split)
  qed simp
  then show ?thesis by (simp add: pass_def sre_appLogic_def)
qed

text \<open>
  \<open>appShutdown\<close> of the engine and the power functions it inherits do nothing and return 0. The
  stack of \<open>appLogic\<close> has room for a chain through all rules.
\<close>

definition sre_hooks ::
  "bool \<Rightarrow> bool \<Rightarrow> (stateRuleEngine \<Rightarrow> sre_env) \<Rightarrow> (stateRuleEngine \<Rightarrow> string \<Rightarrow> app_sched list) \<Rightarrow> stateRuleEngine app_hooks" where
  "sre_hooks owns_lock ltr en others =
     sre_callbacks
       \<lparr>hk_appStartup := (\<lambda>st. let (rv, st) = sre_appStartup owns_lock st in do { rv \<leftarrow> rv; Some (rv, st) }),
        hk_appLogic := (\<lambda>st. pass (length (rm_rules (sre_ruleMaps st))) ltr (en st) (others st) st)\<rparr>"

section \<open>The functions keep to their part\<close>

named_theorems hook_changes

lemma hook_change_refl [hook_changes]: "hook_change st st"
  by (simp add: hook_change_def)

lemma hook_change_trans: "hook_change st st1 \<Longrightarrow> hook_change st1 st2 \<Longrightarrow> hook_change st st2"
  by (auto simp: hook_change_def)

lemma hook_sre_emit [hook_changes]: "hook_change st (sre_emit evs st)"
  by (simp add: hook_change_def sre_emit_def)

lemma hook_set_property [hook_changes]: "hook_change st (set_ruleStateProperty p x st)"
  by (cases p) (simp_all add: hook_change_def)

lemma hook_maps [hook_changes]: "hook_change st (st\<lparr>sre_ruleMaps := m\<rparr>)"
  by (simp add: hook_change_def)

lemma hook_set_rule [hook_changes]: "hook_change st (set_rule n r st)"
  by (simp add: hook_change_def set_rule_def Let_def)

lemma hook_sendNotification [hook_changes]: "hook_change st (snd (sendNotification ok msg st))"
  by (simp add: sendNotification_def hook_changes)

lemma hook_set_state [hook_changes]: "hook_change st (set_state l s a st)"
  using own_set_state [of st l s a] by (simp add: hook_change_def own_change_def)

lemma hook_registerNew:
  "registerIndiPropertyNew ptr f nm ty pm ps pr p st = (rv, p', st') \<Longrightarrow> hook_change st st'"
  by (auto simp: hook_change_def registerIndiPropertyNew_def insert_newCallBack_def um_insert_def app_emit_def Let_def
      split: if_splits)

lemma hook_registerSet:
  "registerIndiPropertySet ptr f dev nm p st = (rv, p', st') \<Longrightarrow> hook_change st st'"
  by (auto simp: hook_change_def registerIndiPropertySet_def um_insert_def app_emit_def Let_def split: if_splits)

lemma hook_startup_rule: "startup_rule name r st = (rv, st') \<Longrightarrow> hook_change st st'"
proof -
  assume s: "startup_rule name r st = (rv, st')"
  show ?thesis
  proof (cases "ruleStateProperty (r_priority r) st")
    case None
    then show ?thesis using s by (simp add: startup_rule_def hook_change_refl)
  next
    case (Some p)
    obtain rv1 p1 st1 where 1: "(if ip_device p \<noteq> app_configName st
               then registerIndiPropertyNew (''m_indiP_'' @ priority_name (r_priority r)) None (priority_name (r_priority r)) Switch ReadOnly Idle AnyOfMany p st
               else (0, p, st)) = (rv1, p1, st1)"
      by (metis prod_cases3)
    have "hook_change st st1" using 1 by (auto simp: hook_change_refl split: if_splits dest: hook_registerNew)
    then have "hook_change st (set_ruleStateProperty q x st1)" "hook_change st (sre_emit e (set_ruleStateProperty q x st1))" for q x e
      using hook_change_trans hook_set_property hook_sre_emit by blast+
    then show ?thesis
      using s Some 1 by (auto simp: startup_rule_def Let_def split: if_splits sum.splits)
  qed
qed

lemma hook_startup_rules: "startup_rules rs st = (rv, st') \<Longrightarrow> hook_change st st'"
proof (induction rs st rule: startup_rules.induct)
  case (2 name r rs st)
  obtain rv1 st1 where 1: "startup_rule name r st = (rv1, st1)" by fastforce
  then show ?case
    using 2 hook_startup_rule [OF 1] hook_change_trans by (fastforce split: if_splits)
qed (simp add: hook_change_refl)

lemma hook_startup_props: "startup_props keys st = (rv, st') \<Longrightarrow> hook_change st st'"
proof (induction keys arbitrary: st)
  case (Cons key keys)
  obtain v dev nm where pk: "parseIndiKey key ([], []) = (v, dev, nm)" by (metis prod_cases3)
  show ?case
  proof (cases "v = 0 \<and> map_find key (rm_props (sre_ruleMaps st)) \<noteq> None")
    case True
    then obtain ip0 where "map_find key (rm_props (sre_ruleMaps st)) = Some ip0" by blast
    moreover obtain v1 p1 st1 where 1: "registerIndiPropertySet key (Some ''st_newCallBack_ruleProp'') dev nm ip0 st = (v1, p1, st1)"
      by (metis prod_cases3)
    ultimately have "startup_props keys (st1\<lparr>sre_ruleMaps := (sre_ruleMaps st1)\<lparr>rm_props := map_assign key p1 (rm_props (sre_ruleMaps st1))\<rparr>\<rparr>) = (rv, st')"
      using Cons.prems pk True by (simp add: Let_def)
    from Cons.IH [OF this] show ?thesis
      using hook_registerSet [OF 1] hook_maps hook_change_trans by blast
  next
    case False
    then show ?thesis
      using Cons.prems Cons.IH [of st] pk hook_sre_emit by (cases "map_find key (rm_props (sre_ruleMaps st))") (auto split: if_splits)
  qed
qed (simp add: hook_change_refl)

lemma hook_appStartup: "sre_appStartup l st = (rv, st') \<Longrightarrow> hook_change st st'"
proof -
  assume s: "sre_appStartup l st = (rv, st')"
  obtain rv1 st1 where 1: "startup_rules (rm_rules (sre_ruleMaps st)) st = (rv1, st1)" by fastforce
  obtain rv2 st2 where 2: "startup_props (map fst (rm_props (sre_ruleMaps st1))) st1 = (rv2, st2)" by fastforce
  have h: "hook_change st st1" "hook_change st st2"
    using hook_startup_rules [OF 1] hook_startup_props [OF 2] hook_change_trans by blast+
  then have "hook_change st (set_state l READY False st2)" using hook_change_trans hook_set_state by blast
  then show ?thesis using s 1 2 h by (auto simp: sre_appStartup_def Let_def split: if_splits)
qed

lemma hook_log_diagnostics: "log_diagnostics d name st = Some st' \<Longrightarrow> hook_change st st'"
  using hook_change_trans [OF hook_maps hook_sre_emit] by (auto simp: log_diagnostics_def bind_eq_Some_conv)

lemma hook_notify_rule: "notify_rule env name val wasOn r st = (rv, caught, st') \<Longrightarrow> hook_change st st'"
proof -
  have s: "hook_change st (snd (sendNotification ok msg (set_rule n r' st)))"
    "hook_change st (set_rule n r' (snd (sendNotification ok msg st)))" for ok msg n r'
    using hook_change_trans hook_set_rule hook_sendNotification by blast+
  assume "notify_rule env name val wasOn r st = (rv, caught, st')"
  then show ?thesis
    using s
    by (auto simp: notify_rule_def Let_def case_prod_unfold hook_changes split: sum.splits bool.splits if_splits prod.splits)
qed

lemma hook_publish_rule: "publish_rule env name val r st = (rv, caught, st') \<Longrightarrow> hook_change st st'"
proof -
  have s: "hook_change st (sre_emit evs (set_ruleStateProperty q x st))" for evs q x
    using hook_change_trans hook_set_property hook_sre_emit by blast
  assume "publish_rule env name val r st = (rv, caught, st')"
  then show ?thesis
    using hook_change_trans [OF s hook_notify_rule]
    by (auto simp: publish_rule_def Let_def case_prod_unfold hook_change_refl split: option.splits)
qed

lemma hook_logic_rule: "logic_rule d ltr env name st = Some (rv, st') \<Longrightarrow> hook_change st st'"
proof -
  assume l: "logic_rule d ltr env name st = Some (rv, st')"
  then obtain r where r: "map_find name (rm_rules (sre_ruleMaps st)) = Some r" by (auto simp: logic_rule_def bind_eq_Some_conv)
  show ?thesis
  proof (cases "r_priority r = prio_none")
    case True
    then show ?thesis using l r by (simp add: logic_rule_def hook_change_refl)
  next
    case False
    obtain v m st1 where 1: "rule_value d ltr (en_clk env name) name (sre_ruleMaps st) = Some (v, m)"
      "log_diagnostics d name (st\<lparr>sre_ruleMaps := m\<rparr>) = Some st1"
      using l r False by (auto simp: logic_rule_def bind_eq_Some_conv)
    have h1: "hook_change st st1" using hook_change_trans [OF hook_maps hook_log_diagnostics [OF 1(2)]] .
    show ?thesis
    proof (cases v)
      case (Inl x)
      then show ?thesis using l r False 1 h1 by (auto simp: logic_rule_def)
    next
      case (Inr val)
      obtain r1 where r1: "map_find name (rm_rules (sre_ruleMaps st1)) = Some r1"
        using l r False 1 Inr by (cases "map_find name (rm_rules (sre_ruleMaps st1))") (auto simp: logic_rule_def)
      obtain rv2 caught st2 where p: "publish_rule env name val r1 st1 = (rv2, caught, st2)" using prod_cases3 by blast
      have h2: "hook_change st st2" using hook_change_trans [OF h1 hook_publish_rule [OF p]] .
      have "(if caught then log_diagnostics d name st2 else Some st2) = Some st'"
        using l r False 1 Inr r1 p by (auto simp: logic_rule_def bind_eq_Some_conv split: if_splits)
      then show ?thesis using h2 hook_change_trans [OF h2 hook_log_diagnostics] by (auto split: if_splits)
    qed
  qed
qed

section \<open>What the engine needs and keeps\<close>

text \<open>The keys of the properties that rules read as numbers.\<close>

definition number_keys :: "indiRuleMaps \<Rightarrow> string list" where
  "number_keys m = concat (map (\<lambda>(n, r). List.map_filter fst (kind_numbers (r_kind r))) (rm_rules m))"

definition all_numbers :: "IndiProperty \<Rightarrow> bool" where
  "all_numbers ip \<longleftrightarrow> list_all (\<lambda>(k, e). get_double e \<noteq> None) (ip_elements ip)"

definition sre_configured :: "string list \<Rightarrow> stateRuleEngine \<Rightarrow> bool" where
  "sre_configured K st \<longleftrightarrow>
     rules_ok (sre_ruleMaps st) \<and> app_useINDI st \<and> acyclic (calls (sre_ruleMaps st)) \<and>
     set (number_keys (sre_ruleMaps st)) \<subseteq> set K \<and>
     (\<forall>p q. ruleStateProperty p st = Some q \<longrightarrow> ip_elements q = [])"

definition sre_live :: "string list \<Rightarrow> stateRuleEngine \<Rightarrow> bool" where
  "sre_live K st \<longleftrightarrow>
     sre_inv st \<and> acyclic (calls (sre_ruleMaps st)) \<and> set (number_keys (sre_ruleMaps st)) \<subseteq> set K \<and>
     (\<forall>k ip. map_find k (rm_props (sre_ruleMaps st)) = Some ip \<longrightarrow> k \<in> set K \<longrightarrow> all_numbers ip)"

text \<open>A property that is read as a number holds numbers when it is received.\<close>

definition sre_accepts :: "string list \<Rightarrow> IndiProperty \<Rightarrow> bool" where
  "sre_accepts K ip \<longleftrightarrow> (createUniqueKey ip \<in> set K \<longrightarrow> all_numbers ip)"

lemma number_keys_iff:
  "k \<in> set (number_keys m) \<longleftrightarrow> (\<exists>n r el. (n, r) \<in> set (rm_rules m) \<and> (Some k, el) \<in> set (kind_numbers (r_kind r)))"
  by (auto simp: number_keys_def map_filter_def) force+

lemma number_keys_static [simp]: "number_keys (static m) = number_keys m"
  by (simp add: number_keys_def static_def comp_def case_prod_unfold)

lemma number_keys_rules: "rm_rules m' = rm_rules m \<Longrightarrow> number_keys m' = number_keys m" "rm_rules m' = rm_rules m \<Longrightarrow> calls m' = calls m"
  by (simp_all add: number_keys_def calls_def)

lemma live_filled: "sre_live K st \<Longrightarrow> numbers_filled (sre_ruleMaps st)"
proof -
  assume live: "sre_live K st"
  have "get_double e \<noteq> None"
    if a: "(n, r) \<in> set (rm_rules (sre_ruleMaps st))" "(p, el) \<in> set (kind_numbers (r_kind r))"
      "element_of (rm_props (sre_ruleMaps st)) p el = Some e" for n r p el e
  proof -
    obtain k ip where k: "p = Some k" "map_find k (rm_props (sre_ruleMaps st)) = Some ip" "map_find el (ip_elements ip) = Some e"
      using a(3) by (auto simp: element_of_def bind_eq_Some_conv)
    have "k \<in> set (number_keys (sre_ruleMaps st))" using a(1,2) k(1) by (auto simp: number_keys_iff)
    then have "all_numbers ip" using live k(2) by (auto simp: sre_live_def)
    then show ?thesis using k(3) by (auto simp: all_numbers_def list_all_iff map_find_def dest: map_of_SomeD)
  qed
  then show ?thesis by (fastforce simp: numbers_filled_def list_all_iff split: option.split)
qed

lemma startup_live:
  assumes "sre_configured K st" "sre_appStartup l st = (rv, st')"
  shows "\<exists>v. rv = Some v \<and> (v \<ge> 0 \<longrightarrow> sre_live K st')"
proof -
  note c = assms(1) [unfolded sre_configured_def]
  have wf: "map_wf (rm_rules (sre_ruleMaps st))" using c by (simp add: rules_ok_def)
  have reg: "prio_registered st" using c by (simp add: prio_registered_def)
  have el0: "elems q st = []" for q using c by (auto simp: elems_def split: option.split)
  obtain rv1 st1 where 1: "startup_rules (rm_rules (sre_ruleMaps st)) st = (rv1, st1)" by fastforce
  have rv1: "rv1 = Some 0 \<or> rv1 = Some (- 1)"
    using startup_rules_ok [OF reg _ map_wf_distinct [OF wf] _ 1] startup_rules_rv [OF 1] c el0 by (auto simp: map_find_def)
  obtain rv2 st2 where 2: "startup_props (map fst (rm_props (sre_ruleMaps st1))) st1 = (rv2, st2)" by fastforce
  have "rv = Some 0 \<or> rv = Some (- 1)"
    using assms(2) 1 2 rv1 startup_props_rv [OF 2] by (auto simp: sre_appStartup_def Let_def split: if_splits)
  moreover have "sre_live K st'" if "rv = Some 0"
  proof -
    have s: "sre_inv st' \<and> rm_rules (sre_ruleMaps st') = rm_rules (sre_ruleMaps st) \<and>
        (\<forall>key ip. map_find key (rm_props (sre_ruleMaps st')) = Some ip \<longrightarrow> ip_elements ip = [])"
      using c assms(2) that by (intro appStartup_inv) auto
    then show ?thesis using c number_keys_rules [of "sre_ruleMaps st'" "sre_ruleMaps st"] by (auto simp: sre_live_def all_numbers_def)
  qed
  ultimately show ?thesis by auto
qed

lemma dispatch_live:
  assumes "sre_live K st" "sre_accepts K ip"
  shows "hook_change st (sre_dispatch f ip st) \<and> sre_live K (sre_dispatch f ip st)"
proof (cases "f = ''st_newCallBack_ruleProp'' \<and> map_find (createUniqueKey ip) (rm_props (sre_ruleMaps st)) \<noteq> None")
  case False
  then show ?thesis using assms by (auto simp: sre_dispatch_def newCallBack_ruleProp_def hook_change_refl)
next
  case True
  define m where "m = (sre_ruleMaps st)\<lparr>rm_props := map_assign (createUniqueKey ip) ip (rm_props (sre_ruleMaps st))\<rparr>"
  have d: "sre_dispatch f ip st = st\<lparr>sre_ruleMaps := m\<rparr>" "snd (newCallBack_ruleProp ip st) = st\<lparr>sre_ruleMaps := m\<rparr>"
    using True by (auto simp: sre_dispatch_def newCallBack_ruleProp_def m_def Let_def)
  have wf: "map_wf (rm_props (sre_ruleMaps st))" using assms(1) by (simp add: sre_live_def sre_inv_def)
  have "sre_inv (st\<lparr>sre_ruleMaps := m\<rparr>)" using newCallBack_inv [of st ip] assms(1) d(2) by (simp add: sre_live_def)
  moreover have "map_find k (rm_props m) = (if k = createUniqueKey ip then Some ip else map_find k (rm_props (sre_ruleMaps st)))" for k
    using wf by (simp add: m_def map_find_assign)
  moreover have "rm_rules m = rm_rules (sre_ruleMaps st)" by (simp add: m_def)
  note number_keys_rules [OF this]
  ultimately show ?thesis using assms hook_maps [of st m] by (auto simp: d sre_live_def sre_accepts_def)
qed

lemma engine_members:
  fixes st st' :: stateRuleEngine
  assumes "magAOXApp.more st' = magAOXApp.more st" "app_useINDI st' = app_useINDI st"
  shows "(sre_configured K st \<longrightarrow> sre_configured K st') \<and> (sre_live K st \<longrightarrow> sre_live K st')"
proof -
  have m: "sre_ruleMaps st' = sre_ruleMaps st" "sre_info st' = sre_info st" "sre_caution st' = sre_caution st"
    "sre_warning st' = sre_warning st" "sre_alert st' = sre_alert st"
    using assms(1) by (cases st; cases st'; simp)+
  then have r: "ruleStateProperty p st' = ruleStateProperty p st" for p by (cases p) simp_all
  then have "elems p st' = elems p st" for p by (simp add: elems_def)
  then show ?thesis using assms(2) m r by (simp add: sre_configured_def sre_live_def sre_inv_def)
qed

text \<open>What the other threads do inside a pass: the names of the rules stay, and the engine stays live.\<close>

definition sre_ruled :: "string list \<Rightarrow> string list \<Rightarrow> stateRuleEngine \<Rightarrow> bool" where
  "sre_ruled K names st \<longleftrightarrow> sre_live K st \<and> map fst (rm_rules (sre_ruleMaps st)) = names"

lemma dispatch_rules: "rm_rules (sre_ruleMaps (sre_dispatch f ip st)) = rm_rules (sre_ruleMaps st)"
  by (simp add: sre_dispatch_def newCallBack_ruleProp_def Let_def split: option.split)

interpretation threads: hosted_app sre_callbacks "sre_ruled K names" "sre_ruled K names" "sre_accepts K" for K names
proof unfold_locales
  fix st st' :: stateRuleEngine
  assume m: "magAOXApp.more st' = magAOXApp.more st" "app_useINDI st' = app_useINDI st"
  then have "sre_ruleMaps st' = sre_ruleMaps st" by (cases st; cases st'; simp)
  then show "(sre_ruled K names st \<longrightarrow> sre_ruled K names st') \<and> (sre_ruled K names st \<longrightarrow> sre_ruled K names st')"
    using engine_members [OF m] by (simp add: sre_ruled_def)
qed (auto simp: sre_callbacks_def hook_change_refl sre_ruled_def dispatch_live dispatch_rules)

lemma rule_live:
  assumes "sre_live K st" "n \<in> fst ` set (rm_rules (sre_ruleMaps st))" "length (rm_rules (sre_ruleMaps st)) \<le> d"
  shows "\<exists>rv st'. logic_rule d ltr env n st = Some (rv, st') \<and> hook_change st st' \<and>
    sre_ruled K (map fst (rm_rules (sre_ruleMaps st))) st'"
proof -
  have i: "sre_inv st" "acyclic (calls (sre_ruleMaps st))" using assms(1) by (simp_all add: sre_live_def)
  obtain r where r: "map_find n (rm_rules (sre_ruleMaps st)) = Some r"
    using assms(2) by (cases "map_find n (rm_rules (sre_ruleMaps st))") (auto simp: map_find_def map_of_eq_None_iff)
  obtain rv st' where 1: "logic_rule d ltr env n st = Some (rv, st')" "static (sre_ruleMaps st') = static (sre_ruleMaps st)"
    using logic_rule_frame [OF inv_evaluable [OF i(1) live_filled [OF assms(1)] i(2) assms(3)] r] unfolding publish_frame_def by blast
  have "map fst (rm_rules (static m)) = map fst (rm_rules m)" for m by (simp add: static_def comp_def case_prod_unfold)
  then have "rm_props (sre_ruleMaps st') = rm_props (sre_ruleMaps st)" "calls (sre_ruleMaps st') = calls (sre_ruleMaps st)"
    "number_keys (sre_ruleMaps st') = number_keys (sre_ruleMaps st)"
    "map fst (rm_rules (sre_ruleMaps st')) = map fst (rm_rules (sre_ruleMaps st))"
    using 1(2) static_props calls_static number_keys_static by metis+
  then have "sre_ruled K (map fst (rm_rules (sre_ruleMaps st))) st'"
    using assms(1) logic_rule_inv [OF i(1) 1(1)] by (simp add: sre_ruled_def sre_live_def)
  then show ?thesis using 1(1) hook_logic_rule by blast
qed

lemma pass_rules_live:
  assumes "sre_ruled K all st" "set names \<subseteq> set all" "length all \<le> d" "\<And>n. list_all (received (sre_accepts K)) (others n)"
  shows "\<exists>rv st'. pass_rules d ltr env others names st = Some (rv, st') \<and> hook_change st st' \<and> sre_live K st'"
  using assms(1,2)
proof (induction names arbitrary: st)
  case (Cons n names)
  obtain st1 where 1: "other_threads sre_callbacks (others n) st = Some st1" "hook_change st st1" "sre_ruled K all st1"
    using threads.other_threads_keep [OF Cons.prems(1) assms(4)] by blast
  then have "n \<in> fst ` set (rm_rules (sre_ruleMaps st1))" "length (rm_rules (sre_ruleMaps st1)) \<le> d"
    using Cons.prems(2) assms(3) by (auto simp: sre_ruled_def)
  then obtain rv st2 where 2: "logic_rule d ltr env n st1 = Some (rv, st2)" "hook_change st1 st2" "sre_ruled K all st2"
    using rule_live [of K st1 n d ltr env] 1(3) by (auto simp: sre_ruled_def)
  have h: "hook_change st st2" using hook_change_trans [OF 1(2) 2(2)] .
  show ?case
  proof (cases rv)
    case None
    then show ?thesis using Cons.IH [OF 2(3)] Cons.prems(2) 1(1) 2(1) hook_change_trans [OF h] by auto
  next
    case (Some v)
    then show ?thesis using 1(1) 2(1,3) h by (simp add: sre_ruled_def)
  qed
qed (simp add: sre_ruled_def hook_change_refl)

lemma pass_live:
  assumes "sre_live K st" "\<And>n. list_all (received (sre_accepts K)) (others n)"
  shows "\<exists>rv st'. pass (length (rm_rules (sre_ruleMaps st))) ltr env others st = Some (rv, st') \<and> hook_change st st' \<and> sre_live K st'"
  unfolding pass_def using assms by (intro pass_rules_live [where all = "map fst (rm_rules (sre_ruleMaps st))"]) (simp_all add: sre_ruled_def)

text \<open>The engine beside threads that deliver, inside a pass too, only what it accepts.\<close>

locale engine_threads =
  fixes K :: "string list" and others :: "stateRuleEngine \<Rightarrow> string \<Rightarrow> app_sched list"
  assumes delivered: "list_all (received (sre_accepts K)) (others st n)"

sublocale engine_threads \<subseteq> engine: hosted_app "sre_hooks l ltr en others" "sre_configured K" "sre_live K" "sre_accepts K" for l ltr en
proof unfold_locales
  fix st :: stateRuleEngine
  assume c: "sre_configured K st"
  obtain rv st' where s: "sre_appStartup l st = (rv, st')" by fastforce
  show "\<exists>rv st'. hk_appStartup (sre_hooks l ltr en others) st = Some (rv, st') \<and> hook_change st st' \<and> (0 \<le> rv \<longrightarrow> sre_live K st')"
    using startup_live [OF c s] hook_appStartup [OF s] s by (auto simp: sre_hooks_def)
next
  fix st :: stateRuleEngine
  assume "sre_live K st"
  then show "\<exists>rv st'. hk_appLogic (sre_hooks l ltr en others) st = Some (rv, st') \<and> hook_change st st' \<and> sre_live K st'"
    using pass_live delivered by (simp add: sre_hooks_def)
qed (auto simp: sre_hooks_def sre_callbacks_def hook_change_refl dispatch_live dest: engine_members)

text \<open>A configuration that was accepted is one the engine can start from.\<close>

lemma loaded_configured:
  assumes "sre_fresh st0" "sre_loadConfigImpl cfg dir files st0 = Some (0, st)" "acyclic (calls (sre_ruleMaps st))"
  shows "sre_configured (number_keys (sre_ruleMaps st)) st \<and> ma_actions st = ma_actions st0 \<and> app_driver st = app_driver st0"
proof -
  have l: "rules_ok (sre_ruleMaps st)" "\<exists>d m. st = st0\<lparr>sre_ruleDir := d, sre_ruleMaps := m\<rparr>"
    using sre_loadConfigImpl_ok [OF _ _ assms(2)] assms(1) by (auto simp: sre_fresh_def)
  then have "ip_elements q = []" if "ruleStateProperty p st = Some q" for p q
    using assms(1) that by (cases p) (auto simp: sre_fresh_def)
  then show ?thesis using l assms(1,3) by (auto simp: sre_configured_def sre_fresh_def)
qed

section \<open>Results\<close>

context engine_threads
begin

lemma threads_lifecycle:
  assumes "sre_configured K st" "ma_actions st = []" "\<not> app_driver st" "list_all (received (sre_accepts K)) ss"
  shows "\<exists>pc st' l. sched_run (sre_hooks owns_lock ltr en others) ss (PcCheckUser, st) = Some (pc, st') \<and>
    life_run (app_useINDI st) (ma_actions st') = Some l \<and>
    (\<forall>rv. pc = PcDone rv \<longrightarrow> l = LReleased \<or> rv = - 1 \<and> ma_actions st' = []) \<and>
    (l = LStarted \<or> l = LTalking \<longrightarrow> sre_inv st')"
proof -
  have "engine.starts st" using assms(1-3) by (simp add: engine.starts_def)
  then show ?thesis using engine.hosted_lifecycle [OF _ assms(4)] unfolding sre_live_def by blast
qed

lemma threads_shutdown:
  assumes "sre_configured K st" "ma_actions st = []" "\<not> app_driver st" "list_all (received (sre_accepts K)) (ss @ ss')"
    and "sched_run (sre_hooks owns_lock ltr en others) ss (PcCheckUser, st) = Some (pc, st1)" "ma_shutdown st1 \<noteq> 0"
    and "main_steps ss' \<ge> 40"
  shows "\<exists>rv st2. sched_run (sre_hooks owns_lock ltr en others) ss' (pc, st1) = Some (PcDone rv, st2)"
proof -
  have "engine.starts st" using assms(1-3) by (simp add: engine.starts_def)
  from engine.hosted_shutdown [OF this assms(4-7)] show ?thesis .
qed

end

text \<open>The two instances every engine has: nothing arrives inside a pass, and the same messages before every rule.\<close>

interpretation alone: engine_threads K "\<lambda>_ _. []" for K
  by unfold_locales simp

interpretation steady: engine_threads K "\<lambda>_ _. filter (received (sre_accepts K)) ss" for K ss
  by unfold_locales (simp add: list_all_iff)

text \<open>C3: The life of the engine under every schedule. Whatever the order in which the steps of \<open>execute\<close>,
  INDI messages, log entries and signals happen, between the rules of a pass too, and whatever the
  system calls return, the engine that starts from an accepted configuration is never stuck, if
  its rules do not call each other in a cycle and the received properties that rules read as
  numbers hold numbers; it takes the PID lock first, starts up once, talks before it evaluates,
  never evaluates after its shutdown, and releases the lock exactly once and last, on every path
  that ends it after it has the lock. While it runs its invariant holds. The evaluation of one
  rule is a step here: the data race between it and the call-back that replaces the properties
  is outside the model.
\<close>

theorem engine_lifecycle:
  assumes "sre_fresh st0" "sre_loadConfigImpl cfg dir files st0 = Some (0, st)" "acyclic (calls (sre_ruleMaps st))"
    and "ma_actions st0 = []" "\<not> app_driver st0"
    and "list_all (received (sre_accepts (number_keys (sre_ruleMaps st)))) ss"
    and "\<And>st' n. list_all (received (sre_accepts (number_keys (sre_ruleMaps st)))) (others st' n)"
  shows "\<exists>pc st' l. sched_run (sre_hooks owns_lock ltr en others) ss (PcCheckUser, st) = Some (pc, st') \<and>
    life_run (app_useINDI st) (ma_actions st') = Some l \<and>
    (\<forall>rv. pc = PcDone rv \<longrightarrow> l = LReleased \<or> rv = - 1 \<and> ma_actions st' = []) \<and>
    (l = LStarted \<or> l = LTalking \<longrightarrow> sre_inv st')"
  using loaded_configured [OF assms(1-3)] assms(4-6)
    engine_threads.threads_lifecycle [OF engine_threads.intro [OF assms(7)], of st ss owns_lock ltr en] by simp

text \<open>C15: A request for shutdown is always honoured, if the rules do not call each other in a cycle and the
  received properties that rules read as numbers hold numbers. Once \<open>m_shutdown\<close> is set, by a signal or by an
  error, in whatever order steps and messages follow, between the rules of a pass too, \<open>execute\<close>
  of the engine ends within 40 of its own steps, a pass counting as one.
\<close>

theorem engine_shutdown:
  assumes "sre_fresh st0" "sre_loadConfigImpl cfg dir files st0 = Some (0, st)" "acyclic (calls (sre_ruleMaps st))"
    and "ma_actions st0 = []" "\<not> app_driver st0"
    and "list_all (received (sre_accepts (number_keys (sre_ruleMaps st)))) (ss @ ss')"
    and "\<And>st' n. list_all (received (sre_accepts (number_keys (sre_ruleMaps st)))) (others st' n)"
    and "sched_run (sre_hooks owns_lock ltr en others) ss (PcCheckUser, st) = Some (pc, st1)" "ma_shutdown st1 \<noteq> 0"
    and "main_steps ss' \<ge> 40"
  shows "\<exists>rv st2. sched_run (sre_hooks owns_lock ltr en others) ss' (pc, st1) = Some (PcDone rv, st2)"
  using loaded_configured [OF assms(1-3)] assms(4,5)
    engine_threads.threads_shutdown [OF engine_threads.intro [OF assms(7)] _ _ _ assms(6,8-10)] by simp

text \<open>The engine with the sample configuration; everything works, and the camera reports its temperature.\<close>

definition sample_host :: stateRuleEngine where
  "sample_host = snd (the (sre_loadConfigImpl sample_config None None (sample_engine\<lparr>app_driver := False\<rparr>)))"

definition sample_main :: app_sched where
  "sample_main = Main
     \<lparr>ee_userOk = True,
      ee_pid = \<lparr>pe_root = MkExists, pe_dir = MkExists, pe_file = None, pe_cmdline = (\<lambda>_. []), pe_write = True\<rparr>,
      ee_invokedName = ''stateRuleEngine'', ee_logRunning = True, ee_sigHandler = True, ee_startINDI = True,
      ee_removed = True, ee_ownsLock = True, ee_now = 0, ee_sendOk = (\<lambda>_. True)\<rparr>"

definition sample_schedule :: "app_sched list" where
  "sample_schedule = replicate 7 sample_main @ [MsgSet sample_temp] @ replicate 6 sample_main @ [Signal ''SIGTERM'']"

lemma sample_host_ok:
  "sre_fresh (sample_engine\<lparr>app_driver := False\<rparr>)"
  "sre_loadConfigImpl sample_config None None (sample_engine\<lparr>app_driver := False\<rparr>) = Some (0, sample_host)"
  "acyclic (calls (sre_ruleMaps sample_host))"
  "list_all (received (sre_accepts (number_keys (sre_ruleMaps sample_host)))) (sample_schedule @ replicate 40 sample_main)"
proof -
  show "sre_fresh (sample_engine\<lparr>app_driver := False\<rparr>)" by (simp add: sre_fresh_def sample_engine_def IndiProperty_new_def)
  have 1: "sre_loadConfigImpl sample_config None None (sample_engine\<lparr>app_driver := False\<rparr>) \<noteq> None"
    "fst (the (sre_loadConfigImpl sample_config None None (sample_engine\<lparr>app_driver := False\<rparr>))) = 0"
    by code_simp+
  then show "sre_loadConfigImpl sample_config None None (sample_engine\<lparr>app_driver := False\<rparr>) = Some (0, sample_host)"
    by (cases "the (sre_loadConfigImpl sample_config None None (sample_engine\<lparr>app_driver := False\<rparr>))") (auto simp: sample_host_def)
  have "map (\<lambda>(n, r). (n, kind_rules (r_kind r))) (rm_rules (sre_ruleMaps sample_host)) =
     [(''dark'', []), (''hot'', []), (''warm'', [Some ''hot'', Some ''dark''])]"
    by code_simp
  then show "acyclic (calls (sre_ruleMaps sample_host))"
    by (intro acyclic_by_rank [where rank = "\<lambda>n. if n = ''warm'' then 1 else 0"]) auto
  have "sre_accepts (number_keys (sre_ruleMaps sample_host)) sample_temp" by code_simp
  then show "list_all (received (sre_accepts (number_keys (sre_ruleMaps sample_host)))) (sample_schedule @ replicate 40 sample_main)"
    by (simp add: sample_schedule_def sample_main_def list_all_iff)
qed

text \<open>The camera also reports its temperature inside every pass, before the rule that reads it.\<close>

definition sample_others :: "stateRuleEngine \<Rightarrow> string \<Rightarrow> app_sched list" where
  "sample_others st n = (if n = ''hot'' then [MsgSet sample_temp] else [])"

lemma sample_others_ok:
  "list_all (received (sre_accepts (number_keys (sre_ruleMaps sample_host)))) (sample_others st n)"
  using sample_host_ok(4) by (simp add: sample_others_def sample_schedule_def)

text \<open>The actions of the sample run, up to the signal.\<close>

lemma sample_run:
  "map_option (\<lambda>(pc, st). (pc, ma_shutdown st, ma_actions st))
     (sched_run (sre_hooks True True (\<lambda>_. sample_env) sample_others) sample_schedule (PcCheckUser, sample_host)) =
   Some (PcWhile, 1, [ActLockPID, ActLogThread, ActAppStartup True, ActStartINDI True, ActAppLogic])"
  by code_simp

theorem engine_lifecycle_witness:
  "\<exists>pc st' l. sched_run (sre_hooks True True (\<lambda>_. sample_env) sample_others) (sample_schedule @ replicate 40 sample_main) (PcCheckUser, sample_host) =
     Some (pc, st') \<and> life_run True (ma_actions st') = Some l"
proof -
  have "app_useINDI sample_host" "ma_actions (sample_engine\<lparr>app_driver := False\<rparr>) = []" by code_simp+
  then show ?thesis
    using engine_lifecycle [where others = sample_others, OF sample_host_ok(1-3) _ _ sample_host_ok(4) sample_others_ok, of True True "\<lambda>_. sample_env"] by auto
qed

theorem engine_shutdown_witness:
  "\<exists>pc st1 rv st2. sched_run (sre_hooks True True (\<lambda>_. sample_env) sample_others) sample_schedule (PcCheckUser, sample_host) = Some (pc, st1) \<and>
     sched_run (sre_hooks True True (\<lambda>_. sample_env) sample_others) (replicate 40 sample_main) (pc, st1) = Some (PcDone rv, st2)"
proof -
  have a: "ma_actions (sample_engine\<lparr>app_driver := False\<rparr>) = []" by code_simp
  obtain pc st1 where 1: "sched_run (sre_hooks True True (\<lambda>_. sample_env) sample_others) sample_schedule (PcCheckUser, sample_host) = Some (pc, st1)"
    "ma_shutdown st1 \<noteq> 0"
    using sample_run by auto
  have "main_steps (replicate 40 sample_main) \<ge> 40" by (simp add: main_steps_def is_main_def sample_main_def)
  with engine_shutdown [where others = sample_others, OF sample_host_ok(1-3) a _ sample_host_ok(4) sample_others_ok 1] 1 show ?thesis by auto
qed

end
