(* ===== verification/StreamWriter.thy ===== *)
theory StreamWriter
  imports Complex_Main App FileNames "HOL-Library.Sublist"
begin

text \<open>
  The stream writer (\<open>apps/streamWriter/streamWriter.hpp\<close>): one thread copies the frames of an image
  stream into a circular buffer, a second one writes chunks of it to disk, and INDI requests
  start and stop the recording.

  The threads share one save window, guarded by \<open>m_writeMutex\<close>, but the writer copies the frames of
  its window without the lock. A region under the lock is one step, everything else that matters
  is a step of its own, so that a schedule interleaves the threads, the requests and signals as
  the machine may. Frames come from the shared memory of another process (ImageStreamIO) and go
  to the xrif library: both are inputs of the steps. A buffer is a list of slots for frames and
  an access outside of it, or through a null pointer, is \<^const>\<open>None\<close>. Of the log messages, those about
  the connection, the sizes that were chosen and the causes of a failed write are left out. Results of \<open>double\<close>
  arithmetic are real numbers, rounded by an argument \<open>rnd\<close> where a size depends on them.
\<close>

section \<open>State\<close>

datatype writing = NOT_WRITING | START_WRITING | WRITING | STOP_WRITING

text \<open>A frame and its five words of timing.\<close>

record sw_frame =
  fr_image :: bytes
  fr_timing :: "u64 list"

datatype sw_event =
    SwLogText string
  | SwLogCritical string
  | SwLogError string
  | SwSavingStart u64
  | SwSavingStop u64
  | SwTelemSaving int u64
  | SwLogSummary bool string \<comment> \<open>as a warning?\<close>

record streamWriter = magAOXApp +
  sw_rawimageDir :: string
  sw_maxCircBuffLength :: u64
  sw_maxCircBuffSize :: real
  sw_maxWriteChunkLength :: u64
  sw_maxChunkTime :: real
  sw_writeStopTimeout :: real
  sw_outName :: string
  sw_circBuffLength :: nat
  sw_writeChunkLength :: nat
  sw_width :: u32
  sw_height :: u32
  sw_dataType :: nat
  sw_typeSize :: int
  sw_rawImageCircBuff :: "bytes list option"
  sw_timingCircBuff :: "u64 list list option"
  sw_currImage :: nat
  sw_currImageTime :: u64
  sw_currChunkStartTime :: u64
  sw_skippedFrameCount :: u64
  sw_repeatSemaphoreCount :: u64
  sw_warnMissedData :: bool
  sw_skipSummaryIntervalSec :: real
  sw_nextSkipSummaryTime :: real
  sw_writing :: writing
  sw_chunkFrames :: nat
  sw_stopQueued :: bool
  sw_fgReady :: bool
  sw_fgStopped :: bool
  sw_writerFailed :: bool
  sw_writePending :: bool
  sw_stopWriteDeadline :: real
  sw_resumeAfterReconnect :: bool
  sw_currChunkStart :: nat
  sw_nextChunkStart :: nat
  sw_currSaveStart :: nat
  sw_currSaveStop :: nat
  sw_currSaveStopFrameNo :: u64
  sw_lastSavingState :: int
  sw_lastSavingFrame :: u64
  sw_restart :: bool
  sw_semaphore :: nat
  sw_indiP_writing :: IndiProperty
  sw_archives :: "(string \<times> sw_frame list) list" \<comment> \<open>files written, in order\<close>
  sw_events :: "sw_event list"

definition sw_emit :: "sw_event list \<Rightarrow> streamWriter \<Rightarrow> streamWriter" where
  "sw_emit evs st = st\<lparr>sw_events := sw_events st @ evs\<rparr>"

section \<open>The size of the circular buffer\<close>

text \<open>A \<open>double\<close> converted to \<open>size_t\<close>.\<close>

definition to_size :: "real \<Rightarrow> u64" where
  "to_size x = word_of_int \<lfloor>x\<rfloor>"

text \<open>
  \<open>while( circBuffLength % writeChunkLength != 0 ) --writeChunkLength;\<close> from a positive length.
\<close>

fun largest_factor :: "nat \<Rightarrow> nat \<Rightarrow> nat" where
  "largest_factor n 0 = 0"
| "largest_factor n (Suc c) = (if n mod Suc c \<noteq> 0 then largest_factor n c else Suc c)"

text \<open>\<open>width * height\<close> is a product of \<open>uint32_t\<close>, the other products are of \<open>size_t\<close>.\<close>

definition getCircBuffLengths ::
  "(real \<Rightarrow> real) \<Rightarrow> u64 \<Rightarrow> real \<Rightarrow> u64 \<Rightarrow> u32 \<Rightarrow> u32 \<Rightarrow> u64 \<Rightarrow> u64 \<times> u64" where
  "getCircBuffLengths rnd maxCircBuffLength maxCircBuffSize maxWriteChunkLength width height typeSize =
     (let frame = ucast (width * height) * typeSize;
          isz = frame * maxCircBuffLength;
          bytes = rnd (maxCircBuffSize * 1048576)
      in if rnd (of_nat (unat isz)) \<le> bytes then (maxCircBuffLength, maxWriteChunkLength)
      else
        let circBuffLength = to_size (rnd (bytes / rnd (of_nat (unat frame))));
            circBuffLength = (if circBuffLength mod 2 = 1 then circBuffLength - 1 else circBuffLength);
            writeChunkLength = to_size (rnd (rnd (rnd (of_nat (unat maxWriteChunkLength)) / rnd (of_nat (unat maxCircBuffLength))) *
                                             rnd (of_nat (unat circBuffLength))))
        in if circBuffLength = 0 then (circBuffLength, writeChunkLength)
        else
          let writeChunkLength = (if writeChunkLength = 0 then 1 else writeChunkLength)
          in (circBuffLength, of_nat (largest_factor (unat circBuffLength) (unat writeChunkLength))))"

definition frameBytes :: "streamWriter \<Rightarrow> u64" where
  "frameBytes st = ucast (sw_width st) * ucast (sw_height st) * word_of_int (sw_typeSize st)"

text \<open>The frames that fit into a block of \<open>n\<close> bytes.\<close>

definition slots :: "u64 \<Rightarrow> u64 \<Rightarrow> nat \<Rightarrow> nat" where
  "slots n fb len = (if fb = 0 then len else unat n div unat fb)"

text \<open>\<open>ok1\<close> and \<open>ok2\<close> tell that the calls of \<open>malloc\<close> succeed.\<close>

definition allocate_circbufs :: "(real \<Rightarrow> real) \<Rightarrow> bool \<Rightarrow> bool \<Rightarrow> streamWriter \<Rightarrow> int \<times> streamWriter" where
  "allocate_circbufs rnd ok1 ok2 st =
     (let (len, chunk) = getCircBuffLengths rnd (sw_maxCircBuffLength st) (sw_maxCircBuffSize st) (sw_maxWriteChunkLength st)
                           (sw_width st) (sw_height st) (word_of_int (sw_typeSize st));
          st = st\<lparr>sw_circBuffLength := unat len, sw_writeChunkLength := unat chunk\<rparr>
      in if len < 2 then (- 1, sw_emit [SwLogCritical ''frame size too large to fit in maxCircBuffSize''] st)
      else if chunk \<ge> len then (- 1, sw_emit [SwLogCritical ''writeChunkLength is not smaller than circBuffLength''] st)
      else if unat len mod unat chunk \<noteq> 0
      then (- 1, sw_emit [SwLogCritical ''writeChunkLength is not an integer factor of circBuffLength''] st)
      else if \<not> ok1 then (- 1, sw_emit [SwLogCritical ''buffer allocation failure''] (st\<lparr>sw_rawImageCircBuff := None\<rparr>))
      else
        let st = st\<lparr>sw_rawImageCircBuff := Some (replicate (slots (frameBytes st * len) (frameBytes st) (unat len)) [])\<rparr>
        in if \<not> ok2 then (- 1, sw_emit [SwLogCritical ''buffer allocation failure''] (st\<lparr>sw_timingCircBuff := None\<rparr>))
        else (0, st\<lparr>sw_timingCircBuff := Some (replicate (slots (40 * len) 40 (unat len)) [])\<rparr>))"

definition release_circbufs :: "streamWriter \<Rightarrow> streamWriter" where
  "release_circbufs st = st\<lparr>sw_rawImageCircBuff := None, sw_timingCircBuff := None\<rparr>"

section \<open>The save window\<close>

text \<open>
  The second part of \<open>queueWrite\<close>, after the window before was released. \<open>post\<close> tells that
  \<open>sem_post\<close> succeeds.
\<close>

definition publish_window :: "bool \<Rightarrow> u64 \<Rightarrow> streamWriter \<Rightarrow> int \<times> streamWriter" where
  "publish_window post frameNo st =
     (if sw_currChunkStart st > sw_circBuffLength st \<or>
         sw_chunkFrames st > sw_circBuffLength st - sw_currChunkStart st \<or>
         sw_chunkFrames st > sw_writeChunkLength st
      then (- 1, sw_emit [SwLogCritical ''invalid capture chunk''] st)
      else if sw_chunkFrames st = 0 then (0, st)
      else
        let saveStop = sw_currChunkStart st + sw_chunkFrames st;
            chunkStart = (if saveStop = sw_circBuffLength st then 0 else saveStop);
            st = st\<lparr>sw_currSaveStart := sw_currChunkStart st, sw_currSaveStop := saveStop,
                    sw_currSaveStopFrameNo := frameNo, sw_stopQueued := (sw_writing st = STOP_WRITING),
                    sw_chunkFrames := 0, sw_currChunkStart := chunkStart,
                    sw_nextChunkStart := (chunkStart div sw_writeChunkLength st) * sw_writeChunkLength st,
                    sw_stopWriteDeadline := 0, sw_writePending := True\<rparr>
        in if \<not> post
           then (- 1, sw_emit [SwLogCritical ''Error posting to semaphore''] (st\<lparr>sw_writePending := False\<rparr>))
           else (0, st\<lparr>sw_semaphore := sw_semaphore st + 1\<rparr>))"

definition recordSavingState :: "bool \<Rightarrow> streamWriter \<Rightarrow> streamWriter" where
  "recordSavingState force st =
     (let s = (if sw_writing st = NOT_WRITING then 0 else 1); frameNo = sw_currSaveStopFrameNo st
      in if s \<noteq> sw_lastSavingState st \<or> frameNo \<noteq> sw_lastSavingFrame st \<or> force
         then sw_emit [SwTelemSaving s frameNo] (st\<lparr>sw_lastSavingState := s, sw_lastSavingFrame := frameNo\<rparr>)
         else st)"

definition completeWrite :: "bool \<Rightarrow> streamWriter \<Rightarrow> streamWriter" where
  "completeWrite success st =
     (let stops = (success \<and> sw_writing st = STOP_WRITING \<and> (sw_stopQueued st \<or> sw_chunkFrames st = 0));
          stopped = (stops \<and> \<not> sw_resumeAfterReconnect st);
          st = (if \<not> success then st\<lparr>sw_writerFailed := True, ma_shutdown := 1, sw_writing := NOT_WRITING\<rparr>
                else if stops
                then st\<lparr>sw_writing := if sw_resumeAfterReconnect st then START_WRITING else NOT_WRITING,
                        sw_stopWriteDeadline := 0\<rparr>
                else st);
          st = st\<lparr>sw_stopQueued := False, sw_writePending := False\<rparr>;
          st = (if stopped then sw_emit [SwSavingStop (sw_currSaveStopFrameNo st)] st else st)
      in recordSavingState False st)"

section \<open>Requests\<close>

definition newCallBack_writing :: "real \<Rightarrow> IndiProperty \<Rightarrow> streamWriter \<Rightarrow> int \<times> streamWriter" where
  "newCallBack_writing now ipRecv st =
     (if createUniqueKey ipRecv \<noteq> createUniqueKey (sw_indiP_writing st)
      then (- 1, sw_emit [SwLogError ''INDI properties do not match in callback''] st)
      else case map_find ''toggle'' (ip_elements ipRecv) of
        None \<Rightarrow> (0, st)
      | Some e \<Rightarrow>
          let off = (ie_switch e = Off); on = (ie_switch e = On);
              st = (if off \<and> sw_writing st = STOP_WRITING then st\<lparr>sw_resumeAfterReconnect := False\<rparr> else st)
          in if off \<and> (sw_writing st = WRITING \<or> sw_writing st = START_WRITING)
          then let st = st\<lparr>sw_resumeAfterReconnect := False, sw_stopWriteDeadline := now + sw_writeStopTimeout st\<rparr>
               in if sw_chunkFrames st = 0
                  then let pending = sw_writePending st;
                           st = st\<lparr>sw_writing := if pending then STOP_WRITING else NOT_WRITING, sw_stopQueued := pending,
                                   sw_stopWriteDeadline := 0\<rparr>
                       in (0, if pending then st
                              else recordSavingState False (sw_emit [SwSavingStop (sw_currSaveStopFrameNo st)] st))
                  else (0, st\<lparr>sw_writing := STOP_WRITING\<rparr>)
          else if on \<and> sw_writing st = NOT_WRITING
          then (0, st\<lparr>sw_writing := START_WRITING, sw_chunkFrames := 0, sw_stopQueued := False,
                     sw_resumeAfterReconnect := False, sw_stopWriteDeadline := 0\<rparr>)
          else (0, st))"


section \<open>The threads\<close>

text \<open>
  What follows a call of \<open>queueWrite\<close>: the rest of the capture of a frame (was the chunk full, was it
  too old), of the branch for a timeout, or of the clean-up.
\<close>

datatype sem_result = SemOk | SemTimeout | SemIntr | SemError

datatype fg_after = AfterCapture bool bool | AfterTimeout sem_result | AfterCleanup

datatype fg_pc =
    FgConnect \<comment> \<open>head of the outer loop\<close>
  | FgLoop \<comment> \<open>head of the grabbing loop\<close>
  | FgLock \<comment> \<open>a frame was announced, the lock is not yet taken\<close>
  | FgSlotWait | FgSlotRelock \<comment> \<open>waiting for the slot of the frame\<close>
  | FgTimeoutLock sem_result | FgTail sem_result \<comment> \<open>no frame was announced; \<open>errno\<close>\<close>
  | FgQueueWait fg_after u64 | FgQueueRelock fg_after u64 \<comment> \<open>in \<open>queueWrite\<close>\<close>
  | FgCleanup | FgCleanWait
  | FgReturned

datatype sw_pc =
    SwLoop
  | SwTaken \<comment> \<open>the semaphore was taken\<close>
  | SwBegin
  | SwValidate nat nat
  | SwRaw nat nat "bytes list" \<comment> \<open>the images copied so far\<close>
  | SwTiming nat nat "bytes list" "u64 list list"
  | SwWrite nat "bytes list" "u64 list list"
  | SwComplete bool
  | SwReturned

text \<open>The application, the threads with the local variables of \<open>fgThreadRun\<close>, and the history of the frames that were recorded.\<close>

record sw_sys =
  sys_st :: streamWriter
  sys_fg :: fg_pc
  fv_length :: nat
  fv_last_cnt0 :: u64
  fv_cnt0flag :: nat
  fv_restartWriting :: bool
  sys_sw :: sw_pc
  sys_recorded :: "sw_frame list"

text \<open>What a thread finds outside of the program during a step.\<close>

record image_md =
  md_dataType :: nat
  md_width :: u32
  md_height :: u32
  md_length :: nat

datatype conn_result = ConnRetry | ConnFail | ConnOk

record fg_env =
  fe_conn :: conn_result
  fe_typeSize :: int
  fe_malloc1 :: bool
  fe_malloc2 :: bool
  fe_xrif :: bool
  fe_clock :: bool \<comment> \<open>the clock can be read\<close>
  fe_sem :: sem_result
  fe_drained :: bool \<comment> \<open>the drain ended with \<open>EAGAIN\<close> or \<open>EINTR\<close>\<close>
  fe_md :: image_md
  fe_cnt0 :: u64
  fe_image :: bytes
  fe_timing :: "u64 list"
  fe_missing :: "(u64 \<times> u64) option" \<comment> \<open>the clock, for a frame without a time\<close>
  fe_signal :: bool \<comment> \<open>a signal sets \<open>m_shutdown\<close> while the frame is copied\<close>
  fe_now :: real
  fe_timedOut :: bool
  fe_post :: bool
  fe_serverGone :: bool
  fe_replaced :: bool \<comment> \<open>the file has disappeared or changed\<close>

record sw_env =
  se_sem :: sem_result
  se_clock :: bool
  se_xrif :: bool \<comment> \<open>capacity and sizes of the encoders are right\<close>
  se_mkdir :: bool
  se_fopen :: bool

definition in_window :: "nat \<Rightarrow> streamWriter \<Rightarrow> bool" where
  "in_window i st \<longleftrightarrow> sw_currSaveStart st \<le> i \<and> i < sw_currSaveStop st"

subsection \<open>The framegrabber\<close>

definition fg_goto :: "fg_pc \<Rightarrow> sw_sys \<Rightarrow> sw_sys" where
  "fg_goto pc s = s\<lparr>sys_fg := pc\<rparr>"

text \<open>The end of \<open>fgThreadRun\<close>, and what \<open>fgThreadExec\<close> does then.\<close>

definition fg_return :: "sw_sys \<Rightarrow> sw_sys" where
  "fg_return s = s\<lparr>sys_fg := FgReturned, sys_st := (sys_st s)\<lparr>sw_fgReady := False, sw_fgStopped := True\<rparr>\<rparr>"

definition fg_connect :: "(real \<Rightarrow> real) \<Rightarrow> fg_env \<Rightarrow> sw_sys \<Rightarrow> sw_sys" where
  "fg_connect rnd env s =
     (let st = (sys_st s)\<lparr>sw_fgReady := False, sw_restart := False\<rparr>; s = s\<lparr>sys_st := st\<rparr>
      in case fe_conn env of
        ConnRetry \<Rightarrow> s
      | ConnFail \<Rightarrow> fg_return s
      | ConnOk \<Rightarrow>
          let md = fe_md env;
              st = st\<lparr>sw_dataType := md_dataType md, sw_typeSize := fe_typeSize env, sw_width := md_width md,
                      sw_height := md_height md\<rparr>;
              (rv, st) = allocate_circbufs rnd (fe_malloc1 env) (fe_malloc2 env) st;
              s = s\<lparr>sys_st := st\<rparr>
          in if rv < 0 \<or> \<not> fe_xrif env then fg_return s
          else s\<lparr>sys_st := st\<lparr>sw_currImage := 0, sw_currChunkStart := 0, sw_nextChunkStart := 0, sw_chunkFrames := 0,
                                sw_stopQueued := False, sw_fgReady := True\<rparr>,
                 fv_length := md_length md, fv_last_cnt0 := fe_cnt0 env, fv_cnt0flag := 0, fv_restartWriting := False,
                 sys_fg := FgLoop\<rparr>)"

text \<open>The end of the capture of a frame.\<close>

definition advance :: "streamWriter \<Rightarrow> streamWriter" where
  "advance st =
     st\<lparr>sw_currImage := if sw_currImage st + 1 \<ge> sw_circBuffLength st then 0 else sw_currImage st + 1\<rparr>"

definition fg_resume :: "fg_after \<Rightarrow> sw_sys \<Rightarrow> sw_sys" where
  "fg_resume a s =
     (let restart = (\<lambda>s. s\<lparr>sys_st := (sys_st s)\<lparr>sw_writing := START_WRITING\<rparr>, fv_restartWriting := True\<rparr>)
      in case a of
        AfterCapture full expired \<Rightarrow>
          let s = (if \<not> full \<and> expired \<and> sw_writing (sys_st s) = WRITING then restart s else s)
          in s\<lparr>sys_st := advance (sys_st s), sys_fg := FgLoop\<rparr>
      | AfterTimeout r \<Rightarrow>
          (let s = (if sw_writing (sys_st s) = WRITING then restart s else s) in s\<lparr>sys_fg := FgTail r\<rparr>)
      | AfterCleanup \<Rightarrow> s\<lparr>sys_fg := FgCleanWait\<rparr>)"

definition queue_publish :: "fg_env \<Rightarrow> fg_after \<Rightarrow> u64 \<Rightarrow> sw_sys \<Rightarrow> sw_sys" where
  "queue_publish env a frameNo s =
     (let (rv, st) = publish_window (fe_post env) frameNo (sys_st s); s = s\<lparr>sys_st := st\<rparr>
      in if rv < 0 then fg_return s else fg_resume a s)"

text \<open>\<open>queueWrite\<close>, up to the wait for the window before.\<close>

definition queueWrite :: "fg_env \<Rightarrow> fg_after \<Rightarrow> u64 \<Rightarrow> sw_sys \<Rightarrow> sw_sys" where
  "queueWrite env a frameNo s =
     (if sw_writerFailed (sys_st s) then fg_return s
      else if sw_writePending (sys_st s) then fg_goto (FgQueueWait a frameNo) s
      else queue_publish env a frameNo s)"

text \<open>
  \<open>waitForWriteCompletion\<close>: a step in which the wait goes on, ends well, or fails and ends the
  thread.
\<close>

definition waitForWriteCompletion :: "fg_env \<Rightarrow> fg_pc \<Rightarrow> sw_sys \<Rightarrow> sw_sys" where
  "waitForWriteCompletion env pc s =
     (let st = sys_st s
      in if \<not> sw_writePending st \<or> sw_writerFailed st
         then (if sw_writerFailed st then fg_return (s\<lparr>sys_st := st\<lparr>ma_shutdown := 1\<rparr>\<rparr>) else fg_goto pc s)
         else if fe_timedOut env
         then fg_return (s\<lparr>sys_st := sw_emit [SwLogText ''timed out waiting for the writer thread''] (st\<lparr>ma_shutdown := 1\<rparr>)\<rparr>)
         else s)"

definition put_slot :: "nat \<Rightarrow> 'v \<Rightarrow> 'v list option \<Rightarrow> 'v list option" where
  "put_slot i x b = do { xs \<leftarrow> b; if i < length xs then Some (xs[i := x]) else None }"

text \<open>
  The timing record of a frame: the acquisition time is filled in from the clock, the write time
  from the acquisition time, when they are missing.
\<close>

definition frame_timing :: "fg_env \<Rightarrow> u64 list option" where
  "frame_timing env =
     (let t = fe_timing env
      in do { t \<leftarrow> (if t ! 1 = 0 then map_option (\<lambda>(s, ns). t[1 := s, 2 := ns]) (fe_missing env) else Some t);
              Some (if t ! 3 = 0 then t[3 := t ! 1, 4 := t ! 2] else t) })"

text \<open>The recording state when a frame has been copied: a shutdown stops, a start is completed.\<close>

definition update_recording :: "fg_env \<Rightarrow> sw_frame \<Rightarrow> sw_sys \<Rightarrow> sw_sys" where
  "update_recording env fr s =
     (let st = (sys_st s)\<lparr>sw_currImageTime := fr_timing fr ! 3 * 1000000000 + fr_timing fr ! 4\<rparr>;
          st = (if fe_signal env then st\<lparr>ma_shutdown := 1\<rparr> else st);
          st = (if ma_shutdown st \<noteq> 0 \<and> sw_writing st = WRITING
                then st\<lparr>sw_writing := STOP_WRITING, sw_stopWriteDeadline := 0\<rparr> else st)
      in if sw_writing st = START_WRITING
         then let st = (if \<not> fv_restartWriting s \<and> \<not> sw_resumeAfterReconnect st
                        then sw_emit [SwSavingStart (fe_cnt0 env)] st else st)
              in s\<lparr>fv_restartWriting := False, sys_st := st\<lparr>sw_resumeAfterReconnect := False, sw_writing := WRITING\<rparr>\<rparr>
         else s\<lparr>sys_st := st\<rparr>)"

definition append_frame :: "streamWriter \<Rightarrow> streamWriter" where
  "append_frame st =
     (let st = (if sw_chunkFrames st = 0
                then st\<lparr>sw_currChunkStart := sw_currImage st,
                        sw_nextChunkStart := (sw_currImage st div sw_writeChunkLength st) * sw_writeChunkLength st,
                        sw_currChunkStartTime := sw_currImageTime st\<rparr>
                else st)
      in st\<lparr>sw_chunkFrames := sw_chunkFrames st + 1\<rparr>)"

definition chunk_full :: "streamWriter \<Rightarrow> bool" where
  "chunk_full st \<longleftrightarrow> sw_currImage st - sw_nextChunkStart st = sw_writeChunkLength st - 1"

definition chunk_expired :: "streamWriter \<Rightarrow> bool" where
  "chunk_expired st \<longleftrightarrow>
     sw_currImageTime st \<ge> sw_currChunkStartTime st \<and>
     sw_currImageTime st - sw_currChunkStartTime st > to_size (sw_maxChunkTime st * 1000000000)"

text \<open>What happens to a frame that was copied.\<close>

definition record_frame :: "fg_env \<Rightarrow> sw_frame \<Rightarrow> sw_sys \<Rightarrow> sw_sys" where
  "record_frame env fr s =
     (let s = update_recording env fr s; st = sys_st s
      in if sw_writing st = WRITING \<or> sw_writing st = STOP_WRITING \<and> \<not> sw_stopQueued st
         then
           let st = append_frame st;
               s = s\<lparr>sys_st := st, sys_recorded := sys_recorded s @ [fr]\<rparr>
           in if chunk_full st \<or> chunk_expired st \<or> sw_writing st = STOP_WRITING
              then queueWrite env (AfterCapture (chunk_full st) (chunk_expired st)) (fe_cnt0 env) s
              else s\<lparr>sys_st := advance st, sys_fg := FgLoop\<rparr>
         else s\<lparr>sys_st := advance st, sys_fg := FgLoop\<rparr>)"

definition store_frame :: "fg_env \<Rightarrow> sw_sys \<Rightarrow> sw_sys option" where
  "store_frame env s =
     (let st = sys_st s; i = sw_currImage st
      in do { raw \<leftarrow> put_slot i (fe_image env) (sw_rawImageCircBuff st);
              let st = st\<lparr>sw_rawImageCircBuff := Some raw\<rparr>;
              case frame_timing env of
                None \<Rightarrow> Some (fg_return (s\<lparr>sys_st := sw_emit [SwLogCritical ''clock_gettime''] st\<rparr>))
              | Some t \<Rightarrow>
                  do { tim \<leftarrow> put_slot i t (sw_timingCircBuff st);
                       let st = st\<lparr>sw_timingCircBuff := Some tim\<rparr>;
                       Some (record_frame env \<lparr>fr_image = fe_image env, fr_timing = t\<rparr> (s\<lparr>sys_st := st\<rparr>)) } })"

text \<open>The capture of a frame, with the lock held and the slot free.\<close>

definition capture :: "fg_env \<Rightarrow> sw_sys \<Rightarrow> sw_sys option" where
  "capture env s =
     (let st = sys_st s; md = fe_md env
      in if md_dataType md \<noteq> sw_dataType st \<or> md_width md \<noteq> sw_width st \<or> md_height md \<noteq> sw_height st \<or>
            md_length md \<noteq> fv_length s
         then Some (fg_goto FgCleanup s)
         else if ma_shutdown st \<noteq> 0 \<or> sw_restart st then Some (fg_goto FgCleanup s)
         else if fe_cnt0 env = fv_last_cnt0 s
         then let n = fv_cnt0flag s + 1;
                  st = st\<lparr>sw_repeatSemaphoreCount := sw_repeatSemaphoreCount st + 1, sw_restart := sw_restart st \<or> n > 10\<rparr>
              in Some (s\<lparr>sys_st := st, fv_cnt0flag := n, sys_fg := FgLoop\<rparr>)
         else
           let n = fe_cnt0 env - fv_last_cnt0 s;
               skipped = (if n > 1 then n - 1 else 0)
           in store_frame env (s\<lparr>sys_st := st\<lparr>sw_skippedFrameCount := sw_skippedFrameCount st + skipped\<rparr>,
                                 fv_cnt0flag := 0, fv_last_cnt0 := fe_cnt0 env\<rparr>))"

text \<open>No frame was announced in time.\<close>

definition fg_timeout :: "fg_env \<Rightarrow> sem_result \<Rightarrow> sw_sys \<Rightarrow> sw_sys" where
  "fg_timeout env r s =
     (let st = sys_st s;
          expired = (sw_writing st = WRITING \<and> sw_chunkFrames st > 0 \<and>
                     fe_now env * 1000000000 - of_nat (unat (sw_currChunkStartTime st)) >
                       of_nat (unat (to_size (sw_maxChunkTime st * 1000000000))));
          stopping = (sw_writing st = STOP_WRITING \<and> \<not> sw_stopQueued st \<and> fe_now env \<ge> sw_stopWriteDeadline st)
      in if (expired \<or> stopping) \<and> sw_chunkFrames st > 0
         then queueWrite env (AfterTimeout r) (fv_last_cnt0 s) s
         else fg_goto (FgTail r) s)"

definition fg_cleanup :: "fg_env \<Rightarrow> sw_sys \<Rightarrow> sw_sys" where
  "fg_cleanup env s =
     (let st = (sys_st s)\<lparr>sw_fgReady := False\<rparr>;
          resume = (ma_shutdown st = 0 \<and> (sw_writing st = WRITING \<or> sw_writing st = START_WRITING));
          st = st\<lparr>sw_resumeAfterReconnect := resume\<rparr>
      in if sw_chunkFrames st > 0
         then queueWrite env AfterCleanup (fv_last_cnt0 s)
                (s\<lparr>sys_st := st\<lparr>sw_writing := STOP_WRITING, sw_stopWriteDeadline := 0\<rparr>\<rparr>)
         else if sw_writePending st
         then s\<lparr>sys_st := st\<lparr>sw_writing := STOP_WRITING, sw_stopQueued := True\<rparr>, sys_fg := FgCleanWait\<rparr>
         else s\<lparr>sys_st := st\<lparr>sw_writing := if resume then START_WRITING else NOT_WRITING\<rparr>, sys_fg := FgCleanWait\<rparr>)"

definition fg_next :: "(real \<Rightarrow> real) \<Rightarrow> fg_env \<Rightarrow> sw_sys \<Rightarrow> sw_sys option" where
  "fg_next rnd env s =
     (let st = sys_st s
      in case sys_fg s of
        FgConnect \<Rightarrow>
          Some (if ma_shutdown st \<noteq> 0 then fg_return (s\<lparr>sys_st := release_circbufs st\<rparr>) else fg_connect rnd env s)
      | FgLoop \<Rightarrow>
          Some (if ma_shutdown st \<noteq> 0 \<or> sw_restart st then fg_goto FgCleanup s
                else if \<not> fe_clock env then fg_return (s\<lparr>sys_st := sw_emit [SwLogCritical ''clock_gettime''] st\<rparr>)
                else if fe_sem env = SemOk
                then (if fe_drained env then fg_goto FgLock s
                      else fg_goto FgCleanup (s\<lparr>sys_st := sw_emit [SwLogError ''sem_trywait''] st\<rparr>))
                else fg_goto (FgTimeoutLock (fe_sem env)) s)
      | FgLock \<Rightarrow>
          if sw_writePending st \<and> in_window (sw_currImage st) st then Some (fg_goto FgSlotWait s) else capture env s
      | FgSlotWait \<Rightarrow> Some (waitForWriteCompletion env FgSlotRelock s)
      | FgSlotRelock \<Rightarrow> capture env s
      | FgTimeoutLock r \<Rightarrow> Some (fg_timeout env r s)
      | FgTail r \<Rightarrow>
          Some (if fe_serverGone env \<or> r = SemIntr then fg_goto FgCleanup s
                else if r \<noteq> SemTimeout then fg_goto FgCleanup (s\<lparr>sys_st := sw_emit [SwLogError ''sem_timedwait''] st\<rparr>)
                else fg_goto FgLoop (if fe_replaced env then s\<lparr>sys_st := st\<lparr>sw_restart := True\<rparr>\<rparr> else s))
      | FgQueueWait a frameNo \<Rightarrow> Some (waitForWriteCompletion env (FgQueueRelock a frameNo) s)
      | FgQueueRelock a frameNo \<Rightarrow> Some (queue_publish env a frameNo s)
      | FgCleanup \<Rightarrow> Some (fg_cleanup env s)
      | FgCleanWait \<Rightarrow>
          (let s = waitForWriteCompletion env FgConnect s
           in Some (if sys_fg s = FgConnect then s\<lparr>sys_st := release_circbufs (sys_st s)\<rparr> else s))
      | FgReturned \<Rightarrow> Some s)"

subsection \<open>The writer\<close>

definition sw_goto :: "sw_pc \<Rightarrow> sw_sys \<Rightarrow> sw_sys" where
  "sw_goto pc s = s\<lparr>sys_sw := pc\<rparr>"

definition get_slot :: "nat \<Rightarrow> 'v list option \<Rightarrow> 'v option" where
  "get_slot i b = do { xs \<leftarrow> b; if i < length xs then Some (xs ! i) else None }"

text \<open>
  \<open>doEncode\<close> from the copy of the window on. Errors of the encoder and of \<open>fwrite\<close> are only logged;
  what reaches the disk is the business of xrif, the archive records what it was given.
\<close>

definition write_archive :: "sw_env \<Rightarrow> nat \<Rightarrow> bytes list \<Rightarrow> u64 list list \<Rightarrow> streamWriter \<Rightarrow> (bool \<times> streamWriter) option" where
  "write_archive env saveStart raw tim st =
     do { t \<leftarrow> get_slot saveStart (sw_timingCircBuff st);
          Some (case fileTimeRelPath_dev (sw_outName st) ''xrif'' (sint (t ! 1)) (sint (t ! 2)) of
                  Inl e \<Rightarrow> (False, sw_emit [SwLogError ''error from file::fileTimeRePath: ''] st)
                | Inr (fileName, relPath) \<Rightarrow>
                    if \<not> se_mkdir env then (False, sw_emit [SwLogCritical ''create_directories''] st)
                    else if \<not> se_fopen env then (False, sw_emit [SwLogCritical ''failed to open file for writing''] st)
                    else (True, st\<lparr>sw_archives := sw_archives st @
                                    [(sw_rawimageDir st @ ''/'' @ relPath @ ''/'' @ fileName,
                                      map2 (\<lambda>r t. \<lparr>fr_image = r, fr_timing = t\<rparr>) raw tim)]\<rparr>)) }"

definition valid_window :: "nat \<Rightarrow> nat \<Rightarrow> streamWriter \<Rightarrow> bool" where
  "valid_window saveStart saveStop st \<longleftrightarrow>
     \<not> (saveStart > saveStop \<or> saveStop > sw_circBuffLength st \<or> saveStop - saveStart > sw_writeChunkLength st)"

definition encoder_ready :: "sw_env \<Rightarrow> streamWriter \<Rightarrow> bool" where
  "encoder_ready env st \<longleftrightarrow>
     (let w = uint (sw_width st); h = uint (sw_height st); t = sw_typeSize st; len = int (sw_circBuffLength st); maxSize = 2 ^ 64 - 1
      in \<not> (w = 0 \<or> h = 0 \<or> t \<le> 0 \<or> w > maxSize div h \<or> w * h > maxSize div t) \<and>
         \<not> (len > maxSize div (w * h * t) \<or> len > maxSize div 40 \<or>
            sw_rawImageCircBuff st = None \<or> sw_timingCircBuff st = None \<or> \<not> se_xrif env))"

text \<open>The writer sleeps until the application is ready.\<close>

definition writer_up :: "streamWriter \<Rightarrow> bool" where
  "writer_up st \<longleftrightarrow> ma_shutdown st \<noteq> 0 \<or> ma_state st = READY \<or> ma_state st = OPERATING"

definition sw_next :: "sw_env \<Rightarrow> sw_sys \<Rightarrow> sw_sys option" where
  "sw_next env s =
     (let st = sys_st s
      in case sys_sw s of
        SwLoop \<Rightarrow>
          Some (if ma_shutdown st \<noteq> 0 \<and> sw_fgStopped st \<and> \<not> sw_writePending st then sw_goto SwReturned s
                else if \<not> writer_up st then s
                else if \<not> se_clock env then sw_goto SwReturned (s\<lparr>sys_st := sw_emit [SwLogCritical ''clock_gettime''] st\<rparr>)
                else case se_sem env of
                  SemOk \<Rightarrow> if sw_semaphore st > 0
                           then sw_goto SwTaken (s\<lparr>sys_st := st\<lparr>sw_semaphore := sw_semaphore st - 1\<rparr>\<rparr>) else s
                | SemTimeout \<Rightarrow> s
                | SemIntr \<Rightarrow> s
                | SemError \<Rightarrow> sw_goto SwReturned (s\<lparr>sys_st := sw_emit [SwLogError ''sem_timedwait''] st\<rparr>))
      | SwTaken \<Rightarrow> Some (sw_goto (if sw_writePending st then SwBegin else SwLoop) s)
      | SwBegin \<Rightarrow>
          Some (if sw_writing st = NOT_WRITING then sw_goto SwLoop (s\<lparr>sys_st := st\<lparr>sw_writePending := False\<rparr>\<rparr>)
                else sw_goto (SwValidate (sw_currSaveStart st) (sw_currSaveStop st))
                       (s\<lparr>sys_st := recordSavingState True (st\<lparr>sw_writePending := True\<rparr>)\<rparr>))
      | SwValidate a b \<Rightarrow>
          Some (if \<not> valid_window a b st then sw_goto (SwComplete False) s
                else if b = a then sw_goto (SwComplete True) s
                else if \<not> encoder_ready env st then sw_goto (SwComplete False) s
                else sw_goto (SwRaw a b []) s)
      | SwRaw a b raw \<Rightarrow>
          if a + length raw < b
          then do { r \<leftarrow> get_slot (a + length raw) (sw_rawImageCircBuff st); Some (sw_goto (SwRaw a b (raw @ [r])) s) }
          else Some (sw_goto (SwTiming a b raw []) s)
      | SwTiming a b raw tim \<Rightarrow>
          if a + length tim < b
          then do { t \<leftarrow> get_slot (a + length tim) (sw_timingCircBuff st); Some (sw_goto (SwTiming a b raw (tim @ [t])) s) }
          else Some (sw_goto (SwWrite a raw tim) s)
      | SwWrite a raw tim \<Rightarrow>
          do { (ok, st) \<leftarrow> write_archive env a raw tim st; Some (sw_goto (SwComplete ok) (s\<lparr>sys_st := st\<rparr>)) }
      | SwComplete ok \<Rightarrow>
          Some (sw_goto (if ok then SwLoop else SwReturned)
                 (s\<lparr>sys_st := (let st = completeWrite ok st in if ok then st else sw_emit [SwLogCritical ''error encoding data''] st)\<rparr>))
      | SwReturned \<Rightarrow> Some s)"

subsection \<open>The application\<close>

text \<open>The report on the frames that were missed, every 10 seconds, less often while there are any.\<close>

definition skip_summary :: "real \<Rightarrow> streamWriter \<Rightarrow> streamWriter" where
  "skip_summary now st =
     (let st = (if sw_nextSkipSummaryTime st = 0 then st\<lparr>sw_nextSkipSummaryTime := now + sw_skipSummaryIntervalSec st\<rparr> else st)
      in if now < sw_nextSkipSummaryTime st then st
      else
        let skipped = sw_skippedFrameCount st; repeated = sw_repeatSemaphoreCount st; interval = sw_skipSummaryIntervalSec st;
            st = st\<lparr>sw_skippedFrameCount := 0, sw_repeatSemaphoreCount := 0\<rparr>;
            st = (if skipped > 0 \<or> repeated > 0
                  then
                    let msg = ''stream ingest backlog: '' @
                          (if skipped > 0 then fmt0 1 (uint skipped) @ '' skipped frames'' else []) @
                          (if repeated > 0 then (if skipped > 0 then '', '' else []) @ fmt0 1 (uint repeated) @ '' repeated semaphore wakes''
                           else []) @
                          '' in last '' @ fmt0 1 \<lfloor>interval\<rfloor> @ '' sec''
                    in sw_emit [SwLogSummary (sw_warnMissedData st) msg]
                         (st\<lparr>sw_skipSummaryIntervalSec := if interval * 2 > 60 then 60 else interval * 2\<rparr>)
                  else st\<lparr>sw_skipSummaryIntervalSec := 10\<rparr>)
        in st\<lparr>sw_nextSkipSummaryTime := now + sw_skipSummaryIntervalSec st\<rparr>)"

text \<open>\<open>updateINDI\<close>, without the statistics of the encoder.\<close>

definition sw_updateINDI :: "streamWriter \<Rightarrow> streamWriter" where
  "sw_updateINDI st =
     (if sw_writing st = STOP_WRITING then st
      else
        let (p, sent) = updateSwitchIfChanged (app_driver st) ''toggle'' (if sw_writing st = NOT_WRITING then Off else On) Ok
                          (sw_indiP_writing st)
        in app_emit (map AppSendSet sent) (st\<lparr>sw_indiP_writing := p\<rparr>))"

text \<open>\<open>fg\<close> and \<open>sw\<close> tell that the threads have exited; \<open>owns_lock\<close> as in \<^const>\<open>set_state\<close>.\<close>

definition sw_appLogic :: "real \<Rightarrow> bool \<Rightarrow> bool \<Rightarrow> bool \<Rightarrow> streamWriter \<Rightarrow> int \<times> streamWriter" where
  "sw_appLogic now owns_lock fg sw st =
     (let st = skip_summary now st
      in if fg then (- 1, sw_emit [SwLogError ''framegrabber thread has exited''] st)
      else if sw then (- 1, sw_emit [SwLogError ''stream thread has exited''] st)
      else (0, sw_updateINDI (set_state owns_lock (if sw_writing st = NOT_WRITING then READY else OPERATING) False st)))"

text \<open>\<open>appShutdown\<close>, after the threads were joined.\<close>

definition sw_appShutdown :: "streamWriter \<Rightarrow> streamWriter" where
  "sw_appShutdown st =
     release_circbufs (sw_updateINDI (st\<lparr>sw_writing := NOT_WRITING, sw_writePending := False, sw_chunkFrames := 0,
                          sw_stopQueued := False, sw_resumeAfterReconnect := False, sw_stopWriteDeadline := 0\<rparr>))"

text \<open>
  A schedule: steps of the threads, a request, a turn of the main loop (which shuts down when \<open>appLogic\<close>
  fails), a signal, and the end of the application.
\<close>

datatype sw_act = FgStep fg_env | SwStep sw_env | Request real IndiProperty | Logic real bool | SwSignal | SwShutdown

fun sys_step :: "(real \<Rightarrow> real) \<Rightarrow> sw_act \<Rightarrow> sw_sys \<Rightarrow> sw_sys option" where
  "sys_step rnd (FgStep env) s = fg_next rnd env s"
| "sys_step rnd (SwStep env) s = sw_next env s"
| "sys_step rnd (Request now ip) s = Some (s\<lparr>sys_st := snd (newCallBack_writing now ip (sys_st s))\<rparr>)"
| "sys_step rnd (Logic now owns_lock) s =
     (let (rv, st) = sw_appLogic now owns_lock (sys_fg s = FgReturned) (sys_sw s = SwReturned) (sys_st s)
      in Some (s\<lparr>sys_st := if rv < 0 then st\<lparr>ma_shutdown := 1\<rparr> else st\<rparr>))"
| "sys_step rnd SwSignal s = Some (s\<lparr>sys_st := (sys_st s)\<lparr>ma_shutdown := 1\<rparr>\<rparr>)"
| "sys_step rnd SwShutdown s =
     Some (if sys_fg s = FgReturned \<and> sys_sw s = SwReturned then s\<lparr>sys_st := sw_appShutdown (sys_st s)\<rparr> else s)"

fun sys_run :: "(real \<Rightarrow> real) \<Rightarrow> sw_act list \<Rightarrow> sw_sys \<Rightarrow> sw_sys option" where
  "sys_run rnd [] s = Some s"
| "sys_run rnd (a # as) s = do { s \<leftarrow> sys_step rnd a s; sys_run rnd as s }"

end
