(* ===== verification/StreamInv.thy ===== *)
theory StreamInv
  imports StreamWriter
begin

text \<open>
  Correctness of the stream writer: the invariant of the threads and the shared save window, that
  every step keeps it, and what follows for the files that are written.
\<close>

section \<open>The invariant\<close>

text \<open>The frames in the slots from \<open>i\<close> on.\<close>

definition frames_at :: "streamWriter \<Rightarrow> nat \<Rightarrow> nat \<Rightarrow> sw_frame list" where
  "frames_at st i n =
     map (\<lambda>j. \<lparr>fr_image = the (sw_rawImageCircBuff st) ! j, fr_timing = the (sw_timingCircBuff st) ! j\<rparr>) [i ..< i + n]"

definition archived :: "streamWriter \<Rightarrow> sw_frame list" where
  "archived st = concat (map snd (sw_archives st))"

text \<open>The frames of a save window that is not yet written, and of the chunk that is being captured.\<close>

definition in_flight :: "streamWriter \<Rightarrow> sw_pc \<Rightarrow> sw_frame list" where
  "in_flight st sw =
     (if sw_writePending st \<and> sw \<noteq> SwComplete True
      then frames_at st (sw_currSaveStart st) (sw_currSaveStop st - sw_currSaveStart st) else [])"

definition cur_chunk :: "streamWriter \<Rightarrow> sw_frame list" where
  "cur_chunk st = frames_at st (sw_currChunkStart st) (sw_chunkFrames st)"

definition bufs_ok :: "streamWriter \<Rightarrow> bool" where
  "bufs_ok st \<longleftrightarrow>
     (\<exists>r t. sw_rawImageCircBuff st = Some r \<and> sw_timingCircBuff st = Some t \<and>
        sw_circBuffLength st \<le> length r \<and> sw_circBuffLength st \<le> length t) \<and>
     0 < sw_writeChunkLength st \<and> sw_writeChunkLength st dvd sw_circBuffLength st"

text \<open>What the writer holds agrees with the window.\<close>

fun sw_ok :: "streamWriter \<Rightarrow> sw_pc \<Rightarrow> bool" where
  "sw_ok st SwLoop \<longleftrightarrow> sw_semaphore st = of_bool (sw_writePending st)"
| "sw_ok st SwReturned \<longleftrightarrow> True"
| "sw_ok st (SwValidate a b) \<longleftrightarrow>
     sw_writePending st \<and> sw_semaphore st = 0 \<and> a = sw_currSaveStart st \<and> b = sw_currSaveStop st"
| "sw_ok st (SwRaw a b raw) \<longleftrightarrow>
     sw_writePending st \<and> sw_semaphore st = 0 \<and> a = sw_currSaveStart st \<and> b = sw_currSaveStop st \<and> a < b \<and>
     length raw \<le> b - a \<and> raw = map fr_image (frames_at st a (length raw))"
| "sw_ok st (SwTiming a b raw tim) \<longleftrightarrow>
     sw_writePending st \<and> sw_semaphore st = 0 \<and> a = sw_currSaveStart st \<and> b = sw_currSaveStop st \<and> a < b \<and>
     raw = map fr_image (frames_at st a (b - a)) \<and>
     length tim \<le> b - a \<and> tim = map fr_timing (frames_at st a (length tim))"
| "sw_ok st (SwWrite a raw tim) \<longleftrightarrow>
     sw_writePending st \<and> sw_semaphore st = 0 \<and> a = sw_currSaveStart st \<and> a < sw_currSaveStop st \<and>
     raw = map fr_image (frames_at st a (sw_currSaveStop st - a)) \<and>
     tim = map fr_timing (frames_at st a (sw_currSaveStop st - a))"
| "sw_ok st _ \<longleftrightarrow> sw_writePending st \<and> sw_semaphore st = 0"

fun captured :: "fg_pc \<Rightarrow> bool" where
  "captured (FgQueueWait (AfterCapture _ _) _) = True"
| "captured (FgQueueRelock (AfterCapture _ _) _) = True"
| "captured _ = False"

fun queueing :: "fg_pc \<Rightarrow> bool" where
  "queueing (FgQueueWait _ _) = True"
| "queueing (FgQueueRelock _ _) = True"
| "queueing _ = False"

fun relocking :: "fg_pc \<Rightarrow> bool" where
  "relocking (FgQueueRelock _ _) = True"
| "relocking FgSlotRelock = True"
| "relocking _ = False"

definition fg_connected :: "fg_pc \<Rightarrow> bool" where
  "fg_connected fg \<longleftrightarrow> fg \<noteq> FgConnect \<and> fg \<noteq> FgReturned"

text \<open>The chunk lies in one aligned block and ends at the current image.\<close>

definition chunk_ok :: "streamWriter \<Rightarrow> fg_pc \<Rightarrow> bool" where
  "chunk_ok st fg \<longleftrightarrow>
     sw_nextChunkStart st = (sw_currChunkStart st div sw_writeChunkLength st) * sw_writeChunkLength st \<and>
     sw_currChunkStart st + sw_chunkFrames st = sw_currImage st + of_bool (captured fg) \<and>
     sw_currImage st < sw_nextChunkStart st + sw_writeChunkLength st"

definition states_ok :: "streamWriter \<Rightarrow> fg_pc \<Rightarrow> bool" where
  "states_ok st fg \<longleftrightarrow>
     (sw_writing st = NOT_WRITING \<or> sw_writing st = START_WRITING \<longrightarrow> sw_chunkFrames st = 0) \<and>
     (sw_stopQueued st \<longrightarrow> sw_writing st = STOP_WRITING \<and> sw_chunkFrames st = 0 \<and> (sw_writePending st \<or> fg = FgReturned)) \<and>
     (sw_chunkFrames st > 0 \<and> fg \<noteq> FgReturned \<longrightarrow> chunk_ok st fg) \<and>
     (queueing fg \<longrightarrow> sw_chunkFrames st > 0) \<and>
     (fg = FgConnect \<or> fg = FgCleanWait \<longrightarrow> sw_chunkFrames st = 0)"

definition window_ok :: "streamWriter \<Rightarrow> bool" where
  "window_ok st \<longleftrightarrow>
     sw_currSaveStart st \<le> sw_currSaveStop st \<and> sw_currSaveStop st \<le> sw_circBuffLength st \<and>
     sw_currSaveStop st - sw_currSaveStart st \<le> sw_writeChunkLength st \<and> sw_writing st \<noteq> NOT_WRITING"

definition winv :: "streamWriter \<Rightarrow> fg_pc \<Rightarrow> sw_pc \<Rightarrow> sw_frame list \<Rightarrow> bool" where
  "winv st fg sw recs \<longleftrightarrow>
     (sw_writerFailed st \<longrightarrow> ma_shutdown st \<noteq> 0 \<and> \<not> sw_writePending st \<and> sw = SwReturned) \<and>
     (fg_connected fg \<or> sw_writePending st \<longrightarrow> bufs_ok st) \<and>
     (fg_connected fg \<longrightarrow> sw_currImage st < sw_circBuffLength st) \<and>
     (sw_writePending st \<longrightarrow> window_ok st) \<and>
     (relocking fg \<longrightarrow> \<not> sw_writePending st \<and> \<not> sw_writerFailed st) \<and> (fg = FgConnect \<longrightarrow> \<not> sw_writePending st) \<and>
     sw_ok st sw \<and> (\<not> sw_writerFailed st \<longrightarrow> states_ok st fg) \<and>
     prefix (archived st @ in_flight st sw) recs \<and>
     (\<not> sw_writerFailed st \<and> fg \<noteq> FgReturned \<longrightarrow> archived st @ in_flight st sw @ cur_chunk st = recs)"

definition stream_inv :: "sw_sys \<Rightarrow> bool" where
  "stream_inv s \<longleftrightarrow> winv (sys_st s) (sys_fg s) (sys_sw s) (sys_recorded s)"

lemma frames_at_0 [simp]: "frames_at st i 0 = []"
  by (simp add: frames_at_def)

lemma length_frames_at [simp]: "length (frames_at st i n) = n"
  by (simp add: frames_at_def)

lemma frames_at_Suc:
  "frames_at st i (Suc n) =
     frames_at st i n @ [\<lparr>fr_image = the (sw_rawImageCircBuff st) ! (i + n), fr_timing = the (sw_timingCircBuff st) ! (i + n)\<rparr>]"
  by (simp add: frames_at_def)

lemma frames_at_cong:
  "sw_rawImageCircBuff st' = sw_rawImageCircBuff st \<Longrightarrow> sw_timingCircBuff st' = sw_timingCircBuff st \<Longrightarrow>
     frames_at st' i n = frames_at st i n"
  by (simp add: frames_at_def)

lemma frames_at_put:
  assumes "sw_rawImageCircBuff st' = Some ((the (sw_rawImageCircBuff st))[c := x])"
    and "sw_timingCircBuff st' = Some ((the (sw_timingCircBuff st))[c := y])" "c < i \<or> i + n \<le> c"
  shows "frames_at st' i n = frames_at st i n"
  using assms by (auto simp: frames_at_def nth_list_update)

lemma writer_cong:
  assumes "sw_rawImageCircBuff st' = sw_rawImageCircBuff st" "sw_timingCircBuff st' = sw_timingCircBuff st"
    and "sw_writePending st' = sw_writePending st" "sw_semaphore st' = sw_semaphore st"
    and "sw_currSaveStart st' = sw_currSaveStart st" "sw_currSaveStop st' = sw_currSaveStop st"
  shows "sw_ok st' sw = sw_ok st sw" "in_flight st' sw = in_flight st sw"
proof -
  have f: "frames_at st' i n = frames_at st i n" for i n using assms(1,2) by (rule frames_at_cong)
  show "sw_ok st' sw = sw_ok st sw" by (cases sw) (simp_all add: assms f)
  show "in_flight st' sw = in_flight st sw" by (simp add: in_flight_def assms f)
qed

text \<open>A change of members that the invariant does not speak of.\<close>

lemma winv_cong:
  assumes "winv st fg sw recs"
    and "sw_writerFailed st' = sw_writerFailed st" "ma_shutdown st \<noteq> 0 \<longrightarrow> ma_shutdown st' \<noteq> 0" "sw_writePending st' = sw_writePending st"
    and "sw_rawImageCircBuff st' = sw_rawImageCircBuff st" "sw_timingCircBuff st' = sw_timingCircBuff st"
    and "sw_circBuffLength st' = sw_circBuffLength st" "sw_writeChunkLength st' = sw_writeChunkLength st"
    and "sw_currImage st' = sw_currImage st" "sw_currSaveStart st' = sw_currSaveStart st" "sw_currSaveStop st' = sw_currSaveStop st"
    and "sw_writing st' = sw_writing st" "sw_semaphore st' = sw_semaphore st" "sw_chunkFrames st' = sw_chunkFrames st"
    and "sw_stopQueued st' = sw_stopQueued st" "sw_nextChunkStart st' = sw_nextChunkStart st"
    and "sw_currChunkStart st' = sw_currChunkStart st" "sw_archives st' = sw_archives st"
  shows "winv st' fg sw recs"
proof -
  have "sw_ok st' sw = sw_ok st sw" "in_flight st' sw = in_flight st sw" using writer_cong [OF assms(5,6,4,13,10,11), of sw] by simp_all
  moreover have "cur_chunk st' = cur_chunk st" "archived st' = archived st"
    by (simp_all add: cur_chunk_def archived_def assms frames_at_cong [OF assms(5,6)])
  moreover have "bufs_ok st' = bufs_ok st" "window_ok st' = window_ok st" "states_ok st' fg = states_ok st fg"
    by (simp_all add: bufs_ok_def window_ok_def states_ok_def chunk_ok_def assms(2,4-))
  ultimately show ?thesis
    using assms(1,3) by (simp add: winv_def assms(2,4-))
qed

lemma winv_emit [simp]: "winv (sw_emit evs st) fg sw recs \<longleftrightarrow> winv st fg sw recs"
  by (auto simp: sw_emit_def elim: winv_cong)

lemma winv_recordSavingState [simp]: "winv (recordSavingState f st) fg sw recs \<longleftrightarrow> winv st fg sw recs"
proof -
  have "winv (st\<lparr>sw_lastSavingState := a, sw_lastSavingFrame := b\<rparr>) fg sw recs \<longleftrightarrow> winv st fg sw recs" for a b
    by (auto elim: winv_cong)
  then show ?thesis by (simp add: recordSavingState_def Let_def)
qed

lemma winv_shutdown: "winv st fg sw recs \<Longrightarrow> winv (st\<lparr>ma_shutdown := 1\<rparr>) fg sw recs"
  by (erule winv_cong) simp_all

text \<open>The framegrabber may stop at any time.\<close>

lemma winv_return:
  assumes "winv st fg sw recs"
  shows "winv (st\<lparr>sw_fgReady := a, sw_fgStopped := b\<rparr>) FgReturned sw recs"
proof -
  have "states_ok st fg \<longrightarrow> states_ok st FgReturned" by (simp add: states_ok_def)
  moreover have "\<not> fg_connected FgReturned" by (simp add: fg_connected_def)
  ultimately have "winv st FgReturned sw recs" using assms by (simp add: winv_def)
  then show ?thesis by (rule winv_cong) simp_all
qed


subsection \<open>The framegrabber keeps the invariant\<close>

fun plain :: "fg_pc \<Rightarrow> bool" where
  "plain FgConnect = False"
| "plain FgSlotRelock = False"
| "plain (FgQueueWait _ _) = False"
| "plain (FgQueueRelock _ _) = False"
| "plain FgCleanWait = False"
| "plain FgReturned = False"
| "plain _ = True"

lemma plain_simps [simp]:
  assumes "plain fg"
  shows "fg_connected fg" "\<not> captured fg" "\<not> queueing fg" "\<not> relocking fg" "fg \<noteq> FgConnect" "fg \<noteq> FgCleanWait" "fg \<noteq> FgReturned"
  using assms by (cases fg; auto simp: fg_connected_def)+

lemma winv_goto:
  assumes "winv st fg sw recs" "fg_connected fg" "\<not> captured fg" "plain fg'"
  shows "winv st fg' sw recs"
proof -
  have "fg \<noteq> FgReturned" using assms(2) by (simp add: fg_connected_def)
  then have "states_ok st fg \<longrightarrow> states_ok st fg'" using assms(3,4) by (auto simp: states_ok_def chunk_ok_def)
  then show ?thesis using assms \<open>fg \<noteq> FgReturned\<close> by (simp add: winv_def)
qed

lemma block_le:
  fixes n :: nat
  assumes "w dvd n" "i < n"
  shows "i div w * w + w \<le> n"
proof -
  obtain k where k: "n = w * k" using assms(1) by blast
  then have "i div w < k" using assms(2) by (simp add: less_mult_imp_div_less mult.commute)
  then have "(i div w + 1) * w \<le> k * w" by (intro mult_right_mono) simp_all
  then show ?thesis using k by (simp add: algebra_simps)
qed

lemma states_okD:
  assumes "winv st fg sw recs" "\<not> sw_writerFailed st"
  shows "states_ok st fg"
  using assms by (simp add: winv_def)

lemma idle_writer: "sw_ok st sw \<Longrightarrow> \<not> sw_writePending st \<Longrightarrow> sw = SwLoop \<and> sw_semaphore st = 0 \<or> sw = SwReturned"
  by (cases sw) auto

text \<open>Publishing turns the chunk into the window.\<close>

lemma publish_window_ok:
  assumes w: "winv st (FgQueueRelock a f) sw recs" and p: "publish_window post n st = (rv, st')"
  shows "if post then rv = 0 \<and> winv st' FgLoop sw recs \<and> winv st' FgCleanWait sw recs \<and> (\<forall>r. winv st' (FgTail r) sw recs) \<and> sw_chunkFrames st' = 0
      else rv = - 1 \<and> winv st' FgReturned sw recs"
proof -
  have idle: "\<not> sw_writePending st" "\<not> sw_writerFailed st" using w by (simp_all add: winv_def)
  have c: "states_ok st (FgQueueRelock a f)" using w idle by (simp add: winv_def)
  have b: "bufs_ok st" "sw_currImage st < sw_circBuffLength st" using w by (simp_all add: winv_def fg_connected_def)
  have cf: "sw_chunkFrames st > 0" and ck: "chunk_ok st (FgQueueRelock a f)" using c by (auto simp: states_ok_def)
  let ?L = "sw_circBuffLength st" and ?W = "sw_writeChunkLength st"
  have stop: "sw_currChunkStart st + sw_chunkFrames st \<le> sw_currImage st + 1" using ck by (auto simp: chunk_ok_def of_bool_def split: if_splits)
  have bl: "sw_currChunkStart st < ?L" "sw_nextChunkStart st \<le> sw_currChunkStart st" "sw_currImage st < sw_nextChunkStart st + ?W"
    using stop cf b(2) ck by (auto simp: chunk_ok_def)
  then have valid: "\<not> (sw_currChunkStart st > ?L \<or> sw_chunkFrames st > ?L - sw_currChunkStart st \<or> sw_chunkFrames st > ?W)"
    using stop cf b(2) by linarith
  have idle2: "sw = SwLoop \<and> sw_semaphore st = 0 \<or> sw = SwReturned" using w idle idle_writer by (simp add: winv_def)
  define st1 where "st1 = st\<lparr>sw_currSaveStart := sw_currChunkStart st, sw_currSaveStop := sw_currChunkStart st + sw_chunkFrames st,
      sw_currSaveStopFrameNo := n, sw_stopQueued := (sw_writing st = STOP_WRITING), sw_chunkFrames := 0,
      sw_currChunkStart := if sw_currChunkStart st + sw_chunkFrames st = ?L then 0 else sw_currChunkStart st + sw_chunkFrames st,
      sw_nextChunkStart := ((if sw_currChunkStart st + sw_chunkFrames st = ?L then 0 else sw_currChunkStart st + sw_chunkFrames st) div ?W) * ?W,
      sw_stopWriteDeadline := 0, sw_writePending := True\<rparr>"
  have "publish_window post n st = (if post then (0, st1\<lparr>sw_semaphore := sw_semaphore st1 + 1\<rparr>)
      else (- 1, sw_emit [SwLogCritical ''Error posting to semaphore''] (st1\<lparr>sw_writePending := False\<rparr>)))"
    using valid cf by (simp add: publish_window_def st1_def Let_def)
  note st' = p [symmetric, unfolded this]
  have wr: "sw_writing st \<noteq> NOT_WRITING" using c cf by (auto simp: states_ok_def)
  have sz: "sw_currChunkStart st + sw_chunkFrames st \<le> ?L" "sw_chunkFrames st \<le> ?W" using valid by auto
  have eq: "archived st @ cur_chunk st = recs" using w idle by (simp add: winv_def in_flight_def)
  show ?thesis
  proof (cases post)
    case True
    then have s1: "rv = 0" "st' = st1\<lparr>sw_semaphore := sw_semaphore st1 + 1\<rparr>" using st' by simp_all
    have fr: "in_flight st' sw = cur_chunk st" "archived st' = archived st" "cur_chunk st' = []"
      using idle2 by (auto simp: s1 st1_def in_flight_def cur_chunk_def archived_def frames_at_def)
    have "winv st' fg sw recs" if "fg \<in> {FgLoop, FgCleanWait} \<or> (\<exists>r. fg = FgTail r)" for fg
    proof -
      have fg: "fg_connected fg" "\<not> relocking fg" "\<not> queueing fg" "fg \<noteq> FgConnect" "fg \<noteq> FgReturned" using that by (auto simp: fg_connected_def)
      have "bufs_ok st'" using b(1) by (simp add: s1 st1_def bufs_ok_def)
      moreover have "window_ok st'" using wr sz by (simp add: s1 st1_def window_ok_def)
      moreover have "states_ok st' fg" using wr c cf fg by (auto simp: s1 st1_def states_ok_def)
      moreover have "sw_ok st' sw" using idle2 by (auto simp: s1 st1_def)
      moreover have "sw_currImage st' < sw_circBuffLength st'" "sw_writePending st'" "sw_writerFailed st' = sw_writerFailed st" using b(2) by (simp_all add: s1 st1_def)
      ultimately show ?thesis using fg idle(2) fr eq by (simp add: winv_def)
    qed
    then show ?thesis using True s1(1) by (simp add: s1(2) st1_def)
  next
    case False
    then have s1: "rv = - 1" "st' = sw_emit [SwLogCritical ''Error posting to semaphore''] (st1\<lparr>sw_writePending := False\<rparr>)"
      using st' by simp_all
    have "winv (st1\<lparr>sw_writePending := False\<rparr>) FgReturned sw recs"
      using idle2 idle wr eq cf c
      by (auto simp: winv_def st1_def fg_connected_def in_flight_def archived_def states_ok_def)
    then show ?thesis using False s1 by simp
  qed
qed


text \<open>A change of the recording state.\<close>

lemma winv_writing:
  assumes w: "winv st fg sw recs" "sw_writePending st \<longrightarrow> v \<noteq> NOT_WRITING"
    and c: "\<not> sw_writerFailed st \<Longrightarrow> v = NOT_WRITING \<or> v = START_WRITING \<longrightarrow> sw_chunkFrames st = 0"
      "\<not> sw_writerFailed st \<Longrightarrow> q \<longrightarrow> v = STOP_WRITING \<and> sw_chunkFrames st = 0 \<and> (sw_writePending st \<or> fg = FgReturned)"
    and st': "st' = st\<lparr>sw_writing := v, sw_stopQueued := q, sw_stopWriteDeadline := d\<rparr>"
  shows "winv st' fg sw recs"
proof -
  have "sw_ok st' sw = sw_ok st sw" "in_flight st' sw = in_flight st sw" by (rule writer_cong; simp add: st')+
  moreover have "cur_chunk st' = cur_chunk st" "archived st' = archived st" by (simp_all add: st' cur_chunk_def archived_def frames_at_def)
  moreover have "bufs_ok st' = bufs_ok st" "window_ok st \<and> v \<noteq> NOT_WRITING \<longrightarrow> window_ok st'" by (simp_all add: st' bufs_ok_def window_ok_def)
  moreover have "chunk_ok st' fg = chunk_ok st fg" by (simp add: st' chunk_ok_def)
  then have "\<not> sw_writerFailed st \<longrightarrow> states_ok st fg \<longrightarrow> states_ok st' fg" using c by (simp add: st' states_ok_def)
  moreover have "sw_writePending st' = sw_writePending st" "sw_writerFailed st' = sw_writerFailed st" "ma_shutdown st' = ma_shutdown st"
    "sw_currImage st' = sw_currImage st" "sw_circBuffLength st' = sw_circBuffLength st"
    by (simp_all add: st')
  ultimately show ?thesis using w by (simp add: winv_def)
qed

lemma winv_restart:
  assumes "winv st fg sw recs" "sw_writing st = WRITING" "sw_chunkFrames st = 0" "\<not> sw_writerFailed st" "fg \<noteq> FgReturned"
  shows "winv (st\<lparr>sw_writing := START_WRITING\<rparr>) fg sw recs"
proof -
  have "\<not> sw_stopQueued st" using states_okD [OF assms(1,4)] assms(2) by (auto simp: states_ok_def)
  then show ?thesis
    using assms(3) by (intro winv_writing [OF assms(1), where v = START_WRITING and q = False and d = "sw_stopWriteDeadline st"]) simp_all
qed

text \<open>To the next slot, when there is no chunk and when the chunk is not full.\<close>

lemma winv_advance_idle:
  assumes "winv st FgLoop sw recs" "sw_chunkFrames st = 0"
  shows "winv (advance st) FgLoop sw recs"
proof -
  have "sw_ok (advance st) sw = sw_ok st sw" "in_flight (advance st) sw = in_flight st sw" by (rule writer_cong; simp add: advance_def)+
  moreover have "cur_chunk (advance st) = cur_chunk st" "archived (advance st) = archived st"
    by (simp_all add: cur_chunk_def archived_def frames_at_def advance_def)
  moreover have "bufs_ok (advance st) = bufs_ok st" "window_ok (advance st) = window_ok st" by (simp_all add: bufs_ok_def window_ok_def advance_def)
  moreover have "states_ok st FgLoop \<longrightarrow> states_ok (advance st) FgLoop" using assms(2) by (simp add: states_ok_def advance_def)
  moreover have "sw_currImage st < sw_circBuffLength st" using assms(1) by (simp add: winv_def fg_connected_def)
  ultimately show ?thesis using assms(1) by (simp add: winv_def) (simp add: advance_def)
qed

lemma winv_advance_chunk:
  assumes w: "winv st (FgQueueWait (AfterCapture a b) n) sw recs" and nf: "\<not> sw_writerFailed st"
    and "sw_currImage st - sw_nextChunkStart st \<noteq> sw_writeChunkLength st - 1"
  shows "winv (advance st) FgLoop sw recs"
proof -
  have b: "bufs_ok st" "sw_currImage st < sw_circBuffLength st" using w by (simp_all add: winv_def fg_connected_def)
  have s: "states_ok st (FgQueueWait (AfterCapture a b) n)" using states_okD [OF w nf] .
  then have c: "sw_chunkFrames st > 0" "chunk_ok st (FgQueueWait (AfterCapture a b) n)" by (auto simp: states_ok_def)
  have "sw_nextChunkStart st \<le> sw_currChunkStart st" using c(2) by (simp add: chunk_ok_def)
  moreover have "sw_currChunkStart st \<le> sw_currImage st" using c by (simp add: chunk_ok_def)
  ultimately have st: "sw_currChunkStart st < sw_circBuffLength st" "sw_nextChunkStart st \<le> sw_currImage st" using b(2) by simp_all
  have lt: "sw_currImage st + 1 < sw_nextChunkStart st + sw_writeChunkLength st"
    using c(2) assms(3) st(2) b(1) by (auto simp: chunk_ok_def bufs_ok_def)
  have "sw_nextChunkStart st + sw_writeChunkLength st \<le> sw_circBuffLength st"
    using c(2) block_le [OF _ st(1), of "sw_writeChunkLength st"] b(1) by (simp add: chunk_ok_def bufs_ok_def)
  then have adv: "advance st = st\<lparr>sw_currImage := sw_currImage st + 1\<rparr>" using lt by (simp add: advance_def)
  have "sw_ok (advance st) sw = sw_ok st sw" "in_flight (advance st) sw = in_flight st sw" by (rule writer_cong; simp add: adv)+
  moreover have "cur_chunk (advance st) = cur_chunk st" "archived (advance st) = archived st"
    by (simp_all add: cur_chunk_def archived_def frames_at_def adv)
  moreover have "bufs_ok (advance st) = bufs_ok st" "window_ok (advance st) = window_ok st" by (simp_all add: bufs_ok_def window_ok_def adv)
  moreover have "states_ok (advance st) FgLoop" using s c lt by (auto simp: states_ok_def chunk_ok_def adv)
  moreover have "sw_currImage (advance st) < sw_circBuffLength (advance st)"
    using lt \<open>sw_nextChunkStart st + sw_writeChunkLength st \<le> sw_circBuffLength st\<close> by (simp add: adv)
  moreover have "sw_writePending (advance st) = sw_writePending st" "sw_writerFailed (advance st) = sw_writerFailed st"
    "ma_shutdown (advance st) = ma_shutdown st" by (simp_all add: adv)
  ultimately show ?thesis using w by (simp add: winv_def fg_connected_def)
qed

text \<open>\<open>queueWrite\<close> and what follows it.\<close>

lemma queue_publish_inv:
  assumes w: "winv (sys_st s) (FgQueueRelock a f) (sys_sw s) (sys_recorded s)"
  shows "stream_inv (queue_publish env a f s)"
proof -
  obtain rv st' where p: "publish_window (fe_post env) f (sys_st s) = (rv, st')" by fastforce
  note P = publish_window_ok [OF w p]
  show ?thesis
  proof (cases "fe_post env")
    case False
    then have "rv = - 1" "winv st' FgReturned (sys_sw s) (sys_recorded s)" using P by simp_all
    then show ?thesis using p winv_return [of st' FgReturned] by (simp add: queue_publish_def fg_return_def stream_inv_def)
  next
    case True
    then have W: "rv = 0" "winv st' FgLoop (sys_sw s) (sys_recorded s)" "winv st' FgCleanWait (sys_sw s) (sys_recorded s)"
      "\<And>r. winv st' (FgTail r) (sys_sw s) (sys_recorded s)" "sw_chunkFrames st' = 0"
      using P by simp_all
    have nf: "\<not> sw_writerFailed st'" using w p by (auto simp: winv_def publish_window_def sw_emit_def Let_def split: if_splits)
    have r: "winv (st'\<lparr>sw_writing := START_WRITING\<rparr>) fg (sys_sw s) (sys_recorded s)"
      if "sw_writing st' = WRITING" "winv st' fg (sys_sw s) (sys_recorded s)" "fg \<noteq> FgReturned" for fg
      using winv_restart [OF that(2,1) W(5) nf that(3)] .
    show ?thesis
    proof (cases a)
      case (AfterCapture full expired)
      then show ?thesis
        using p W(1) winv_advance_idle [OF W(2,5)] winv_advance_idle [OF r [OF _ W(2)]] W(5)
        by (auto simp: queue_publish_def fg_resume_def stream_inv_def Let_def)
    next
      case (AfterTimeout x)
      then show ?thesis using p W(1) W(4) r [OF _ W(4)] by (auto simp: queue_publish_def fg_resume_def stream_inv_def Let_def)
    next
      case AfterCleanup
      then show ?thesis using p W(1) W(3) by (auto simp: queue_publish_def fg_resume_def stream_inv_def Let_def)
    qed
  qed
qed

lemma winv_wake:
  assumes "winv st fg sw recs" "\<not> sw_writePending st" "\<not> sw_writerFailed st"
  shows "fg = FgQueueWait a f \<Longrightarrow> winv st (FgQueueRelock a f) sw recs"
    and "fg = FgSlotWait \<Longrightarrow> winv st FgSlotRelock sw recs"
    and "fg = FgCleanWait \<Longrightarrow> winv st FgConnect sw recs"
proof -
  have c: "captured (FgQueueRelock a f) = captured (FgQueueWait a f)" by (cases a) simp_all
  show "fg = FgQueueWait a f \<Longrightarrow> winv st (FgQueueRelock a f) sw recs"
    using assms c by (auto simp: winv_def fg_connected_def states_ok_def chunk_ok_def)
  show "fg = FgSlotWait \<Longrightarrow> winv st FgSlotRelock sw recs" "fg = FgCleanWait \<Longrightarrow> winv st FgConnect sw recs"
    using assms by (auto simp: winv_def fg_connected_def states_ok_def chunk_ok_def)
qed

lemma queueWrite_inv:
  assumes w: "winv (sys_st s) (FgQueueWait a f) (sys_sw s) (sys_recorded s)"
  shows "stream_inv (queueWrite env a f s)"
  using w winv_return [OF w] winv_wake(1) [OF w] queue_publish_inv
  by (auto simp: queueWrite_def fg_goto_def fg_return_def stream_inv_def)

lemma wait_inv:
  assumes "stream_inv s" "\<not> sw_writePending (sys_st s) \<Longrightarrow> \<not> sw_writerFailed (sys_st s) \<Longrightarrow> winv (sys_st s) pc (sys_sw s) (sys_recorded s)"
  shows "stream_inv (waitForWriteCompletion env pc s)"
proof -
  have "stream_inv (fg_return s')" if "winv (sys_st s') fg (sys_sw s') (sys_recorded s')" for s' fg
    using winv_return [OF that] by (simp add: fg_return_def stream_inv_def)
  moreover note winv_shutdown [OF assms(1) [unfolded stream_inv_def]]
  ultimately show ?thesis
    using assms by (auto simp: waitForWriteCompletion_def Let_def fg_goto_def stream_inv_def)
qed


text \<open>A frame is copied into a slot outside of the window.\<close>

lemma winv_put:
  assumes w: "winv st fg sw recs" and fg: "fg_connected fg" "\<not> captured fg"
    and free: "\<not> (sw_writePending st \<and> in_window (sw_currImage st) st)"
    and st': "st' = st\<lparr>sw_rawImageCircBuff := Some ((the (sw_rawImageCircBuff st))[sw_currImage st := x]),
                      sw_timingCircBuff := Some ((the (sw_timingCircBuff st))[sw_currImage st := y])\<rparr>"
  shows "winv st' fg sw recs"
proof -
  have f: "frames_at st' i n = frames_at st i n" if "sw_currImage st < i \<or> i + n \<le> sw_currImage st" for i n
    using that by (intro frames_at_put [where c = "sw_currImage st"]) (simp_all add: st')
  have win: "frames_at st' i n = frames_at st i n"
    if "sw_writePending st" "sw_currSaveStart st \<le> i" "i + n \<le> sw_currSaveStop st" for i n
    using that free by (cases "n = 0") (auto simp: in_window_def intro!: f)
  have wo: "sw_writePending st \<longrightarrow> window_ok st" using w by (simp add: winv_def)
  have ok: "sw_ok st' sw"
  proof -
    have "sw_ok st sw" using w by (simp add: winv_def)
    moreover have "sw_writePending st' = sw_writePending st" "sw_semaphore st' = sw_semaphore st"
      "sw_currSaveStart st' = sw_currSaveStart st" "sw_currSaveStop st' = sw_currSaveStop st" by (simp_all add: st')
    ultimately show ?thesis using win wo by (cases sw) (auto simp: window_ok_def)
  qed
  have fl: "in_flight st' sw = in_flight st sw"
    using win [of "sw_currSaveStart st"] wo by (auto simp: in_flight_def st' window_ok_def)
  have ck: "cur_chunk st' = cur_chunk st" if "states_ok st fg"
  proof (cases "sw_chunkFrames st = 0")
    case False
    then have "chunk_ok st fg" using that fg(1) by (simp add: states_ok_def fg_connected_def)
    then have "sw_currChunkStart st + sw_chunkFrames st \<le> sw_currImage st" using fg(2) by (simp add: chunk_ok_def)
    then show ?thesis using f [of "sw_currChunkStart st" "sw_chunkFrames st"] by (simp add: cur_chunk_def st')
  qed (simp add: cur_chunk_def st')
  have "bufs_ok st" using w fg(1) by (simp add: winv_def)
  then have "bufs_ok st'" by (auto simp: bufs_ok_def st')
  moreover have "window_ok st' = window_ok st" "archived st' = archived st" "states_ok st' fg = states_ok st fg"
    by (simp_all add: window_ok_def archived_def states_ok_def chunk_ok_def st')
  moreover have "sw_writePending st' = sw_writePending st" "sw_writerFailed st' = sw_writerFailed st" "ma_shutdown st' = ma_shutdown st"
    "sw_currImage st' = sw_currImage st" "sw_circBuffLength st' = sw_circBuffLength st"
    by (simp_all add: st')
  ultimately show ?thesis using w ok fl ck by (simp add: winv_def)
qed

text \<open>The frame in the current slot becomes part of the chunk.\<close>

lemma winv_record:
  assumes w: "winv st fg sw recs" and fg: "fg_connected fg" "\<not> captured fg" and nf: "\<not> sw_writerFailed st"
    and wr: "sw_writing st = WRITING \<or> sw_writing st = STOP_WRITING \<and> \<not> sw_stopQueued st"
    and fr: "fr = \<lparr>fr_image = the (sw_rawImageCircBuff st) ! sw_currImage st, fr_timing = the (sw_timingCircBuff st) ! sw_currImage st\<rparr>"
  shows "winv (append_frame st) (FgQueueWait (AfterCapture a b) n) sw (recs @ [fr])"
proof -
  let ?fg = "FgQueueWait (AfterCapture a b) n"
  have s: "states_ok st fg" using states_okD [OF w nf] .
  have b: "bufs_ok st" "sw_currImage st < sw_circBuffLength st" using w fg by (simp_all add: winv_def)
  have nr: "fg \<noteq> FgReturned" using fg(1) by (simp add: fg_connected_def)
  have q: "\<not> sw_stopQueued st" using s wr by (auto simp: states_ok_def)
  have pos: "sw_currImage st < sw_currImage st div sw_writeChunkLength st * sw_writeChunkLength st + sw_writeChunkLength st"
    using b(1) dividend_less_div_times [of "sw_writeChunkLength st" "sw_currImage st"] by (simp add: bufs_ok_def add.commute)
  have c: "sw_chunkFrames st > 0 \<longrightarrow> chunk_ok st fg" using s nr by (simp add: states_ok_def)
  have "chunk_ok (append_frame st) ?fg"
    using c fg(2) pos by (auto simp: chunk_ok_def append_frame_def Let_def)
  then have "states_ok (append_frame st) ?fg" using wr q by (auto simp: states_ok_def append_frame_def Let_def)
  moreover have "sw_ok (append_frame st) sw = sw_ok st sw" "in_flight (append_frame st) sw = in_flight st sw" by (rule writer_cong; simp add: append_frame_def Let_def)+
  moreover have "cur_chunk (append_frame st) = cur_chunk st @ [fr]"
  proof (cases "sw_chunkFrames st = 0")
    case True
    then show ?thesis by (simp add: cur_chunk_def append_frame_def Let_def fr frames_at_def)
  next
    case False
    then have "sw_currChunkStart st + sw_chunkFrames st = sw_currImage st" using c fg(2) by (simp add: chunk_ok_def)
    then show ?thesis using False frames_at_Suc [of st "sw_currChunkStart st" "sw_chunkFrames st"]
      by (simp add: cur_chunk_def append_frame_def Let_def fr frames_at_def)
  qed
  moreover have "archived (append_frame st) = archived st" "bufs_ok (append_frame st) = bufs_ok st" "window_ok (append_frame st) = window_ok st"
    "sw_writePending (append_frame st) = sw_writePending st" "sw_writerFailed (append_frame st) = sw_writerFailed st" "ma_shutdown (append_frame st) = ma_shutdown st"
    "sw_currImage (append_frame st) = sw_currImage st" "sw_circBuffLength (append_frame st) = sw_circBuffLength st"
    by (simp_all add: archived_def bufs_ok_def window_ok_def append_frame_def Let_def)
  ultimately show ?thesis using w b nf nr by (auto simp: winv_def)
qed


lemma update_recording_inv:
  assumes w: "stream_inv s" and nf: "\<not> sw_writerFailed (sys_st s)" and nr: "sys_fg s \<noteq> FgReturned"
  shows "stream_inv (update_recording env fr s)"
proof -
  let ?st = "sys_st s" and ?sw = "sys_sw s" and ?recs = "sys_recorded s"
  define st0 where "st0 = (let st = ?st\<lparr>sw_currImageTime := fr_timing fr ! 3 * 1000000000 + fr_timing fr ! 4\<rparr>
     in if fe_signal env then st\<lparr>ma_shutdown := 1\<rparr> else st)"
  define st1 where "st1 = (if ma_shutdown st0 \<noteq> 0 \<and> sw_writing st0 = WRITING
                then st0\<lparr>sw_writing := STOP_WRITING, sw_stopWriteDeadline := 0\<rparr> else st0)"
  define st2 where "st2 = (if \<not> fv_restartWriting s \<and> \<not> sw_resumeAfterReconnect st1
                        then sw_emit [SwSavingStart (fe_cnt0 env)] st1 else st1)"
  have q: "sw_stopQueued ?st \<longrightarrow> sw_writing ?st = STOP_WRITING"
    using states_okD [OF w [unfolded stream_inv_def] nf] by (auto simp: states_ok_def)
  have w0: "winv st0 (sys_fg s) ?sw ?recs"
    using w [unfolded stream_inv_def] by (rule winv_cong) (simp_all add: st0_def Let_def)
  have w1: "winv st1 (sys_fg s) ?sw ?recs"
  proof (cases "ma_shutdown st0 \<noteq> 0 \<and> sw_writing st0 = WRITING")
    case True
    then have "\<not> sw_stopQueued st0" using q by (auto simp: st0_def Let_def split: if_splits)
    then have "winv (st0\<lparr>sw_writing := STOP_WRITING, sw_stopWriteDeadline := 0\<rparr>) (sys_fg s) ?sw ?recs"
      by (intro winv_writing [OF w0, where v = STOP_WRITING and q = False and d = 0]) simp_all
    then show ?thesis using True by (simp add: st1_def)
  qed (use w0 in \<open>auto simp: st1_def\<close>)
  have w2: "winv (st2\<lparr>sw_resumeAfterReconnect := False, sw_writing := WRITING\<rparr>) (sys_fg s) ?sw ?recs" if "sw_writing st1 = START_WRITING"
  proof -
    have w2: "winv st2 (sys_fg s) ?sw ?recs" using w1 by (simp add: st2_def)
    have "\<not> sw_stopQueued st1" using q that by (simp add: st1_def st0_def Let_def split: if_splits)
    then have "\<not> sw_stopQueued st2" by (simp add: st2_def sw_emit_def)
    then have "winv (st2\<lparr>sw_writing := WRITING\<rparr>) (sys_fg s) ?sw ?recs"
      by (intro winv_writing [OF w2, where v = WRITING and q = False and d = "sw_stopWriteDeadline st2"]) simp_all
    then show ?thesis by (rule winv_cong) simp_all
  qed
  have "update_recording env fr s = (if sw_writing st1 = START_WRITING
      then s\<lparr>fv_restartWriting := False, sys_st := st2\<lparr>sw_resumeAfterReconnect := False, sw_writing := WRITING\<rparr>\<rparr> else s\<lparr>sys_st := st1\<rparr>)"
    unfolding update_recording_def st2_def st1_def st0_def Let_def by (rule refl)
  then show ?thesis using w1 w2 by (simp add: stream_inv_def)
qed

lemma update_recording_simps [simp]:
  "sys_fg (update_recording env fr s) = sys_fg s" "sys_sw (update_recording env fr s) = sys_sw s"
  "sys_recorded (update_recording env fr s) = sys_recorded s"
  "sw_rawImageCircBuff (sys_st (update_recording env fr s)) = sw_rawImageCircBuff (sys_st s)"
  "sw_timingCircBuff (sys_st (update_recording env fr s)) = sw_timingCircBuff (sys_st s)"
  "sw_currImage (sys_st (update_recording env fr s)) = sw_currImage (sys_st s)"
  "sw_writerFailed (sys_st (update_recording env fr s)) = sw_writerFailed (sys_st s)"
  "sw_writing (sys_st (update_recording env fr s)) \<noteq> START_WRITING"
  by (simp_all add: update_recording_def sw_emit_def Let_def)

lemma record_frame_inv:
  assumes w: "stream_inv s" and fg: "fg_connected (sys_fg s)" "\<not> captured (sys_fg s)" and nf: "\<not> sw_writerFailed (sys_st s)"
    and fr: "fr = \<lparr>fr_image = the (sw_rawImageCircBuff (sys_st s)) ! sw_currImage (sys_st s),
                  fr_timing = the (sw_timingCircBuff (sys_st s)) ! sw_currImage (sys_st s)\<rparr>"
  shows "stream_inv (record_frame env fr s)"
proof -
  let ?s = "update_recording env fr s"
  let ?st = "sys_st ?s" and ?sw = "sys_sw s" and ?recs = "sys_recorded s"
  have nr: "sys_fg s \<noteq> FgReturned" using fg by (simp add: fg_connected_def)
  have w3: "winv ?st (sys_fg s) ?sw ?recs" using update_recording_inv [OF w nf nr, of env fr] by (simp add: stream_inv_def)
  show ?thesis
  proof (cases "sw_writing ?st = WRITING \<or> sw_writing ?st = STOP_WRITING \<and> \<not> sw_stopQueued ?st")
    case True
    have w5: "winv (append_frame ?st) (FgQueueWait (AfterCapture a b) n) ?sw (?recs @ [fr])" for a b n
      using nf fr by (intro winv_record [OF w3 fg _ True]) simp_all
    have "sw_writerFailed (append_frame ?st) = sw_writerFailed ?st" by (simp add: append_frame_def Let_def)
    then have "winv (advance (append_frame ?st)) FgLoop ?sw (?recs @ [fr])" if "\<not> chunk_full (append_frame ?st)"
      using winv_advance_chunk [OF w5] nf that by (simp add: chunk_full_def)
    then show ?thesis
      using True w5 by (auto simp: record_frame_def Let_def stream_inv_def intro!: queueWrite_inv [unfolded stream_inv_def])
  next
    case False
    then have st: "sw_writing ?st = NOT_WRITING \<or> sw_stopQueued ?st" using update_recording_simps(8) by (cases "sw_writing ?st") blast+
    have "\<not> sw_writerFailed ?st" using nf by simp
    then have "sw_chunkFrames ?st = 0" using states_okD [OF w3] st by (auto simp: states_ok_def)
    then have "winv (advance ?st) FgLoop ?sw ?recs" using winv_advance_idle winv_goto [OF w3 fg, of FgLoop] by simp
    then show ?thesis using False by (auto simp: record_frame_def stream_inv_def Let_def)
  qed
qed


lemma stream_inv_goto: "stream_inv s \<Longrightarrow> fg_connected (sys_fg s) \<Longrightarrow> \<not> captured (sys_fg s) \<Longrightarrow> plain pc \<Longrightarrow> stream_inv (fg_goto pc s)"
  using winv_goto by (simp add: stream_inv_def fg_goto_def)

lemma stream_inv_return: "winv (sys_st s) fg (sys_sw s) (sys_recorded s) \<Longrightarrow> stream_inv (fg_return s)"
  using winv_return by (simp add: fg_return_def stream_inv_def)

lemma store_frame_inv:
  assumes w: "stream_inv s" and fg: "fg_connected (sys_fg s)" "\<not> captured (sys_fg s)" and nf: "\<not> sw_writerFailed (sys_st s)"
    and free: "\<not> (sw_writePending (sys_st s) \<and> in_window (sw_currImage (sys_st s)) (sys_st s))"
  shows "\<exists>s'. store_frame env s = Some s' \<and> stream_inv s'"
proof -
  let ?st = "sys_st s"
  let ?i = "sw_currImage ?st"
  obtain r t where rt: "sw_rawImageCircBuff ?st = Some r" "sw_timingCircBuff ?st = Some t" "?i < length r" "?i < length t"
  proof -
    have "bufs_ok ?st" "?i < sw_circBuffLength ?st" using w fg(1) by (simp_all add: stream_inv_def winv_def)
    then show ?thesis using that by (auto simp: bufs_ok_def)
  qed
  define st1 where "st1 = (\<lambda>y. ?st\<lparr>sw_rawImageCircBuff := Some (r[?i := fe_image env]), sw_timingCircBuff := Some y\<rparr>)"
  have w1: "winv (st1 (t[?i := y])) (sys_fg s) (sys_sw s) (sys_recorded s)" for y
    using rt by (intro winv_put [OF w [unfolded stream_inv_def] fg free, where x = "fe_image env" and y = y]) (simp add: st1_def)
  show ?thesis
  proof (cases "frame_timing env")
    case None
    have "winv (?st\<lparr>sw_rawImageCircBuff := Some (r[?i := fe_image env])\<rparr>) (sys_fg s) (sys_sw s) (sys_recorded s)"
      using w1 [of "t ! ?i"] by (rule winv_cong) (simp_all add: st1_def rt)
    then have "stream_inv (fg_return (s\<lparr>sys_st := sw_emit [SwLogCritical ''clock_gettime''] (?st\<lparr>sw_rawImageCircBuff := Some (r[?i := fe_image env])\<rparr>)\<rparr>))"
      by (intro stream_inv_return [where fg = "sys_fg s"]) simp
    then show ?thesis using None rt by (simp add: store_frame_def put_slot_def Let_def)
  next
    case (Some y)
    have "stream_inv (record_frame env \<lparr>fr_image = fe_image env, fr_timing = y\<rparr> (s\<lparr>sys_st := st1 (t[?i := y])\<rparr>))"
      using w1 [of y] fg nf rt by (intro record_frame_inv) (simp_all add: stream_inv_def st1_def)
    then show ?thesis using Some rt by (simp add: store_frame_def put_slot_def st1_def Let_def)
  qed
qed

lemma capture_inv:
  assumes w: "stream_inv s" and fg: "sys_fg s = FgLock \<or> sys_fg s = FgSlotRelock"
    and free: "\<not> (sw_writePending (sys_st s) \<and> in_window (sw_currImage (sys_st s)) (sys_st s))"
  shows "\<exists>s'. capture env s = Some s' \<and> stream_inv s'"
proof -
  let ?st = "sys_st s"
  have fg': "fg_connected (sys_fg s)" "\<not> captured (sys_fg s)" using fg by (auto simp: fg_connected_def)
  have loop: "winv ?st FgLoop (sys_sw s) (sys_recorded s)" by (rule winv_goto [OF w [unfolded stream_inv_def] fg']) simp
  have gone: "stream_inv (fg_goto FgCleanup s)" by (rule stream_inv_goto [OF w fg']) simp
  show ?thesis
  proof (cases "md_dataType (fe_md env) \<noteq> sw_dataType ?st \<or> md_width (fe_md env) \<noteq> sw_width ?st \<or>
      md_height (fe_md env) \<noteq> sw_height ?st \<or> md_length (fe_md env) \<noteq> fv_length s \<or> ma_shutdown ?st \<noteq> 0 \<or> sw_restart ?st")
    case True
    then show ?thesis using gone by (auto simp: capture_def Let_def)
  next
    case False
    then have nf: "\<not> sw_writerFailed ?st" using w by (auto simp: stream_inv_def winv_def)
    have "winv (?st\<lparr>sw_repeatSemaphoreCount := a, sw_restart := b\<rparr>) FgLoop (sys_sw s) (sys_recorded s)" for a b
      using loop by (rule winv_cong) simp_all
    moreover have "\<exists>s'. store_frame env (s\<lparr>sys_st := ?st\<lparr>sw_skippedFrameCount := n\<rparr>, fv_cnt0flag := 0, fv_last_cnt0 := c\<rparr>) = Some s' \<and> stream_inv s'" for n c
    proof (rule store_frame_inv)
      have "winv (?st\<lparr>sw_skippedFrameCount := n\<rparr>) (sys_fg s) (sys_sw s) (sys_recorded s)"
        using w [unfolded stream_inv_def] by (rule winv_cong) simp_all
      then show "stream_inv (s\<lparr>sys_st := ?st\<lparr>sw_skippedFrameCount := n\<rparr>, fv_cnt0flag := 0, fv_last_cnt0 := c\<rparr>)" by (simp add: stream_inv_def)
    qed (use fg' nf free in \<open>simp_all add: in_window_def\<close>)
    ultimately show ?thesis using False by (simp add: capture_def Let_def stream_inv_def)
  qed
qed

lemma fg_timeout_inv:
  assumes "stream_inv s" "sys_fg s = FgTimeoutLock r"
  shows "stream_inv (fg_timeout env r s)"
proof -
  have fg: "fg_connected (sys_fg s)" "\<not> captured (sys_fg s)" using assms(2) by (auto simp: fg_connected_def)
  have "winv (sys_st s) (FgQueueWait (AfterTimeout r) n) (sys_sw s) (sys_recorded s)" if "sw_chunkFrames (sys_st s) > 0" for n
    using assms that by (auto simp: stream_inv_def winv_def fg_connected_def states_ok_def chunk_ok_def)
  then show ?thesis
    using queueWrite_inv stream_inv_goto [OF assms(1) fg] by (simp add: fg_timeout_def Let_def)
qed

lemma fg_cleanup_inv:
  assumes "stream_inv s" "sys_fg s = FgCleanup"
  shows "stream_inv (fg_cleanup env s)"
proof -
  let ?st = "sys_st s" and ?sw = "sys_sw s" and ?recs = "sys_recorded s"
  define resume where "resume \<longleftrightarrow> ma_shutdown ?st = 0 \<and> (sw_writing ?st = WRITING \<or> sw_writing ?st = START_WRITING)"
  define st where "st = ?st\<lparr>sw_fgReady := False, sw_resumeAfterReconnect := resume\<rparr>"
  have w: "winv st FgCleanup ?sw ?recs"
    using assms by (simp add: stream_inv_def) (erule winv_cong; simp add: st_def)
  have e: "sw_chunkFrames st = sw_chunkFrames ?st" "sw_writePending st = sw_writePending ?st" by (simp_all add: st_def)
  have f: "winv st' FgCleanWait ?sw ?recs" if "winv st' FgCleanup ?sw ?recs" "sw_chunkFrames st' = 0" for st'
    using that by (simp add: winv_def fg_connected_def states_ok_def)
  have q: "\<not> sw_stopQueued st" if "\<not> sw_writerFailed st" "sw_chunkFrames st > 0 \<or> \<not> sw_writePending st"
    using states_okD [OF w that(1)] that(2) by (auto simp: states_ok_def)
  have "stream_inv (queueWrite env AfterCleanup n (s\<lparr>sys_st := st\<lparr>sw_writing := STOP_WRITING, sw_stopWriteDeadline := 0\<rparr>\<rparr>))"
    if c: "sw_chunkFrames st > 0" for n
  proof -
    have "winv (st\<lparr>sw_writing := STOP_WRITING, sw_stopWriteDeadline := 0\<rparr>) FgCleanup ?sw ?recs"
      using q c by (intro winv_writing [OF w, where v = STOP_WRITING and q = "sw_stopQueued st" and d = 0]) simp_all
    then have "winv (st\<lparr>sw_writing := STOP_WRITING, sw_stopWriteDeadline := 0\<rparr>) (FgQueueWait AfterCleanup n) ?sw ?recs"
      using c by (auto simp: winv_def fg_connected_def states_ok_def chunk_ok_def)
    then show ?thesis by (intro queueWrite_inv) simp
  qed
  moreover have "winv (st\<lparr>sw_writing := STOP_WRITING, sw_stopQueued := True\<rparr>) FgCleanWait ?sw ?recs"
    if "sw_chunkFrames st = 0" "sw_writePending st"
    using that by (intro f winv_writing [OF w, where v = STOP_WRITING and q = True and d = "sw_stopWriteDeadline st"]) simp_all
  moreover have "winv (st\<lparr>sw_writing := if resume then START_WRITING else NOT_WRITING\<rparr>) FgCleanWait ?sw ?recs"
    if "sw_chunkFrames st = 0" "\<not> sw_writePending st"
    using that q
    by (intro f winv_writing [OF w, where v = "if resume then START_WRITING else NOT_WRITING" and q = "sw_stopQueued st" and d = "sw_stopWriteDeadline st"]) simp_all
  ultimately show ?thesis
    using e by (simp add: fg_cleanup_def Let_def st_def resume_def stream_inv_def)
qed


text \<open>
  What is asked of the source of images: its type has a size, and the largest buffer of its frames
  is below $2^{53}$ bytes, where integers are still represented exactly as \<open>double\<close>.
\<close>

definition double_ok :: "(real \<Rightarrow> real) \<Rightarrow> bool" where
  "double_ok rnd \<longleftrightarrow> mono rnd \<and> (\<forall>n :: nat. n \<le> 2 ^ 53 \<longrightarrow> rnd (of_nat n) = of_nat n)"

definition source_ok :: "u64 \<Rightarrow> fg_env \<Rightarrow> bool" where
  "source_ok maxLen env \<longleftrightarrow>
     0 \<le> fe_typeSize env \<and> fe_typeSize env \<le> 16 \<and> unat (md_width (fe_md env)) * unat (md_height (fe_md env)) < 2 ^ 32 \<and>
     unat (md_width (fe_md env)) * unat (md_height (fe_md env)) * nat (fe_typeSize env) * unat maxLen \<le> 2 ^ 53 \<and>
     unat maxLen \<le> 2 ^ 53"

lemma largest_factor_props: "0 < c \<Longrightarrow> 0 < largest_factor n c \<and> largest_factor n c \<le> c \<and> n mod largest_factor n c = 0"
proof (induction c)
  case (Suc c)
  then show ?case by (cases "c = 0") auto
qed simp

lemma unat_ucast_u32 [simp]: "unat (ucast (x :: u32) :: u64) = unat x"
  by (simp add: unsigned_ucast_eq take_bit_nat_eq_self_iff order_less_trans [OF unsigned_less])

lemma frame_size:
  fixes w h :: u32 and ts :: u64
  assumes "unat w * unat h < 2 ^ 32" "ts \<le> 16"
  shows "unat (ucast (w * h) * ts :: u64) = unat w * unat h * unat ts"
    and "unat (ucast w * ucast h * ts :: u64) = unat w * unat h * unat ts"
proof -
  have wh: "unat (w * h) = unat w * unat h" using assms(1) by (subst unat_mult_lem [THEN iffD1]) simp_all
  have "unat ts \<le> 16" using assms(2) by (simp add: word_le_nat_alt)
  then have "unat w * unat h * unat ts \<le> 2 ^ 32 * 16" using assms(1) by (intro mult_mono) simp_all
  then have lt: "unat w * unat h * unat ts < 2 ^ 64" by simp
  have wh2: "unat (ucast w * ucast h :: u64) = unat w * unat h" using assms(1) by (subst unat_mult_lem [THEN iffD1]) simp_all
  show "unat (ucast (w * h) * ts :: u64) = unat w * unat h * unat ts" using lt wh by (subst unat_mult_lem [THEN iffD1]) simp_all
  show "unat (ucast w * ucast h * ts :: u64) = unat w * unat h * unat ts" using lt wh2 by (subst unat_mult_lem [THEN iffD1]) simp_all
qed

lemma to_size_bound:
  assumes "0 \<le> x" "x \<le> of_nat (unat m)"
  shows "to_size x \<le> m"
proof -
  have f: "0 \<le> \<lfloor>x\<rfloor>" "\<lfloor>x\<rfloor> \<le> int (unat m)" using assms by (auto simp: le_floor_iff floor_le_iff)
  then have "nat \<lfloor>x\<rfloor> \<le> unat m" by (simp del: of_nat_unat)
  moreover have "nat \<lfloor>x\<rfloor> < 2 ^ 64" using le_less_trans [OF calculation] unsigned_less [of m, where 'a = nat] by simp
  moreover have "to_size x = of_nat (nat \<lfloor>x\<rfloor>)" unfolding to_size_def using f(1) by (metis int_nat_eq of_int_of_nat_eq)
  ultimately show ?thesis by (simp add: word_le_nat_alt unat_of_nat)
qed

lemma even_down: "(x :: u64) mod 2 = 1 \<Longrightarrow> x - 1 \<le> x"
  by (cases "x = 0") (auto simp: word_le_nat_alt unat_minus_one)

lemma getCircBuffLengths_bounds:
  assumes rnd: "double_ok rnd" and l: "getCircBuffLengths rnd maxLen maxSize maxChunk w h ts = (len, chunk)"
    and wh: "unat w * unat h < 2 ^ 32" "ts \<le> 16" and sz: "unat w * unat h * unat ts * unat maxLen \<le> 2 ^ 53"
    and c: "maxChunk \<noteq> 0" "0 \<le> maxSize" "unat maxLen \<le> 2 ^ 53"
  shows "len \<le> maxLen \<and> (len \<noteq> 0 \<longrightarrow> chunk \<noteq> 0)"
proof -
  let ?frame = "ucast (w * h) * ts :: u64" and ?bytes = "rnd (maxSize * 1048576)"
  have ex: "rnd (of_nat n) = of_nat n" if "n \<le> 2 ^ 53" for n using rnd that by (simp add: double_ok_def)
  have mono: "rnd x \<le> rnd y" if "x \<le> y" for x y using rnd that by (simp add: double_ok_def mono_def)
  note fr = frame_size(1) [OF wh]
  have isz: "unat (?frame * maxLen) = unat ?frame * unat maxLen" using sz fr by (subst unat_mult_lem [THEN iffD1]) simp_all
  show ?thesis
  proof (cases "rnd (of_nat (unat (?frame * maxLen))) \<le> ?bytes")
    case True
    then show ?thesis using l c(1) by (simp add: getCircBuffLengths_def Let_def)
  next
    case False
    have b: "0 \<le> ?bytes" using mono [of 0 "maxSize * 1048576"] ex [of 0] c(2) by simp
    define F where "F = unat ?frame"
    define M where "M = unat maxLen"
    have FM: "F * M \<le> 2 ^ 53" using sz fr by (simp add: F_def M_def)
    then have "rnd (of_nat (unat (?frame * maxLen))) = of_nat (F * M)" using ex [of "F * M"] isz by (simp add: F_def M_def del: of_nat_unat)
    then have lt: "?bytes < of_nat F * of_nat M" using False by simp
    then have f0: "0 < F" "0 < M" using b by (auto intro: Nat.gr0I)
    then have "F \<le> F * M" by simp
    then have "F \<le> 2 ^ 53" using FM by (rule order_trans)
    then have fe: "rnd (of_nat F) = of_nat F" by (rule ex)
    have "?bytes / of_nat F \<le> of_nat M" using lt f0 by (simp add: pos_divide_le_eq mult.commute)
    then have "rnd (?bytes / of_nat F) \<le> rnd (of_nat M)" by (rule mono)
    moreover have "rnd 0 \<le> rnd (?bytes / of_nat F)" using b by (intro mono) simp
    ultimately have q: "0 \<le> rnd (?bytes / of_nat F)" "rnd (?bytes / of_nat F) \<le> of_nat (unat maxLen)"
      using ex [of 0] ex [OF c(3)] by (simp_all add: M_def del: of_nat_unat)
    define c0 where "c0 = to_size (rnd (?bytes / rnd (of_nat F)))"
    define c1 where "c1 = (if c0 mod 2 = 1 then c0 - 1 else c0)"
    have "c0 \<le> maxLen" using to_size_bound [OF q] fe by (simp add: c0_def)
    then have c1: "c1 \<le> maxLen" using even_down [of c0] by (auto simp: c1_def)
    define k where "k = to_size (rnd (rnd (rnd (of_nat (unat maxChunk)) / rnd (of_nat (unat maxLen))) * rnd (of_nat (unat c1))))"
    define k1 where "k1 = (if k = 0 then 1 else k)"
    have "(len, chunk) = (if c1 = 0 then (c1, k) else (c1, of_nat (largest_factor (unat c1) (unat k1))))"
      unfolding l [symmetric] getCircBuffLengths_def Let_def k1_def k_def c1_def c0_def F_def using False by (simp only: if_False)
    moreover have "of_nat (largest_factor (unat c1) (unat k1)) \<noteq> (0 :: u64)"
    proof -
      have "0 < unat k1" by (simp add: k1_def unat_gt_0)
      note lf = largest_factor_props [OF this, of "unat c1"]
      then have "largest_factor (unat c1) (unat k1) < 2 ^ 64" using unsigned_less [of k1, where 'a = nat] by simp
      then have "unat (of_nat (largest_factor (unat c1) (unat k1)) :: u64) = largest_factor (unat c1) (unat k1)" by (simp add: unat_of_nat)
      then show ?thesis using lf by (intro notI) simp
    qed
    ultimately show ?thesis using c1 by (auto split: if_splits)
  qed
qed


lemma allocate_ok:
  assumes rnd: "double_ok rnd" and a: "allocate_circbufs rnd m1 m2 st = (0, st')"
    and wh: "unat (sw_width st) * unat (sw_height st) < 2 ^ 32" and ts: "0 \<le> sw_typeSize st" "sw_typeSize st \<le> 16"
    and sz: "unat (sw_width st) * unat (sw_height st) * nat (sw_typeSize st) * unat (sw_maxCircBuffLength st) \<le> 2 ^ 53"
    and c: "sw_maxWriteChunkLength st \<noteq> 0" "0 \<le> sw_maxCircBuffSize st" "unat (sw_maxCircBuffLength st) \<le> 2 ^ 53"
  shows "bufs_ok st' \<and> 0 < sw_circBuffLength st'"
proof -
  let ?ts = "word_of_int (sw_typeSize st) :: u64" and ?fb = "frameBytes st"
  have uts: "unat ?ts = nat (sw_typeSize st)"
    using ts take_bit_int_eq_self [of "sw_typeSize st" 64] by (simp add: unat_eq_nat_uint uint_word_of_int_eq)
  then have ts16: "?ts \<le> 16" using ts by (simp add: word_le_nat_alt)
  obtain len chunk where l: "getCircBuffLengths rnd (sw_maxCircBuffLength st) (sw_maxCircBuffSize st) (sw_maxWriteChunkLength st)
      (sw_width st) (sw_height st) ?ts = (len, chunk)" by fastforce
  have lb: "len \<le> sw_maxCircBuffLength st" "len \<noteq> 0 \<longrightarrow> chunk \<noteq> 0"
    using getCircBuffLengths_bounds [OF rnd l wh ts16 _ c] sz uts by simp_all
  have fb: "unat ?fb = unat (sw_width st) * unat (sw_height st) * nat (sw_typeSize st)"
    using frame_size(2) [OF wh ts16] uts by (simp add: frameBytes_def)
  have "unat ?fb * unat len \<le> unat ?fb * unat (sw_maxCircBuffLength st)" using lb(1) by (simp add: word_le_nat_alt)
  then have "unat ?fb * unat len \<le> 2 ^ 53" using sz unfolding fb [symmetric] by (rule order_trans)
  then have m1: "unat (?fb * len) = unat ?fb * unat len" by (subst unat_mult_lem [THEN iffD1]) simp_all
  have "unat len \<le> 2 ^ 53" using lb(1) c(3) by (simp add: word_le_nat_alt)
  then have m2: "unat (40 * len) = 40 * unat len" by (subst unat_mult_lem [THEN iffD1]) simp_all
  have sl: "slots (?fb * len) ?fb (unat len) = unat len" "slots (40 * len) 40 (unat len) = unat len"
    using m1 m2 by (auto simp: slots_def unat_eq_0)
  have e: "\<not> len < 2" "\<not> chunk \<ge> len" "unat len mod unat chunk = 0"
    and st': "sw_circBuffLength st' = unat len" "sw_writeChunkLength st' = unat chunk"
      "sw_rawImageCircBuff st' = Some (replicate (unat len) [])" "sw_timingCircBuff st' = Some (replicate (unat len) [])"
    using a l sl by (auto simp: allocate_circbufs_def Let_def frameBytes_def split: if_splits)
  have "len \<noteq> 0" using e(1) by (auto simp: word_less_nat_alt)
  then show ?thesis using st' e(3) lb(2) by (simp add: bufs_ok_def unat_gt_0 dvd_eq_mod_eq_0)
qed


text \<open>The configuration is not changed by the threads.\<close>

definition config_ok :: "streamWriter \<Rightarrow> bool" where
  "config_ok st \<longleftrightarrow> sw_maxWriteChunkLength st \<noteq> 0 \<and> 0 \<le> sw_maxCircBuffSize st"

lemma winv_buffers:
  assumes w: "winv st FgConnect sw recs" and fg: "fg = FgConnect \<or> fg = FgReturned"
    and k: "sw_writePending st' = sw_writePending st" "sw_writerFailed st' = sw_writerFailed st" "ma_shutdown st' = ma_shutdown st"
      "sw_archives st' = sw_archives st" "sw_chunkFrames st' = sw_chunkFrames st" "sw_writing st' = sw_writing st"
      "sw_stopQueued st' = sw_stopQueued st" "sw_semaphore st' = sw_semaphore st"
  shows "winv st' fg sw recs"
proof -
  have np: "\<not> sw_writePending st'" using w k by (simp add: winv_def)
  have "sw_ok st sw" using w by (simp add: winv_def)
  from idle_writer [OF this] have "sw_ok st' sw" using k np by auto
  moreover have "in_flight st' sw = in_flight st sw" "archived st' = archived st" using k np by (simp_all add: in_flight_def archived_def)
  moreover have "states_ok st' fg \<and> cur_chunk st' = cur_chunk st" if "\<not> sw_writerFailed st"
    using states_okD [OF w that] k np fg by (auto simp: states_ok_def cur_chunk_def)
  moreover have "\<not> fg_connected fg" "\<not> relocking fg" using fg by (auto simp: fg_connected_def)
  ultimately show ?thesis using w k np by (simp add: winv_def)
qed

lemma fg_connect_inv:
  assumes w: "stream_inv s" "sys_fg s = FgConnect" and rnd: "double_ok rnd" and c: "config_ok (sys_st s)"
    and src: "source_ok (sw_maxCircBuffLength (sys_st s)) env"
  shows "stream_inv (fg_connect rnd env s)"
proof -
  let ?sw = "sys_sw s" and ?recs = "sys_recorded s"
  define st where "st = (sys_st s)\<lparr>sw_fgReady := False, sw_restart := False\<rparr>"
  define st1 where "st1 = st\<lparr>sw_dataType := md_dataType (fe_md env), sw_typeSize := fe_typeSize env, sw_width := md_width (fe_md env),
                      sw_height := md_height (fe_md env)\<rparr>"
  obtain rv st2 where a: "allocate_circbufs rnd (fe_malloc1 env) (fe_malloc2 env) st1 = (rv, st2)" by fastforce
  have w1: "winv st FgConnect ?sw ?recs" "winv st1 FgConnect ?sw ?recs"
    using w by (simp_all add: stream_inv_def) (erule winv_cong; simp add: st_def st1_def)+
  have k: "sw_writePending st2 = sw_writePending st1" "sw_writerFailed st2 = sw_writerFailed st1" "ma_shutdown st2 = ma_shutdown st1"
    "sw_archives st2 = sw_archives st1" "sw_chunkFrames st2 = sw_chunkFrames st1" "sw_writing st2 = sw_writing st1"
    "sw_stopQueued st2 = sw_stopQueued st1" "sw_semaphore st2 = sw_semaphore st1"
    using a by (auto simp: allocate_circbufs_def sw_emit_def Let_def split: prod.splits if_splits)
  have np: "\<not> sw_writePending st1" using w1 by (simp add: winv_def)
  have idle: "?sw = SwLoop \<and> sw_semaphore st1 = 0 \<or> ?sw = SwReturned" using w1 np idle_writer by (simp add: winv_def)
  have "winv st2 FgReturned ?sw ?recs" using winv_buffers [OF w1(2) _ k] by blast
  then have ret: "stream_inv (fg_return (s\<lparr>sys_st := st2\<rparr>))" by (intro stream_inv_return) simp
  define st3 where "st3 = st2\<lparr>sw_currImage := 0, sw_currChunkStart := 0, sw_nextChunkStart := 0, sw_chunkFrames := 0,
                                sw_stopQueued := False, sw_fgReady := True\<rparr>"
  have "winv st3 FgLoop ?sw ?recs" if "rv = 0"
  proof -
    have b: "bufs_ok st2 \<and> 0 < sw_circBuffLength st2"
      using c src that by (intro allocate_ok [OF rnd a [unfolded that]]) (simp_all add: st1_def st_def source_ok_def config_ok_def)
    have "bufs_ok st3" "sw_currImage st3 < sw_circBuffLength st3" using b by (simp_all add: st3_def bufs_ok_def)
    moreover have "cur_chunk st1 = []" "cur_chunk st3 = []" if "\<not> sw_writerFailed st1"
      using states_okD [OF w1(2) that] by (simp_all add: states_ok_def cur_chunk_def st3_def)
    moreover have "archived st3 = archived st1" using k by (simp add: archived_def st3_def)
    moreover have "states_ok st3 FgLoop" by (simp add: states_ok_def st3_def)
    moreover have "sw_ok st3 ?sw" using idle np k by (auto simp: st3_def)
    moreover have "sw_writePending st3 = sw_writePending st1" "sw_writerFailed st3 = sw_writerFailed st1" "ma_shutdown st3 = ma_shutdown st1"
      using k by (simp_all add: st3_def)
    ultimately show ?thesis using w1(2) np by (simp add: winv_def in_flight_def)
  qed
  moreover have "rv \<ge> 0 \<longrightarrow> rv = 0" using a by (auto simp: allocate_circbufs_def Let_def split: prod.splits if_splits)
  moreover have "stream_inv (fg_return (s\<lparr>sys_st := st\<rparr>))" using w1(1) by (intro stream_inv_return) simp
  moreover have "winv st FgConnect ?sw ?recs" by (rule w1(1))
  moreover have "fg_connect rnd env s = (case fe_conn env of
        ConnRetry \<Rightarrow> s\<lparr>sys_st := st\<rparr> | ConnFail \<Rightarrow> fg_return (s\<lparr>sys_st := st\<rparr>)
      | ConnOk \<Rightarrow> if rv < 0 \<or> \<not> fe_xrif env then fg_return (s\<lparr>sys_st := st2\<rparr>)
          else s\<lparr>sys_st := st3, fv_length := md_length (fe_md env), fv_last_cnt0 := fe_cnt0 env, fv_cnt0flag := 0,
                 fv_restartWriting := False, sys_fg := FgLoop\<rparr>)"
    using a by (simp add: fg_connect_def Let_def st_def [symmetric] st1_def [symmetric] st3_def cong: conn_result.case_cong)
  ultimately show ?thesis using w(2) ret by (cases "fe_conn env") (auto simp: stream_inv_def)
qed

lemma fg_next_inv:
  assumes w: "stream_inv s" and rnd: "double_ok rnd" and c: "config_ok (sys_st s)"
    and src: "source_ok (sw_maxCircBuffLength (sys_st s)) env"
  shows "\<exists>s'. fg_next rnd env s = Some s' \<and> stream_inv s'"
proof (cases "sys_fg s")
  case FgConnect
  have i: "winv (sys_st s) FgConnect (sys_sw s) (sys_recorded s)" using w FgConnect by (simp add: stream_inv_def)
  have "winv (release_circbufs (sys_st s)) FgReturned (sys_sw s) (sys_recorded s)"
    by (rule winv_buffers [OF i]) (simp_all add: release_circbufs_def)
  then have "stream_inv (fg_return (s\<lparr>sys_st := release_circbufs (sys_st s)\<rparr>))" by (intro stream_inv_return) simp
  then show ?thesis using FgConnect fg_connect_inv [OF w FgConnect rnd c src] by (simp add: fg_next_def Let_def)
next
  case FgLoop
  have "fg_connected (sys_fg s)" "\<not> captured (sys_fg s)" using FgLoop by (simp_all add: fg_connected_def)
  note g = stream_inv_goto [OF w this]
  moreover have "stream_inv (fg_goto FgCleanup (s\<lparr>sys_st := sw_emit evs (sys_st s)\<rparr>))"
    "stream_inv (fg_return (s\<lparr>sys_st := sw_emit evs (sys_st s)\<rparr>))" for evs
    using g [of FgCleanup] stream_inv_return [of "s\<lparr>sys_st := sw_emit evs (sys_st s)\<rparr>"] w by (simp_all add: fg_goto_def stream_inv_def)
  ultimately show ?thesis using FgLoop g by (simp add: fg_next_def Let_def)
next
  case FgLock
  have "fg_connected (sys_fg s)" "\<not> captured (sys_fg s)" using FgLock by (simp_all add: fg_connected_def)
  note g = stream_inv_goto [OF w this, of FgSlotWait]
  show ?thesis using FgLock g capture_inv [OF w] by (simp add: fg_next_def Let_def)
next
  case FgSlotWait
  then show ?thesis using wait_inv [OF w] winv_wake(2) w by (simp add: fg_next_def stream_inv_def)
next
  case FgSlotRelock
  then have "\<not> sw_writePending (sys_st s)" using w by (simp add: stream_inv_def winv_def)
  then show ?thesis using FgSlotRelock capture_inv [OF w] by (simp add: fg_next_def)
next
  case (FgTimeoutLock r)
  then show ?thesis using fg_timeout_inv [OF w] by (simp add: fg_next_def)
next
  case (FgTail r)
  have fg: "fg_connected (sys_fg s)" "\<not> captured (sys_fg s)" using FgTail by (simp_all add: fg_connected_def)
  note g = winv_goto [OF w [unfolded stream_inv_def] fg]
  have "winv ((sys_st s)\<lparr>sw_restart := True\<rparr>) FgLoop (sys_sw s) (sys_recorded s)"
    using g [of FgLoop] by (simp) (erule winv_cong; simp)
  then show ?thesis using FgTail g by (simp add: fg_next_def Let_def fg_goto_def stream_inv_def)
next
  case (FgQueueWait a n)
  then show ?thesis using wait_inv [OF w] winv_wake(1) w by (simp add: fg_next_def stream_inv_def)
next
  case (FgQueueRelock a n)
  then show ?thesis using queue_publish_inv w by (simp add: fg_next_def stream_inv_def)
next
  case FgCleanup
  then show ?thesis using fg_cleanup_inv [OF w] by (simp add: fg_next_def)
next
  case FgCleanWait
  let ?s = "waitForWriteCompletion env FgConnect s"
  have "stream_inv ?s" using wait_inv [OF w] winv_wake(3) w FgCleanWait by (simp add: stream_inv_def)
  moreover have "stream_inv (?s\<lparr>sys_st := release_circbufs (sys_st ?s)\<rparr>)" if "sys_fg ?s = FgConnect"
  proof -
    have i: "winv (sys_st ?s) FgConnect (sys_sw ?s) (sys_recorded ?s)" using \<open>stream_inv ?s\<close> that by (simp add: stream_inv_def)
    have "winv (release_circbufs (sys_st ?s)) FgConnect (sys_sw ?s) (sys_recorded ?s)"
      by (rule winv_buffers [OF i]) (simp_all add: release_circbufs_def)
    then show ?thesis using that by (simp add: stream_inv_def)
  qed
  ultimately show ?thesis using FgCleanWait by (simp add: fg_next_def Let_def)
next
  case FgReturned
  then show ?thesis using w by (simp add: fg_next_def)
qed

end
