(* ===== verification/StreamRun.thy ===== *)
theory StreamRun
  imports StreamInv
begin

text \<open>
  Correctness of the stream writer, continued: the writer, the requests and the end of the
  application keep the invariant, and what holds of every schedule from the start of the threads.
\<close>

section \<open>The writer keeps the invariant\<close>

lemma winv_sw:
  assumes "winv st fg sw recs" "sw_ok st sw'" "sw_writerFailed st \<longrightarrow> sw' = SwReturned" "in_flight st sw' = in_flight st sw"
  shows "winv st fg sw' recs"
  using assms by (simp add: winv_def)

lemma writer_running: "winv st fg sw recs \<Longrightarrow> sw \<noteq> SwReturned \<Longrightarrow> \<not> sw_writerFailed st"
  by (simp add: winv_def)

lemma stream_inv_sw:
  assumes "stream_inv s" "sys_sw s \<noteq> SwReturned" "sw_ok (sys_st s) sw'" "sys_sw s \<noteq> SwComplete True" "sw' \<noteq> SwComplete True"
  shows "stream_inv (sw_goto sw' s)"
proof -
  have "in_flight (sys_st s) sw' = in_flight (sys_st s) (sys_sw s)" using assms(4,5) by (simp add: in_flight_def)
  then show ?thesis
    using winv_sw [OF assms(1) [unfolded stream_inv_def] assms(3)] writer_running [OF assms(1) [unfolded stream_inv_def] assms(2)]
    by (simp add: stream_inv_def sw_goto_def)
qed

lemma window_slot:
  assumes "winv st fg sw recs" "sw_writePending st" "sw_currSaveStart st + i < sw_currSaveStop st"
  shows "get_slot (sw_currSaveStart st + i) (sw_rawImageCircBuff st) = Some (the (sw_rawImageCircBuff st) ! (sw_currSaveStart st + i))"
    and "get_slot (sw_currSaveStart st + i) (sw_timingCircBuff st) = Some (the (sw_timingCircBuff st) ! (sw_currSaveStart st + i))"
proof -
  have "bufs_ok st" "window_ok st" using assms(1,2) by (simp_all add: winv_def)
  then obtain r t where "sw_rawImageCircBuff st = Some r" "sw_timingCircBuff st = Some t"
    "sw_currSaveStart st + i < length r" "sw_currSaveStart st + i < length t"
    using assms(3) by (auto simp: bufs_ok_def window_ok_def)
  then show "get_slot (sw_currSaveStart st + i) (sw_rawImageCircBuff st) = Some (the (sw_rawImageCircBuff st) ! (sw_currSaveStart st + i))"
    "get_slot (sw_currSaveStart st + i) (sw_timingCircBuff st) = Some (the (sw_timingCircBuff st) ! (sw_currSaveStart st + i))"
    by (simp_all add: get_slot_def)
qed

lemma frames_zip: "map2 (\<lambda>r t. \<lparr>fr_image = r, fr_timing = t\<rparr>) (map fr_image fs) (map fr_timing fs) = (fs :: sw_frame list)"
  by (induction fs) simp_all

lemma write_inv:
  assumes w: "stream_inv s" and p: "sys_sw s = SwWrite a raw tim"
  shows "\<exists>s'. sw_next env s = Some s' \<and> stream_inv s'"
proof -
  let ?st = "sys_st s"
  let ?win = "frames_at ?st (sw_currSaveStart ?st) (sw_currSaveStop ?st - sw_currSaveStart ?st)"
  have i: "winv ?st (sys_fg s) (SwWrite a raw tim) (sys_recorded s)" using w p by (simp add: stream_inv_def)
  then have ok: "sw_ok ?st (SwWrite a raw tim)" by (simp add: winv_def)
  then have a: "sw_writePending ?st" "a = sw_currSaveStart ?st" "a < sw_currSaveStop ?st" "sw_semaphore ?st = 0" by simp_all
  have nf: "\<not> sw_writerFailed ?st" using writer_running [OF i] by simp
  have slot: "get_slot a (sw_timingCircBuff ?st) \<noteq> None" using window_slot(2) [OF i a(1), of 0] a(2,3) by simp
  have fs: "map2 (\<lambda>r t. \<lparr>fr_image = r, fr_timing = t\<rparr>) raw tim = ?win" using ok frames_zip [of ?win] by (simp del: map_map)
  define st2 where "st2 = (\<lambda>path. ?st\<lparr>sw_archives := sw_archives ?st @ [(path, ?win)]\<rparr>)"
  have bad: "winv ?st (sys_fg s) (SwComplete False) (sys_recorded s)"
    by (rule winv_sw [OF i]) (use a nf in \<open>simp_all add: in_flight_def\<close>)
  have good: "winv (st2 path) (sys_fg s) (SwComplete True) (sys_recorded s)" for path
  proof -
    have e: "in_flight (st2 path) (SwComplete True) = []" "archived (st2 path) = archived ?st @ ?win" "in_flight ?st (SwWrite a raw tim) = ?win"
      using a by (simp_all add: archived_def in_flight_def st2_def)
    have keep: "cur_chunk (st2 path) = cur_chunk ?st" "bufs_ok (st2 path) = bufs_ok ?st" "window_ok (st2 path) = window_ok ?st"
      "states_ok (st2 path) (sys_fg s) = states_ok ?st (sys_fg s)"
      by (simp_all add: st2_def cur_chunk_def frames_at_def bufs_ok_def window_ok_def states_ok_def chunk_ok_def)
    have sw: "sw_ok (st2 path) (SwComplete True)" using a by (simp add: st2_def)
    have pre: "prefix (archived (st2 path)) (sys_recorded s)" "sys_fg s \<noteq> FgReturned \<longrightarrow> archived (st2 path) @ cur_chunk ?st = sys_recorded s"
      using i nf e by (simp_all add: winv_def)
    have flds: "sw_writePending (st2 path) = sw_writePending ?st" "sw_writerFailed (st2 path) = sw_writerFailed ?st"
      "sw_currImage (st2 path) = sw_currImage ?st" "sw_circBuffLength (st2 path) = sw_circBuffLength ?st" by (simp_all add: st2_def)
    show ?thesis using i nf sw pre unfolding winv_def e keep flds by (simp del: sw_ok.simps)
  qed
  obtain t where t: "get_slot a (sw_timingCircBuff ?st) = Some t" using slot by blast
  obtain ok st' where wa: "write_archive env a raw tim ?st = Some (ok, st')" by (simp add: write_archive_def t) (metis surj_pair)
  then have st': "if ok then \<exists>path. st' = st2 path else \<exists>evs. st' = sw_emit evs ?st"
    using fs by (auto simp: write_archive_def st2_def t split: sum.splits prod.splits if_splits)
  have "winv st' (sys_fg s) (SwComplete ok) (sys_recorded s)" using st' good bad by (cases ok) auto
  then show ?thesis using p wa by (simp add: sw_next_def sw_goto_def stream_inv_def)
qed

text \<open>The window is released.\<close>

lemma complete_inv:
  assumes w: "winv st fg (SwComplete ok) recs"
  shows "winv (completeWrite ok st) fg (if ok then SwLoop else SwReturned) recs"
proof -
  have p: "sw_writePending st" "sw_semaphore st = 0" "\<not> sw_writerFailed st" using w by (simp_all add: winv_def)
  have fg: "\<not> relocking fg" "fg \<noteq> FgConnect" using w p(1) by (auto simp: winv_def)
  have s: "states_ok st fg" using states_okD [OF w p(3)] .
  define st1 where "st1 = (if \<not> ok then st\<lparr>sw_writerFailed := True, ma_shutdown := 1, sw_writing := NOT_WRITING\<rparr>
      else if sw_writing st = STOP_WRITING \<and> (sw_stopQueued st \<or> sw_chunkFrames st = 0)
      then st\<lparr>sw_writing := if sw_resumeAfterReconnect st then START_WRITING else NOT_WRITING, sw_stopWriteDeadline := 0\<rparr> else st)"
  define st2 where "st2 = st1\<lparr>sw_stopQueued := False, sw_writePending := False\<rparr>"
  have c: "winv (completeWrite ok st) fg sw recs = winv st2 fg sw recs" for sw
    by (simp add: completeWrite_def Let_def st2_def st1_def)
  have e: "archived st2 = archived st" "cur_chunk st2 = cur_chunk st" "bufs_ok st2 = bufs_ok st" "sw_writePending st2 = False"
    "sw_currImage st2 = sw_currImage st" "sw_circBuffLength st2 = sw_circBuffLength st" "sw_semaphore st2 = 0" "sw_writerFailed st2 = (\<not> ok)"
    using p by (simp_all add: st2_def st1_def archived_def cur_chunk_def frames_at_def bufs_ok_def)
  show ?thesis
  proof (cases ok)
    case True
    have "states_ok st2 fg" using s True by (auto simp: states_ok_def chunk_ok_def st2_def st1_def)
    moreover have "in_flight st (SwComplete True) = []" "in_flight st2 SwLoop = []" using e by (simp_all add: in_flight_def)
    ultimately have "winv st2 fg SwLoop recs" using w True e fg by (simp add: winv_def)
    then show ?thesis using c True by simp
  next
    case False
    have "prefix (archived st @ in_flight st (SwComplete ok)) recs" using w by (simp add: winv_def)
    then have "prefix (archived st) recs" by (rule append_prefixD)
    moreover have "ma_shutdown st2 \<noteq> 0" using False by (simp add: st2_def st1_def)
    ultimately have "winv st2 fg SwReturned recs" using w False e fg p by (simp add: winv_def in_flight_def)
    then show ?thesis using c False by simp
  qed
qed

lemma sw_next_inv:
  assumes w: "stream_inv s"
  shows "\<exists>s'. sw_next env s = Some s' \<and> stream_inv s'"
proof (cases "sys_sw s")
  case SwLoop
  let ?st = "sys_st s"
  have i: "winv ?st (sys_fg s) SwLoop (sys_recorded s)" using w SwLoop by (simp add: stream_inv_def)
  then have sem: "sw_semaphore ?st = of_bool (sw_writePending ?st)" by (simp add: winv_def)
  have nf: "\<not> sw_writerFailed ?st" using writer_running [OF i] by simp
  have ret: "stream_inv (sw_goto SwReturned s)" by (rule stream_inv_sw [OF w]) (simp_all add: SwLoop)
  then have ret': "stream_inv (sw_goto SwReturned (s\<lparr>sys_st := sw_emit evs ?st\<rparr>))" for evs by (simp add: sw_goto_def stream_inv_def)
  have "stream_inv (sw_goto SwTaken (s\<lparr>sys_st := ?st\<lparr>sw_semaphore := sw_semaphore ?st - 1\<rparr>\<rparr>))" if "sw_semaphore ?st > 0"
  proof -
    define st' where "st' = ?st\<lparr>sw_semaphore := sw_semaphore ?st - 1\<rparr>"
    have p: "sw_writePending ?st" "sw_semaphore ?st = 1" using sem that by (auto split: if_splits)
    have e: "archived st' = archived ?st" "in_flight st' SwTaken = in_flight ?st SwLoop" "cur_chunk st' = cur_chunk ?st" "bufs_ok st' = bufs_ok ?st"
      "window_ok st' = window_ok ?st" "states_ok st' fg = states_ok ?st fg" "sw_writePending st' = sw_writePending ?st"
      "sw_writerFailed st' = sw_writerFailed ?st" "sw_currImage st' = sw_currImage ?st" "sw_circBuffLength st' = sw_circBuffLength ?st" for fg
      by (simp_all add: st'_def archived_def in_flight_def cur_chunk_def frames_at_def bufs_ok_def window_ok_def states_ok_def chunk_ok_def)
    have "sw_ok st' SwTaken" using p by (simp add: st'_def)
    then have "winv st' (sys_fg s) SwTaken (sys_recorded s)" using i nf unfolding winv_def e by (simp del: sw_ok.simps)
    then show ?thesis by (simp add: sw_goto_def stream_inv_def st'_def)
  qed
  then show ?thesis using SwLoop w ret ret' by (simp add: sw_next_def Let_def split: sem_result.split)
next
  case SwTaken
  have p: "sw_writePending (sys_st s)" "sw_semaphore (sys_st s) = 0" using w SwTaken by (simp_all add: stream_inv_def winv_def)
  have "stream_inv (sw_goto SwBegin s)" by (rule stream_inv_sw [OF w]) (simp_all add: SwTaken p)
  then show ?thesis using SwTaken p by (simp add: sw_next_def)
next
  case SwBegin
  let ?st = "sys_st s"
  have p: "sw_writePending ?st" "sw_semaphore ?st = 0" "sw_writing ?st \<noteq> NOT_WRITING"
    using w SwBegin by (simp_all add: stream_inv_def winv_def window_ok_def)
  have "stream_inv (sw_goto (SwValidate (sw_currSaveStart ?st) (sw_currSaveStop ?st)) s)"
    by (rule stream_inv_sw [OF w]) (simp_all add: SwBegin p)
  then have "winv ?st (sys_fg s) (SwValidate (sw_currSaveStart ?st) (sw_currSaveStop ?st)) (sys_recorded s)" by (simp add: stream_inv_def sw_goto_def)
  then have "winv (?st\<lparr>sw_writePending := True\<rparr>) (sys_fg s) (SwValidate (sw_currSaveStart ?st) (sw_currSaveStop ?st)) (sys_recorded s)"
    by (rule winv_cong) (simp_all add: p)
  then show ?thesis using SwBegin p by (simp add: sw_next_def sw_goto_def stream_inv_def Let_def)
next
  case (SwValidate a b)
  let ?st = "sys_st s"
  have i: "winv ?st (sys_fg s) (SwValidate a b) (sys_recorded s)" using w SwValidate by (simp add: stream_inv_def)
  then have p: "sw_writePending ?st" "sw_semaphore ?st = 0" "a = sw_currSaveStart ?st" "b = sw_currSaveStop ?st" by (simp_all add: winv_def)
  have "a \<le> b" using i p by (simp add: winv_def window_ok_def)
  then have "stream_inv (sw_goto (SwRaw a b []) s)" if "b \<noteq> a" using that by (intro stream_inv_sw [OF w]) (simp_all add: SwValidate p)
  moreover have "stream_inv (sw_goto (SwComplete False) s)" by (rule stream_inv_sw [OF w]) (simp_all add: SwValidate p)
  moreover have "stream_inv (sw_goto (SwComplete True) s)" if "b = a"
    using winv_sw [OF i, of "SwComplete True"] writer_running [OF i] p that by (simp add: in_flight_def sw_goto_def stream_inv_def)
  ultimately show ?thesis using SwValidate by (simp add: sw_next_def Let_def)
next
  case (SwRaw a b raw)
  let ?st = "sys_st s"
  have i: "winv ?st (sys_fg s) (SwRaw a b raw) (sys_recorded s)" using w SwRaw by (simp add: stream_inv_def)
  then have ok: "sw_ok ?st (SwRaw a b raw)" unfolding winv_def by blast
  then have p: "sw_writePending ?st" "a = sw_currSaveStart ?st" "b = sw_currSaveStop ?st" by auto
  show ?thesis
  proof (cases "a + length raw < b")
    case True
    have sl: "get_slot (a + length raw) (sw_rawImageCircBuff ?st) = Some (the (sw_rawImageCircBuff ?st) ! (a + length raw))"
      using window_slot(1) [OF i p(1), of "length raw"] True p by simp
    have "stream_inv (sw_goto (SwRaw a b (raw @ [the (sw_rawImageCircBuff ?st) ! (a + length raw)])) s)"
      by (rule stream_inv_sw [OF w]) (use ok True in \<open>auto simp: SwRaw frames_at_Suc\<close>)
    then show ?thesis using SwRaw True sl by (simp add: sw_next_def)
  next
    case False
    moreover have "length raw \<le> b - a" using ok unfolding sw_ok.simps by blast
    ultimately have l: "length raw = b - a" by simp
    have "raw = map fr_image (frames_at ?st a (b - a))" using ok unfolding l [symmetric] sw_ok.simps by blast
    then have "stream_inv (sw_goto (SwTiming a b raw []) s)"
      by (intro stream_inv_sw [OF w]) (use ok in \<open>auto simp: SwRaw\<close>)
    then show ?thesis using SwRaw False by (simp add: sw_next_def)
  qed
next
  case (SwTiming a b raw tim)
  let ?st = "sys_st s"
  have i: "winv ?st (sys_fg s) (SwTiming a b raw tim) (sys_recorded s)" using w SwTiming by (simp add: stream_inv_def)
  then have ok: "sw_ok ?st (SwTiming a b raw tim)" unfolding winv_def by blast
  then have p: "sw_writePending ?st" "a = sw_currSaveStart ?st" "b = sw_currSaveStop ?st" by auto
  show ?thesis
  proof (cases "a + length tim < b")
    case True
    have sl: "get_slot (a + length tim) (sw_timingCircBuff ?st) = Some (the (sw_timingCircBuff ?st) ! (a + length tim))"
      using window_slot(2) [OF i p(1), of "length tim"] True p by simp
    have "stream_inv (sw_goto (SwTiming a b raw (tim @ [the (sw_timingCircBuff ?st) ! (a + length tim)])) s)"
      by (rule stream_inv_sw [OF w]) (use ok True in \<open>auto simp: SwTiming frames_at_Suc\<close>)
    then show ?thesis using SwTiming True sl by (simp add: sw_next_def)
  next
    case False
    moreover have "length tim \<le> b - a" using ok unfolding sw_ok.simps by blast
    ultimately have l: "length tim = b - a" by simp
    have "tim = map fr_timing (frames_at ?st a (b - a))" using ok unfolding l [symmetric] sw_ok.simps by blast
    then have "stream_inv (sw_goto (SwWrite a raw tim) s)"
      by (intro stream_inv_sw [OF w]) (use ok in \<open>auto simp: SwTiming\<close>)
    then show ?thesis using SwTiming False by (simp add: sw_next_def)
  qed
next
  case (SwWrite a raw tim)
  then show ?thesis by (rule write_inv [OF w])
next
  case (SwComplete ok)
  have "winv (completeWrite ok (sys_st s)) (sys_fg s) (if ok then SwLoop else SwReturned) (sys_recorded s)"
    using w SwComplete by (intro complete_inv) (simp add: stream_inv_def)
  then show ?thesis using SwComplete by (simp add: sw_next_def Let_def sw_goto_def stream_inv_def split: if_splits)
next
  case SwReturned
  then show ?thesis using w by (simp add: sw_next_def)
qed

section \<open>Requests and the end\<close>

lemma request_inv:
  assumes w: "winv st fg sw recs"
  shows "winv (snd (newCallBack_writing now ip st)) fg sw recs"
proof -
  have nr: "winv (st\<lparr>sw_resumeAfterReconnect := r\<rparr>) fg sw recs" for r using w by (rule winv_cong) simp_all
  have stop0: "winv (st\<lparr>sw_resumeAfterReconnect := False, sw_writing := if sw_writePending st then STOP_WRITING else NOT_WRITING,
        sw_stopQueued := sw_writePending st, sw_stopWriteDeadline := 0\<rparr>) fg sw recs" (is "winv ?st' _ _ _")
    if "sw_chunkFrames st = 0"
    using that by (intro winv_writing [OF nr [of False], where d = 0 and q = "sw_writePending st"
      and v = "if sw_writePending st then STOP_WRITING else NOT_WRITING"]) simp_all
  have stop: "winv (st\<lparr>sw_resumeAfterReconnect := False, sw_stopWriteDeadline := d, sw_writing := STOP_WRITING\<rparr>) fg sw recs"
    if "sw_writing st = WRITING \<or> sw_writing st = START_WRITING" for d
  proof -
    have "\<not> sw_stopQueued st" if "\<not> sw_writerFailed st"
      using states_okD [OF w that] \<open>sw_writing st = WRITING \<or> sw_writing st = START_WRITING\<close> by (auto simp: states_ok_def)
    then show ?thesis
      by (intro winv_writing [OF nr [of False], where q = "sw_stopQueued st" and d = d and v = STOP_WRITING]) simp_all
  qed
  have start: "winv (st\<lparr>sw_writing := START_WRITING, sw_chunkFrames := 0, sw_stopQueued := False, sw_resumeAfterReconnect := False,
        sw_stopWriteDeadline := 0\<rparr>) fg sw recs" if n: "sw_writing st = NOT_WRITING"
  proof (cases "sw_writerFailed st")
    case False
    then have "sw_chunkFrames st = 0" using states_okD [OF w] n by (simp add: states_ok_def)
    then have "winv (st\<lparr>sw_resumeAfterReconnect := False, sw_writing := START_WRITING, sw_stopQueued := False, sw_stopWriteDeadline := 0\<rparr>) fg sw recs"
      by (intro winv_writing [OF nr [of False], where d = 0 and v = START_WRITING and q = False]) simp_all
    then show ?thesis by (rule winv_cong) (simp_all add: \<open>sw_chunkFrames st = 0\<close>)
  next
    case True
    then have "\<not> sw_writePending st" "sw = SwReturned" using w by (simp_all add: winv_def)
    then show ?thesis using w True by (simp add: winv_def bufs_ok_def in_flight_def archived_def)
  qed
  show ?thesis using w nr stop0 stop start by (cases "sw_writePending st") (simp_all add: newCallBack_writing_def Let_def split: option.split)
qed


lemma winv_set_state: "winv st fg sw recs \<Longrightarrow> winv (set_state l c a st) fg sw recs"
  by (erule winv_cong) (simp_all add: set_state_def publish_state_def app_emit_def Let_def case_prod_beta)

lemma winv_updateINDI: "winv st fg sw recs \<Longrightarrow> winv (sw_updateINDI st) fg sw recs"
  by (erule winv_cong) (simp_all add: sw_updateINDI_def app_emit_def case_prod_beta)

lemma winv_skip_summary: "winv st fg sw recs \<Longrightarrow> winv (skip_summary now st) fg sw recs"
  by (erule winv_cong) (simp_all add: skip_summary_def sw_emit_def Let_def)

lemma appLogic_inv: "winv st fg sw recs \<Longrightarrow> winv (snd (sw_appLogic now l x y st)) fg sw recs"
  by (simp add: sw_appLogic_def winv_skip_summary winv_updateINDI winv_set_state Let_def)

lemma appShutdown_inv:
  assumes w: "winv st FgReturned SwReturned recs"
  shows "winv (sw_appShutdown st) FgReturned SwReturned recs"
proof -
  let ?st = "st\<lparr>sw_writing := NOT_WRITING, sw_writePending := False, sw_chunkFrames := 0, sw_stopQueued := False,
    sw_resumeAfterReconnect := False, sw_stopWriteDeadline := 0\<rparr>"
  have "prefix (archived st @ in_flight st SwReturned) recs" using w by (simp add: winv_def)
  then have "prefix (archived st) recs" by (rule append_prefixD)
  then have "winv ?st FgReturned SwReturned recs"
    using w by (simp add: winv_def in_flight_def archived_def states_ok_def fg_connected_def)
  then have "winv (sw_updateINDI ?st) FgReturned SwReturned recs" by (rule winv_updateINDI)
  moreover have "\<not> sw_writePending (sw_updateINDI ?st)" by (simp add: sw_updateINDI_def app_emit_def case_prod_beta)
  ultimately show ?thesis
    by (simp add: winv_def sw_appShutdown_def release_circbufs_def in_flight_def archived_def states_ok_def fg_connected_def)
qed

section \<open>Schedules\<close>

text \<open>The configuration stays as it was loaded.\<close>

definition sw_config :: "streamWriter \<Rightarrow> u64 \<times> real \<times> u64" where
  "sw_config st = (sw_maxCircBuffLength st, sw_maxCircBuffSize st, sw_maxWriteChunkLength st)"

lemma config_update [simp]:
  "sw_config (ma_shutdown_update v0 st) = sw_config st" "sw_config (sw_dataType_update v1 st) = sw_config st"
  "sw_config (sw_typeSize_update v2 st) = sw_config st" "sw_config (sw_width_update v3 st) = sw_config st"
  "sw_config (sw_height_update v4 st) = sw_config st" "sw_config (sw_rawImageCircBuff_update v5 st) = sw_config st"
  "sw_config (sw_timingCircBuff_update v6 st) = sw_config st" "sw_config (sw_currImage_update v7 st) = sw_config st"
  "sw_config (sw_skippedFrameCount_update v8 st) = sw_config st" "sw_config (sw_repeatSemaphoreCount_update v9 st) = sw_config st"
  "sw_config (sw_writing_update v10 st) = sw_config st" "sw_config (sw_chunkFrames_update v11 st) = sw_config st"
  "sw_config (sw_stopQueued_update v12 st) = sw_config st" "sw_config (sw_fgReady_update v13 st) = sw_config st"
  "sw_config (sw_writePending_update v14 st) = sw_config st" "sw_config (sw_stopWriteDeadline_update v15 st) = sw_config st"
  "sw_config (sw_resumeAfterReconnect_update v16 st) = sw_config st" "sw_config (sw_currChunkStart_update v17 st) = sw_config st"
  "sw_config (sw_nextChunkStart_update v18 st) = sw_config st" "sw_config (sw_restart_update v19 st) = sw_config st"
  "sw_config (sw_semaphore_update v20 st) = sw_config st" "sw_config (sw_archives_update v21 st) = sw_config st"
  by (simp_all add: sw_config_def)

lemma config_helpers [simp]:
  "sw_config (sw_emit evs st) = sw_config st" "sw_config (recordSavingState f st) = sw_config st"
  "sw_config (completeWrite ok st) = sw_config st" "sw_config (release_circbufs st) = sw_config st"
  "sw_config (set_state l c x st) = sw_config st" "sw_config (sw_updateINDI st) = sw_config st" "sw_config (skip_summary now st) = sw_config st"
  "sw_config (append_frame st) = sw_config st" "sw_config (advance st) = sw_config st"
  by (simp_all add: sw_config_def sw_emit_def recordSavingState_def completeWrite_def release_circbufs_def append_frame_def advance_def
      set_state_def publish_state_def app_emit_def sw_updateINDI_def skip_summary_def Let_def case_prod_beta)

lemma config_app [simp]: "sw_config (sw_appShutdown st) = sw_config st" "sw_config (snd (sw_appLogic now l x y st)) = sw_config st"
  by (simp_all add: sw_appShutdown_def sw_appLogic_def Let_def)

lemma config_pairs [simp]:
  "sw_config (snd (newCallBack_writing now ip st)) = sw_config st"
  "sw_config (snd (publish_window post n st)) = sw_config st" "sw_config (snd (allocate_circbufs rnd a b st)) = sw_config st"
  by (simp_all add: newCallBack_writing_def publish_window_def allocate_circbufs_def sw_config_def sw_emit_def recordSavingState_def Let_def
      split: option.split prod.split)

lemma config_fg [simp]:
  "sw_config (sys_st (fg_goto pc s)) = sw_config (sys_st s)" "sw_config (sys_st (fg_return s)) = sw_config (sys_st s)"
  "sw_config (sys_st (fg_resume a s)) = sw_config (sys_st s)"
  "sw_config (sys_st (waitForWriteCompletion env pc s)) = sw_config (sys_st s)"
  "sw_config (sys_st (update_recording env fr s)) = sw_config (sys_st s)"
  by (simp_all add: fg_goto_def fg_return_def fg_resume_def waitForWriteCompletion_def update_recording_def sw_config_def advance_def sw_emit_def
      Let_def split: fg_after.split)

lemma config_frame [simp]:
  "sw_config (sys_st (queue_publish env a n s)) = sw_config (sys_st s)" "sw_config (sys_st (queueWrite env a n s)) = sw_config (sys_st s)"
  "sw_config (sys_st (fg_timeout env r s)) = sw_config (sys_st s)" "sw_config (sys_st (record_frame env fr s)) = sw_config (sys_st s)"
  by (simp_all add: queue_publish_def queueWrite_def fg_timeout_def record_frame_def Let_def case_prod_beta)

lemma config_cleanup [simp]:
  "sw_config (sys_st (fg_cleanup env s)) = sw_config (sys_st s)" "sw_config (sys_st (fg_connect rnd env s)) = sw_config (sys_st s)"
  by (simp_all add: fg_cleanup_def fg_connect_def Let_def case_prod_beta split: conn_result.split)

lemma config_store: "store_frame env s = Some s' \<Longrightarrow> sw_config (sys_st s') = sw_config (sys_st s)"
  by (auto simp: store_frame_def Let_def bind_eq_Some_conv split: option.splits)

lemma config_capture: "capture env s = Some s' \<Longrightarrow> sw_config (sys_st s') = sw_config (sys_st s)"
  by (auto simp: capture_def Let_def dest!: config_store split: if_splits)

lemma config_fg_next: "fg_next rnd env s = Some s' \<Longrightarrow> sw_config (sys_st s') = sw_config (sys_st s)"
  by (cases "sys_fg s") (auto simp: fg_next_def Let_def dest!: config_capture split: if_splits)

lemma config_archive: "write_archive env a raw tim st = Some (ok, st') \<Longrightarrow> sw_config st' = sw_config st"
  by (clarsimp simp: write_archive_def bind_eq_Some_conv) (auto split: sum.splits prod.splits if_splits)

lemma config_sw_next: "sw_next env s = Some s' \<Longrightarrow> sw_config (sys_st s') = sw_config (sys_st s)"
  by (cases "sys_sw s")
    (auto simp: sw_next_def sw_goto_def Let_def bind_eq_Some_conv dest: config_archive split: if_splits sem_result.splits)

text \<open>The environment of the grabber is within what the arithmetic of the sizes can hold.\<close>

definition act_ok :: "u64 \<Rightarrow> sw_act \<Rightarrow> bool" where
  "act_ok maxLen a \<longleftrightarrow> (case a of FgStep env \<Rightarrow> source_ok maxLen env | _ \<Rightarrow> True)"

lemma sys_step_inv:
  assumes w: "stream_inv s" "double_ok rnd" "config_ok (sys_st s)" "act_ok (sw_maxCircBuffLength (sys_st s)) a"
  shows "\<exists>s'. sys_step rnd a s = Some s' \<and> stream_inv s' \<and> sw_config (sys_st s') = sw_config (sys_st s)"
proof (cases a)
  case (FgStep env)
  then show ?thesis using fg_next_inv [OF w(1-3)] config_fg_next w(4) by (fastforce simp: act_ok_def)
next
  case (SwStep env)
  then show ?thesis using sw_next_inv [OF w(1)] config_sw_next by fastforce
next
  case (Request now ip)
  then show ?thesis using w(1) request_inv by (simp add: stream_inv_def)
next
  case (Logic now l)
  let ?a = "sw_appLogic now l (sys_fg s = FgReturned) (sys_sw s = SwReturned) (sys_st s)"
  have "winv (snd ?a) (sys_fg s) (sys_sw s) (sys_recorded s)" using w(1) appLogic_inv by (simp add: stream_inv_def)
  then show ?thesis using Logic winv_shutdown by (simp add: stream_inv_def case_prod_beta)
next
  case SwSignal
  then show ?thesis using w(1) winv_shutdown by (simp add: stream_inv_def)
next
  case SwShutdown
  then show ?thesis using w(1) appShutdown_inv by (auto simp: stream_inv_def)
qed

lemma sys_run_inv:
  assumes "stream_inv s" "double_ok rnd" "config_ok (sys_st s)" "list_all (act_ok (sw_maxCircBuffLength (sys_st s))) as"
  shows "\<exists>s'. sys_run rnd as s = Some s' \<and> stream_inv s' \<and> sw_config (sys_st s') = sw_config (sys_st s)"
  using assms
proof (induction as arbitrary: s)
  case (Cons a as)
  then obtain s1 where s1: "sys_step rnd a s = Some s1" "stream_inv s1" "sw_config (sys_st s1) = sw_config (sys_st s)"
    using sys_step_inv [OF Cons.prems(1-3), of a] by auto
  moreover have "config_ok (sys_st s1)" "sw_maxCircBuffLength (sys_st s1) = sw_maxCircBuffLength (sys_st s)"
    using s1(3) Cons.prems(3) by (simp_all add: sw_config_def config_ok_def)
  ultimately show ?case using Cons.IH [OF s1(2) Cons.prems(2)] Cons.prems(4) by auto
qed simp

text \<open>The application when \<open>appStartup\<close> starts the threads.\<close>

definition sys_init :: "sw_sys \<Rightarrow> bool" where
  "sys_init s \<longleftrightarrow>
     sys_fg s = FgConnect \<and> sys_sw s = SwLoop \<and> sys_recorded s = [] \<and> sw_archives (sys_st s) = [] \<and>
     \<not> sw_writePending (sys_st s) \<and> sw_semaphore (sys_st s) = 0 \<and> \<not> sw_writerFailed (sys_st s) \<and>
     sw_writing (sys_st s) \<in> {NOT_WRITING, START_WRITING} \<and> sw_chunkFrames (sys_st s) = 0 \<and> \<not> sw_stopQueued (sys_st s)"

lemma sys_init_inv: "sys_init s \<Longrightarrow> stream_inv s"
  by (simp add: sys_init_def stream_inv_def winv_def fg_connected_def states_ok_def archived_def in_flight_def cur_chunk_def)

section \<open>The writer empties the window\<close>

text \<open>The steps that the writer still needs.\<close>

fun sw_rank :: "nat \<Rightarrow> sw_pc \<Rightarrow> nat" where
  "sw_rank n SwLoop = 2 * n + 7"
| "sw_rank n SwTaken = 2 * n + 6"
| "sw_rank n SwBegin = 2 * n + 5"
| "sw_rank n (SwValidate a b) = 2 * n + 4"
| "sw_rank n (SwRaw a b raw) = (n - length raw) + n + 3"
| "sw_rank n (SwTiming a b raw tim) = (n - length tim) + 2"
| "sw_rank n (SwWrite a raw tim) = 1"
| "sw_rank n (SwComplete ok) = 0"
| "sw_rank n SwReturned = 0"

definition window_size :: "streamWriter \<Rightarrow> nat" where
  "window_size st = sw_currSaveStop st - sw_currSaveStart st"

lemma completeWrite_keeps [simp]:
  "sw_currChunkStart (completeWrite ok st) = sw_currChunkStart st" "sw_chunkFrames (completeWrite ok st) = sw_chunkFrames st"
  "sw_rawImageCircBuff (completeWrite ok st) = sw_rawImageCircBuff st" "sw_timingCircBuff (completeWrite ok st) = sw_timingCircBuff st"
  "sw_currSaveStart (completeWrite ok st) = sw_currSaveStart st" "sw_currSaveStop (completeWrite ok st) = sw_currSaveStop st"
  "\<not> sw_writePending (completeWrite ok st)" "writer_up st \<longrightarrow> writer_up (completeWrite ok st)"
  by (simp_all add: completeWrite_def recordSavingState_def sw_emit_def writer_up_def Let_def)

lemma recordSavingState_keeps [simp]:
  "sw_currChunkStart (recordSavingState f st) = sw_currChunkStart st" "sw_chunkFrames (recordSavingState f st) = sw_chunkFrames st"
  "sw_rawImageCircBuff (recordSavingState f st) = sw_rawImageCircBuff st" "sw_timingCircBuff (recordSavingState f st) = sw_timingCircBuff st"
  "sw_currSaveStart (recordSavingState f st) = sw_currSaveStart st" "sw_currSaveStop (recordSavingState f st) = sw_currSaveStop st"
  "sw_writePending (recordSavingState f st) = sw_writePending st" "writer_up (recordSavingState f st) = writer_up st"
  by (simp_all add: writer_up_def recordSavingState_def sw_emit_def Let_def)

lemma archive_keeps:
  assumes "write_archive env a raw tim st = Some (ok, st')"
  shows "sw_currChunkStart st' = sw_currChunkStart st \<and> sw_chunkFrames st' = sw_chunkFrames st \<and>
    sw_rawImageCircBuff st' = sw_rawImageCircBuff st \<and> sw_timingCircBuff st' = sw_timingCircBuff st \<and>
    window_size st' = window_size st \<and> sw_writePending st' = sw_writePending st \<and> writer_up st' = writer_up st"
  using assms
  by (clarsimp simp: write_archive_def bind_eq_Some_conv) (auto simp: sw_emit_def window_size_def writer_up_def split: sum.splits prod.splits if_splits)

lemma writer_up_update [simp]:
  "writer_up (st\<lparr>sw_semaphore := n\<rparr>) = writer_up st" "writer_up (st\<lparr>sw_writePending := p\<rparr>) = writer_up st"
  "writer_up (sw_emit evs st) = writer_up st"
  "cur_chunk (st\<lparr>sw_semaphore := n\<rparr>) = cur_chunk st" "window_size (st\<lparr>sw_semaphore := n\<rparr>) = window_size st"
  "cur_chunk (st\<lparr>sw_writePending := p\<rparr>) = cur_chunk st" "window_size (st\<lparr>sw_writePending := p\<rparr>) = window_size st"
  "cur_chunk (recordSavingState f st) = cur_chunk st" "window_size (recordSavingState f st) = window_size st"
  by (simp_all add: writer_up_def sw_emit_def cur_chunk_def frames_at_def window_size_def)

lemma sw_emit_keeps [simp]:
  "cur_chunk (sw_emit evs st) = cur_chunk st" "window_size (sw_emit evs st) = window_size st" "sw_writePending (sw_emit evs st) = sw_writePending st"
  by (simp_all add: sw_emit_def cur_chunk_def frames_at_def window_size_def)

lemma sw_next_keeps:
  assumes n: "sw_next env s = Some s'"
  shows "sys_fg s' = sys_fg s \<and> sys_recorded s' = sys_recorded s \<and> cur_chunk (sys_st s') = cur_chunk (sys_st s) \<and>
    window_size (sys_st s') = window_size (sys_st s) \<and> (writer_up (sys_st s) \<longrightarrow> writer_up (sys_st s'))"
proof -
  have c: "cur_chunk st' = cur_chunk st \<and> window_size st' = window_size st"
    if "sw_currChunkStart st' = sw_currChunkStart st" "sw_chunkFrames st' = sw_chunkFrames st"
      "sw_rawImageCircBuff st' = sw_rawImageCircBuff st" "sw_timingCircBuff st' = sw_timingCircBuff st"
      "sw_currSaveStart st' = sw_currSaveStart st" "sw_currSaveStop st' = sw_currSaveStop st" for st st'
    using that by (simp add: cur_chunk_def frames_at_def window_size_def)
  show ?thesis
  proof (cases "sys_sw s")
    case (SwWrite a raw tim)
    then obtain ok st' where "write_archive env a raw tim (sys_st s) = Some (ok, st')" "s' = sw_goto (SwComplete ok) (s\<lparr>sys_st := st'\<rparr>)"
      using n by (auto simp: sw_next_def bind_eq_Some_conv)
    then show ?thesis using archive_keeps by (simp add: sw_goto_def cur_chunk_def frames_at_def)
  next
    case (SwComplete ok)
    then have "s' = sw_goto (if ok then SwLoop else SwReturned) (s\<lparr>sys_st := if ok then completeWrite ok (sys_st s)
        else sw_emit [SwLogCritical ''error encoding data''] (completeWrite ok (sys_st s))\<rparr>)"
      using n by (simp add: sw_next_def Let_def)
    then show ?thesis using c [of "completeWrite ok (sys_st s)" "sys_st s"] by (cases ok) (simp_all add: sw_goto_def)
  next
    case SwLoop
    then show ?thesis using n by (simp add: sw_next_def Let_def split: if_splits sem_result.splits) (auto simp: sw_goto_def)
  next
    case SwBegin
    then show ?thesis using n by (simp add: sw_next_def Let_def split: if_splits) (auto simp: sw_goto_def)
  qed (use n in \<open>auto simp: sw_next_def sw_goto_def bind_eq_Some_conv Let_def split: if_splits\<close>)
qed

lemma writer_progress:
  assumes w: "stream_inv s" "sw_writePending (sys_st s)" "sys_sw s \<noteq> SwReturned" and env: "se_clock env" "se_sem env = SemOk"
    and up: "writer_up (sys_st s)"
    and n: "sw_next env s = Some s'"
  shows "\<not> sw_writePending (sys_st s') \<or> sw_writePending (sys_st s') \<and> sys_sw s' \<noteq> SwReturned \<and>
    sw_rank (window_size (sys_st s)) (sys_sw s') < sw_rank (window_size (sys_st s)) (sys_sw s)"
proof -
  let ?st = "sys_st s"
  have ok: "sw_ok ?st (sys_sw s)" "window_ok ?st" using w by (simp_all add: stream_inv_def winv_def)
  then have wr: "sw_writing ?st \<noteq> NOT_WRITING" by (simp add: window_ok_def)
  show ?thesis
  proof (cases "sys_sw s = SwLoop")
    case True
    have "sw_semaphore ?st = 1" using ok(1) w(2) True by simp
    then have "s' = sw_goto SwTaken (s\<lparr>sys_st := ?st\<lparr>sw_semaphore := 0\<rparr>\<rparr>)" using n w(2) env up True by (simp add: sw_next_def Let_def)
    then show ?thesis using w(2) True by (simp add: sw_goto_def)
  next
    case False
    then show ?thesis
      using n w ok(1) wr
      by (cases "sys_sw s")
        (auto simp: sw_next_def sw_goto_def sw_emit_def window_size_def Let_def bind_eq_Some_conv dest: archive_keeps split: if_splits)
  qed
qed

text \<open>A stop that waits for the window only.\<close>

definition stop_waits :: "streamWriter \<Rightarrow> bool" where
  "stop_waits st \<longleftrightarrow> sw_writing st = STOP_WRITING \<and> (sw_stopQueued st \<or> sw_chunkFrames st = 0) \<and> \<not> sw_resumeAfterReconnect st"

lemma stop_waits_keeps [simp]:
  "stop_waits (st\<lparr>sw_semaphore := n\<rparr>) = stop_waits st" "stop_waits (st\<lparr>sw_writePending := p\<rparr>) = stop_waits st"
  "stop_waits (sw_emit evs st) = stop_waits st" "stop_waits (recordSavingState f st) = stop_waits st"
  "stop_waits (st\<lparr>sw_archives := a\<rparr>) = stop_waits st"
  by (simp_all add: stop_waits_def sw_emit_def recordSavingState_def Let_def)

lemma stop_completes:
  "stop_waits st \<Longrightarrow> sw_writing (completeWrite True st) = NOT_WRITING" "sw_writerFailed (completeWrite False st)"
  by (simp_all add: stop_waits_def completeWrite_def recordSavingState_def sw_emit_def Let_def)

lemma archive_stop_waits: "write_archive env a raw tim st = Some (ok, st') \<Longrightarrow> stop_waits st' = stop_waits st"
  by (clarsimp simp: write_archive_def bind_eq_Some_conv) (auto split: sum.splits prod.splits if_splits)

lemma stop_step:
  assumes w: "stream_inv s" "sw_writePending (sys_st s)" "stop_waits (sys_st s)" and n: "sw_next env s = Some s'"
  shows "if sw_writePending (sys_st s') then stop_waits (sys_st s')
    else sw_writerFailed (sys_st s') \<or> sw_writing (sys_st s') = NOT_WRITING"
proof -
  have wr: "sw_writing (sys_st s) \<noteq> NOT_WRITING" using w by (simp add: stream_inv_def winv_def window_ok_def)
  show ?thesis
  proof (cases "sys_sw s")
    case (SwWrite a raw tim)
    then obtain ok st' where a: "write_archive env a raw tim (sys_st s) = Some (ok, st')" "s' = sw_goto (SwComplete ok) (s\<lparr>sys_st := st'\<rparr>)"
      using n by (auto simp: sw_next_def bind_eq_Some_conv)
    then show ?thesis using archive_keeps [OF a(1)] archive_stop_waits [OF a(1)] w by (simp add: sw_goto_def)
  next
    case (SwComplete ok)
    then show ?thesis using n w stop_completes by (cases ok) (auto simp: sw_next_def sw_goto_def sw_emit_def Let_def)
  next
    case SwLoop
    then show ?thesis using n w by (simp add: sw_next_def Let_def split: if_splits sem_result.splits) (auto simp: sw_goto_def)
  qed (use n w wr in \<open>auto simp: sw_next_def sw_goto_def bind_eq_Some_conv Let_def split: if_splits\<close>)
qed

lemma writer_empties:
  assumes "stream_inv s" "sw_writePending (sys_st s)" "sys_sw s \<noteq> SwReturned" "writer_up (sys_st s)" and env: "se_clock env" "se_sem env = SemOk"
  shows "\<exists>n s'. n \<le> Suc (sw_rank (window_size (sys_st s)) (sys_sw s)) \<and> sys_run rnd (replicate n (SwStep env)) s = Some s' \<and>
    stream_inv s' \<and> \<not> sw_writePending (sys_st s') \<and>
    sys_fg s' = sys_fg s \<and> sys_recorded s' = sys_recorded s \<and> cur_chunk (sys_st s') = cur_chunk (sys_st s) \<and>
    (stop_waits (sys_st s) \<and> \<not> sw_writerFailed (sys_st s') \<longrightarrow> sw_writing (sys_st s') = NOT_WRITING)"
  using assms(1-4)
proof (induction "sw_rank (window_size (sys_st s)) (sys_sw s)" arbitrary: s rule: less_induct)
  case (less s)
  obtain s1 where s1: "sw_next env s = Some s1" "stream_inv s1" using sw_next_inv [OF less.prems(1)] by blast
  note k = sw_next_keeps [OF s1(1)]
  note q = stop_step [OF less.prems(1,2) _ s1(1)]
  show ?case
  proof (cases "sw_writePending (sys_st s1)")
    case True
    then have p: "sys_sw s1 \<noteq> SwReturned"
      "sw_rank (window_size (sys_st s1)) (sys_sw s1) < sw_rank (window_size (sys_st s)) (sys_sw s)"
      using writer_progress [OF less.prems(1-3) env less.prems(4) s1(1)] k by simp_all
    obtain n s' where "n \<le> Suc (sw_rank (window_size (sys_st s1)) (sys_sw s1))" "sys_run rnd (replicate n (SwStep env)) s1 = Some s'"
      "stream_inv s'" "\<not> sw_writePending (sys_st s')" "sys_fg s' = sys_fg s1" "sys_recorded s' = sys_recorded s1"
      "cur_chunk (sys_st s') = cur_chunk (sys_st s1)"
      "stop_waits (sys_st s1) \<and> \<not> sw_writerFailed (sys_st s') \<longrightarrow> sw_writing (sys_st s') = NOT_WRITING"
      using less.hyps [OF p(2) s1(2) True p(1)] k less.prems(4) by blast
    then show ?thesis using p(2) s1(1) k q True by (intro exI [of _ "Suc n"] exI [of _ s']) simp
  next
    case False
    then show ?thesis using s1 k q by (intro exI [of _ 1] exI [of _ s1]) auto
  qed
qed

section \<open>Properties\<close>

text \<open>C4: For every image stream and every interleaving of the framegrabber, the writer, INDI requests, signals and
  the end of the application: no access leaves a circular buffer or goes through a null pointer, and
  the frames in the archive files, followed by those of the save window, are the first of the
  recorded frames, in order: none is overwritten before it is copied, torn, repeated or reordered.
\<close>

theorem stream_writer_safe:
  assumes "sys_init s" "double_ok rnd" "config_ok (sys_st s)" "list_all (act_ok (sw_maxCircBuffLength (sys_st s))) as"
  shows "\<exists>s'. sys_run rnd as s = Some s' \<and> prefix (archived (sys_st s') @ in_flight (sys_st s') (sys_sw s')) (sys_recorded s')"
  using sys_run_inv [OF sys_init_inv [OF assms(1)] assms(2-4)] by (auto simp: stream_inv_def winv_def)

text \<open>C18: As long as the writer has not failed and the framegrabber runs, no recorded frame is lost: the
  archives, the save window and the current chunk hold all of them. When the recording has stopped
  they are all in the archives.
\<close>

theorem stream_writer_complete:
  assumes "sys_init s" "double_ok rnd" "config_ok (sys_st s)" "list_all (act_ok (sw_maxCircBuffLength (sys_st s))) as"
    and "sys_run rnd as s = Some s'" "\<not> sw_writerFailed (sys_st s')" "sys_fg s' \<noteq> FgReturned"
  shows "archived (sys_st s') @ in_flight (sys_st s') (sys_sw s') @ cur_chunk (sys_st s') = sys_recorded s' \<and>
    (sw_writing (sys_st s') = NOT_WRITING \<longrightarrow> archived (sys_st s') = sys_recorded s')"
proof -
  have i: "winv (sys_st s') (sys_fg s') (sys_sw s') (sys_recorded s')"
    using sys_run_inv [OF sys_init_inv [OF assms(1)] assms(2-4)] assms(5) by (simp add: stream_inv_def)
  then have eq: "archived (sys_st s') @ in_flight (sys_st s') (sys_sw s') @ cur_chunk (sys_st s') = sys_recorded s'"
    using assms(6,7) by (simp add: winv_def)
  moreover have "in_flight (sys_st s') (sys_sw s') = [] \<and> cur_chunk (sys_st s') = []" if "sw_writing (sys_st s') = NOT_WRITING"
    using i that states_okD [OF i assms(6)] by (auto simp: winv_def window_ok_def in_flight_def cur_chunk_def states_ok_def)
  ultimately show ?thesis by fastforce
qed

text \<open>C19: The writer empties the save window: whatever happened before, when a window is pending and the
  writer runs, at most \<open>2 * m_writeChunkLength + 8\<close> of its steps release the window, and if it did not
  fail and the framegrabber runs, all of the window is then in the archives. A stop that waits for
  the window only is complete then.
\<close>

theorem writer_releases_window:
  assumes "sys_init s" "double_ok rnd" "config_ok (sys_st s)" "list_all (act_ok (sw_maxCircBuffLength (sys_st s))) as"
    and "sys_run rnd as s = Some s1" "sw_writePending (sys_st s1)" "sys_sw s1 \<noteq> SwReturned" "writer_up (sys_st s1)" "se_clock env" "se_sem env = SemOk"
  shows "\<exists>n s2. n \<le> 2 * sw_writeChunkLength (sys_st s1) + 8 \<and> sys_run rnd (replicate n (SwStep env)) s1 = Some s2 \<and>
    \<not> sw_writePending (sys_st s2) \<and>
    (\<not> sw_writerFailed (sys_st s2) \<and> sys_fg s1 \<noteq> FgReturned \<longrightarrow>
       archived (sys_st s2) = archived (sys_st s1) @ in_flight (sys_st s1) (sys_sw s1)) \<and>
    (\<not> sw_writerFailed (sys_st s2) \<and> stop_waits (sys_st s1) \<longrightarrow> sw_writing (sys_st s2) = NOT_WRITING)"
proof -
  have i: "stream_inv s1" using sys_run_inv [OF sys_init_inv [OF assms(1)] assms(2-4)] assms(5) by simp
  have nf: "\<not> sw_writerFailed (sys_st s1)" using i assms(7) by (auto simp: stream_inv_def winv_def)
  have "window_ok (sys_st s1)" using i assms(6) by (simp add: stream_inv_def winv_def)
  then have "window_size (sys_st s1) \<le> sw_writeChunkLength (sys_st s1)" by (simp add: window_size_def window_ok_def)
  then have r: "Suc (sw_rank (window_size (sys_st s1)) (sys_sw s1)) \<le> 2 * sw_writeChunkLength (sys_st s1) + 8"
    by (cases "sys_sw s1") simp_all
  obtain n s2 where n: "n \<le> Suc (sw_rank (window_size (sys_st s1)) (sys_sw s1))" "sys_run rnd (replicate n (SwStep env)) s1 = Some s2"
    and s2: "stream_inv s2" "\<not> sw_writePending (sys_st s2)" "sys_fg s2 = sys_fg s1" "sys_recorded s2 = sys_recorded s1"
      "cur_chunk (sys_st s2) = cur_chunk (sys_st s1)"
      "stop_waits (sys_st s1) \<and> \<not> sw_writerFailed (sys_st s2) \<longrightarrow> sw_writing (sys_st s2) = NOT_WRITING"
    using writer_empties [OF i assms(6-10), of rnd] by blast
  have "archived (sys_st s2) = archived (sys_st s1) @ in_flight (sys_st s1) (sys_sw s1)"
    if "\<not> sw_writerFailed (sys_st s2)" "sys_fg s1 \<noteq> FgReturned"
  proof -
    have "archived (sys_st s2) @ cur_chunk (sys_st s2) = sys_recorded s2" using s2(1-3) that by (simp add: stream_inv_def winv_def in_flight_def)
    moreover have "archived (sys_st s1) @ in_flight (sys_st s1) (sys_sw s1) @ cur_chunk (sys_st s1) = sys_recorded s1"
      using i nf that by (simp add: stream_inv_def winv_def)
    ultimately show ?thesis using s2 by (metis append_assoc append_same_eq)
  qed
  then show ?thesis using n r s2(2,6) order_trans by blast
qed


text \<open>C40: The sizes that \<open>allocate_circbufs\<close> accepts: at least two frames, chunks of at least one frame
  that are smaller than the buffer and divide it, and storage for every frame and its timing.
\<close>

theorem allocate_bounds:
  assumes "double_ok rnd" "config_ok st" "allocate_circbufs rnd m1 m2 st = (0, st')"
    and "unat (sw_width st) * unat (sw_height st) < 2 ^ 32" "0 \<le> sw_typeSize st" "sw_typeSize st \<le> 16"
    and "unat (sw_width st) * unat (sw_height st) * nat (sw_typeSize st) * unat (sw_maxCircBuffLength st) \<le> 2 ^ 53"
    and "unat (sw_maxCircBuffLength st) \<le> 2 ^ 53"
  shows "2 \<le> sw_circBuffLength st' \<and> 0 < sw_writeChunkLength st' \<and> sw_writeChunkLength st' < sw_circBuffLength st' \<and>
    sw_writeChunkLength st' dvd sw_circBuffLength st' \<and>
    (\<exists>r t. sw_rawImageCircBuff st' = Some r \<and> sw_timingCircBuff st' = Some t \<and>
       sw_circBuffLength st' \<le> length r \<and> sw_circBuffLength st' \<le> length t)"
proof -
  have "bufs_ok st'" using allocate_ok [OF assms(1,3-7)] assms(2,8) by (simp add: config_ok_def)
  moreover have "2 \<le> sw_circBuffLength st'" "sw_writeChunkLength st' < sw_circBuffLength st'"
    using assms(3) by (auto simp: allocate_circbufs_def Let_def word_less_nat_alt word_le_nat_alt split: prod.splits if_splits)
  ultimately show ?thesis by (auto simp: bufs_ok_def)
qed

section \<open>An example\<close>

text \<open>A stream of images of one pixel of two bytes, a buffer of four frames and chunks of two.\<close>

definition sample_writer :: streamWriter where
  "sample_writer =
     \<lparr>app_configName = ''writer'', app_useINDI = True, app_driver = True, app_outGoing = True, app_newCallBacks = [],
      app_setCallBacks = [], app_allDefsReceived = True, app_events = [],
      ma_state = READY, ma_stateAlert = False, ma_stateLogged = 0,
      ma_indiP_state = (IndiProperty_new Text ''writer'' ''fsm'')\<lparr>ip_elements := [(''state'', IndiElement_new ''state'' [])]\<rparr>,
      ma_indiP_clearFSMAlert = IndiProperty_new Switch ''writer'' ''fsm_clear_alert'', ma_powerMgtEnabled = False,
      ma_powerElement = ''state'', ma_powerTargetElement = ''target'', ma_powerOnWait = 55, ma_powerOnCounter = - 1,
      ma_powerState = - 1, ma_powerTargetState = - 1, ma_loopPause = 1000000000, ma_shutdown = 0, ma_actions = [],
      sw_rawimageDir = ''/data'', sw_maxCircBuffLength = 4, sw_maxCircBuffSize = 1, sw_maxWriteChunkLength = 2, sw_maxChunkTime = 10,
      sw_writeStopTimeout = 1, sw_outName = ''cam'', sw_circBuffLength = 1024, sw_writeChunkLength = 512, sw_width = 0, sw_height = 0,
      sw_dataType = 0, sw_typeSize = 0, sw_rawImageCircBuff = None, sw_timingCircBuff = None, sw_currImage = 0, sw_currImageTime = 0,
      sw_currChunkStartTime = 0, sw_skippedFrameCount = 0, sw_repeatSemaphoreCount = 0, sw_warnMissedData = True,
      sw_skipSummaryIntervalSec = 10, sw_nextSkipSummaryTime = 0, sw_writing = NOT_WRITING, sw_chunkFrames = 0, sw_stopQueued = False,
      sw_fgReady = False, sw_fgStopped = False, sw_writerFailed = False, sw_writePending = False, sw_stopWriteDeadline = 0,
      sw_resumeAfterReconnect = False, sw_currChunkStart = 0, sw_nextChunkStart = 0, sw_currSaveStart = 0, sw_currSaveStop = 0,
      sw_currSaveStopFrameNo = 0, sw_lastSavingState = - 1, sw_lastSavingFrame = 0, sw_restart = False, sw_semaphore = 0,
      sw_indiP_writing = (IndiProperty_new Switch ''writer'' ''writing'')\<lparr>ip_elements := [(''toggle'', IndiElement_new ''toggle'' [])]\<rparr>,
      sw_archives = [], sw_events = []\<rparr>"

definition sample_sys :: sw_sys where
  "sample_sys = \<lparr>sys_st = sample_writer, sys_fg = FgConnect, fv_length = 0, fv_last_cnt0 = 0, fv_cnt0flag = 0, fv_restartWriting = False,
     sys_sw = SwLoop, sys_recorded = []\<rparr>"

text \<open>Frame \<open>n\<close> of the stream.\<close>

definition sample_fg :: "u64 \<Rightarrow> fg_env" where
  "sample_fg n =
     \<lparr>fe_conn = ConnOk, fe_typeSize = 2, fe_malloc1 = True, fe_malloc2 = True, fe_xrif = True, fe_clock = True, fe_sem = SemOk,
      fe_drained = True, fe_md = \<lparr>md_dataType = 3, md_width = 1, md_height = 1, md_length = 1\<rparr>, fe_cnt0 = n, fe_image = [ucast n, 7],
      fe_timing = [n, 1700000000, n, 1700000000, n], fe_missing = None, fe_signal = False, fe_now = 0, fe_timedOut = False, fe_post = True,
      fe_serverGone = False, fe_replaced = False\<rparr>"

definition sample_sw :: sw_env where
  "sample_sw = \<lparr>se_sem = SemOk, se_clock = True, se_xrif = True, se_mkdir = True, se_fopen = True\<rparr>"

definition sample_toggle :: "SwitchStateType \<Rightarrow> IndiProperty" where
  "sample_toggle v = (IndiProperty_new Switch ''writer'' ''writing'')\<lparr>ip_elements := [(''toggle'', (IndiElement_new ''toggle'' [])\<lparr>ie_switch := v\<rparr>)]\<rparr>"

text \<open>Recording of two frames, which fill a chunk, and the stop.\<close>

definition sample_recording :: "sw_act list" where
  "sample_recording = [FgStep (sample_fg 0), Request 0 (sample_toggle On), FgStep (sample_fg 1), FgStep (sample_fg 1),
     FgStep (sample_fg 2), FgStep (sample_fg 2), Request 1 (sample_toggle Off)]"

definition sample_stream_run :: "sw_act list" where
  "sample_stream_run = sample_recording @ replicate 13 (SwStep sample_sw)"

lemma double_ok_id: "double_ok id"
  by (simp add: double_ok_def mono_def)

lemma sample_ok:
  "sys_init sample_sys" "config_ok (sys_st sample_sys)" "list_all (act_ok (sw_maxCircBuffLength (sys_st sample_sys))) sample_recording"
  "list_all (act_ok (sw_maxCircBuffLength (sys_st sample_sys))) sample_stream_run"
  by (simp_all add: sys_init_def config_ok_def act_ok_def source_ok_def sample_sys_def sample_writer_def sample_recording_def sample_stream_run_def
      sample_fg_def list_all_iff)

lemma sample_recorded:
  "case sys_run id sample_recording sample_sys of None \<Rightarrow> False
   | Some s \<Rightarrow> sw_writePending (sys_st s) \<and> sys_sw s \<noteq> SwReturned \<and> writer_up (sys_st s) \<and> stop_waits (sys_st s) \<and>
       length (in_flight (sys_st s) (sys_sw s)) = 2 \<and> sys_fg s = FgLoop"
  by code_simp

lemma sample_stopped:
  "case sys_run id sample_stream_run sample_sys of None \<Rightarrow> False
   | Some s \<Rightarrow> \<not> sw_writerFailed (sys_st s) \<and> sys_fg s \<noteq> FgReturned \<and> sw_writing (sys_st s) = NOT_WRITING \<and> length (sys_recorded s) = 2"
  by code_simp

theorem stream_writer_safe_witness:
  "\<exists>s'. sys_run id sample_stream_run sample_sys = Some s' \<and> prefix (archived (sys_st s') @ in_flight (sys_st s') (sys_sw s')) (sys_recorded s')"
  by (rule stream_writer_safe [OF sample_ok(1) double_ok_id sample_ok(2,4)])

theorem stream_writer_complete_witness:
  "\<exists>s'. sys_run id sample_stream_run sample_sys = Some s' \<and> sw_writing (sys_st s') = NOT_WRITING \<and> archived (sys_st s') = sys_recorded s' \<and>
     length (archived (sys_st s')) = 2"
proof -
  obtain s where s: "sys_run id sample_stream_run sample_sys = Some s" "\<not> sw_writerFailed (sys_st s)" "sys_fg s \<noteq> FgReturned"
    "sw_writing (sys_st s) = NOT_WRITING" "length (sys_recorded s) = 2"
    using sample_stopped by (auto split: option.splits)
  then show ?thesis using stream_writer_complete [OF sample_ok(1) double_ok_id sample_ok(2,4) s(1-3)] by auto
qed

theorem writer_releases_window_witness:
  "\<exists>s1 n s2. sys_run id sample_recording sample_sys = Some s1 \<and> length (in_flight (sys_st s1) (sys_sw s1)) = 2 \<and>
     sys_run id (replicate n (SwStep sample_sw)) s1 = Some s2 \<and> \<not> sw_writePending (sys_st s2)"
proof -
  obtain s1 where s: "sys_run id sample_recording sample_sys = Some s1" "sw_writePending (sys_st s1)" "sys_sw s1 \<noteq> SwReturned"
    "writer_up (sys_st s1)" "length (in_flight (sys_st s1) (sys_sw s1)) = 2"
    using sample_recorded by (auto split: option.splits)
  have "se_clock sample_sw" "se_sem sample_sw = SemOk" by (simp_all add: sample_sw_def)
  from writer_releases_window [OF sample_ok(1) double_ok_id sample_ok(2,3) s(1-4) this] show ?thesis using s(1,5) by blast
qed

definition sample_source :: streamWriter where
  "sample_source = sample_writer\<lparr>sw_width := 1, sw_height := 1, sw_typeSize := 2\<rparr>"

theorem allocate_bounds_witness:
  "\<exists>st'. allocate_circbufs id True True sample_source = (0, st') \<and>
     2 \<le> sw_circBuffLength st' \<and> sw_writeChunkLength st' dvd sw_circBuffLength st'"
proof -
  have "fst (allocate_circbufs id True True sample_source) = 0" by code_simp
  then obtain st' where a: "allocate_circbufs id True True sample_source = (0, st')" by (metis prod.collapse)
  have "config_ok sample_source" "unat (sw_width sample_source) * unat (sw_height sample_source) < 2 ^ 32"
    "0 \<le> sw_typeSize sample_source" "sw_typeSize sample_source \<le> 16"
    "unat (sw_width sample_source) * unat (sw_height sample_source) * nat (sw_typeSize sample_source) *
       unat (sw_maxCircBuffLength sample_source) \<le> 2 ^ 53"
    "unat (sw_maxCircBuffLength sample_source) \<le> 2 ^ 53"
    by (simp_all add: sample_source_def sample_writer_def config_ok_def)
  then show ?thesis using allocate_bounds [OF double_ok_id _ a] a by blast
qed

end
