(* ===== verification/Spec2Isabelle.thy ===== *)
theory Spec2Isabelle
  imports LogManager LogMap PduTrace EngineApp StreamRun
begin

text \<open>
  MagAO-X: a verification library for the log system, the application framework, the power-control core,
  the rule engine and the stream writer.

  \<^bold>\<open>The program.\<close> MagAO-X is the control software of an adaptive optics instrument: a set of
  processes, each an application built on \<open>libMagAOX\<close>. Every process logs events and telemetry
  in a binary format (flatlogs), writes them to rotating files named by device and time, and
  other programs load these files again to search them. Processes talk to each other through
  INDI properties. A family of them controls power distribution units through a common outlet
  controller; another one, the rule engine, watches the properties of all others and publishes and
  announces the conditions an operator has to know about. Camera images and other data flow through
  shared-memory streams, and one stream writer for each of them records its frames to disk.

  \<^bold>\<open>The theories.\<close>
  \<^item> \<open>Prelude\<close>: machine words, bytes in memory, strings, decimal text; the interface
    \<open>field_codec\<close> of fixed-width fields, interpreted for 8, 16, 32 and 64 bits.
  \<^item> \<open>Calendar\<close>: the civil calendar behind \<open>gmtime\<close>, \<open>timegm\<close> and \<open>std::chrono\<close>.
  \<^item> \<open>Flatlogs\<close> (\<open>flatlogs/include/flatlogs\<close>): priorities, time stamps, the entry header and
    its getters and setters over a byte buffer, \<open>createLog\<close>.
  \<^item> \<open>FileNames\<close> (\<open>libMagAOX/file\<close>): time stamps in file names, date directories, file names.
  \<^item> \<open>LogFile\<close> (\<open>libMagAOX/logger/logFileRaw.hpp\<close>): writing and rotating the log file over an
    explicit file system.
  \<^item> \<open>LogManager\<close> (\<open>libMagAOX/logger/logManager.hpp\<close>): the queue, its producers and the log
    thread as a step relation; the interface \<open>log_sink\<close> of a log file, interpreted on
    \<open>LogFile\<close>.
  \<^item> \<open>LogMap\<close> (\<open>libMagAOX/logger/logMap.hpp\<close>, \<open>logMap.cpp\<close>): loading log files, recovery from
    corruption, searching, provenance.
  \<^item> \<open>StdMap\<close>: \<open>std::map\<close> with the interface \<open>ordered_map\<close>.
  \<^item> \<open>Indi\<close> (\<open>INDI/libcommon\<close>, \<open>libMagAOX/app/indiUtils.hpp\<close>): properties, elements, and
    the helpers that publish them when they change.
  \<^item> \<open>Outlets\<close> (\<open>libMagAOX/app/dev/outletController.hpp\<close>): channels of outlets, their
    configuration, sequencing and publication; the interface \<open>outlet_driver\<close> of a device.
  \<^item> \<open>VirtualPDU\<close> (\<open>apps/virtualPDU/virtualPDU.hpp\<close>): a device whose outlets are channels of
    other devices; both directions of \<open>outlet_driver\<close> are interpreted on its commands. \<open>PduTrace\<close>
    relates what it shows to the messages of a run.
  \<^item> \<open>Rules\<close> (\<open>apps/stateRuleEngine/indiCompRules.hpp\<close>): the nine kinds of rule, with their
    comparisons, priorities, message timing, checks, values and diagnostics. \<open>RuleEval\<close> gives the
    rules an abstract meaning (a Boolean expression, \<open>rule_denotes\<close>) and shows that \<open>value()\<close> has it.
  \<^item> \<open>RuleConfig\<close> (\<open>apps/stateRuleEngine/indiCompRuleConfig.hpp\<close>): rules from configuration files.
  \<^item> \<open>AppIndi\<close> (\<open>libMagAOX/app/MagAOXApp.hpp\<close>, \<open>indiDriver.hpp\<close>): the INDI side of every application:
    standard properties, registration, dispatch of received messages, requests for the
    properties of others with their retry schedule, sending.
  \<^item> \<open>App\<close> (\<open>libMagAOX/app/MagAOXApp.hpp\<close>, \<open>stateCodes.cpp\<close>): the state of an application and its
    alert, power management, the PID lock and \<open>execute\<close>. The locale \<open>hosted_app\<close> is the interface
    between the framework and a derived class: what \<open>execute\<close> relies on, and what it guarantees.
  \<^item> \<open>RuleEngine\<close> (\<open>apps/stateRuleEngine/stateRuleEngine.hpp\<close>): configuration, startup, periodic
    evaluation, publication and notifications, received properties; the reachable states of the
    engine. \<open>EngineApp\<close> interprets \<open>hosted_app\<close> on the engine, which makes the guarantees of the
    framework theorems about the whole process; within a pass of \<open>appLogic\<close> the other threads run
    between the rules.
  \<^item> \<open>StreamWriter\<close> (\<open>apps/streamWriter/streamWriter.hpp\<close>): the circular buffers, the save window that the
    framegrabber and the writer share, both threads as machines with program counters, requests
    and the main loop. \<open>StreamInv\<close> holds the invariant of the threads and shows that the framegrabber
    keeps it; \<open>StreamRun\<close> shows the same of the writer and the requests, and what holds of every
    schedule.

  \<^bold>\<open>How code becomes definitions.\<close> A class is a record, with \<open>m_name\<close> as a prefixed field; a
  method is a function from the old to the new record. A derived class extends the record of
  its base. Undefined behaviour (a read outside a buffer or vector) is \<^const>\<open>None\<close>, so a
  theorem that a function returns \<^const>\<open>Some\<close> says that it stays in bounds. Error codes and
  exceptions are values. Clock readings, results of system calls, results of mxlib
  are arguments or an environment record, and theorems hold for every
  value of them unless a hypothesis says otherwise. Sizes and lengths are words where the code
  can wrap.

  \<^bold>\<open>What is shown.\<close> Log entries round trip through their binary form at any position of a
  buffer; file names round trip and sort by time; writing appends exactly the entry, never
  destroys data, keeps files within the size limit, and puts entries into the file of their interval
  unless they are late or in the future; the log thread writes the queued entries in
  order, once each, under every interleaving, and the destructor drains the queue unless a write
  fails; loading any bytes stays in bounds and keeps the buffer well formed, loses nothing of an
  intact file that does not overlap what is loaded, and recovers after corruption;
  searches find the right entry; provenance names the right file and offset. INDI comparisons
  decide what they say and publications happen exactly on change. A channel request issues the
  configured sequence of commands or a prefix of it; the virtual PDU shows a power state
  only if the last report of the remote channel was this state and its device is ready. An accepted rule configuration
  is well typed; a rule has the value of its expression whatever the order of evaluation; a pass
  of the engine publishes these values, changes nothing else of what is shown and sends exactly the
  changes, and its notifications are those of an alarm that is
  raised, repeated and cleared; the invariant holds in every reachable state. A received message
  runs the call-back that was registered first under its key; requests for properties of others
  back off exponentially up to a bound; the state of an application is published as it is set.
  Under every interleaving of \<open>execute\<close> with received messages, log entries and signals the engine,
  if its rules are acyclic and received numbers are numbers, follows the life cycle of an application
  (lock, log, start, talk, work, stop, release), is never stuck, and ends after a request for
  shutdown. The evaluation of one rule is a step of these interleavings: the code reads the
  properties there without a lock that the call-back takes too, and a replacement of a property
  in the middle of it, a data race, is not modelled. Under every schedule of its threads the stream
  writer stays within its buffers and the archives hold the recorded frames in order, none torn,
  repeated or lost while the writer works; a save window is released in a bounded number of steps;
  accepted buffer sizes fit the frames and the chunks.

  \<^bold>\<open>Fuel and termination.\<close> The loops of \<open>LogMap\<close> are functions with a termination proof on the
  bytes that remain. The log thread may run forever; \<open>thread_run\<close> takes a number of steps, and
  the theorem about the destructor shows that a number of steps computed from the queue is
  enough. The rules of the engine call each other through pointers, so their evaluation takes the
  depth of the call stack: the number of rules is enough when they do not call each other in a
  cycle, no depth is enough for a cycle through first operands, and the loop over pending diagnostics ends after at
  most their number of rounds. \<open>execute\<close> runs until it is asked to stop; it is a machine that a
  schedule drives step by step, and 40 of its steps after the request are enough, which is the
  length of the longest way from its start to its end. The threads of the stream writer are driven by
  a schedule too; \<open>2 * m_writeChunkLength + 8\<close> steps of the writer release a window, one for each
  image and each timing record of a chunk and eight around them. All other recursion is structural.

  \<^bold>\<open>Not modelled.\<close> The control of cameras, deformable mirrors, stages and other hardware, the
  numerical code of the gain optimiser, the graphical interfaces, the Python package, the set-up
  scripts, generated log types, and third-party libraries: they are device protocols, floating
  point numerics or glue around systems that are not part of the repository. Of the stream writer: the
  encoder (xrif, a library), its statistics, the start-up; an archive counts as written when its file
  was opened, and two chunks whose first frames have the same acquisition time go to the same file. Of
  the modelled files: registration of options, thread creation, memory allocation failure, mutexes other than
  through the granularity of the step relations, and formatting of display strings.
\<close>

end
